(* ===== verification/Prelude.thy ===== *)
theory Prelude
  imports
    Main
    "HOL-Library.Sublist"
    "HOL-Library.List_Lexorder"
    "HOL-Library.Char_ord"
    "HOL-Library.AList"
    "HOL-Library.Word"
begin

section \<open>Shared vocabulary of the development\<close>

text \<open>
  What every component uses: the machine integers of Rust, the operations of its
  \<open>str\<close> type on UTF-8 bytes, decimal rendering, results, and the generic argument
  \<open>a run of steps keeps an invariant\<close> as a locale.

  \<^item> Integers: \<open>i32\<close>, \<open>i64\<close> are \<open>int\<close> with saturation written out
    (\<open>sat_i32\<close>, \<open>sat_i64\<close>), unsigned counters are \<open>nat\<close> saturating at
    \<open>u32_max\<close> / \<open>u64_max\<close>. Where the width wraps or is converted the component
    uses \<open>w word\<close> instead.
  \<^item> Text: a Rust \<open>String\<close> is its UTF-8 byte sequence, a HOL \<open>string\<close>
    (a HOL \<open>char\<close> is one byte). Comparison, search and ASCII case mapping work bytewise
    in Rust too; trimming knows the multi-byte White\_Space code points.
  \<^item> Results: \<open>Inl\<close> is \<open>Err\<close>, \<open>Inr\<close> is \<open>Ok\<close>.
\<close>

subsection \<open>Lemma collections\<close>

named_theorems sat_simps "saturating arithmetic"
named_theorems text_simps "bytewise text operations"

subsection \<open>Integers\<close>

abbreviation i32_min :: int where "i32_min \<equiv> - 2147483648"
abbreviation i32_max :: int where "i32_max \<equiv> 2147483647"
abbreviation i64_min :: int where "i64_min \<equiv> - 9223372036854775808"
abbreviation i64_max :: int where "i64_max \<equiv> 9223372036854775807"
abbreviation u32_max :: nat where "u32_max \<equiv> 4294967295"
abbreviation u64_max :: nat where "u64_max \<equiv> 18446744073709551615"

definition in_i32 :: "int \<Rightarrow> bool" where
  "in_i32 x \<longleftrightarrow> i32_min \<le> x \<and> x \<le> i32_max"

definition in_i64 :: "int \<Rightarrow> bool" where
  "in_i64 x \<longleftrightarrow> i64_min \<le> x \<and> x \<le> i64_max"

definition sat_i32 :: "int \<Rightarrow> int" where
  "sat_i32 x = max i32_min (min i32_max x)"

definition sat_i64 :: "int \<Rightarrow> int" where
  "sat_i64 x = max i64_min (min i64_max x)"

definition sat_u32 :: "nat \<Rightarrow> nat" where
  "sat_u32 n = min u32_max n"

definition sat_u64 :: "nat \<Rightarrow> nat" where
  "sat_u64 n = min u64_max n"

text \<open>Rust's \<open>Ord::clamp\<close> asserts \<open>lo \<le> hi\<close>; \<open>None\<close> is that panic.\<close>

definition clamp_checked :: "int \<Rightarrow> int \<Rightarrow> int \<Rightarrow> int option" where
  "clamp_checked lo hi x = (if lo \<le> hi then Some (max lo (min hi x)) else None)"

text \<open>Rust's integer division truncates towards zero.\<close>

definition trunc_div :: "int \<Rightarrow> int \<Rightarrow> int" where
  "trunc_div a b = sgn a * sgn b * (\<bar>a\<bar> div \<bar>b\<bar>)"

definition trunc_mod :: "int \<Rightarrow> int \<Rightarrow> int" where
  "trunc_mod a b = a - b * trunc_div a b"

lemma sat_i32_range [simp]: "in_i32 (sat_i32 x)"
  by (simp add: in_i32_def sat_i32_def)

lemma sat_i32_id [sat_simps]: "in_i32 x \<Longrightarrow> sat_i32 x = x"
  by (simp add: in_i32_def sat_i32_def)

lemma sat_i32_mono: "x \<le> y \<Longrightarrow> sat_i32 x \<le> sat_i32 y"
  by (simp add: sat_i32_def)

lemma sat_i64_range [simp]: "in_i64 (sat_i64 x)"
  by (simp add: in_i64_def sat_i64_def)

lemma sat_i64_id [sat_simps]: "in_i64 x \<Longrightarrow> sat_i64 x = x"
  by (simp add: in_i64_def sat_i64_def)

lemma sat_u32_le [simp]: "sat_u32 n \<le> u32_max"
  by (simp add: sat_u32_def)

lemma sat_u64_le [simp]: "sat_u64 n \<le> u64_max"
  by (simp add: sat_u64_def)

lemma sat_u64_Suc [sat_simps]: "sat_u64 (Suc (sat_u64 n)) = sat_u64 (Suc n)"
  by (simp add: sat_u64_def min_def)

lemma sat_u64_add [sat_simps]: "sat_u64 (sat_u64 m + n) = sat_u64 (m + n)"
  by (simp add: sat_u64_def min_def)

lemma sat_u64_add_right [sat_simps]: "sat_u64 (m + sat_u64 n) = sat_u64 (m + n)"
  by (simp add: sat_u64_def min_def)

lemma clamp_checked_Some:
  "clamp_checked lo hi x = Some y \<Longrightarrow> lo \<le> y \<and> y \<le> hi"
  by (auto simp: clamp_checked_def split: if_splits)

lemma clamp_checked_None_iff: "clamp_checked lo hi x = None \<longleftrightarrow> hi < lo"
  by (auto simp: clamp_checked_def)

lemma trunc_div_nonneg: "0 \<le> a \<Longrightarrow> 0 < b \<Longrightarrow> trunc_div a b = a div b"
  by (cases "a = 0") (simp_all add: trunc_div_def)

lemma trunc_mod_nonneg: "0 \<le> a \<Longrightarrow> 0 < b \<Longrightarrow> trunc_mod a b = a mod b"
  by (simp add: trunc_mod_def trunc_div_nonneg minus_mult_div_eq_mod)

subsection \<open>The last entries of a list\<close>

definition last_n :: "nat \<Rightarrow> 'a list \<Rightarrow> 'a list" where
  "last_n k xs = drop (length xs - k) xs"

lemma last_n_rev: "last_n k xs = rev (take k (rev xs))"
  by (simp add: last_n_def rev_take)

lemma last_n_append: "last_n k (last_n k xs @ ys) = last_n k (xs @ ys)"
  by (simp add: last_n_rev min_def)

lemma length_last_n [simp]: "length (last_n k xs) = min k (length xs)"
  by (simp add: last_n_def)

lemma last_n_Nil [simp]: "last_n k [] = []"
  by (simp add: last_n_def)

lemma in_set_last_n: "x \<in> set (last_n k xs) \<Longrightarrow> x \<in> set xs"
  by (auto simp: last_n_def dest: in_set_dropD)

subsection \<open>Text as UTF-8 bytes\<close>

text \<open>\<open>str::to_ascii_lowercase\<close> maps the bytes 65 to 90 and keeps every other byte.\<close>

definition lower_byte :: "char \<Rightarrow> char" where
  "lower_byte c =
     (let n = (of_char c :: nat) in if 65 \<le> n \<and> n \<le> 90 then char_of (n + 32) else c)"

definition to_ascii_lowercase :: "string \<Rightarrow> string" where
  "to_ascii_lowercase s = map lower_byte s"

text \<open>\<open>str::contains\<close> and \<open>str::find\<close> with a text pattern: byte offsets.\<close>

fun str_find :: "string \<Rightarrow> string \<Rightarrow> nat option" where
  "str_find pat [] = (if pat = [] then Some 0 else None)"
| "str_find pat (c # s) =
     (if prefix pat (c # s) then Some 0 else map_option Suc (str_find pat s))"

definition str_contains :: "string \<Rightarrow> string \<Rightarrow> bool" where
  "str_contains s pat = (str_find pat s \<noteq> None)"

fun str_join :: "string \<Rightarrow> string list \<Rightarrow> string" where
  "str_join sep [] = []"
| "str_join sep [x] = x"
| "str_join sep (x # y # zs) = x @ sep @ str_join sep (y # zs)"

lemma str_join_snoc: "xs \<noteq> [] \<Longrightarrow> str_join sep (xs @ [y]) = str_join sep xs @ sep @ y"
  by (induction sep xs rule: str_join.induct) auto

lemma str_join_Cons_snoc: "str_join sep (x # xs @ [y]) = str_join sep (x # xs) @ sep @ y"
  using str_join_snoc [of "x # xs"] by simp

text \<open>
  The number of bytes of the White\_Space code point at the front of a text, 0 when the text does not
  start with white space: the ASCII ones and the UTF-8 encodings of U+0085, U+00A0, U+1680,
  U+2000 to U+200A, U+2028, U+2029, U+202F, U+205F and U+3000.
\<close>

fun ws_bytes :: "nat list \<Rightarrow> nat" where
  "ws_bytes [] = 0"
| "ws_bytes (a # s) =
     (if a = 32 \<or> (9 \<le> a \<and> a \<le> 13) then 1
      else (case s of
              [] \<Rightarrow> 0
            | b # s' \<Rightarrow>
                if a = 194 \<and> (b = 133 \<or> b = 160) then 2
                else (case s' of
                        [] \<Rightarrow> 0
                      | c # _ \<Rightarrow>
                          if (a, b, c) = (225, 154, 128)
                             \<or> (a = 226 \<and> b = 128 \<and>
                                 ((128 \<le> c \<and> c \<le> 138) \<or> c = 168 \<or> c = 169 \<or> c = 175))
                             \<or> (a, b, c) = (226, 129, 159) \<or> (a, b, c) = (227, 128, 128)
                          then 3 else 0)))"

definition ws_len :: "string \<Rightarrow> nat" where
  "ws_len s = ws_bytes (map of_char (take 3 s))"

text \<open>The number of trailing bytes of the white-space code point that ends a text.\<close>

definition ws_tail_len :: "string \<Rightarrow> nat" where
  "ws_tail_len s =
     (if s \<noteq> [] \<and> ws_len (drop (length s - 1) s) = 1 then 1
      else if 2 \<le> length s \<and> ws_len (drop (length s - 2) s) = 2 then 2
      else if 3 \<le> length s \<and> ws_len (drop (length s - 3) s) = 3 then 3
      else 0)"

function str_trim_start :: "string \<Rightarrow> string" where
  "str_trim_start s =
     (if s \<noteq> [] \<and> 0 < ws_len s then str_trim_start (drop (ws_len s) s) else s)"
  by pat_completeness auto
termination
  by (relation "measure length") auto

function str_trim_end :: "string \<Rightarrow> string" where
  "str_trim_end s =
     (if s \<noteq> [] \<and> 0 < ws_tail_len s
      then str_trim_end (take (length s - ws_tail_len s) s) else s)"
  by pat_completeness auto
termination
  by (relation "measure length") auto

declare str_trim_start.simps [simp del] str_trim_end.simps [simp del]

definition str_trim :: "string \<Rightarrow> string" where
  "str_trim s = str_trim_end (str_trim_start s)"

text \<open>\<open>str::split_whitespace\<close>: the maximal runs of non-white-space.\<close>

function split_ws :: "string \<Rightarrow> string \<Rightarrow> string list" where
  "split_ws acc s =
     (case s of
        [] \<Rightarrow> (if acc = [] then [] else [rev acc])
      | c # s' \<Rightarrow>
          (if 0 < ws_len s
           then (if acc = [] then [] else [rev acc]) @ split_ws [] (drop (ws_len s) s)
           else split_ws (c # acc) s'))"
  by pat_completeness auto
termination
  by (relation "measure (length \<circ> snd)") auto

declare split_ws.simps [simp del]

definition str_split_whitespace :: "string \<Rightarrow> string list" where
  "str_split_whitespace s = split_ws [] s"

subsection \<open>Splitting into words and joining them back\<close>

lemma ws_len_simps:
  "ws_len [] = 0"
  "ws_len [a] = ws_bytes [of_char a]"
  "ws_len [a, b] = ws_bytes [of_char a, of_char b]"
  "ws_len (a # b # c # s) = ws_bytes [of_char a, of_char b, of_char c]"
  by (simp_all add: ws_len_def)

lemma list3_cases [case_names 0 1 2 3]:
  obtains "s = []" | a where "s = [a]" | a b where "s = [a, b]" | a b c t where "s = a # b # c # t"
  by (metis list.exhaust)

lemma ws_len_append: "u \<noteq> [] \<Longrightarrow> ws_len (u @ v) = 0 \<Longrightarrow> ws_len u = 0"
  by (cases u rule: list3_cases; cases v rule: list3_cases)
    (auto simp: ws_len_simps split: if_splits)

lemma ws_len_space: "u \<noteq> [] \<Longrightarrow> ws_len u = 0 \<Longrightarrow> ws_len (u @ CHR '' '' # v) = 0"
  by (cases u rule: list3_cases; cases v rule: list3_cases)
    (auto simp: ws_len_simps split: if_splits)

definition word_ok :: "string \<Rightarrow> bool" where
  "word_ok w \<longleftrightarrow> (\<forall>u. u \<noteq> [] \<longrightarrow> suffix u w \<longrightarrow> ws_len u = 0)"

lemma word_ok_Cons: "word_ok (c # w) \<longleftrightarrow> ws_len (c # w) = 0 \<and> word_ok w"
  by (auto simp: word_ok_def suffix_Cons)

lemma word_ok_Nil [simp]: "word_ok []"
  by (simp add: word_ok_def)

lemma split_ws_word: "word_ok w \<Longrightarrow> split_ws acc w = (if rev acc @ w = [] then [] else [rev acc @ w])"
  by (induction w arbitrary: acc) (simp_all add: split_ws.simps word_ok_Cons)

lemma split_ws_space:
  "word_ok w \<Longrightarrow> split_ws acc (w @ CHR '' '' # s) =
     (if rev acc @ w = [] then [] else [rev acc @ w]) @ split_ws [] s"
proof (induction w arbitrary: acc)
  case Nil
  have "ws_len (CHR '' '' # s) = 1"
    by (cases s rule: list3_cases) (simp_all add: ws_len_simps ws_len_def)
  then show ?case by (simp add: split_ws.simps [of acc "CHR '' '' # s"])
next
  case (Cons c w)
  then have "ws_len (c # w @ CHR '' '' # s) = 0"
    using ws_len_space [of "c # w" s] by (simp add: word_ok_Cons)
  then show ?case
    using Cons by (simp add: split_ws.simps [of acc "c # w @ CHR '' '' # s"] word_ok_Cons)
qed

text \<open>Bytes already consumed into the accumulator do not start white space in any context.\<close>

definition acc_ok :: "string \<Rightarrow> string \<Rightarrow> bool" where
  "acc_ok acc s \<longleftrightarrow> (\<forall>u v. rev acc = u @ v \<longrightarrow> v \<noteq> [] \<longrightarrow> ws_len (v @ s) = 0)"

lemma acc_ok_word: "acc_ok acc s \<Longrightarrow> word_ok (rev acc)"
  unfolding acc_ok_def word_ok_def suffix_def by (metis ws_len_append)

lemma split_ws_words:
  "acc_ok acc s \<Longrightarrow> w \<in> set (split_ws acc s) \<Longrightarrow> w \<noteq> [] \<and> word_ok w \<and> set w \<subseteq> set acc \<union> set s"
proof (induction acc s rule: split_ws.induct)
  case (1 acc s)
  show ?case
  proof (cases s)
    case Nil
    with 1(3,4) show ?thesis
      by (auto simp: split_ws.simps [of acc "[]"] dest: acc_ok_word split: if_splits)
  next
    case (Cons c s')
    show ?thesis
    proof (cases "0 < ws_len s")
      case True
      then have "w = rev acc \<and> acc \<noteq> [] \<or> w \<in> set (split_ws [] (drop (ws_len s) s))"
        using 1(4) Cons by (subst (asm) split_ws.simps) (auto split: if_splits)
      moreover have "acc_ok [] (drop (ws_len s) s)" by (simp add: acc_ok_def)
      ultimately show ?thesis
        using 1(1) [OF Cons True] 1(3) acc_ok_word [of acc s] by (auto dest: in_set_dropD)
    next
      case False
      have "acc_ok (c # acc) s'"
        unfolding acc_ok_def
      proof (intro allI impI)
        fix u v assume uv: "rev (c # acc) = u @ v" "v \<noteq> []"
        then obtain v' where v: "v = v' @ [c]" "rev acc = u @ v'"
          by (cases v rule: rev_cases) auto
        show "ws_len (v @ s') = 0"
          using 1(3) False Cons v by (cases "v' = []") (auto simp: acc_ok_def)
      qed
      moreover have "w \<in> set (split_ws (c # acc) s')"
        using 1(4) Cons False by (subst (asm) split_ws.simps) simp
      ultimately show ?thesis
        using 1(2) [OF Cons False] Cons by auto
    qed
  qed
qed

lemma split_whitespace_words:
  "w \<in> set (str_split_whitespace s) \<Longrightarrow> w \<noteq> [] \<and> word_ok w \<and> set w \<subseteq> set s"
  using split_ws_words [of "[]" s w] by (simp add: str_split_whitespace_def acc_ok_def)

lemma split_join_words:
  "\<forall>w\<in>set ws. w \<noteq> [] \<and> word_ok w \<Longrightarrow> str_split_whitespace (str_join '' '' ws) = ws"
proof (induction ws)
  case Nil
  then show ?case by (simp add: str_split_whitespace_def split_ws.simps)
next
  case (Cons x ws)
  then show ?case
    by (cases ws) (simp_all add: str_split_whitespace_def split_ws_word split_ws_space)
qed

lemma split_join_split [simp]:
  "str_split_whitespace (str_join '' '' (str_split_whitespace s)) = str_split_whitespace s"
  by (rule split_join_words) (use split_whitespace_words in blast)

lemma set_str_join: "set (str_join sep ws) \<subseteq> set sep \<union> \<Union> (set ` set ws)"
  by (induction sep ws rule: str_join.induct) auto

subsection \<open>Characters\<close>

text \<open>
  \<open>chars().count()\<close> and \<open>chars().take(n)\<close>: a character is a lead byte with the continuation
  bytes (128 to 191) behind it.
\<close>

definition is_continuation :: "char \<Rightarrow> bool" where
  "is_continuation c = (let n = (of_char c :: nat) in 128 \<le> n \<and> n < 192)"

definition char_count :: "string \<Rightarrow> nat" where
  "char_count s = length (filter (\<lambda>c. \<not> is_continuation c) s)"

fun take_chars :: "nat \<Rightarrow> string \<Rightarrow> string" where
  "take_chars n [] = []"
| "take_chars n (c # s) =
     (if is_continuation c then c # take_chars n s
      else (case n of 0 \<Rightarrow> [] | Suc m \<Rightarrow> c # take_chars m s))"

lemma char_count_take: "char_count (take_chars n s) \<le> n"
  by (induction n s rule: take_chars.induct) (auto simp: char_count_def split: nat.splits)

lemma char_count_append [simp]: "char_count (s @ t) = char_count s + char_count t"
  by (simp add: char_count_def)

lemma take_chars_prefix: "prefix (take_chars n s) s"
  by (induction n s rule: take_chars.induct) (auto split: nat.splits)

subsection \<open>Decimal rendering\<close>

fun show_nat :: "nat \<Rightarrow> string" where
  "show_nat n = (if n < 10 then [char_of (48 + n)] else show_nat (n div 10) @ [char_of (48 + n mod 10)])"

declare show_nat.simps [simp del]

definition show_int :: "int \<Rightarrow> string" where
  "show_int i = (if i < 0 then CHR ''-'' # show_nat (nat (- i)) else show_nat (nat i))"

text \<open>The value of a run of decimal digits; \<open>None\<close> when a byte is not a digit.\<close>

definition digit_value :: "char \<Rightarrow> nat option" where
  "digit_value c = (let n = of_char c in if 48 \<le> n \<and> n \<le> 57 then Some (n - 48) else None)"

definition ascii_digit :: "char \<Rightarrow> bool" where
  "ascii_digit c \<longleftrightarrow> digit_value c \<noteq> None"

fun digits_value :: "nat \<Rightarrow> string \<Rightarrow> nat option" where
  "digits_value acc [] = Some acc"
| "digits_value acc (c # cs) =
     (case digit_value c of None \<Rightarrow> None | Some d \<Rightarrow> digits_value (10 * acc + d) cs)"

lemma digit_value_char_of [simp]: "d < 10 \<Longrightarrow> digit_value (char_of (48 + d)) = Some d"
  by (simp add: digit_value_def Let_def)

lemma digits_value_append:
  "digits_value acc (s @ t) = (case digits_value acc s of None \<Rightarrow> None | Some n \<Rightarrow> digits_value n t)"
  by (induction acc s rule: digits_value.induct) (auto split: option.splits)

lemma digits_value_show_nat [simp]: "digits_value 0 (show_nat n) = Some n"
proof (induction n rule: show_nat.induct)
  case (1 n)
  then show ?case
    by (cases "n < 10") (simp_all add: show_nat.simps [of n] digits_value_append)
qed

lemma show_nat_inject [simp]: "show_nat m = show_nat n \<longleftrightarrow> m = n"
  by (metis digits_value_show_nat option.inject)

lemma digits_value_bar: "CHR ''|'' \<in> set s \<Longrightarrow> digits_value n s = None"
  by (induction n s rule: digits_value.induct) (auto simp: digit_value_def Let_def split: option.splits)

lemma show_nat_no_bar [simp]: "CHR ''|'' \<notin> set (show_nat n)"
  using digits_value_bar [of "show_nat n" 0] digits_value_show_nat [of n] by force

lemma show_nat_no_minus: "show_nat n \<noteq> CHR ''-'' # s"
proof
  assume "show_nat n = CHR ''-'' # s"
  then have "digits_value 0 (CHR ''-'' # s) = Some n" by (metis digits_value_show_nat)
  then show False by (simp add: digit_value_def)
qed

lemma show_int_no_bar [simp]: "CHR ''|'' \<notin> set (show_int i)"
  by (simp add: show_int_def)

lemma show_int_inject [simp]: "show_int i = show_int j \<longleftrightarrow> i = j"
proof -
  have "CHR ''-'' # show_nat m \<noteq> show_nat n" for m n
    using show_nat_no_minus by metis
  then show ?thesis
    by (auto simp: show_int_def show_nat_no_minus split: if_splits)
qed

text \<open>Splitting at the first or the last occurrence of a byte.\<close>

lemma split_first:
  "c \<notin> set x \<Longrightarrow> c \<notin> set x' \<Longrightarrow> x @ c # y = x' @ c # y' \<longleftrightarrow> x = x' \<and> y = y'"
proof (induction x arbitrary: x')
  case Nil
  then show ?case by (cases x') auto
next
  case (Cons a x)
  then show ?case by (cases x') auto
qed

lemma split_last:
  "c \<notin> set y \<Longrightarrow> c \<notin> set y' \<Longrightarrow> x @ c # y = x' @ c # y' \<longleftrightarrow> x = x' \<and> y = y'"
proof -
  assume c: "c \<notin> set y" "c \<notin> set y'"
  have "x @ c # y = x' @ c # y' \<longleftrightarrow> rev (x @ c # y) = rev (x' @ c # y')"
    by (simp only: rev_is_rev_conv)
  also have "\<dots> \<longleftrightarrow> rev y @ c # rev x = rev y' @ c # rev x'"
    by simp
  also have "\<dots> \<longleftrightarrow> rev y = rev y' \<and> rev x = rev x'"
    using c by (intro split_first) simp_all
  finally show ?thesis by auto
qed

subsection \<open>Runs of steps\<close>

text \<open>
  Several operations of one component share a contract: each keeps an invariant, or each is matched
  by a step of a simpler machine. A component interprets the locale once for all its operations and
  obtains the statement for every run.
\<close>

locale step_invariant =
  fixes step :: "'e \<Rightarrow> 's \<Rightarrow> 's"
    and ok :: "'e \<Rightarrow> bool"
    and inv :: "'s \<Rightarrow> bool"
  assumes step_inv: "inv s \<Longrightarrow> ok e \<Longrightarrow> inv (step e s)"
begin

lemma run_inv: "inv s \<Longrightarrow> list_all ok es \<Longrightarrow> inv (fold step es s)"
  by (induction es arbitrary: s) (auto intro: step_inv)

end

locale step_refinement = step_invariant step ok inv
  for step :: "'e \<Rightarrow> 's \<Rightarrow> 's" and ok :: "'e \<Rightarrow> bool" and inv :: "'s \<Rightarrow> bool" +
  fixes abs_step :: "'e \<Rightarrow> 'a \<Rightarrow> 'a"
    and absf :: "'s \<Rightarrow> 'a"
  assumes step_abs: "inv s \<Longrightarrow> ok e \<Longrightarrow> absf (step e s) = abs_step e (absf s)"
begin

lemma run_abs: "inv s \<Longrightarrow> list_all ok es \<Longrightarrow> absf (fold step es s) = fold abs_step es (absf s)"
  by (induction es arbitrary: s) (auto simp: step_abs step_inv)

end

subsection \<open>Titles, separators and options\<close>

definition normalize_title_spacing :: "string \<Rightarrow> string" where
  "normalize_title_spacing raw =
     str_join '' '' (str_split_whitespace (map (\<lambda>c. if c = CHR ''_'' then CHR '' '' else c) raw))"

abbreviation unit_separator :: char where "unit_separator \<equiv> CHR 0x1F"

definition or_else :: "'a option \<Rightarrow> 'a option \<Rightarrow> 'a option" where
  "or_else a b = (case a of None \<Rightarrow> b | Some _ \<Rightarrow> a)"

lemma or_else_simps [simp]: "or_else None b = b" "or_else (Some x) b = Some x" "or_else a b = None \<longleftrightarrow> a = None \<and> b = None"
  by (simp_all add: or_else_def split: option.splits)

lemma or_else_Some: "or_else a b = Some x \<longleftrightarrow> a = Some x \<or> a = None \<and> b = Some x"
  by (simp add: or_else_def split: option.splits)

text \<open>\<open>Iterator::find_map\<close>, and the back quote of messages.\<close>

fun find_map :: "('a \<Rightarrow> 'b option) \<Rightarrow> 'a list \<Rightarrow> 'b option" where
  "find_map f [] = None"
| "find_map f (x # xs) = (case f x of Some y \<Rightarrow> Some y | None \<Rightarrow> find_map f xs)"

lemma find_map_Some: "find_map f xs = Some y \<Longrightarrow> \<exists>x \<in> set xs. f x = Some y"
  by (induction xs) (auto split: option.splits)

lemma find_map_None: "find_map f xs = None \<longleftrightarrow> (\<forall>x \<in> set xs. f x = None)"
  by (induction xs) (auto split: option.splits)

definition bquote :: char where "bquote = CHR 0x60"

end
