(* ===== verification/BTree_Map.thy ===== *)
theory BTree_Map
  imports Prelude
begin

section \<open>Ordered and unordered dictionaries\<close>

text \<open>
  Rust's \<open>BTreeMap\<close> iterates in key order, which the code under study shows to its callers
  (summaries list \<open>values()\<close>). It is modelled by a list of pairs with strictly increasing
  keys. Rust's \<open>HashMap\<close> has no order the code relies on: it is an association list with
  distinct keys (\<open>HOL-Library.AList\<close>). The two share the interface \<open>dictionary\<close>, and both
  implement it.
\<close>

subsection \<open>The interface\<close>

locale dictionary =
  fixes empty :: "'m"
    and insert :: "'k \<Rightarrow> 'v \<Rightarrow> 'm \<Rightarrow> 'm"
    and remove :: "'k \<Rightarrow> 'm \<Rightarrow> 'm"
    and lookup :: "'m \<Rightarrow> 'k \<Rightarrow> 'v option"
    and invar :: "'m \<Rightarrow> bool"
  assumes lookup_empty: "lookup empty k = None"
    and lookup_insert: "invar m \<Longrightarrow> lookup (insert k v m) = (lookup m)(k \<mapsto> v)"
    and lookup_remove: "invar m \<Longrightarrow> lookup (remove k m) = (lookup m)(k := None)"
    and invar_empty: "invar empty"
    and invar_insert: "invar m \<Longrightarrow> invar (insert k v m)"
    and invar_remove: "invar m \<Longrightarrow> invar (remove k m)"
begin

lemma lookup_insert_same: "invar m \<Longrightarrow> lookup (insert k v m) k = Some v"
  by (simp add: lookup_insert)

lemma lookup_insert_other: "invar m \<Longrightarrow> k \<noteq> k' \<Longrightarrow> lookup (insert k v m) k' = lookup m k'"
  by (simp add: lookup_insert)

lemma lookup_remove_same: "invar m \<Longrightarrow> lookup (remove k m) k = None"
  by (simp add: lookup_remove)

lemma insert_overwrites:
  "invar m \<Longrightarrow> lookup (insert k v (insert k w m)) = lookup (insert k v m)"
  by (simp add: lookup_insert invar_insert)

lemma lookup_fold_insert:
  assumes "invar m"
  shows "invar (fold (\<lambda>(k, v). insert k v) kvs m) \<and>
    lookup (fold (\<lambda>(k, v). insert k v) kvs m) = lookup m ++ map_of (rev kvs)"
  using assms by (induction kvs arbitrary: m) (auto simp: lookup_insert invar_insert)

end

subsection \<open>\<open>BTreeMap\<close>: keys in increasing order\<close>

type_synonym ('k, 'v) btree = "('k \<times> 'v) list"

definition bt_wf :: "('k::linorder, 'v) btree \<Rightarrow> bool" where
  "bt_wf m \<longleftrightarrow> sorted_wrt (<) (map fst m)"

fun bt_insert :: "'k::linorder \<Rightarrow> 'v \<Rightarrow> ('k, 'v) btree \<Rightarrow> ('k, 'v) btree" where
  "bt_insert k v [] = [(k, v)]"
| "bt_insert k v ((k', v') # m) =
     (if k < k' then (k, v) # (k', v') # m
      else if k = k' then (k, v) # m
      else (k', v') # bt_insert k v m)"

definition bt_remove :: "'k \<Rightarrow> ('k, 'v) btree \<Rightarrow> ('k, 'v) btree" where
  "bt_remove k m = filter (\<lambda>p. fst p \<noteq> k) m"

abbreviation bt_keys :: "('k, 'v) btree \<Rightarrow> 'k list" where
  "bt_keys m \<equiv> map fst m"

abbreviation bt_values :: "('k, 'v) btree \<Rightarrow> 'v list" where
  "bt_values m \<equiv> map snd m"

lemma bt_insert_keys: "set (bt_keys (bt_insert k v m)) = insert k (set (bt_keys m))"
  by (induction k v m rule: bt_insert.induct) auto

lemma map_of_bt_insert:
  "bt_wf m \<Longrightarrow> map_of (bt_insert k v m) = (map_of m)(k \<mapsto> v)"
proof (induction k v m rule: bt_insert.induct)
  case (2 k v k' v' m)
  from "2.prems" have less: "\<And>x. x \<in> set (bt_keys m) \<Longrightarrow> k' < x" and wf: "bt_wf m"
    by (auto simp: bt_wf_def)
  show ?case
  proof (cases k k' rule: linorder_cases)
    case greater
    then show ?thesis using "2.IH" wf by (auto simp: fun_eq_iff)
  qed (auto simp: fun_eq_iff)
qed simp

lemma bt_wf_insert: "bt_wf m \<Longrightarrow> bt_wf (bt_insert k v m)"
proof (induction k v m rule: bt_insert.induct)
  case (2 k v k' v' m)
  show ?case
  proof (cases k k' rule: linorder_cases)
    case greater
    with "2" show ?thesis
      by (auto simp: bt_wf_def bt_insert_keys simp flip: set_map)
  qed (use "2.prems" in \<open>auto simp: bt_wf_def\<close>)
qed (simp add: bt_wf_def)

lemma map_of_bt_remove: "map_of (bt_remove k m) = (map_of m)(k := None)"
  by (induction m) (auto simp: bt_remove_def fun_eq_iff)

lemma bt_wf_remove: "bt_wf m \<Longrightarrow> bt_wf (bt_remove k m)"
  unfolding bt_wf_def bt_remove_def
  by (simp add: sorted_wrt_map sorted_wrt_filter)

lemma bt_wf_Nil [simp]: "bt_wf []"
  by (simp add: bt_wf_def)

interpretation bt: dictionary "[]" bt_insert bt_remove map_of bt_wf
  by unfold_locales (auto simp: map_of_bt_insert map_of_bt_remove bt_wf_insert bt_wf_remove)

lemmas bt_simps [simp] = map_of_bt_insert map_of_bt_remove bt_wf_insert bt_wf_remove

lemma bt_wf_distinct: "bt_wf m \<Longrightarrow> distinct (bt_keys m)"
  by (simp add: bt_wf_def strict_sorted_iff)

lemma bt_value_iff: "bt_wf m \<Longrightarrow> v \<in> set (bt_values m) \<longleftrightarrow> (\<exists>k. map_of m k = Some v)"
  by (force simp: bt_wf_distinct)

lemma bt_dom: "dom (map_of m) = set (bt_keys m)"
  by (simp add: dom_map_of_conv_image_fst)

text \<open>Two ordered dictionaries with the same entries are the same list.\<close>

lemma bt_from_keys:
  "distinct (map fst m) \<Longrightarrow> map (\<lambda>k. (k, the (map_of m k))) (map fst m) = m"
proof -
  assume distinct: "distinct (map fst m)"
  have "map (\<lambda>p. (fst p, the (map_of m (fst p)))) m = m"
    by (rule map_idI) (use distinct in \<open>force simp: case_prod_beta\<close>)
  then show ?thesis
    by (simp add: comp_def)
qed

lemma bt_eqI:
  assumes "bt_wf m" "bt_wf n" "map_of m = map_of n"
  shows "m = n"
proof -
  have "set (bt_keys m) = set (bt_keys n)"
    using assms(3) by (metis bt_dom)
  then have "bt_keys m = bt_keys n"
    using assms(1,2) by (simp add: bt_wf_def strict_sorted_equal)
  then show ?thesis
    using assms by (metis bt_from_keys bt_wf_distinct)
qed

text \<open>Every entry satisfies a predicate on key and value.\<close>

definition entries_ok :: "('k \<Rightarrow> 'v \<Rightarrow> bool) \<Rightarrow> ('k \<times> 'v) list \<Rightarrow> bool" where
  "entries_ok P m \<longleftrightarrow> list_all (\<lambda>(k, v). P k v) m"

lemma entries_ok_Nil [simp]: "entries_ok P []"
  by (simp add: entries_ok_def)

lemma entries_ok_insert [intro]:
  "entries_ok P m \<Longrightarrow> P k v \<Longrightarrow> entries_ok P (bt_insert k v m)"
  unfolding entries_ok_def by (induction k v m rule: bt_insert.induct) auto

lemma entries_ok_remove [intro]: "entries_ok P m \<Longrightarrow> entries_ok P (bt_remove k m)"
  unfolding entries_ok_def bt_remove_def by (auto simp: list_all_iff)

lemma entries_ok_lookup: "entries_ok P m \<Longrightarrow> map_of m k = Some v \<Longrightarrow> P k v"
  unfolding entries_ok_def by (auto simp: list_all_iff dest: map_of_SomeD)

lemma entries_okI:
  "bt_wf m \<Longrightarrow> (\<And>k v. map_of m k = Some v \<Longrightarrow> P k v) \<Longrightarrow> entries_ok P m"
  unfolding entries_ok_def by (auto simp: list_all_iff bt_wf_distinct)

text \<open>Inserting the entry that is there already changes nothing.\<close>

lemma bt_insert_same: "bt_wf m \<Longrightarrow> map_of m k = Some v \<Longrightarrow> bt_insert k v m = m"
  by (rule bt_eqI) auto

lemma bt_insert_twice: "bt_wf m \<Longrightarrow> bt_insert k v (bt_insert k v m) = bt_insert k v m"
  by (rule bt_insert_same) auto

lemma bt_remove_twice: "bt_remove k (bt_remove k m) = bt_remove k m"
  by (simp add: bt_remove_def)

subsection \<open>\<open>HashMap\<close>: an association list with distinct keys\<close>

definition hm_wf :: "('k \<times> 'v) list \<Rightarrow> bool" where
  "hm_wf m \<longleftrightarrow> distinct (map fst m)"

lemma hm_wf_Nil [simp]: "hm_wf []"
  by (simp add: hm_wf_def)

lemma hm_wf_update [simp]: "hm_wf m \<Longrightarrow> hm_wf (AList.update k v m)"
  by (simp add: hm_wf_def distinct_update)

lemma hm_wf_delete [simp]: "hm_wf m \<Longrightarrow> hm_wf (AList.delete k m)"
  by (simp add: hm_wf_def distinct_delete)

interpretation hm: dictionary "[]" AList.update AList.delete map_of hm_wf
  by unfold_locales (auto simp: update_conv' delete_conv')

text \<open>\<open>HashMap::retain\<close> and \<open>values_mut\<close>.\<close>

definition hm_retain :: "('k \<Rightarrow> 'v \<Rightarrow> bool) \<Rightarrow> ('k \<times> 'v) list \<Rightarrow> ('k \<times> 'v) list" where
  "hm_retain P m = filter (\<lambda>(k, v). P k v) m"

definition hm_map_values :: "('v \<Rightarrow> 'v) \<Rightarrow> ('k \<times> 'v) list \<Rightarrow> ('k \<times> 'v) list" where
  "hm_map_values f m = map (\<lambda>(k, v). (k, f v)) m"

lemma hm_wf_retain [simp]: "hm_wf m \<Longrightarrow> hm_wf (hm_retain P m)"
  unfolding hm_wf_def hm_retain_def by (simp add: distinct_map_filter)

lemma map_of_hm_retain:
  "hm_wf m \<Longrightarrow> map_of (hm_retain P m) k =
     (case map_of m k of None \<Rightarrow> None | Some v \<Rightarrow> if P k v then Some v else None)"
  unfolding hm_wf_def hm_retain_def
  by (induction m) (auto simp: map_of_eq_None_iff split: option.splits)

lemma hm_wf_map_values [simp]: "hm_wf (hm_map_values f m) \<longleftrightarrow> hm_wf m"
  by (simp add: hm_wf_def hm_map_values_def comp_def case_prod_beta)

lemma map_of_hm_map_values: "map_of (hm_map_values f m) k = map_option f (map_of m k)"
  unfolding hm_map_values_def by (induction m) auto

lemma hm_mem_iff: "hm_wf m \<Longrightarrow> (k, v) \<in> set m \<longleftrightarrow> map_of m k = Some v"
  by (simp add: hm_wf_def)

lemma entries_ok_hm:
  "hm_wf m \<Longrightarrow> entries_ok P m \<longleftrightarrow> (\<forall>k v. map_of m k = Some v \<longrightarrow> P k v)"
  unfolding entries_ok_def list_all_iff by (force simp: hm_mem_iff)

lemma entries_ok_hm_update [simp]:
  "hm_wf m \<Longrightarrow> entries_ok P m \<Longrightarrow> P k v \<Longrightarrow> entries_ok P (AList.update k v m)"
  by (simp add: entries_ok_hm update_conv')

lemma entries_ok_hm_delete [simp]:
  "hm_wf m \<Longrightarrow> entries_ok P m \<Longrightarrow> entries_ok P (AList.delete k m)"
  by (simp add: entries_ok_hm delete_conv')

lemma entries_ok_hm_retain [simp]: "entries_ok P m \<Longrightarrow> entries_ok P (hm_retain Q m)"
  by (auto simp: entries_ok_def list_all_iff hm_retain_def)

lemma entries_ok_hm_map_values:
  "entries_ok P m \<Longrightarrow> (\<And>k v. P k v \<Longrightarrow> P k (f v)) \<Longrightarrow> entries_ok P (hm_map_values f m)"
  by (auto simp: entries_ok_def list_all_iff hm_map_values_def)

end
