(* ===== verification/Ports.thy ===== *)
theory Ports
  imports BTree_Map
begin

section \<open>The ports: transport, event source and storage\<close>

text \<open>
  \<open>crates/sp42-types/src/transport.rs\<close>, \<open>errors.rs\<close> and \<open>traits.rs\<close>: the messages of the transports,
  the traits the runtimes are generic in, as records of operations on an explicit state, and the
  implementations of them the repository has. What a client of a storage relies on is the locale
  \<open>checkpoint_storage\<close>; the in-memory and the file storage interpret it. No lock is ever poisoned in
  these sequential models: nothing panics while it holds one. Byte vectors and text are both byte lists.
\<close>

subsection \<open>Messages\<close>

datatype http_method = Get | Post | Put | Patch | Delete

text \<open>A URL of the \<open>url\<close> crate is kept as its base and the pairs appended to its query.\<close>

record http_request =
  hr_method :: http_method
  hr_url :: string
  hr_query :: "(string \<times> string) list"
  hr_headers :: "(string \<times> string) list"
  hr_body :: string

record http_response =
  hs_status :: nat
  hs_headers :: "(string \<times> string) list"
  hs_body :: string

datatype http_client_error = HttpTransport string | HttpInvalidResponse string | HttpStatePoisoned string

record server_sent_event =
  sse_event_type :: "string option"
  sse_id :: "string option"
  sse_data :: string
  sse_retry_ms :: "nat option"

datatype event_source_error = Disconnected string | EventStatePoisoned string

datatype storage_error = StorageOperation string | StorageStatePoisoned string

datatype web_socket_frame = FrameText string | FrameBinary string | FrameClose

datatype web_socket_error = SocketTransport string | SocketStatePoisoned string

subsection \<open>The traits\<close>

record 'e event_source =
  es_next :: "'e \<Rightarrow> (event_source_error + server_sent_event option) \<times> 'e"
  es_reconnect :: "string option \<Rightarrow> 'e \<Rightarrow> (event_source_error + unit) \<times> 'e"

record 's storage =
  st_get :: "string \<Rightarrow> 's \<Rightarrow> storage_error + string option"
  st_set :: "string \<Rightarrow> string \<Rightarrow> 's \<Rightarrow> (storage_error + unit) \<times> 's"
  st_remove :: "string \<Rightarrow> 's \<Rightarrow> (storage_error + unit) \<times> 's"

record 'w web_socket =
  ws_send :: "web_socket_frame \<Rightarrow> 'w \<Rightarrow> (web_socket_error + unit) \<times> 'w"
  ws_receive :: "'w \<Rightarrow> (web_socket_error + web_socket_frame option) \<times> 'w"

text \<open>
  The contract of a storage: a successful write is read back and touches no other key, a failed one
  leaves every key as it was, and likewise for removal.
\<close>

locale checkpoint_storage =
  fixes ops :: "'s storage"
    and inv :: "'s \<Rightarrow> bool"
  assumes set_law: "inv s \<Longrightarrow> st_set ops k v s = (r, s') \<Longrightarrow>
      inv s' \<and> (\<forall>k'. st_get ops k' s' =
        (case r of Inl _ \<Rightarrow> st_get ops k' s | Inr _ \<Rightarrow> if k' = k then Inr (Some v) else st_get ops k' s))"
    and remove_law: "inv s \<Longrightarrow> st_remove ops k s = (r, s') \<Longrightarrow>
      inv s' \<and> (\<forall>k'. st_get ops k' s' =
        (case r of Inl _ \<Rightarrow> st_get ops k' s | Inr _ \<Rightarrow> if k' = k then Inr None else st_get ops k' s))"
begin

lemma set_inv: "inv s \<Longrightarrow> inv (snd (st_set ops k v s))"
  using set_law by (metis prod.collapse)

lemma remove_inv: "inv s \<Longrightarrow> inv (snd (st_remove ops k s))"
  using remove_law by (metis prod.collapse)

lemma get_set_ok: "inv s \<Longrightarrow> st_set ops k v s = (Inr (), s') \<Longrightarrow> st_get ops k s' = Inr (Some v)"
  using set_law by fastforce

lemma get_remove_ok: "inv s \<Longrightarrow> st_remove ops k s = (Inr (), s') \<Longrightarrow> st_get ops k s' = Inr None"
  using remove_law by fastforce

lemma get_set_failed: "inv s \<Longrightarrow> st_set ops k v s = (Inl e, s') \<Longrightarrow> st_get ops k' s' = st_get ops k' s"
  using set_law by fastforce

lemma get_remove_failed: "inv s \<Longrightarrow> st_remove ops k s = (Inl e, s') \<Longrightarrow> st_get ops k' s' = st_get ops k' s"
  using remove_law by fastforce

end

subsection \<open>In-memory implementations\<close>

definition memory_storage :: "(string, string) btree storage" where
  "memory_storage =
     \<lparr>st_get = (\<lambda>k m. Inr (map_of m k)),
      st_set = (\<lambda>k v m. (Inr (), bt_insert k v m)),
      st_remove = (\<lambda>k m. (Inr (), bt_remove k m))\<rparr>"

interpretation memory: checkpoint_storage memory_storage bt_wf
  by unfold_locales (auto simp: memory_storage_def)

record replay_state =
  rp_events :: "server_sent_event list"
  rp_last_reconnect_id :: "string option"

definition replay_event_source :: "replay_state event_source" where
  "replay_event_source =
     \<lparr>es_next = (\<lambda>r. case rp_events r of
         [] \<Rightarrow> (Inr None, r)
       | e # es \<Rightarrow> (Inr (Some e), r\<lparr>rp_events := es\<rparr>)),
      es_reconnect = (\<lambda>last_id r. (Inr (), r\<lparr>rp_last_reconnect_id := last_id\<rparr>))\<rparr>"

record loopback_state =
  lb_incoming :: "web_socket_frame list"
  lb_outgoing :: "web_socket_frame list"

definition loopback_web_socket :: "loopback_state web_socket" where
  "loopback_web_socket =
     \<lparr>ws_send = (\<lambda>frame w. (Inr (), w\<lparr>lb_outgoing := lb_outgoing w @ [frame]\<rparr>)),
      ws_receive = (\<lambda>w. case lb_incoming w of
         [] \<Rightarrow> (Inr None, w)
       | f # fs \<Rightarrow> (Inr (Some f), w\<lparr>lb_incoming := fs\<rparr>))\<rparr>"

subsection \<open>File storage\<close>

text \<open>
  The directory of the storage maps file names to contents. A key is hex-encoded into its file name;
  a write goes to a temporary file that is then renamed over the target. \<open>faults\<close> says how the write
  with a given sequence number fails: creating the directory, writing (with whatever reached the
  temporary file), or renaming; \<open>unreadable\<close> and \<open>undeletable\<close> give the error of a file that cannot be
  read or removed for a reason other than its absence.
\<close>

record file_state =
  fs_files :: "(string \<times> string) list"
  fs_sequence :: nat

datatype write_fault = NoFault | DirectoryFault string | WriteFault string string | RenameFault string

definition hex_digit :: "nat \<Rightarrow> char" where
  "hex_digit n = char_of (if n < 10 then 48 + n else 87 + n)"

definition hex_byte :: "char \<Rightarrow> string" where
  "hex_byte c = [hex_digit (of_char c div 16), hex_digit (of_char c mod 16)]"

definition key_path :: "string \<Rightarrow> string" where
  "key_path key = concat (map hex_byte key) @ ''.bin''"

definition temp_path :: "string \<Rightarrow> nat \<Rightarrow> string" where
  "temp_path target n = ''.'' @ target @ ''.'' @ show_nat n @ ''.tmp''"

definition file_get :: "(string \<Rightarrow> string option) \<Rightarrow> string \<Rightarrow> file_state \<Rightarrow> storage_error + string option" where
  "file_get unreadable key s =
     (case map_of (fs_files s) (key_path key) of
        None \<Rightarrow> Inr None
      | Some bytes \<Rightarrow> (case unreadable (key_path key) of Some e \<Rightarrow> Inl (StorageOperation e) | None \<Rightarrow> Inr (Some bytes)))"

definition file_set :: "(nat \<Rightarrow> write_fault) \<Rightarrow> string \<Rightarrow> string \<Rightarrow> file_state \<Rightarrow> (storage_error + unit) \<times> file_state" where
  "file_set faults key v s =
     (let target = key_path key; n = fs_sequence s; temp = temp_path target n;
          s' = s\<lparr>fs_sequence := (n + 1) mod (u64_max + 1)\<rparr>
      in (case faults n of
            DirectoryFault e \<Rightarrow> (Inl (StorageOperation e), s)
          | WriteFault e partial \<Rightarrow>
              (Inl (StorageOperation e), s'\<lparr>fs_files := AList.update temp partial (fs_files s)\<rparr>)
          | RenameFault e \<Rightarrow> (Inl (StorageOperation e), s'\<lparr>fs_files := AList.update temp v (fs_files s)\<rparr>)
          | NoFault \<Rightarrow>
              (Inr (), s'\<lparr>fs_files := AList.update target v (AList.delete temp (AList.update temp v (fs_files s)))\<rparr>)))"

definition file_remove :: "(string \<Rightarrow> string option) \<Rightarrow> string \<Rightarrow> file_state \<Rightarrow> (storage_error + unit) \<times> file_state" where
  "file_remove undeletable key s =
     (case map_of (fs_files s) (key_path key) of
        None \<Rightarrow> (Inr (), s)
      | Some _ \<Rightarrow>
          (case undeletable (key_path key) of
             Some e \<Rightarrow> (Inl (StorageOperation e), s)
           | None \<Rightarrow> (Inr (), s\<lparr>fs_files := AList.delete (key_path key) (fs_files s)\<rparr>)))"

definition file_storage ::
  "(string \<Rightarrow> string option) \<Rightarrow> (string \<Rightarrow> string option) \<Rightarrow> (nat \<Rightarrow> write_fault) \<Rightarrow> file_state storage" where
  "file_storage unreadable undeletable faults =
     \<lparr>st_get = file_get unreadable, st_set = file_set faults, st_remove = file_remove undeletable\<rparr>"

text \<open>Different keys live in different files, and no temporary file is the file of a key.\<close>

lemma hex_digit_code: "n < 16 \<Longrightarrow> of_char (hex_digit n) = (if n < 10 then 48 + n else 87 + n)"
  by (simp add: hex_digit_def)

lemma hex_digit_inj:
  assumes "m < 16" "n < 16"
  shows "hex_digit m = hex_digit n \<longleftrightarrow> m = n"
proof
  assume "hex_digit m = hex_digit n"
  then have "(if m < 10 then 48 + m else 87 + m) = (if n < 10 then 48 + n else 87 + n)"
    by (simp only: hex_digit_code [OF assms(1), symmetric] hex_digit_code [OF assms(2), symmetric])
  then show "m = n" using assms by (simp split: if_splits)
qed simp

lemma hex_byte_inj: "hex_byte c = hex_byte d \<longleftrightarrow> c = d"
proof -
  have bound: "(of_char x :: nat) div 16 < 16" for x :: char
    by (rule less_mult_imp_div_less) simp
  have "c = d" if "hex_byte c = hex_byte d"
  proof -
    have "(of_char c :: nat) div 16 = of_char d div 16" "(of_char c :: nat) mod 16 = of_char d mod 16"
      using that bound by (simp_all add: hex_byte_def hex_digit_inj)
    then have "(of_char c :: nat) = of_char d"
      by (metis div_mult_mod_eq)
    then show ?thesis by simp
  qed
  then show ?thesis by blast
qed

lemma hex_inj: "concat (map hex_byte k) = concat (map hex_byte k') \<longleftrightarrow> k = k'"
proof (induction k arbitrary: k')
  case Nil
  then show ?case by (cases k') (auto simp: hex_byte_def)
next
  case (Cons c k)
  then show ?case
  proof (cases k')
    case (Cons d r)
    have "hex_byte c @ u = hex_byte d @ v \<longleftrightarrow> hex_byte c = hex_byte d \<and> u = v" for u v
      by (auto simp: hex_byte_def)
    then show ?thesis using Cons Cons.IH by (simp add: hex_byte_inj)
  qed (simp add: hex_byte_def)
qed

lemma key_path_inj [simp]: "key_path k = key_path k' \<longleftrightarrow> k = k'"
  by (simp add: key_path_def hex_inj)

lemma hex_digit_no_dot: "n < 16 \<Longrightarrow> hex_digit n \<noteq> CHR ''.''"
proof
  assume n: "n < 16" and "hex_digit n = CHR ''.''"
  then have "(of_char (hex_digit n) :: nat) = 46" by simp
  with n show False by (simp add: hex_digit_def split: if_splits)
qed

lemma temp_path_fresh [simp]: "temp_path t n \<noteq> key_path k" "key_path k \<noteq> temp_path t n"
proof -
  have bound: "(of_char x :: nat) div 16 < 16" for x :: char
    by (rule less_mult_imp_div_less) simp
  show "temp_path t n \<noteq> key_path k"
  proof (cases k)
    case Nil
    have "''.tmp'' \<noteq> (''.bin'' :: string)" by simp
    moreover have "suffix ''.tmp'' (temp_path t n)"
      unfolding temp_path_def suffix_def by (metis append.assoc)
    ultimately show ?thesis
      using Nil by (auto simp: key_path_def suffix_def)
  next
    case (Cons c r)
    then show ?thesis
      using hex_digit_no_dot [OF bound, of c] by (auto simp: key_path_def temp_path_def hex_byte_def)
  qed
  then show "key_path k \<noteq> temp_path t n" by metis
qed

interpretation disk: checkpoint_storage "file_storage (\<lambda>_. None) undeletable faults" "\<lambda>_. True"
proof (unfold_locales, goal_cases)
  case (1 s k v r s')
  then show ?case
    by (auto simp: file_storage_def file_set_def file_get_def Let_def update_conv' delete_conv'
        split: write_fault.splits)
next
  case (2 s k r s')
  then show ?case
    by (auto simp: file_storage_def file_remove_def file_get_def delete_conv' split: option.splits if_splits)
qed

end
