(* ===== verification/Coordination_State.thy ===== *)
theory Coordination_State
  imports BTree_Map
begin

section \<open>Coordination protocol and room state\<close>

text \<open>
  The payloads of \<open>crates/sp42-coordination/src/messages.rs\<close> and the deterministic reducer of
  \<open>crates/sp42-coordination/src/state.rs\<close>: one room's claims, presence, flags, score deltas,
  race resolutions and recent actions, changed only by \<open>apply\<close>. Revision ids are \<open>u64\<close>,
  counters \<open>u32\<close> (both \<open>nat\<close> here), scores and deltas \<open>i32\<close> (\<open>int\<close> with
  saturation written out). The tables are \<open>BTreeMap\<close>s, modelled by \<open>BTree_Map\<close>.
\<close>

subsection \<open>Payloads\<close>

datatype action = Rollback | Revert | Warn | Report | MarkPatrolled

record action_broadcast =
  ab_wiki_id :: string
  ab_rev_id :: nat
  ab_action :: action
  ab_actor :: string

record edit_claim =
  ec_wiki_id :: string
  ec_rev_id :: nat
  ec_actor :: string

record score_delta =
  sd_wiki_id :: string
  sd_rev_id :: nat
  sd_delta :: int
  sd_reason :: string

record presence_heartbeat =
  ph_wiki_id :: string
  ph_actor :: string
  ph_active_edit_count :: nat

record flagged_edit =
  fe_wiki_id :: string
  fe_rev_id :: nat
  fe_score :: int
  fe_reason :: string

record race_resolution =
  rr_wiki_id :: string
  rr_rev_id :: nat
  rr_winning_actor :: string

text \<open>
  The session summary a \<open>ReviewSignal\<close> carries is not read by this component; its type is the
  parameter \<open>'snap\<close>.
\<close>

record 'snap review_signal =
  rs_wiki_id :: string
  rs_session :: 'snap

datatype 'snap coordination_message =
    ActionBroadcast action_broadcast
  | EditClaim edit_claim
  | ScoreDelta score_delta
  | PresenceHeartbeat presence_heartbeat
  | FlaggedEdit flagged_edit
  | RaceResolution race_resolution
  | ReviewSignal "'snap review_signal"

fun message_wiki_id :: "'snap coordination_message \<Rightarrow> string" where
  "message_wiki_id (ActionBroadcast a) = ab_wiki_id a"
| "message_wiki_id (EditClaim c) = ec_wiki_id c"
| "message_wiki_id (ScoreDelta d) = sd_wiki_id d"
| "message_wiki_id (PresenceHeartbeat h) = ph_wiki_id h"
| "message_wiki_id (FlaggedEdit f) = fe_wiki_id f"
| "message_wiki_id (RaceResolution r) = rr_wiki_id r"
| "message_wiki_id (ReviewSignal s) = rs_wiki_id s"

subsection \<open>The room state and its operations\<close>

record coordination_state =
  cs_wiki_id :: string
  claims :: "(nat, edit_claim) btree"
  presence :: "(string, presence_heartbeat) btree"
  flagged_edits :: "(nat, flagged_edit) btree"
  score_deltas :: "(nat, score_delta) btree"
  race_resolutions :: "(nat, race_resolution) btree"
  recent_actions :: "action_broadcast list"

definition new_state :: "string \<Rightarrow> coordination_state" where
  "new_state wiki =
     \<lparr>cs_wiki_id = wiki, claims = [], presence = [], flagged_edits = [], score_deltas = [],
      race_resolutions = [], recent_actions = []\<rparr>"

lemma wiki_id_new_state [simp]: "cs_wiki_id (new_state wiki) = wiki"
  by (simp add: new_state_def)

definition recent_action_limit :: nat where
  "recent_action_limit = 25"

definition apply_edit_claim :: "edit_claim \<Rightarrow> coordination_state \<Rightarrow> coordination_state" where
  "apply_edit_claim c s =
     (if (case map_of (race_resolutions s) (ec_rev_id c) of
            None \<Rightarrow> True
          | Some r \<Rightarrow> rr_winning_actor r = ec_actor c)
      then s\<lparr>claims := bt_insert (ec_rev_id c) c (claims s)\<rparr>
      else s)"

definition apply_presence :: "presence_heartbeat \<Rightarrow> coordination_state \<Rightarrow> coordination_state" where
  "apply_presence h s =
     (if ph_active_edit_count h = 0
      then s\<lparr>presence := bt_remove (ph_actor h) (presence s)\<rparr>
      else s\<lparr>presence := bt_insert (ph_actor h) h (presence s)\<rparr>)"

text \<open>
  \<open>entry().and_modify().or_insert()\<close>: a second delta for a revision adds to the stored one with
  saturation and joins the reasons; wiki and revision stay those of the first.
\<close>

definition merge_delta :: "score_delta \<Rightarrow> score_delta \<Rightarrow> score_delta" where
  "merge_delta cur d =
     cur\<lparr>sd_delta := sat_i32 (sd_delta cur + sd_delta d),
         sd_reason := sd_reason cur @ '' | '' @ sd_reason d\<rparr>"

definition apply_score_delta :: "score_delta \<Rightarrow> coordination_state \<Rightarrow> coordination_state" where
  "apply_score_delta d s =
     s\<lparr>score_deltas :=
         (case map_of (score_deltas s) (sd_rev_id d) of
            None \<Rightarrow> bt_insert (sd_rev_id d) d (score_deltas s)
          | Some cur \<Rightarrow> bt_insert (sd_rev_id d) (merge_delta cur d) (score_deltas s))\<rparr>"

definition apply_race_resolution :: "race_resolution \<Rightarrow> coordination_state \<Rightarrow> coordination_state" where
  "apply_race_resolution r s =
     s\<lparr>claims := bt_insert (rr_rev_id r)
          \<lparr>ec_wiki_id = rr_wiki_id r, ec_rev_id = rr_rev_id r, ec_actor = rr_winning_actor r\<rparr>
          (claims s),
       race_resolutions := bt_insert (rr_rev_id r) r (race_resolutions s)\<rparr>"

definition apply_action :: "action_broadcast \<Rightarrow> coordination_state \<Rightarrow> coordination_state" where
  "apply_action a s =
     (let pushed = recent_actions s @ [a]
      in s\<lparr>recent_actions :=
             (if recent_action_limit < length pushed
              then drop (length pushed - recent_action_limit) pushed
              else pushed)\<rparr>)"

fun apply_message :: "'snap coordination_message \<Rightarrow> coordination_state \<Rightarrow> coordination_state" where
  "apply_message (EditClaim c) s = apply_edit_claim c s"
| "apply_message (PresenceHeartbeat h) s = apply_presence h s"
| "apply_message (FlaggedEdit f) s = s\<lparr>flagged_edits := bt_insert (fe_rev_id f) f (flagged_edits s)\<rparr>"
| "apply_message (ScoreDelta d) s = apply_score_delta d s"
| "apply_message (RaceResolution r) s = apply_race_resolution r s"
| "apply_message (ActionBroadcast a) s = apply_action a s"
| "apply_message (ReviewSignal sig) s = s"

text \<open>\<open>CoordinationState::apply\<close>: a message of another wiki is rejected with the state unchanged.\<close>

definition coord_apply :: "'snap coordination_message \<Rightarrow> coordination_state \<Rightarrow> bool \<times> coordination_state" where
  "coord_apply m s =
     (if message_wiki_id m \<noteq> cs_wiki_id s then (False, s) else (True, apply_message m s))"

fun apply_many :: "'snap coordination_message list \<Rightarrow> coordination_state \<Rightarrow> nat \<times> coordination_state" where
  "apply_many [] s = (0, s)"
| "apply_many (m # ms) s =
     (let (ok, s') = coord_apply m s; (n, s'') = apply_many ms s'
      in ((if ok then 1 else 0) + n, s''))"

definition remove_presence :: "string \<Rightarrow> coordination_state \<Rightarrow> bool \<times> coordination_state" where
  "remove_presence actor s =
     (map_of (presence s) actor \<noteq> None, s\<lparr>presence := bt_remove actor (presence s)\<rparr>)"

text \<open>The observers \<open>claim_for\<close>, \<open>presence_for\<close>, \<open>race_resolution\<close> and \<open>summary\<close>.\<close>

definition claim_for :: "coordination_state \<Rightarrow> nat \<Rightarrow> edit_claim option" where
  "claim_for s rid = map_of (claims s) rid"

definition presence_for :: "coordination_state \<Rightarrow> string \<Rightarrow> presence_heartbeat option" where
  "presence_for s actor = map_of (presence s) actor"

definition presence_actors :: "coordination_state \<Rightarrow> string list" where
  "presence_actors s = bt_keys (presence s)"

definition flagged_edit_for :: "coordination_state \<Rightarrow> nat \<Rightarrow> flagged_edit option" where
  "flagged_edit_for s rid = map_of (flagged_edits s) rid"

definition score_delta_for :: "coordination_state \<Rightarrow> nat \<Rightarrow> score_delta option" where
  "score_delta_for s rid = map_of (score_deltas s) rid"

definition race_resolution_for :: "coordination_state \<Rightarrow> nat \<Rightarrow> race_resolution option" where
  "race_resolution_for s rid = map_of (race_resolutions s) rid"

record coordination_summary =
  sum_wiki_id :: string
  sum_claims :: "edit_claim list"
  sum_presence :: "presence_heartbeat list"
  sum_flagged_edits :: "flagged_edit list"
  sum_score_deltas :: "score_delta list"
  sum_race_resolutions :: "race_resolution list"
  sum_recent_actions :: "action_broadcast list"

definition summary :: "coordination_state \<Rightarrow> coordination_summary" where
  "summary s =
     \<lparr>sum_wiki_id = cs_wiki_id s, sum_claims = bt_values (claims s),
      sum_presence = bt_values (presence s), sum_flagged_edits = bt_values (flagged_edits s),
      sum_score_deltas = bt_values (score_deltas s),
      sum_race_resolutions = bt_values (race_resolutions s),
      sum_recent_actions = recent_actions s\<rparr>"

subsection \<open>Runs of messages\<close>

definition accepted_messages ::
  "string \<Rightarrow> 'snap coordination_message list \<Rightarrow> 'snap coordination_message list" where
  "accepted_messages w ms = filter (\<lambda>m. message_wiki_id m = w) ms"

definition room_after :: "string \<Rightarrow> 'snap coordination_message list \<Rightarrow> coordination_state" where
  "room_after w ms = snd (apply_many ms (new_state w))"

lemmas apply_defs = apply_edit_claim_def apply_presence_def apply_score_delta_def
  apply_race_resolution_def apply_action_def

lemma wiki_id_apply_message [simp]: "cs_wiki_id (apply_message m s) = cs_wiki_id s"
  by (cases m) (auto simp: apply_defs Let_def)

lemma wiki_id_coord_apply [simp]: "cs_wiki_id (snd (coord_apply m s)) = cs_wiki_id s"
  by (simp add: coord_apply_def)

lemma apply_many_fold:
  "snd (apply_many ms s) = fold apply_message (accepted_messages (cs_wiki_id s) ms) s"
  by (induction ms arbitrary: s)
    (auto simp: accepted_messages_def coord_apply_def split_def Let_def)

lemma apply_many_count:
  "fst (apply_many ms s) = length (accepted_messages (cs_wiki_id s) ms)"
  by (induction ms arbitrary: s)
    (auto simp: accepted_messages_def coord_apply_def split_def Let_def)

lemma room_after_fold: "room_after w ms = fold apply_message (accepted_messages w ms) (new_state w)"
  by (simp add: room_after_def apply_many_fold new_state_def)

lemma accepted_snoc:
  "accepted_messages w (ms @ [m]) =
     accepted_messages w ms @ (if message_wiki_id m = w then [m] else [])"
  by (simp add: accepted_messages_def)

lemma room_after_snoc:
  "room_after w (ms @ [m]) =
     (if message_wiki_id m = w then apply_message m (room_after w ms) else room_after w ms)"
  by (simp add: room_after_fold accepted_snoc)

lemma room_after_Nil [simp]: "room_after w [] = new_state w"
  by (simp add: room_after_def)

lemma wiki_id_room_after [simp]: "cs_wiki_id (room_after w ms) = w"
  by (induction ms rule: rev_induct) (auto simp: room_after_snoc new_state_def)

subsection \<open>The room invariant\<close>

text \<open>The value ranges Rust's types give a message: deltas and scores are \<open>i32\<close>.\<close>

fun message_typed :: "'snap coordination_message \<Rightarrow> bool" where
  "message_typed (ScoreDelta d) = in_i32 (sd_delta d)"
| "message_typed (FlaggedEdit f) = in_i32 (fe_score f)"
| "message_typed _ = True"

definition tables_wf :: "coordination_state \<Rightarrow> bool" where
  "tables_wf s \<longleftrightarrow> bt_wf (claims s) \<and> bt_wf (presence s) \<and> bt_wf (flagged_edits s) \<and>
     bt_wf (score_deltas s) \<and> bt_wf (race_resolutions s)"

definition entries_keyed :: "coordination_state \<Rightarrow> bool" where
  "entries_keyed s \<longleftrightarrow>
     entries_ok (\<lambda>k c. ec_rev_id c = k \<and> ec_wiki_id c = cs_wiki_id s) (claims s) \<and>
     entries_ok (\<lambda>k h. ph_actor h = k \<and> ph_wiki_id h = cs_wiki_id s \<and> ph_active_edit_count h \<noteq> 0)
       (presence s) \<and>
     entries_ok (\<lambda>k f. fe_rev_id f = k \<and> fe_wiki_id f = cs_wiki_id s \<and> in_i32 (fe_score f))
       (flagged_edits s) \<and>
     entries_ok (\<lambda>k d. sd_rev_id d = k \<and> sd_wiki_id d = cs_wiki_id s \<and> in_i32 (sd_delta d))
       (score_deltas s) \<and>
     entries_ok (\<lambda>k r. rr_rev_id r = k \<and> rr_wiki_id r = cs_wiki_id s) (race_resolutions s)"

definition races_decided :: "coordination_state \<Rightarrow> bool" where
  "races_decided s \<longleftrightarrow>
     entries_ok (\<lambda>k r. map_option ec_actor (map_of (claims s) k) = Some (rr_winning_actor r))
       (race_resolutions s)"

definition room_inv :: "coordination_state \<Rightarrow> bool" where
  "room_inv s \<longleftrightarrow> tables_wf s \<and> entries_keyed s \<and> races_decided s \<and>
     length (recent_actions s) \<le> recent_action_limit \<and>
     list_all (\<lambda>a. ab_wiki_id a = cs_wiki_id s) (recent_actions s)"

lemma tables_wf_apply: "tables_wf s \<Longrightarrow> tables_wf (apply_message m s)"
  by (cases m) (auto simp: tables_wf_def apply_defs Let_def split: option.splits)

lemma entries_keyed_apply:
  assumes "tables_wf s" "entries_keyed s" "message_typed m" "message_wiki_id m = cs_wiki_id s"
  shows "entries_keyed (apply_message m s)"
proof (cases m)
  case (ScoreDelta d)
  show ?thesis
  proof (cases "map_of (score_deltas s) (sd_rev_id d)")
    case None
    with assms ScoreDelta show ?thesis
      by (auto simp: entries_keyed_def apply_score_delta_def)
  next
    case (Some cur)
    then have "sd_rev_id cur = sd_rev_id d" "sd_wiki_id cur = cs_wiki_id s"
      using assms(2) by (auto simp: entries_keyed_def dest: entries_ok_lookup)
    with assms ScoreDelta Some show ?thesis
      by (auto simp: entries_keyed_def apply_score_delta_def merge_delta_def)
  qed
qed (use assms in \<open>auto simp: entries_keyed_def apply_defs Let_def split: option.splits\<close>)

lemma races_decided_apply:
  assumes "tables_wf s" "races_decided s"
  shows "races_decided (apply_message m s)"
proof -
  note lookup = entries_ok_lookup [OF assms(2) [unfolded races_decided_def]]
  have wf: "bt_wf (claims s)" "bt_wf (race_resolutions s)"
    using assms(1) by (simp_all add: tables_wf_def)
  show ?thesis
  proof (cases m)
    case (EditClaim c)
    then show ?thesis
      unfolding races_decided_def
      by (intro entries_okI) (use wf lookup in \<open>auto simp: apply_defs split: option.splits if_splits\<close>)
  next
    case (RaceResolution r)
    then show ?thesis
      unfolding races_decided_def
      by (intro entries_okI) (use wf lookup in \<open>auto simp: apply_defs split: if_splits\<close>)
  qed (use assms in \<open>auto simp: races_decided_def apply_defs Let_def\<close>)
qed

lemma recent_actions_apply:
  "recent_actions (apply_message m s) =
     (case m of
        ActionBroadcast a \<Rightarrow>
          last_n recent_action_limit (recent_actions s @ [a])
      | _ \<Rightarrow> recent_actions s)"
  by (cases m) (auto simp: apply_defs last_n_def Let_def)

lemma room_inv_apply:
  assumes "room_inv s" "message_typed m" "message_wiki_id m = cs_wiki_id s"
  shows "room_inv (apply_message m s)"
  using assms
  by (auto simp: room_inv_def tables_wf_apply entries_keyed_apply races_decided_apply
      recent_actions_apply list_all_iff split: coordination_message.split dest!: in_set_last_n)

lemma room_inv_coord_apply:
  "room_inv s \<Longrightarrow> message_typed m \<Longrightarrow> room_inv (snd (coord_apply m s))"
  by (simp add: coord_apply_def room_inv_apply)

lemma room_inv_new [simp]: "room_inv (new_state w)"
  by (simp add: room_inv_def new_state_def tables_wf_def entries_keyed_def races_decided_def)

lemma room_inv_room_after: "list_all message_typed ms \<Longrightarrow> room_inv (room_after w ms)"
  by (induction ms rule: rev_induct) (auto simp: room_after_snoc room_inv_apply)

lemma tables_wf_room_after [simp]: "tables_wf (room_after w ms)"
  by (induction ms rule: rev_induct)
    (auto simp: room_after_snoc tables_wf_apply, simp add: tables_wf_def new_state_def)

lemma room_inv_remove_presence: "room_inv s \<Longrightarrow> room_inv (snd (remove_presence actor s))"
  by (auto simp: room_inv_def remove_presence_def tables_wf_def entries_keyed_def races_decided_def)

subsection \<open>Reference reading of a history\<close>

text \<open>
  What the tables of a room say, read directly off the accepted history: the names of those who
  claimed or won a revision, the deltas and reasons given for it, the actions broadcast.
\<close>

definition race_winners :: "nat \<Rightarrow> 'snap coordination_message list \<Rightarrow> string list" where
  "race_winners rid ms =
     concat (map (\<lambda>m. case m of RaceResolution r \<Rightarrow>
       if rr_rev_id r = rid then [rr_winning_actor r] else [] | _ \<Rightarrow> []) ms)"

definition claimants :: "nat \<Rightarrow> 'snap coordination_message list \<Rightarrow> string list" where
  "claimants rid ms =
     concat (map (\<lambda>m. case m of EditClaim c \<Rightarrow>
       if ec_rev_id c = rid then [ec_actor c] else [] | _ \<Rightarrow> []) ms)"

definition deltas_for :: "nat \<Rightarrow> 'snap coordination_message list \<Rightarrow> score_delta list" where
  "deltas_for rid ms =
     concat (map (\<lambda>m. case m of ScoreDelta d \<Rightarrow> if sd_rev_id d = rid then [d] else [] | _ \<Rightarrow> []) ms)"

definition actions_of :: "'snap coordination_message list \<Rightarrow> action_broadcast list" where
  "actions_of ms = concat (map (\<lambda>m. case m of ActionBroadcast a \<Rightarrow> [a] | _ \<Rightarrow> []) ms)"

text \<open>The last race decides; before any race, the last claim.\<close>

definition claim_holder :: "nat \<Rightarrow> 'snap coordination_message list \<Rightarrow> string option" where
  "claim_holder rid ms =
     (if race_winners rid ms \<noteq> [] then Some (last (race_winners rid ms))
      else if claimants rid ms \<noteq> [] then Some (last (claimants rid ms))
      else None)"

lemmas history_defs = race_winners_def claimants_def deltas_for_def actions_of_def

lemma history_Nil [simp]:
  "race_winners rid [] = []" "claimants rid [] = []" "deltas_for rid [] = []" "actions_of [] = []"
  by (simp_all add: history_defs)

lemma history_append [simp]:
  "race_winners rid (ms @ ns) = race_winners rid ms @ race_winners rid ns"
  "claimants rid (ms @ ns) = claimants rid ms @ claimants rid ns"
  "deltas_for rid (ms @ ns) = deltas_for rid ms @ deltas_for rid ns"
  "actions_of (ms @ ns) = actions_of ms @ actions_of ns"
  by (simp_all add: history_defs)

lemma wf_claims [simp]: "bt_wf (claims (room_after w ms))"
  and wf_races [simp]: "bt_wf (race_resolutions (room_after w ms))"
  and wf_deltas [simp]: "bt_wf (score_deltas (room_after w ms))"
  using tables_wf_room_after [of w ms] unfolding tables_wf_def by blast+

lemma history_single:
  "race_winners rid [m] = (case m of RaceResolution r \<Rightarrow>
     if rr_rev_id r = rid then [rr_winning_actor r] else [] | _ \<Rightarrow> [])"
  "claimants rid [m] = (case m of EditClaim c \<Rightarrow>
     if ec_rev_id c = rid then [ec_actor c] else [] | _ \<Rightarrow> [])"
  "deltas_for rid [m] = (case m of ScoreDelta d \<Rightarrow> if sd_rev_id d = rid then [d] else [] | _ \<Rightarrow> [])"
  "actions_of [m] = (case m of ActionBroadcast a \<Rightarrow> [a] | _ \<Rightarrow> [])"
  by (simp_all add: history_defs)

definition race_winner :: "coordination_state \<Rightarrow> nat \<Rightarrow> string option" where
  "race_winner s rid = map_option rr_winning_actor (race_resolution_for s rid)"

definition claimed_by :: "coordination_state \<Rightarrow> nat \<Rightarrow> string option" where
  "claimed_by s rid = map_option ec_actor (claim_for s rid)"

lemma race_winner_apply:
  "bt_wf (race_resolutions s) \<Longrightarrow> race_winner (apply_message m s) rid =
     (case m of
        RaceResolution r \<Rightarrow>
          if rr_rev_id r = rid then Some (rr_winning_actor r) else race_winner s rid
      | _ \<Rightarrow> race_winner s rid)"
  by (cases m) (auto simp: race_winner_def race_resolution_for_def apply_defs Let_def)

lemma claimed_by_apply:
  "bt_wf (claims s) \<Longrightarrow> claimed_by (apply_message m s) rid =
     (case m of
        EditClaim c \<Rightarrow>
          if ec_rev_id c = rid \<and> race_winner s rid \<in> {None, Some (ec_actor c)}
          then Some (ec_actor c) else claimed_by s rid
      | RaceResolution r \<Rightarrow>
          if rr_rev_id r = rid then Some (rr_winning_actor r) else claimed_by s rid
      | _ \<Rightarrow> claimed_by s rid)"
  by (cases m)
    (auto simp: race_winner_def race_resolution_for_def claimed_by_def claim_for_def apply_defs Let_def
      split: option.splits)

lemma observers_new [simp]: "race_winner (new_state w) rid = None" "claimed_by (new_state w) rid = None"
  by (simp_all add: race_winner_def race_resolution_for_def claimed_by_def claim_for_def new_state_def)

text \<open>A stored race resolution is the last one, and none is stored before the first.\<close>

lemma race_winner_room_after:
  "race_winner (room_after w ms) rid =
     (if race_winners rid (accepted_messages w ms) = [] then None
      else Some (last (race_winners rid (accepted_messages w ms))))"
proof (induction ms rule: rev_induct)
  case Nil
  show ?case by (simp add: accepted_messages_def)
next
  case (snoc m ms)
  then show ?case
    by (auto simp: room_after_snoc accepted_snoc race_winner_apply history_single
        split: coordination_message.splits)
qed

text \<open>
  C2. Claim arbitration: whoever the room shows as holding a revision is the winner of the last
  race resolution accepted for it, whatever was claimed later, and the last claimant when no race
  was resolved; messages of other wikis have no say.
\<close>

theorem claim_arbitration:
  "claimed_by (room_after w ms) rid = claim_holder rid (accepted_messages w ms)"
proof (induction ms rule: rev_induct)
  case Nil
  show ?case by (simp add: claim_holder_def accepted_messages_def)
next
  case (snoc m ms)
  then show ?case
    by (auto simp: room_after_snoc accepted_snoc claimed_by_apply race_winner_room_after
        claim_holder_def history_single split: coordination_message.splits)
qed

text \<open>
  C9. Room invariant: after any history of well-typed messages every table is keyed and ordered by
  its own revision or actor, holds this wiki's entries only, presence entries are active, stored
  scores and deltas fit \<open>i32\<close>, every resolved race is reflected by a claim of its winner, and
  at most 25 actions are kept.
\<close>

theorem room_invariant:
  assumes "list_all message_typed ms"
  shows "room_inv (room_after w ms)"
  using assms by (rule room_inv_room_after)

theorem room_invariant_witness:
  "room_inv (room_after ''frwiki''
     [EditClaim \<lparr>ec_wiki_id = ''frwiki'', ec_rev_id = 7, ec_actor = ''Alice''\<rparr>,
      RaceResolution \<lparr>rr_wiki_id = ''frwiki'', rr_rev_id = 7, rr_winning_actor = ''Bob''\<rparr>,
      ScoreDelta \<lparr>sd_wiki_id = ''frwiki'', sd_rev_id = 7, sd_delta = 5, sd_reason = ''x''\<rparr>])"
  by (rule room_invariant) (simp add: in_i32_def)

subsection \<open>Aggregates, windows and redelivery\<close>

lemma score_delta_for_apply:
  "bt_wf (score_deltas s) \<Longrightarrow> score_delta_for (apply_message m s) rid =
     (case m of
        ScoreDelta d \<Rightarrow>
          if sd_rev_id d = rid
          then Some (case score_delta_for s rid of None \<Rightarrow> d | Some cur \<Rightarrow> merge_delta cur d)
          else score_delta_for s rid
      | _ \<Rightarrow> score_delta_for s rid)"
  by (cases m) (auto simp: score_delta_for_def apply_defs Let_def split: option.splits)

fun merge_deltas :: "score_delta list \<Rightarrow> score_delta option" where
  "merge_deltas [] = None"
| "merge_deltas (d # ds) = Some (foldl merge_delta d ds)"

lemma merge_deltas_snoc:
  "merge_deltas (ds @ [d]) =
     Some (case merge_deltas ds of None \<Rightarrow> d | Some cur \<Rightarrow> merge_delta cur d)"
  by (cases ds) auto

lemma score_delta_room_after:
  "score_delta_for (room_after w ms) rid = merge_deltas (deltas_for rid (accepted_messages w ms))"
proof (induction ms rule: rev_induct)
  case Nil
  show ?case by (simp add: accepted_messages_def score_delta_for_def new_state_def)
next
  case (snoc m ms)
  then show ?case
    by (auto simp: room_after_snoc accepted_snoc score_delta_for_apply history_single
        merge_deltas_snoc split: coordination_message.splits)
qed

lemma merge_delta_reason:
  "sd_reason (foldl merge_delta d ds) = str_join '' | '' (map sd_reason (d # ds))"
  by (induction ds rule: rev_induct) (simp_all add: merge_delta_def str_join_Cons_snoc)

fun running_totals :: "int \<Rightarrow> int list \<Rightarrow> int list" where
  "running_totals a [] = [a]"
| "running_totals a (x # xs) = a # running_totals (a + x) xs"

lemma merge_delta_sum:
  "list_all in_i32 (running_totals (sd_delta d) (map sd_delta ds)) \<Longrightarrow>
     sd_delta (foldl merge_delta d ds) = sd_delta d + sum_list (map sd_delta ds)"
proof (induction ds arbitrary: d)
  case (Cons x xs)
  have "in_i32 (sd_delta d + sd_delta x)"
    using Cons.prems by (cases xs) auto
  then have "sd_delta (merge_delta d x) = sd_delta d + sd_delta x"
    by (simp add: merge_delta_def sat_i32_id)
  then show ?case
    using Cons.IH [of "merge_delta d x"] Cons.prems by simp
qed simp

text \<open>
  Score aggregation: the stored adjustment of a revision carries the reasons of all accepted
  deltas for it in order, joined by a bar, and, as long as no running total leaves \<open>i32\<close>, their
  exact sum.
\<close>

theorem score_delta_aggregation:
  assumes "deltas_for rid (accepted_messages w ms) = d # ds"
    and "list_all in_i32 (running_totals (sd_delta d) (map sd_delta ds))"
  shows "\<exists>stored. score_delta_for (room_after w ms) rid = Some stored \<and>
     sd_delta stored = sum_list (map sd_delta (d # ds)) \<and>
     sd_reason stored = str_join '' | '' (map sd_reason (d # ds))"
  using assms by (simp add: score_delta_room_after merge_delta_sum merge_delta_reason)

theorem score_delta_aggregation_witness:
  "\<exists>stored. score_delta_for (room_after ''frwiki''
       [ScoreDelta \<lparr>sd_wiki_id = ''frwiki'', sd_rev_id = 456, sd_delta = 5, sd_reason = ''warning''\<rparr>,
        ScoreDelta \<lparr>sd_wiki_id = ''enwiki'', sd_rev_id = 456, sd_delta = 9, sd_reason = ''other''\<rparr>,
        ScoreDelta \<lparr>sd_wiki_id = ''frwiki'', sd_rev_id = 456, sd_delta = 3, sd_reason = ''liftwing''\<rparr>])
       456 = Some stored \<and>
     sd_delta stored = 8 \<and> sd_reason stored = ''warning | liftwing''"
  (is "\<exists>stored. score_delta_for (room_after _ ?ms) _ = _ \<and> _")
proof -
  let ?d = "\<lparr>sd_wiki_id = ''frwiki'', sd_rev_id = 456, sd_delta = 5, sd_reason = ''warning''\<rparr>"
  let ?e = "\<lparr>sd_wiki_id = ''frwiki'', sd_rev_id = 456, sd_delta = 3, sd_reason = ''liftwing''\<rparr>"
  have "deltas_for 456 (accepted_messages ''frwiki'' ?ms) = [?d, ?e]"
    by (simp add: deltas_for_def accepted_messages_def)
  from score_delta_aggregation [OF this] show ?thesis
    by (simp add: in_i32_def)
qed

text \<open>
  The action window: the actions a room shows are the last 25 accepted broadcasts, in the order
  they were accepted.
\<close>

theorem recent_actions_window:
  "recent_actions (room_after w ms) =
     last_n recent_action_limit (actions_of (accepted_messages w ms))"
proof (induction ms rule: rev_induct)
  case Nil
  show ?case by (simp add: accepted_messages_def new_state_def)
next
  case (snoc m ms)
  then show ?case
    by (auto simp: room_after_snoc accepted_snoc recent_actions_apply history_single
        last_n_append split: coordination_message.splits)
qed

fun redelivery_safe :: "'snap coordination_message \<Rightarrow> bool" where
  "redelivery_safe (ScoreDelta d) = False"
| "redelivery_safe (ActionBroadcast a) = False"
| "redelivery_safe _ = True"

text \<open>
  Redelivery: applying a claim, heartbeat, flag, race resolution or review signal a second time
  leaves the room as the first time did, so at-least-once transport is safe for every kind but score
  deltas and action broadcasts.
\<close>

theorem redelivery_idempotent:
  assumes "redelivery_safe m" "tables_wf s"
  shows "snd (coord_apply m (snd (coord_apply m s))) = snd (coord_apply m s)"
  using assms
  by (cases m)
    (auto simp: coord_apply_def apply_defs tables_wf_def bt_insert_twice bt_remove_twice
      split: option.splits)

theorem redelivery_idempotent_witness:
  "let c = EditClaim \<lparr>ec_wiki_id = ''frwiki'', ec_rev_id = 3, ec_actor = ''Ana''\<rparr>; s = new_state ''frwiki''
   in snd (coord_apply c (snd (coord_apply c s))) = snd (coord_apply c s)"
  unfolding Let_def by (rule redelivery_idempotent) (simp_all add: new_state_def tables_wf_def)

end
