(* ===== verification/Coordination_Registry.thy ===== *)
theory Coordination_Registry
  imports Coordination_State
begin

section \<open>The coordination rooms of the server\<close>

text \<open>
  \<open>crates/sp42-server/src/coordination.rs\<close>: the registry of rooms, one per wiki id, each with its
  reducer state, the last-seen times of its actors, its client count and its message counters, and
  the socket-side rewriting of payloads in \<open>crates/sp42-server/src/main.rs\<close>.

  Every operation takes the registry's write lock for its whole body, so it is one step here;
  \<open>publish\<close> first looks up the sender (\<open>room_sender\<close>) under a read lock, creates the room under
  a write lock of its own when the lookup missed, and then publishes under a third, so it is up to three
  steps and other operations may run between them. Each step carries the clock value it reads, an
  \<open>i64\<close> of milliseconds; clocks of different steps are unrelated. The MessagePack codec is a
  library outside the repository: it is the parameter \<open>dec\<close> (and \<open>enc\<close>). The broadcast
  channel is a library too: a step returns the envelope it hands to the channel.
\<close>

type_synonym bytes = "8 word list"

abbreviation presence_stale_after_ms :: int where "presence_stale_after_ms \<equiv> 60000"
abbreviation room_idle_evict_after_ms :: int where "room_idle_evict_after_ms \<equiv> 300000"

record envelope =
  env_sender_id :: nat
  env_payload :: bytes

record room =
  room_state :: coordination_state
  presence_last_seen :: "(string \<times> int) list"
  connected_clients :: nat
  published_count :: nat
  accepted_count :: nat
  invalid_count :: nat
  last_activity :: "int option"

type_synonym rooms = "(string \<times> room) list"

type_synonym 'snap decoder = "bytes \<Rightarrow> 'snap coordination_message option"

definition new_room_state :: "string \<Rightarrow> room" where
  "new_room_state wiki =
     \<lparr>room_state = new_state wiki, presence_last_seen = [], connected_clients = 0,
      published_count = 0, accepted_count = 0, invalid_count = 0, last_activity = None\<rparr>"

subsection \<open>Expiry\<close>

definition room_is_stale :: "room \<Rightarrow> int \<Rightarrow> bool" where
  "room_is_stale r now =
     (if connected_clients r \<noteq> 0 then False
      else (case last_activity r of
              None \<Rightarrow> False
            | Some t \<Rightarrow> room_idle_evict_after_ms \<le> sat_i64 (now - t)))"

definition prune_inactive_rooms :: "int \<Rightarrow> rooms \<Rightarrow> rooms" where
  "prune_inactive_rooms now rooms = hm_retain (\<lambda>_ r. \<not> room_is_stale r now) rooms"

definition stale_actors :: "room \<Rightarrow> int \<Rightarrow> string list" where
  "stale_actors r now =
     map fst (filter (\<lambda>(_, t). presence_stale_after_ms \<le> sat_i64 (now - t)) (presence_last_seen r))"

definition forget_actor :: "string \<Rightarrow> room \<Rightarrow> room" where
  "forget_actor actor r =
     r\<lparr>presence_last_seen := AList.delete actor (presence_last_seen r),
       room_state := snd (remove_presence actor (room_state r))\<rparr>"

definition prune_stale_presence :: "int \<Rightarrow> room \<Rightarrow> room" where
  "prune_stale_presence now r = fold forget_actor (stale_actors r now) r"

fun track_presence_heartbeat :: "'snap coordination_message \<Rightarrow> int \<Rightarrow> room \<Rightarrow> room" where
  "track_presence_heartbeat (PresenceHeartbeat h) now r =
     (if ph_active_edit_count h = 0
      then r\<lparr>presence_last_seen := AList.delete (ph_actor h) (presence_last_seen r)\<rparr>
      else r\<lparr>presence_last_seen := AList.update (ph_actor h) now (presence_last_seen r)\<rparr>)"
| "track_presence_heartbeat _ now r = r"

subsection \<open>Operations of the registry\<close>

definition create_room :: "string \<Rightarrow> int \<Rightarrow> rooms \<Rightarrow> rooms" where
  "create_room wiki now rooms =
     (let rooms' = prune_inactive_rooms now rooms
      in (case map_of rooms' wiki of
            Some _ \<Rightarrow> rooms'
          | None \<Rightarrow> AList.update wiki (new_room_state wiki) rooms'))"

text \<open>The read lock first; the write lock when the room was not there, and nothing ran in between.\<close>

definition room_sender :: "string \<Rightarrow> int \<Rightarrow> rooms \<Rightarrow> rooms" where
  "room_sender wiki now rooms =
     (if map_of rooms wiki \<noteq> None then rooms else create_room wiki now rooms)"

text \<open>What a room does with a decoded message at time \<open>now\<close>.\<close>

definition room_accept :: "'snap coordination_message \<Rightarrow> int \<Rightarrow> room \<Rightarrow> room" where
  "room_accept m now r =
     (let r1 = track_presence_heartbeat m now (r\<lparr>accepted_count := sat_u64 (Suc (accepted_count r))\<rparr>);
          r2 = r1\<lparr>room_state := snd (coord_apply m (room_state r1))\<rparr>
      in prune_stale_presence now r2)"

definition room_publish :: "'snap decoder \<Rightarrow> envelope \<Rightarrow> int \<Rightarrow> room \<Rightarrow> bool \<times> room" where
  "room_publish dec env now r =
     (let r1 = r\<lparr>published_count := sat_u64 (Suc (published_count r)), last_activity := Some now\<rparr>
      in (case dec (env_payload env) of
            Some m \<Rightarrow> (True, room_accept m now r1)
          | None \<Rightarrow> (False, r1\<lparr>invalid_count := sat_u64 (Suc (invalid_count r1))\<rparr>)))"

definition publish_locked ::
  "'snap decoder \<Rightarrow> string \<Rightarrow> envelope \<Rightarrow> int \<Rightarrow> rooms \<Rightarrow> envelope option \<times> rooms" where
  "publish_locked dec wiki env now rooms =
     (let rooms' = prune_inactive_rooms now rooms
      in (case map_of rooms' wiki of
            None \<Rightarrow> (None, rooms')
          | Some r \<Rightarrow>
              (let (decoded, r') = room_publish dec env now r
               in (if decoded then Some env else None, AList.update wiki r' rooms'))))"

definition publish ::
  "'snap decoder \<Rightarrow> string \<Rightarrow> envelope \<Rightarrow> int \<Rightarrow> int \<Rightarrow> rooms \<Rightarrow> envelope option \<times> rooms" where
  "publish dec wiki env now1 now2 rooms =
     publish_locked dec wiki env now2 (room_sender wiki now1 rooms)"

definition connect_client :: "string \<Rightarrow> int \<Rightarrow> rooms \<Rightarrow> rooms" where
  "connect_client wiki now rooms =
     (let rooms' = prune_inactive_rooms now rooms;
          r = (case map_of rooms' wiki of Some r \<Rightarrow> r | None \<Rightarrow> new_room_state wiki)
      in AList.update wiki
           (prune_stale_presence now
             (r\<lparr>connected_clients := sat_u32 (Suc (connected_clients r)), last_activity := Some now\<rparr>))
           rooms')"

definition disconnect_client :: "string \<Rightarrow> int \<Rightarrow> rooms \<Rightarrow> rooms" where
  "disconnect_client wiki now rooms =
     (let rooms' = prune_inactive_rooms now rooms
      in (case map_of rooms' wiki of
            None \<Rightarrow> rooms'
          | Some r \<Rightarrow>
              (let r' = prune_stale_presence now
                   (r\<lparr>connected_clients := connected_clients r - 1, last_activity := Some now\<rparr>)
               in (if connected_clients r' = 0 \<and> published_count r' = 0 \<and>
                      accepted_count r' = 0 \<and> invalid_count r' = 0
                   then AList.delete wiki rooms'
                   else AList.update wiki r' rooms'))))"

subsection \<open>Queries: they prune as they read\<close>

record room_summary =
  rsum_wiki_id :: string
  rsum_connected_clients :: nat
  rsum_published_messages :: nat
  rsum_claim_count :: nat
  rsum_presence_count :: nat
  rsum_flagged_edit_count :: nat
  rsum_score_delta_count :: nat
  rsum_race_resolution_count :: nat
  rsum_recent_action_count :: nat

record room_metrics =
  met_last_activity_ms :: "int option"
  met_published_messages :: nat
  met_accepted_messages :: nat
  met_invalid_messages :: nat

record room_inspection =
  ins_room :: room_summary
  ins_state :: "coordination_summary option"
  ins_metrics :: room_metrics

definition summarize_room :: "string \<Rightarrow> room \<Rightarrow> room_summary" where
  "summarize_room wiki r =
     (let s = summary (room_state r)
      in \<lparr>rsum_wiki_id = wiki, rsum_connected_clients = connected_clients r,
          rsum_published_messages = published_count r,
          rsum_claim_count = length (sum_claims s),
          rsum_presence_count = length (sum_presence s),
          rsum_flagged_edit_count = length (sum_flagged_edits s),
          rsum_score_delta_count = length (sum_score_deltas s),
          rsum_race_resolution_count = length (sum_race_resolutions s),
          rsum_recent_action_count = length (sum_recent_actions s)\<rparr>)"

definition inspect_room :: "string \<Rightarrow> room \<Rightarrow> room_inspection" where
  "inspect_room wiki r =
     \<lparr>ins_room = summarize_room wiki r, ins_state = Some (summary (room_state r)),
      ins_metrics = \<lparr>met_last_activity_ms = last_activity r,
        met_published_messages = published_count r, met_accepted_messages = accepted_count r,
        met_invalid_messages = invalid_count r\<rparr>\<rparr>"

text \<open>The pruning shared by the queries over all rooms and over one room.\<close>

definition prune_all :: "int \<Rightarrow> rooms \<Rightarrow> rooms" where
  "prune_all now rooms = hm_map_values (prune_stale_presence now) (prune_inactive_rooms now rooms)"

definition prune_for :: "string \<Rightarrow> int \<Rightarrow> rooms \<Rightarrow> rooms" where
  "prune_for wiki now rooms =
     (let rooms' = prune_inactive_rooms now rooms
      in (case map_of rooms' wiki of
            None \<Rightarrow> rooms'
          | Some r \<Rightarrow> AList.update wiki (prune_stale_presence now r) rooms'))"

definition snapshot :: "int \<Rightarrow> rooms \<Rightarrow> room_summary list \<times> rooms" where
  "snapshot now rooms =
     (let rooms' = prune_all now rooms
      in (sort_key rsum_wiki_id (map (\<lambda>(w, r). summarize_room w r) rooms'), rooms'))"

definition room_inspections :: "int \<Rightarrow> rooms \<Rightarrow> room_inspection list \<times> rooms" where
  "room_inspections now rooms =
     (let rooms' = prune_all now rooms
      in (sort_key (\<lambda>i. rsum_wiki_id (ins_room i)) (map (\<lambda>(w, r). inspect_room w r) rooms'), rooms'))"

definition room_state_summary :: "string \<Rightarrow> int \<Rightarrow> rooms \<Rightarrow> coordination_summary option \<times> rooms" where
  "room_state_summary wiki now rooms =
     (let rooms' = prune_for wiki now rooms
      in (map_option (\<lambda>r. summary (room_state r)) (map_of rooms' wiki), rooms'))"

definition room_inspection_of :: "string \<Rightarrow> int \<Rightarrow> rooms \<Rightarrow> room_inspection option \<times> rooms" where
  "room_inspection_of wiki now rooms =
     (let rooms' = prune_for wiki now rooms
      in (map_option (inspect_room wiki) (map_of rooms' wiki), rooms'))"

subsection \<open>Payload rewriting at the socket\<close>

fun rewrite_actor :: "string \<Rightarrow> 'snap coordination_message \<Rightarrow> 'snap coordination_message" where
  "rewrite_actor who (ActionBroadcast a) = ActionBroadcast (a\<lparr>ab_actor := who\<rparr>)"
| "rewrite_actor who (EditClaim c) = EditClaim (c\<lparr>ec_actor := who\<rparr>)"
| "rewrite_actor who (PresenceHeartbeat h) = PresenceHeartbeat (h\<lparr>ph_actor := who\<rparr>)"
| "rewrite_actor who (RaceResolution r) = RaceResolution (r\<lparr>rr_winning_actor := who\<rparr>)"
| "rewrite_actor who m = m"

definition sanitize_payload ::
  "'snap decoder \<Rightarrow> ('snap coordination_message \<Rightarrow> bytes option) \<Rightarrow> bytes \<Rightarrow> string option \<Rightarrow> bytes" where
  "sanitize_payload dec enc payload actor =
     (case actor of
        None \<Rightarrow> payload
      | Some who \<Rightarrow>
          (case dec payload of
             None \<Rightarrow> payload
           | Some m \<Rightarrow>
               (case enc (rewrite_actor who m) of None \<Rightarrow> payload | Some bytes \<Rightarrow> bytes)))"

subsection \<open>Interleaved steps\<close>

text \<open>
  One step is one critical section; a publication is \<open>LookUpSender\<close>, which only reads, then
  \<open>CreateRoom\<close> when the lookup missed, and then \<open>PublishLocked\<close>. A \<open>CreateRoom\<close> may find that the
  room came to be since the lookup. A subscription is the first one or two of these, and the four queries are \<open>QueryAll\<close> and \<open>QueryRoom\<close>.
\<close>

datatype registry_step =
    LookUpSender string int
  | CreateRoom string int
  | PublishLocked string envelope int
  | Connect string int
  | Disconnect string int
  | QueryAll int
  | QueryRoom string int

fun registry_apply :: "'snap decoder \<Rightarrow> registry_step \<Rightarrow> rooms \<Rightarrow> rooms" where
  "registry_apply dec (LookUpSender w now) rooms = rooms"
| "registry_apply dec (CreateRoom w now) rooms = create_room w now rooms"
| "registry_apply dec (PublishLocked w env now) rooms = snd (publish_locked dec w env now rooms)"
| "registry_apply dec (Connect w now) rooms = connect_client w now rooms"
| "registry_apply dec (Disconnect w now) rooms = disconnect_client w now rooms"
| "registry_apply dec (QueryAll now) rooms = prune_all now rooms"
| "registry_apply dec (QueryRoom w now) rooms = prune_for w now rooms"

inductive registry_reachable :: "'snap decoder \<Rightarrow> rooms \<Rightarrow> bool" for dec where
  start: "registry_reachable dec []"
| step: "registry_reachable dec rooms \<Longrightarrow> registry_reachable dec (registry_apply dec st rooms)"

subsection \<open>What pruning does\<close>

lemma forget_fields [simp]:
  "connected_clients (forget_actor a r) = connected_clients r"
  "published_count (forget_actor a r) = published_count r"
  "accepted_count (forget_actor a r) = accepted_count r"
  "invalid_count (forget_actor a r) = invalid_count r"
  "last_activity (forget_actor a r) = last_activity r"
  "cs_wiki_id (room_state (forget_actor a r)) = cs_wiki_id (room_state r)"
  "claims (room_state (forget_actor a r)) = claims (room_state r)"
  by (simp_all add: forget_actor_def remove_presence_def)

lemma fold_forget_fields [simp]:
  "connected_clients (fold forget_actor as r) = connected_clients r"
  "published_count (fold forget_actor as r) = published_count r"
  "accepted_count (fold forget_actor as r) = accepted_count r"
  "invalid_count (fold forget_actor as r) = invalid_count r"
  "last_activity (fold forget_actor as r) = last_activity r"
  "cs_wiki_id (room_state (fold forget_actor as r)) = cs_wiki_id (room_state r)"
  "claims (room_state (fold forget_actor as r)) = claims (room_state r)"
  by (induction as arbitrary: r) auto

lemma prune_fields [simp]:
  "connected_clients (prune_stale_presence now r) = connected_clients r"
  "published_count (prune_stale_presence now r) = published_count r"
  "accepted_count (prune_stale_presence now r) = accepted_count r"
  "invalid_count (prune_stale_presence now r) = invalid_count r"
  "last_activity (prune_stale_presence now r) = last_activity r"
  "cs_wiki_id (room_state (prune_stale_presence now r)) = cs_wiki_id (room_state r)"
  "claims (room_state (prune_stale_presence now r)) = claims (room_state r)"
  by (simp_all add: prune_stale_presence_def)

lemma fold_forget_last_seen:
  "map_of (presence_last_seen (fold forget_actor as r)) a =
     (if a \<in> set as then None else map_of (presence_last_seen r) a)"
  by (induction as arbitrary: r) (auto simp: forget_actor_def delete_conv')

lemma fold_forget_presence:
  "presence_for (room_state (fold forget_actor as r)) a =
     (if a \<in> set as then None else presence_for (room_state r) a)"
  by (induction as arbitrary: r)
    (auto simp: forget_actor_def remove_presence_def presence_for_def map_of_bt_remove)

lemma fold_forget_wf [simp]:
  "hm_wf (presence_last_seen r) \<Longrightarrow> hm_wf (presence_last_seen (fold forget_actor as r))"
  by (induction as arbitrary: r) (auto simp: forget_actor_def)

lemma fold_forget_room_inv:
  "room_inv (room_state r) \<Longrightarrow> room_inv (room_state (fold forget_actor as r))"
  by (induction as arbitrary: r) (auto simp: forget_actor_def room_inv_remove_presence)

definition presence_expired :: "int \<Rightarrow> int option \<Rightarrow> bool" where
  "presence_expired now seen =
     (case seen of None \<Rightarrow> False | Some t \<Rightarrow> presence_stale_after_ms \<le> sat_i64 (now - t))"

lemma stale_actors_set:
  "set (stale_actors r now) =
     {a. \<exists>t. (a, t) \<in> set (presence_last_seen r) \<and> presence_expired now (Some t)}"
  unfolding stale_actors_def presence_expired_def set_map set_filter
  by (simp add: set_eq_iff image_iff)

lemma stale_actors_iff:
  assumes "hm_wf (presence_last_seen r)"
  shows "a \<in> set (stale_actors r now) \<longleftrightarrow> presence_expired now (map_of (presence_last_seen r) a)"
proof (cases "map_of (presence_last_seen r) a")
  case None
  then have "\<And>t. (a, t) \<notin> set (presence_last_seen r)"
    by (metis map_of_eq_None_iff fst_conv image_eqI list.set_map)
  with None show ?thesis
    by (simp add: stale_actors_set presence_expired_def)
next
  case (Some t)
  then have "\<And>t'. (a, t') \<in> set (presence_last_seen r) \<longleftrightarrow> t' = t"
    using assms by (auto simp: hm_mem_iff)
  with Some show ?thesis
    by (simp add: stale_actors_set)
qed

lemma prune_last_seen:
  "hm_wf (presence_last_seen r) \<Longrightarrow>
     map_of (presence_last_seen (prune_stale_presence now r)) a =
       (if presence_expired now (map_of (presence_last_seen r) a) then None
        else map_of (presence_last_seen r) a)"
  by (simp add: prune_stale_presence_def fold_forget_last_seen stale_actors_iff)

lemma prune_presence:
  "hm_wf (presence_last_seen r) \<Longrightarrow>
     presence_for (room_state (prune_stale_presence now r)) a =
       (if presence_expired now (map_of (presence_last_seen r) a) then None
        else presence_for (room_state r) a)"
  by (simp add: prune_stale_presence_def fold_forget_presence stale_actors_iff)

subsection \<open>The registry invariant\<close>

definition room_ok :: "string \<Rightarrow> room \<Rightarrow> bool" where
  "room_ok w r \<longleftrightarrow>
     cs_wiki_id (room_state r) = w \<and> room_inv (room_state r) \<and> hm_wf (presence_last_seen r) \<and>
     connected_clients r \<le> u32_max \<and>
     published_count r = sat_u64 (accepted_count r + invalid_count r)"

definition registry_inv :: "rooms \<Rightarrow> bool" where
  "registry_inv rooms \<longleftrightarrow> hm_wf rooms \<and> entries_ok room_ok rooms"

definition decodes_typed :: "'snap decoder \<Rightarrow> bool" where
  "decodes_typed dec \<longleftrightarrow> (\<forall>bs m. dec bs = Some m \<longrightarrow> message_typed m)"

lemma room_ok_new [simp]: "room_ok w (new_room_state w)"
  by (simp add: room_ok_def new_room_state_def sat_u64_def)

lemma prune_room_inv [simp]:
  "room_inv (room_state r) \<Longrightarrow> room_inv (room_state (prune_stale_presence now r))"
  by (simp add: prune_stale_presence_def fold_forget_room_inv)

lemma prune_wf [simp]:
  "hm_wf (presence_last_seen r) \<Longrightarrow> hm_wf (presence_last_seen (prune_stale_presence now r))"
  by (simp add: prune_stale_presence_def)

lemma room_ok_prune [simp]: "room_ok w r \<Longrightarrow> room_ok w (prune_stale_presence now r)"
  by (simp add: room_ok_def)

lemma track_fields [simp]:
  "room_state (track_presence_heartbeat m now r) = room_state r"
  "connected_clients (track_presence_heartbeat m now r) = connected_clients r"
  "published_count (track_presence_heartbeat m now r) = published_count r"
  "accepted_count (track_presence_heartbeat m now r) = accepted_count r"
  "invalid_count (track_presence_heartbeat m now r) = invalid_count r"
  "last_activity (track_presence_heartbeat m now r) = last_activity r"
  by (cases m; simp)+

lemma track_wf [simp]:
  "hm_wf (presence_last_seen r) \<Longrightarrow> hm_wf (presence_last_seen (track_presence_heartbeat m now r))"
  by (cases m) auto

lemma sat_u64_both_Suc:
  "p = sat_u64 (a + i) \<Longrightarrow> sat_u64 (Suc p) = sat_u64 (sat_u64 (Suc a) + i)"
  "p = sat_u64 (a + i) \<Longrightarrow> sat_u64 (Suc p) = sat_u64 (a + sat_u64 (Suc i))"
  by (simp_all add: sat_simps)

lemma room_ok_publish:
  assumes "decodes_typed dec" "room_ok w r"
  shows "room_ok w (snd (room_publish dec env now r))"
proof (cases "dec (env_payload env)")
  case None
  with assms show ?thesis
    by (simp add: room_publish_def room_ok_def Let_def sat_u64_both_Suc(2))
next
  case (Some m)
  then have typed: "message_typed m" using assms(1) by (auto simp: decodes_typed_def)
  show ?thesis
    using assms(2) Some typed unfolding room_publish_def room_accept_def Let_def
    by (simp add: room_ok_def sat_u64_both_Suc(1) room_inv_coord_apply)
qed

lemma registry_update [simp]:
  "registry_inv rooms \<Longrightarrow> room_ok w r \<Longrightarrow> registry_inv (AList.update w r rooms)"
  by (simp add: registry_inv_def)

lemma registry_delete [simp]: "registry_inv rooms \<Longrightarrow> registry_inv (AList.delete w rooms)"
  by (simp add: registry_inv_def)

lemma registry_retain [simp]: "registry_inv rooms \<Longrightarrow> registry_inv (prune_inactive_rooms now rooms)"
  by (simp add: registry_inv_def prune_inactive_rooms_def)

lemma registry_lookup: "registry_inv rooms \<Longrightarrow> map_of rooms w = Some r \<Longrightarrow> room_ok w r"
  unfolding registry_inv_def by (auto dest: entries_ok_lookup)

lemma pruned_lookup:
  "registry_inv rooms \<Longrightarrow> map_of (prune_inactive_rooms now rooms) w = Some r \<Longrightarrow> room_ok w r"
  by (rule registry_lookup [OF registry_retain])

lemma registry_prune_all: "registry_inv rooms \<Longrightarrow> registry_inv (prune_all now rooms)"
  using registry_retain [of rooms now]
  by (auto simp: registry_inv_def prune_all_def intro: entries_ok_hm_map_values)

lemma registry_prune_for: "registry_inv rooms \<Longrightarrow> registry_inv (prune_for w now rooms)"
  by (auto simp: prune_for_def Let_def pruned_lookup split: option.splits)

lemma room_ok_touch:
  "room_ok w r \<Longrightarrow> n \<le> u32_max \<Longrightarrow>
     room_ok w (r\<lparr>connected_clients := n, last_activity := Some now\<rparr>)"
  by (simp add: room_ok_def)

lemma registry_step_inv:
  assumes "decodes_typed dec" "registry_inv rooms"
  shows "registry_inv (registry_apply dec st rooms)"
proof (cases st)
  case (LookUpSender w now)
  with assms show ?thesis by simp
next
  case (CreateRoom w now)
  with assms show ?thesis
    by (auto simp: create_room_def Let_def split: option.splits)
next
  case (PublishLocked w env now)
  with assms show ?thesis
    by (auto simp: publish_locked_def Let_def split_def room_ok_publish pruned_lookup
        split: option.splits)
next
  case (Connect w now)
  have "room_ok w (case map_of (prune_inactive_rooms now rooms) w of Some r \<Rightarrow> r | None \<Rightarrow> new_room_state w)"
    using assms(2) by (auto simp: pruned_lookup split: option.splits)
  with assms(2) Connect show ?thesis
    by (simp add: connect_client_def Let_def room_ok_touch)
next
  case (Disconnect w now)
  have "connected_clients r - 1 \<le> u32_max" if "room_ok w r" for r
    using that unfolding room_ok_def by linarith
  with assms(2) Disconnect show ?thesis
    by (auto simp: disconnect_client_def Let_def room_ok_touch
        split: option.splits dest!: pruned_lookup [rotated])
qed (use assms(2) in \<open>simp_all add: registry_prune_all registry_prune_for\<close>)

lemma registry_inv_Nil [simp]: "registry_inv []"
  by (simp add: registry_inv_def)

subsection \<open>Client counts\<close>

definition clients :: "rooms \<Rightarrow> string \<Rightarrow> nat" where
  "clients rooms w = (case map_of rooms w of None \<Rightarrow> 0 | Some r \<Rightarrow> connected_clients r)"

text \<open>The machine the registry implements when only its client counts are observed.\<close>

fun client_step :: "registry_step \<Rightarrow> (string \<Rightarrow> nat) \<Rightarrow> (string \<Rightarrow> nat)" where
  "client_step (Connect w now) f = f(w := sat_u32 (Suc (f w)))"
| "client_step (Disconnect w now) f = f(w := f w - 1)"
| "client_step _ f = f"

lemma clients_update [simp]:
  "clients (AList.update w r rooms) = (clients rooms)(w := connected_clients r)"
  by (auto simp: clients_def update_conv' fun_eq_iff)

lemma clients_delete [simp]: "clients (AList.delete w rooms) = (clients rooms)(w := 0)"
  by (auto simp: clients_def delete_conv' fun_eq_iff)

lemma clients_prune_inactive [simp]:
  "registry_inv rooms \<Longrightarrow> clients (prune_inactive_rooms now rooms) = clients rooms"
  by (auto simp: clients_def prune_inactive_rooms_def registry_inv_def map_of_hm_retain
      room_is_stale_def fun_eq_iff split: option.splits)

lemma clients_lookup:
  "registry_inv rooms \<Longrightarrow> map_of (prune_inactive_rooms now rooms) w = Some r \<Longrightarrow>
     connected_clients r = clients rooms w"
  using clients_prune_inactive [of rooms now] by (metis clients_def option.simps(5))

lemma clients_Nil [simp]: "clients [] = (\<lambda>_. 0)"
  by (simp add: clients_def fun_eq_iff)

lemma clients_no_room:
  "registry_inv rooms \<Longrightarrow> map_of (prune_inactive_rooms now rooms) w = None \<Longrightarrow> clients rooms w = 0"
  using clients_prune_inactive [of rooms now] by (metis clients_def option.simps(4))

lemma room_publish_clients [simp]:
  "connected_clients (snd (room_publish dec env now r)) = connected_clients r"
  by (auto simp: room_publish_def room_accept_def Let_def split: option.splits)

lemma clients_step:
  assumes "registry_inv rooms"
  shows "clients (registry_apply dec st rooms) = client_step st (clients rooms)"
proof (cases st)
  case (LookUpSender w now)
  then show ?thesis by simp
next
  case (CreateRoom w now)
  then show ?thesis
    using assms by (auto simp: create_room_def Let_def new_room_state_def clients_no_room fun_eq_iff
        split: option.splits)
next
  case (PublishLocked w env now)
  then show ?thesis
    using assms by (auto simp: publish_locked_def Let_def split_def clients_lookup fun_eq_iff
        split: option.splits)
next
  case (Connect w now)
  then show ?thesis
    using assms by (auto simp: connect_client_def Let_def new_room_state_def clients_lookup
        clients_no_room split: option.splits)
next
  case (Disconnect w now)
  then show ?thesis
    using assms by (auto simp: disconnect_client_def Let_def clients_lookup clients_no_room fun_eq_iff
        split: option.splits)
next
  case (QueryAll now)
  have "clients (prune_all now rooms) = clients (prune_inactive_rooms now rooms)"
    by (auto simp: clients_def prune_all_def map_of_hm_map_values fun_eq_iff split: option.splits)
  with assms QueryAll show ?thesis by simp
next
  case (QueryRoom w now)
  then show ?thesis
    using assms by (auto simp: prune_for_def Let_def clients_lookup fun_eq_iff split: option.splits)
qed

interpretation registry: step_refinement
  "registry_apply dec" "\<lambda>_. decodes_typed dec" registry_inv client_step clients
  for dec :: "'snap decoder"
  by unfold_locales (auto simp: registry_step_inv clients_step)

text \<open>
  C10. Registry invariant: in every state the registry can reach, under any interleaving of its
  critical sections and any clock readings, rooms are keyed by their wiki, every room keeps the room
  invariant, and its published counter is the (saturating) sum of accepted and rejected messages.
\<close>

theorem registry_invariant:
  assumes "registry_reachable dec rooms" and "decodes_typed dec"
  shows "registry_inv rooms"
  using assms by (induction rule: registry_reachable.induct) (auto intro: registry_step_inv)

theorem registry_invariant_witness:
  "let dec = (\<lambda>_ :: bytes. Some (EditClaim
       \<lparr>ec_wiki_id = ''frwiki'', ec_rev_id = 1, ec_actor = ''Ana''\<rparr> :: unit coordination_message))
   in registry_inv (registry_apply dec
        (PublishLocked ''frwiki'' \<lparr>env_sender_id = 1, env_payload = []\<rparr> 5)
        (registry_apply dec (Connect ''frwiki'' 0) []))"
  unfolding Let_def
  by (rule registry_invariant
      [OF registry_reachable.step [OF registry_reachable.step [OF registry_reachable.start]]])
    (auto simp: decodes_typed_def)

text \<open>
  C12. Client counts: whatever mixture of publications, queries and evictions runs between them, the
  number of clients the registry holds for a wiki changes only with that wiki's connects and
  disconnects; in particular eviction never forgets a connected client.
\<close>

theorem client_count_refinement:
  assumes "decodes_typed dec"
  shows "clients (fold (registry_apply dec) steps []) = fold client_step steps (\<lambda>_. 0)"
proof -
  have "clients (fold (registry_apply dec) steps []) = fold client_step steps (clients [])"
    using assms by (intro registry.run_abs) (simp_all add: list_all_iff)
  then show ?thesis by simp
qed

theorem client_count_refinement_witness:
  "clients (fold (registry_apply (\<lambda>_ :: bytes. None :: unit coordination_message option))
     [Connect ''frwiki'' 0, QueryAll 400000, Connect ''frwiki'' 400000, Disconnect ''frwiki'' 900000,
      QueryAll 2000000] []) ''frwiki'' = 1"
  by (subst client_count_refinement) (simp_all add: decodes_typed_def sat_u32_def)

subsection \<open>Presence expiry\<close>

definition presence_tracked :: "room \<Rightarrow> bool" where
  "presence_tracked r \<longleftrightarrow>
     list_all (\<lambda>a. map_of (presence_last_seen r) a \<noteq> None) (presence_actors (room_state r))"

lemma presence_tracked_iff:
  "presence_tracked r \<longleftrightarrow>
     (\<forall>a. presence_for (room_state r) a \<noteq> None \<longrightarrow> map_of (presence_last_seen r) a \<noteq> None)"
  unfolding presence_tracked_def presence_actors_def presence_for_def list_all_iff
  by (metis bt_dom domIff)

lemma presence_for_apply:
  "bt_wf (presence s) \<Longrightarrow> presence_for (snd (coord_apply m s)) a =
     (case m of
        PresenceHeartbeat h \<Rightarrow>
          if ph_wiki_id h = cs_wiki_id s \<and> ph_actor h = a
          then (if ph_active_edit_count h = 0 then None else Some h)
          else presence_for s a
      | _ \<Rightarrow> presence_for s a)"
  by (cases m)
    (auto simp: presence_for_def coord_apply_def apply_defs Let_def map_of_bt_remove split: option.splits)

lemma track_last_seen:
  "map_of (presence_last_seen (track_presence_heartbeat m now r)) a =
     (case m of
        PresenceHeartbeat h \<Rightarrow>
          if ph_actor h = a then (if ph_active_edit_count h = 0 then None else Some now)
          else map_of (presence_last_seen r) a
      | _ \<Rightarrow> map_of (presence_last_seen r) a)"
  by (cases m) (auto simp: update_conv' delete_conv')

definition room_core :: "string \<Rightarrow> room \<Rightarrow> bool" where
  "room_core w r \<longleftrightarrow> cs_wiki_id (room_state r) = w \<and> room_inv (room_state r) \<and>
     hm_wf (presence_last_seen r)"

lemma room_ok_core: "room_ok w r \<Longrightarrow> room_core w r"
  by (simp add: room_ok_def room_core_def)

lemma tracked_prune:
  "room_core w r \<Longrightarrow> presence_tracked r \<Longrightarrow> presence_tracked (prune_stale_presence now r)"
  by (auto simp: presence_tracked_iff prune_presence prune_last_seen room_core_def split: if_splits)

lemma room_core_accept_step:
  "room_core w r \<Longrightarrow> message_typed m \<Longrightarrow>
     room_core w (track_presence_heartbeat m now r\<lparr>room_state := snd (coord_apply m (room_state r))\<rparr>)"
  by (simp add: room_core_def room_inv_coord_apply)

lemma tracked_accept:
  assumes "room_core w r" "presence_tracked r" "message_wiki_id m = w" "message_typed m"
  shows "presence_tracked (room_accept m now r)"
proof -
  let ?r0 = "r\<lparr>accepted_count := sat_u64 (Suc (accepted_count r))\<rparr>"
  let ?r2 = "track_presence_heartbeat m now ?r0\<lparr>room_state := snd (coord_apply m (room_state ?r0))\<rparr>"
  have "bt_wf (presence (room_state r))" "cs_wiki_id (room_state r) = w"
    using assms(1) by (simp_all add: room_core_def room_inv_def tables_wf_def)
  then have "presence_tracked ?r2"
    using assms by (cases m) (auto simp: presence_tracked_iff presence_for_apply update_conv' delete_conv')
  moreover have "room_core w ?r2"
    using assms(1,4) by (intro room_core_accept_step) (simp_all add: room_core_def)
  ultimately show ?thesis
    unfolding room_accept_def Let_def by (simp add: tracked_prune)
qed

lemma tracked_publish:
  assumes "room_ok w r" "presence_tracked r" "decodes_typed dec"
    and "\<And>m. dec (env_payload env) = Some m \<Longrightarrow> message_wiki_id m = w"
  shows "presence_tracked (snd (room_publish dec env now r))"
proof -
  let ?r = "r\<lparr>published_count := sat_u64 (Suc (published_count r)), last_activity := Some now\<rparr>"
  have r: "presence_tracked ?r" "room_core w ?r"
    using assms(1,2) by (simp_all add: presence_tracked_def room_ok_def room_core_def)
  have "presence_tracked (room_accept m now ?r)" if "dec (env_payload env) = Some m" for m
    using that assms(3,4) r by (intro tracked_accept [where w = w]) (auto simp: decodes_typed_def)
  then show ?thesis
    using r(1) by (auto simp: room_publish_def Let_def presence_tracked_def split: option.splits)
qed

text \<open>Steps that publish only messages of the room's own wiki.\<close>

fun own_wiki_step :: "'snap decoder \<Rightarrow> registry_step \<Rightarrow> bool" where
  "own_wiki_step dec (PublishLocked w env now) =
     (case dec (env_payload env) of None \<Rightarrow> True | Some m \<Rightarrow> message_wiki_id m = w)"
| "own_wiki_step dec _ = True"

definition tracked_inv :: "rooms \<Rightarrow> bool" where
  "tracked_inv rooms \<longleftrightarrow> registry_inv rooms \<and> entries_ok (\<lambda>w r. presence_tracked r) rooms"

lemma tracked_update:
  "tracked_inv rooms \<Longrightarrow> room_ok w r \<Longrightarrow> presence_tracked r \<Longrightarrow> tracked_inv (AList.update w r rooms)"
  by (simp add: tracked_inv_def registry_inv_def)

lemma tracked_retain: "tracked_inv rooms \<Longrightarrow> tracked_inv (prune_inactive_rooms now rooms)"
  by (simp add: tracked_inv_def registry_inv_def prune_inactive_rooms_def)

lemma tracked_lookup:
  assumes "tracked_inv rooms" "map_of (prune_inactive_rooms now rooms) w = Some r"
  shows "room_ok w r" "presence_tracked r" "presence_tracked (prune_stale_presence now r)"
proof -
  show ok: "room_ok w r" "presence_tracked r"
    using tracked_retain [OF assms(1)] assms(2)
    by (auto simp: tracked_inv_def registry_inv_def dest: entries_ok_lookup)
  show "presence_tracked (prune_stale_presence now r)"
    using ok by (blast intro: tracked_prune room_ok_core)
qed

lemma tracked_new [simp]: "presence_tracked (new_room_state w)"
  by (simp add: presence_tracked_def presence_actors_def new_room_state_def new_state_def)

lemma tracked_touch:
  "presence_tracked r \<Longrightarrow> room_ok w r \<Longrightarrow>
     presence_tracked (prune_stale_presence now (r\<lparr>connected_clients := n, last_activity := t\<rparr>))"
  by (rule tracked_prune [where w = w]) (simp_all add: room_ok_def room_core_def presence_tracked_def)

lemma tracked_lookup_touch:
  "tracked_inv rooms \<Longrightarrow> map_of (prune_inactive_rooms now rooms) w = Some r \<Longrightarrow>
     presence_tracked (prune_stale_presence now (r\<lparr>connected_clients := n, last_activity := t\<rparr>))"
  by (rule tracked_touch [where w = w]) (auto dest: tracked_lookup)

lemma tracked_step:
  assumes inv: "tracked_inv rooms" and own: "decodes_typed dec" "own_wiki_step dec st"
  shows "tracked_inv (registry_apply dec st rooms)"
proof (cases st)
  case (LookUpSender w now)
  with inv show ?thesis by simp
next
  case (CreateRoom w now)
  with inv show ?thesis
    by (auto simp: create_room_def Let_def tracked_update tracked_retain split: option.splits)
next
  case (PublishLocked w env now)
  then have "\<And>m. dec (env_payload env) = Some m \<Longrightarrow> message_wiki_id m = w"
    using own(2) by simp
  with PublishLocked inv own(1) show ?thesis
    by (auto simp: publish_locked_def Let_def split_def tracked_retain
        intro!: tracked_update tracked_publish room_ok_publish split: option.splits
        dest: tracked_lookup)
next
  case (Connect w now)
  let ?r = "case map_of (prune_inactive_rooms now rooms) w of Some r \<Rightarrow> r | None \<Rightarrow> new_room_state w"
  have "room_ok w ?r" "presence_tracked ?r"
    using inv by (auto simp: tracked_lookup split: option.splits)
  with inv Connect show ?thesis
    by (auto simp: connect_client_def Let_def tracked_touch room_ok_touch
        intro!: tracked_update tracked_retain)
next
  case (Disconnect w now)
  have "connected_clients r - 1 \<le> u32_max" if "room_ok w r" for r
    using that unfolding room_ok_def by linarith
  moreover have "tracked_inv (AList.delete w (prune_inactive_rooms now rooms))"
    using tracked_retain [OF inv, of now] by (simp add: tracked_inv_def registry_inv_def)
  ultimately show ?thesis
    using inv Disconnect
    by (auto simp: disconnect_client_def Let_def tracked_lookup_touch room_ok_touch tracked_retain
        intro!: tracked_update split: option.splits dest: tracked_lookup)
next
  case (QueryAll now)
  have "registry_inv (prune_all now rooms)"
    using inv by (simp add: tracked_inv_def registry_prune_all)
  moreover from this have "entries_ok (\<lambda>w r. presence_tracked r) (prune_all now rooms)"
    using inv by (auto simp: registry_inv_def entries_ok_hm prune_all_def map_of_hm_map_values
        dest: tracked_lookup(3))
  ultimately show ?thesis
    using QueryAll by (simp add: tracked_inv_def)
next
  case (QueryRoom w now)
  with inv show ?thesis
    by (auto simp: prune_for_def Let_def tracked_retain intro!: tracked_update
        split: option.splits dest: tracked_lookup)
qed

interpretation own_wiki: step_invariant
  "registry_apply dec" "\<lambda>st. decodes_typed dec \<and> own_wiki_step dec st" tracked_inv
  for dec :: "'snap decoder"
  by unfold_locales (simp add: tracked_step)

lemma tracked_run:
  "decodes_typed dec \<Longrightarrow> list_all (own_wiki_step dec) steps \<Longrightarrow>
     tracked_inv (fold (registry_apply dec) steps [])"
  by (rule own_wiki.run_inv) (simp_all add: tracked_inv_def list_all_iff)

lemma tracked_pruned_fresh:
  assumes "room_core w r" "presence_tracked r"
    and "presence_for (room_state (prune_stale_presence now r)) a = Some h"
  shows "\<exists>t. map_of (presence_last_seen r) a = Some t \<and> sat_i64 (now - t) < presence_stale_after_ms"
proof -
  from assms have "presence_for (room_state r) a = Some h"
    and fresh: "\<not> presence_expired now (map_of (presence_last_seen r) a)"
    by (auto simp: prune_presence room_core_def split: if_splits)
  with assms(2) obtain t where "map_of (presence_last_seen r) a = Some t"
    by (auto simp: presence_tracked_iff)
  with fresh show ?thesis
    by (auto simp: presence_expired_def)
qed

definition sample_heartbeat :: "string \<Rightarrow> nat \<Rightarrow> presence_heartbeat" where
  "sample_heartbeat wiki n = \<lparr>ph_wiki_id = wiki, ph_actor = ''Ana'', ph_active_edit_count = n\<rparr>"

text \<open>A codec that knows three messages, for concrete runs.\<close>

definition sample_dec :: "unit decoder" where
  "sample_dec bs =
     (if bs = [1] then Some (PresenceHeartbeat (sample_heartbeat ''frwiki'' 2))
      else if bs = [2] then Some (PresenceHeartbeat (sample_heartbeat ''dewiki'' 0))
      else if bs = [3] then Some (EditClaim \<lparr>ec_wiki_id = ''frwiki'', ec_rev_id = 7, ec_actor = ''Mallory''\<rparr>)
      else None)"

lemma sample_dec_typed: "decodes_typed sample_dec"
  by (auto simp: decodes_typed_def sample_dec_def)

lemmas sample_run_simps =
  registry_apply.simps connect_client_def publish_locked_def room_publish_def room_accept_def
  prune_for_def prune_inactive_rooms_def hm_retain_def room_is_stale_def new_room_state_def
  new_state_def prune_stale_presence_def stale_actors_def forget_actor_def remove_presence_def
  sample_dec_def sample_heartbeat_def coord_apply_def apply_presence_def presence_for_def
  sat_u32_def sat_u64_def sat_i64_def bt_remove_def

lemma sample_listed:
  "presence_for (room_state (snd (room_publish sample_dec \<lparr>env_sender_id = Suc 0, env_payload = [1]\<rparr> 10
     (new_room_state ''frwiki'')))) ''Ana'' = Some \<lparr>ph_wiki_id = ''frwiki'', ph_actor = ''Ana'', ph_active_edit_count = 2\<rparr>"
  by (simp add: sample_run_simps)

definition sample_steps :: "registry_step list" where
  "sample_steps =
     [Connect ''frwiki'' 0, PublishLocked ''frwiki'' \<lparr>env_sender_id = 1, env_payload = [1]\<rparr> 5]"

text \<open>
  Presence expiry: while clients publish only messages of their room's wiki, an actor that a room
  still lists after a query at time \<open>now\<close> sent its last heartbeat less than sixty seconds before, in
  every history of the registry; the query itself drops the others.
\<close>

theorem listed_presence_is_fresh:
  assumes "decodes_typed dec" and "list_all (own_wiki_step dec) steps"
    and before: "map_of (fold (registry_apply dec) steps []) w = Some r"
    and after: "map_of (prune_for w now (fold (registry_apply dec) steps [])) w = Some r'"
    and listed: "presence_for (room_state r') a = Some h"
  shows "\<exists>t. map_of (presence_last_seen r) a = Some t \<and> sat_i64 (now - t) < presence_stale_after_ms"
proof -
  have inv: "tracked_inv (fold (registry_apply dec) steps [])"
    using assms(1,2) by (rule tracked_run)
  then have "room_core w r" "presence_tracked r"
    using before by (auto simp: tracked_inv_def registry_inv_def dest: entries_ok_lookup room_ok_core)
  moreover have "r' = prune_stale_presence now r"
    using inv before after
    by (auto simp: prune_for_def Let_def prune_inactive_rooms_def map_of_hm_retain update_conv'
        tracked_inv_def registry_inv_def split: option.splits if_splits)
  ultimately show ?thesis
    using listed tracked_pruned_fresh by blast
qed

theorem listed_presence_is_fresh_witness:
  "\<exists>t. map_of (presence_last_seen
      (the (map_of (fold (registry_apply sample_dec) sample_steps []) ''frwiki''))) ''Ana'' = Some t \<and>
      sat_i64 (59000 - t) < presence_stale_after_ms"
  by (rule listed_presence_is_fresh [where dec = sample_dec and w = "''frwiki''" and
        steps = sample_steps and r' = "the (map_of (prune_for ''frwiki'' 59000 (fold (registry_apply sample_dec) sample_steps []))
                ''frwiki'')" and h = "sample_heartbeat ''frwiki'' 2"])
    (simp_all add: sample_dec_typed sample_steps_def sample_run_simps Let_def)

subsection \<open>Heartbeats for another wiki\<close>

text \<open>
  A heartbeat that names another wiki with no active edits, published to this room, is refused by
  the room's state but removes the actor's last-seen time: from then on no pruning, at any instants,
  drops the actor's presence entry, so it stays listed as active.
\<close>

theorem foreign_heartbeat_defeats_expiry:
  assumes "room_ok w r" and "dec (env_payload env) = Some (PresenceHeartbeat h)"
    and "ph_wiki_id h \<noteq> w" and "ph_active_edit_count h = 0"
    and "presence_for (room_state r) (ph_actor h) = Some listed"
  shows "presence_for (room_state (fold prune_stale_presence instants (snd (room_publish dec env now r))))
           (ph_actor h) = Some listed"
proof -
  let ?stuck = "\<lambda>r. hm_wf (presence_last_seen r) \<and> map_of (presence_last_seen r) (ph_actor h) = None \<and>
    presence_for (room_state r) (ph_actor h) = Some listed"
  have keep: "?stuck r \<Longrightarrow> ?stuck (fold prune_stale_presence ts r)" for ts r
    by (induction ts arbitrary: r) (auto simp: prune_last_seen prune_presence presence_expired_def)
  have stuck_prune: "?stuck r \<Longrightarrow> ?stuck (prune_stale_presence t r)" for t r
    using keep [of r "[t]"] by simp
  have "bt_wf (presence (room_state r))" "cs_wiki_id (room_state r) = w" "hm_wf (presence_last_seen r)"
    using assms(1) by (simp_all add: room_ok_def room_inv_def tables_wf_def)
  then have "?stuck (snd (room_publish dec env now r))"
    unfolding room_publish_def room_accept_def Let_def using assms(2-5)
    by (auto simp: presence_for_apply delete_conv' intro!: stuck_prune [THEN conjunct2, THEN conjunct2]
        stuck_prune [THEN conjunct2, THEN conjunct1])
  from keep [OF this] show ?thesis by blast
qed

theorem foreign_heartbeat_defeats_expiry_witness:
  "presence_for (room_state (fold prune_stale_presence [86400000, 172800000]
     (snd (room_publish sample_dec \<lparr>env_sender_id = 1, env_payload = [2]\<rparr> 20
       (snd (room_publish sample_dec \<lparr>env_sender_id = 1, env_payload = [1]\<rparr> 10
         (new_room_state ''frwiki''))))))) ''Ana'' = Some (sample_heartbeat ''frwiki'' 2)"
  using foreign_heartbeat_defeats_expiry [where w = "''frwiki''" and dec = sample_dec and
      env = "\<lparr>env_sender_id = 1, env_payload = [2]\<rparr>" and h = "sample_heartbeat ''dewiki'' 0" and
      r = "snd (room_publish sample_dec \<lparr>env_sender_id = 1, env_payload = [1]\<rparr> 10 (new_room_state ''frwiki''))"
      and listed = "sample_heartbeat ''frwiki'' 2" and now = 20 and instants = "[86400000, 172800000]"]
    room_ok_publish [OF sample_dec_typed room_ok_new]
  by (simp add: sample_heartbeat_def sample_listed sample_dec_def)

subsection \<open>What a publication relays and records\<close>

lemma publish_room:
  assumes "hm_wf rooms"
  shows "map_of (prune_inactive_rooms now2 (room_sender w now1 rooms)) w =
    (case map_of rooms w of
       None \<Rightarrow> Some (new_room_state w)
     | Some r \<Rightarrow> if room_is_stale r now2 then None else Some r)"
proof -
  have fresh: "\<not> room_is_stale (new_room_state w) t" for t
    by (simp add: room_is_stale_def new_room_state_def)
  have none: "map_of rooms w = None \<Longrightarrow> map_of (prune_inactive_rooms now1 rooms) w = None"
    using assms by (simp add: prune_inactive_rooms_def map_of_hm_retain)
  have wf: "hm_wf (prune_inactive_rooms now1 rooms)"
    using assms by (simp add: prune_inactive_rooms_def)
  show ?thesis
    using assms none wf fresh
    by (auto simp: room_sender_def create_room_def Let_def prune_inactive_rooms_def [of now2] map_of_hm_retain
        update_conv' split: option.splits)
qed

text \<open>
  Fail-closed relay: a publication hands its envelope to the room's channel exactly when the
  server could decode it and the room is not an idle one evicted at that moment; then, and only then,
  the room counts it as accepted, and nothing but the published envelope is ever relayed.
\<close>

theorem publish_relays_decoded:
  assumes "registry_inv rooms"
  shows "case publish dec w env now1 now2 rooms of (sent, rooms') \<Rightarrow>
    (sent = Some env \<longleftrightarrow> dec (env_payload env) \<noteq> None \<and>
       (case map_of rooms w of None \<Rightarrow> True | Some r \<Rightarrow> \<not> room_is_stale r now2)) \<and>
    (sent = None \<or> sent = Some env) \<and>
    (sent \<noteq> None \<longleftrightarrow> (\<exists>r'. map_of rooms' w = Some r' \<and> accepted_count r' =
       sat_u64 (Suc (case map_of rooms w of None \<Rightarrow> 0 | Some r \<Rightarrow> accepted_count r)) \<and>
       dec (env_payload env) \<noteq> None))"
proof -
  have wf: "hm_wf rooms" using assms by (simp add: registry_inv_def)
  show ?thesis
    by (auto simp: publish_def publish_locked_def Let_def split_def publish_room [OF wf]
        room_publish_def room_accept_def update_conv' new_room_state_def split: option.splits if_splits)
qed

theorem publish_relays_decoded_witness:
  "fst (publish sample_dec ''frwiki'' \<lparr>env_sender_id = 1, env_payload = [1]\<rparr> 5 6 []) =
     Some \<lparr>env_sender_id = 1, env_payload = [1]\<rparr> \<and>
   fst (publish sample_dec ''frwiki'' \<lparr>env_sender_id = 1, env_payload = [9]\<rparr> 5 6 []) = None"
  using publish_relays_decoded [where rooms = "[]" and dec = sample_dec and w = "''frwiki''" and
      env = "\<lparr>env_sender_id = 1, env_payload = [1]\<rparr>" and ?now1.0 = 5 and ?now2.0 = 6]
    publish_relays_decoded [where rooms = "[]" and dec = sample_dec and w = "''frwiki''" and
      env = "\<lparr>env_sender_id = 1, env_payload = [9]\<rparr>" and ?now1.0 = 5 and ?now2.0 = 6]
  by (auto simp: split_def sample_dec_def)

subsection \<open>No impersonation\<close>

definition codec_ok ::
  "'snap decoder \<Rightarrow> ('snap coordination_message \<Rightarrow> bytes option) \<Rightarrow> string set \<Rightarrow> bool" where
  "codec_ok dec enc who \<longleftrightarrow> decodes_typed dec \<and>
     (\<forall>p m a. dec p = Some m \<longrightarrow> a \<in> who \<longrightarrow>
        (\<exists>bs. enc (rewrite_actor a m) = Some bs \<and> dec bs = Some (rewrite_actor a m)))"

fun named_actor :: "'snap coordination_message \<Rightarrow> string option" where
  "named_actor (ActionBroadcast a) = Some (ab_actor a)"
| "named_actor (EditClaim c) = Some (ec_actor c)"
| "named_actor (PresenceHeartbeat h) = Some (ph_actor h)"
| "named_actor (RaceResolution r) = Some (rr_winning_actor r)"
| "named_actor _ = None"

lemma sanitized_decodes:
  assumes "codec_ok dec enc who" "a \<in> who"
  shows "dec (sanitize_payload dec enc p (Some a)) = map_option (rewrite_actor a) (dec p)"
proof (cases "dec p")
  case (Some m)
  with assms obtain bs where "enc (rewrite_actor a m) = Some bs" "dec bs = Some (rewrite_actor a m)"
    unfolding codec_ok_def by blast
  with Some show ?thesis by (simp add: sanitize_payload_def)
qed (simp add: sanitize_payload_def)

lemma named_rewrite: "named_actor (rewrite_actor who m) = Some a \<Longrightarrow> a = who"
  by (cases m) auto

text \<open>Every actor the room's state attributes something to is in the given set.\<close>

definition attributed_to :: "string set \<Rightarrow> coordination_state \<Rightarrow> bool" where
  "attributed_to who s \<longleftrightarrow>
     entries_ok (\<lambda>_ c. ec_actor c \<in> who) (claims s) \<and>
     entries_ok (\<lambda>a h. a \<in> who \<and> ph_actor h \<in> who) (presence s) \<and>
     entries_ok (\<lambda>_ r. rr_winning_actor r \<in> who) (race_resolutions s) \<and>
     list_all (\<lambda>a. ab_actor a \<in> who) (recent_actions s)"

lemma attributed_apply:
  assumes "attributed_to who s" "tables_wf s" and named: "\<And>a. named_actor m = Some a \<Longrightarrow> a \<in> who"
  shows "attributed_to who (snd (coord_apply m s))"
proof -
  note at = assms(1) [unfolded attributed_to_def]
  show ?thesis
    using at named
    by (cases m)
      (auto simp: attributed_to_def coord_apply_def apply_defs Let_def list_all_iff
        dest: in_set_dropD split: option.splits)
qed

lemma attributed_forget: "attributed_to who s \<Longrightarrow> attributed_to who (snd (remove_presence a s))"
  by (auto simp: attributed_to_def remove_presence_def)

lemma attributed_prune:
  "attributed_to who (room_state r) \<Longrightarrow> attributed_to who (room_state (prune_stale_presence now r))"
proof -
  have "attributed_to who (room_state r) \<Longrightarrow> attributed_to who (room_state (fold forget_actor as r))" for as
    by (induction as arbitrary: r) (auto simp: forget_actor_def attributed_forget)
  then show "attributed_to who (room_state r) \<Longrightarrow> ?thesis"
    by (simp add: prune_stale_presence_def)
qed

lemma attributed_publish:
  assumes "codec_ok dec enc who" "room_ok w r" "attributed_to who (room_state r)" "a \<in> who"
  shows "attributed_to who (room_state (snd (room_publish dec
    \<lparr>env_sender_id = i, env_payload = sanitize_payload dec enc p (Some a)\<rparr> now r)))"
proof -
  have "tables_wf (room_state r)" using assms(2) by (simp add: room_ok_def room_inv_def)
  moreover have "named_actor (rewrite_actor a m) = Some b \<Longrightarrow> b \<in> who" for m b
    using assms(4) by (auto dest: named_rewrite)
  ultimately have "attributed_to who (snd (coord_apply (rewrite_actor a m) (room_state r)))" for m
    using assms(3) by (blast intro: attributed_apply)
  with assms(3) show ?thesis
    by (auto simp: room_publish_def room_accept_def Let_def sanitized_decodes [OF assms(1,4)]
        intro!: attributed_prune split: option.splits)
qed

text \<open>A session's socket: every payload it sends is rewritten with the session's user name.\<close>

fun session_publish ::
  "'snap decoder \<Rightarrow> ('snap coordination_message \<Rightarrow> bytes option) \<Rightarrow> nat \<times> string \<times> bytes \<times> int \<Rightarrow>
     room \<Rightarrow> room" where
  "session_publish dec enc (client, who, payload, now) r =
     snd (room_publish dec
       \<lparr>env_sender_id = client, env_payload = sanitize_payload dec enc payload (Some who)\<rparr> now r)"

interpretation sessions: step_invariant
  "session_publish dec enc" "\<lambda>(_, a, _, _). codec_ok dec enc who \<and> a \<in> who"
  "\<lambda>r. room_ok w r \<and> attributed_to who (room_state r)"
  for dec :: "'snap decoder" and enc w who
  by unfold_locales (auto simp: attributed_publish intro!: room_ok_publish, auto simp: codec_ok_def)

text \<open>
  No impersonation: when every payload comes from a signed-in session and the codec round-trips,
  a room attributes claims, presence, race wins and actions only to users who really sent something,
  whatever names the payloads carried.
\<close>

theorem no_impersonation:
  assumes "codec_ok dec enc (set (map (\<lambda>(_, who, _, _). who) sent))"
  shows "attributed_to (set (map (\<lambda>(_, who, _, _). who) sent))
    (room_state (fold (session_publish dec enc) sent (new_room_state w)))"
proof -
  let ?who = "set (map (\<lambda>(_, who, _, _). who) sent)"
  have "attributed_to ?who (room_state (new_room_state w))"
    by (simp add: attributed_to_def new_room_state_def new_state_def)
  moreover have "list_all (\<lambda>(_, a, _, _). codec_ok dec enc ?who \<and> a \<in> ?who) sent"
    using assms by (force simp: list_all_iff)
  ultimately show ?thesis
    using sessions.run_inv [of w "new_room_state w" ?who dec enc sent] by simp
qed

definition sample_codec_dec :: "unit decoder" where
  "sample_codec_dec bs =
     (if bs = [3] then Some (EditClaim \<lparr>ec_wiki_id = ''frwiki'', ec_rev_id = 7, ec_actor = ''Mallory''\<rparr>)
      else if bs = [4] then Some (EditClaim \<lparr>ec_wiki_id = ''frwiki'', ec_rev_id = 7, ec_actor = ''Ana''\<rparr>)
      else None)"

theorem no_impersonation_witness:
  "attributed_to {''Ana''} (room_state (fold (session_publish sample_codec_dec (\<lambda>_. Some [4]))
     [(1, ''Ana'', [3], 10)] (new_room_state ''frwiki'')))"
  using no_impersonation [of sample_codec_dec "\<lambda>_. Some [4]" "[(1, ''Ana'', [3], 10)]" "''frwiki''"]
  by (simp add: codec_ok_def decodes_typed_def sample_codec_dec_def)

subsection \<open>Idle rooms go away\<close>

text \<open>The steps that do nothing on behalf of a wiki, and the clock reading of a step.\<close>

fun leaves_alone :: "string \<Rightarrow> registry_step \<Rightarrow> bool" where
  "leaves_alone w (LookUpSender v _) = (v \<noteq> w)"
| "leaves_alone w (CreateRoom v _) = (v \<noteq> w)"
| "leaves_alone w (PublishLocked v _ _) = (v \<noteq> w)"
| "leaves_alone w (Connect v _) = (v \<noteq> w)"
| "leaves_alone w (Disconnect v _) = (v \<noteq> w)"
| "leaves_alone w (QueryAll _) = True"
| "leaves_alone w (QueryRoom _ _) = True"

fun instant :: "registry_step \<Rightarrow> int" where
  "instant (LookUpSender _ now) = now"
| "instant (CreateRoom _ now) = now"
| "instant (PublishLocked _ _ now) = now"
| "instant (Connect _ now) = now"
| "instant (Disconnect _ now) = now"
| "instant (QueryAll now) = now"
| "instant (QueryRoom _ now) = now"

text \<open>Every step that writes sweeps idle rooms.\<close>

fun sweeps :: "registry_step \<Rightarrow> bool" where
  "sweeps (LookUpSender _ _) = False"
| "sweeps _ = True"

text \<open>What decides whether a room is evicted.\<close>

definition idle_since :: "rooms \<Rightarrow> string \<Rightarrow> (nat \<times> int option) option" where
  "idle_since rooms w = map_option (\<lambda>r. (connected_clients r, last_activity r)) (map_of rooms w)"

definition expires :: "int \<Rightarrow> nat \<times> int option \<Rightarrow> bool" where
  "expires now ca = (fst ca = 0 \<and> (case snd ca of None \<Rightarrow> False | Some t \<Rightarrow> room_idle_evict_after_ms \<le> sat_i64 (now - t)))"

lemma stale_expires: "room_is_stale r now = expires now (connected_clients r, last_activity r)"
  by (auto simp: room_is_stale_def expires_def)

lemma idle_retained:
  "hm_wf rooms \<Longrightarrow> idle_since (prune_inactive_rooms now rooms) w =
     (case idle_since rooms w of None \<Rightarrow> None | Some ca \<Rightarrow> if expires now ca then None else Some ca)"
  by (simp add: idle_since_def prune_inactive_rooms_def map_of_hm_retain stale_expires split: option.splits)

lemma idle_update [simp]:
  "idle_since (AList.update v r rooms) w = (if v = w then Some (connected_clients r, last_activity r) else idle_since rooms w)"
  by (simp add: idle_since_def update_conv')

lemma idle_delete [simp]: "v \<noteq> w \<Longrightarrow> idle_since (AList.delete v rooms) w = idle_since rooms w"
  by (simp add: idle_since_def delete_conv')

lemma idle_pruned [simp]: "idle_since (hm_map_values (prune_stale_presence now) rooms) w = idle_since rooms w"
  by (cases "map_of rooms w") (simp_all add: idle_since_def map_of_hm_map_values)

lemma idle_lookup: "map_of rooms w = Some r \<Longrightarrow> idle_since rooms w = Some (connected_clients r, last_activity r)"
  by (simp add: idle_since_def)

lemma idle_none: "map_of rooms w = None \<longleftrightarrow> idle_since rooms w = None"
  by (simp add: idle_since_def)

lemma idle_step:
  assumes "registry_inv rooms" "leaves_alone w st"
  shows "idle_since rooms w = None \<Longrightarrow> idle_since (registry_apply dec st rooms) w = None"
    "idle_since rooms w = Some ca \<Longrightarrow> idle_since (registry_apply dec st rooms) w = None \<or> idle_since (registry_apply dec st rooms) w = Some ca"
    "idle_since rooms w = Some ca \<Longrightarrow> sweeps st \<Longrightarrow> expires (instant st) ca \<Longrightarrow> idle_since (registry_apply dec st rooms) w = None"
    "idle_since rooms w = Some ca \<Longrightarrow> \<not> expires (instant st) ca \<Longrightarrow> idle_since (registry_apply dec st rooms) w = Some ca"
proof -
  have "hm_wf rooms" using assms(1) by (simp add: registry_inv_def)
  note swept = idle_retained [OF this, of "instant st" w]
  have "idle_since (registry_apply dec st rooms) w = idle_since (prune_inactive_rooms (instant st) rooms) w \<or>
      \<not> sweeps st \<and> registry_apply dec st rooms = rooms"
    using assms(2)
    by (cases st) (auto simp: create_room_def publish_locked_def connect_client_def disconnect_client_def prune_all_def
        prune_for_def Let_def split_def idle_lookup split: option.splits)
  then show "idle_since rooms w = None \<Longrightarrow> idle_since (registry_apply dec st rooms) w = None"
    "idle_since rooms w = Some ca \<Longrightarrow> idle_since (registry_apply dec st rooms) w = None \<or> idle_since (registry_apply dec st rooms) w = Some ca"
    "idle_since rooms w = Some ca \<Longrightarrow> sweeps st \<Longrightarrow> expires (instant st) ca \<Longrightarrow> idle_since (registry_apply dec st rooms) w = None"
    "idle_since rooms w = Some ca \<Longrightarrow> \<not> expires (instant st) ca \<Longrightarrow> idle_since (registry_apply dec st rooms) w = Some ca"
    by (auto simp: swept split: option.splits if_splits)
qed

lemma idle_gone:
  assumes "decodes_typed dec" "registry_inv rooms" "list_all (leaves_alone w) steps" "idle_since rooms w = None"
  shows "idle_since (fold (registry_apply dec) steps rooms) w = None"
  using assms(2-) by (induction steps arbitrary: rooms) (simp_all add: idle_step registry_step_inv [OF assms(1)])

lemma idle_swept:
  assumes "decodes_typed dec" "registry_inv rooms" "list_all (leaves_alone w) steps" "idle_since rooms w = Some ca"
    "st \<in> set steps" "sweeps st" "expires (instant st) ca"
  shows "idle_since (fold (registry_apply dec) steps rooms) w = None"
  using assms(2-5)
proof (induction steps arbitrary: rooms)
  case (Cons s steps)
  let ?rooms = "registry_apply dec s rooms"
  have inv: "registry_inv ?rooms" by (simp add: registry_step_inv [OF assms(1)] Cons.prems)
  have rest: "list_all (leaves_alone w) steps" using Cons.prems by simp
  show ?case
  proof (cases "idle_since ?rooms w")
    case None
    then show ?thesis using idle_gone [OF assms(1) inv rest] by simp
  next
    case (Some x)
    moreover have "x = ca" "s \<noteq> st"
      using idle_step(2,3) [of rooms w s ca dec] Some Cons.prems assms(6,7) by auto
    ultimately show ?thesis using Cons.IH [OF inv rest] Cons.prems by simp
  qed
qed simp

lemma idle_kept:
  assumes "decodes_typed dec" "registry_inv rooms" "list_all (leaves_alone w) steps" "idle_since rooms w = Some ca"
    "\<forall>st \<in> set steps. \<not> expires (instant st) ca"
  shows "idle_since (fold (registry_apply dec) steps rooms) w = Some ca"
  using assms(2-) by (induction steps arbitrary: rooms) (simp_all add: idle_step(4) registry_step_inv [OF assms(1)])

lemma reachable_inv: "registry_reachable dec rooms \<Longrightarrow> decodes_typed dec \<Longrightarrow> registry_inv rooms"
  by (induction rule: registry_reachable.induct) (simp_all add: registry_step_inv)

text \<open>
  C30. Idle rooms go away and no other room does: take any further steps that do nothing on behalf of the wiki
  of a room, in whatever order and with whatever clock readings. If the room has no connected client and one
  of the steps, which may be about any wiki, sweeps at an instant at least the eviction time after the last
  activity of the room, the room is gone in the end. A room that is gone had no client and was idle for that
  long at the instant of some step.
\<close>

theorem idle_rooms_are_evicted:
  assumes "registry_reachable dec rooms" "decodes_typed dec" "map_of rooms w = Some r" "list_all (leaves_alone w) steps"
  shows "(connected_clients r = 0 \<and> last_activity r = Some t \<and> st \<in> set steps \<and> sweeps st \<and>
      room_idle_evict_after_ms \<le> sat_i64 (instant st - t) \<longrightarrow> map_of (fold (registry_apply dec) steps rooms) w = None) \<and>
    (map_of (fold (registry_apply dec) steps rooms) w = None \<longrightarrow> connected_clients r = 0 \<and>
      (\<exists>t st. last_activity r = Some t \<and> st \<in> set steps \<and> room_idle_evict_after_ms \<le> sat_i64 (instant st - t)))"
proof -
  note run = idle_swept [OF assms(2) reachable_inv [OF assms(1,2)] assms(4) idle_lookup [OF assms(3)]]
    idle_kept [OF assms(2) reachable_inv [OF assms(1,2)] assms(4) idle_lookup [OF assms(3)]]
  have "expires now (connected_clients r, last_activity r) \<longleftrightarrow> connected_clients r = 0 \<and>
      (\<exists>t. last_activity r = Some t \<and> room_idle_evict_after_ms \<le> sat_i64 (now - t))" for now
    by (auto simp: expires_def split: option.splits)
  then show ?thesis using run unfolding idle_none by (metis option.distinct(1))
qed

theorem idle_rooms_are_evicted_witness:
  "map_of (fold (registry_apply sample_dec) [QueryAll 1000, Connect ''dewiki'' 600005]
     (registry_apply sample_dec (Disconnect ''frwiki'' 7) (fold (registry_apply sample_dec) sample_steps []))) ''frwiki'' = None"
proof -
  let ?rooms = "registry_apply sample_dec (Disconnect ''frwiki'' 7) (fold (registry_apply sample_dec) sample_steps [])"
  have reach: "registry_reachable sample_dec ?rooms"
    unfolding sample_steps_def fold.simps comp_def id_def by (intro registry_reachable.intros)
  obtain r where r: "map_of ?rooms ''frwiki'' = Some r" "connected_clients r = 0" "last_activity r = Some 7"
    by (simp add: sample_steps_def sample_run_simps disconnect_client_def Let_def)
  show ?thesis
    using idle_rooms_are_evicted [OF reach sample_dec_typed r(1), of "[QueryAll 1000, Connect ''dewiki'' 600005]" 7 "Connect ''dewiki'' 600005"]
    by (simp add: r sat_i64_def)
qed

end
