(* ===== verification/Coordination_Client.thy ===== *)
theory Coordination_Client
  imports Ports Coordination_Registry
begin

section \<open>The coordination client and its runtime\<close>

text \<open>
  \<open>crates/sp42-coordination/src/client.rs\<close>, \<open>codec.rs\<close> and \<open>runtime.rs\<close>: a client encodes messages into
  the frames of a socket and decodes what it receives; its runtime folds every message it sent or received
  into a local copy of the room. The MessagePack codec is a parameter. What a runtime relies on of a
  socket is the locale \<open>fifo_socket\<close>, which the loopback socket interprets.
\<close>

subsection \<open>Client\<close>

datatype codec_error = EncodeFailed string | DecodeFailed string

datatype coordination_error = CodecError codec_error | SocketError web_socket_error | InvalidFrame string

record 'snap codec =
  encode_message :: "'snap coordination_message \<Rightarrow> codec_error + string"
  decode_message :: "string \<Rightarrow> codec_error + 'snap coordination_message"

definition send_message ::
  "'snap codec \<Rightarrow> 'w web_socket \<Rightarrow> 'snap coordination_message \<Rightarrow> 'w \<Rightarrow> (coordination_error + unit) \<times> 'w" where
  "send_message codec ops message w =
     (case encode_message codec message of
        Inl e \<Rightarrow> (Inl (CodecError e), w)
      | Inr payload \<Rightarrow>
          (case ws_send ops (FrameBinary payload) w of
             (Inl e, w') \<Rightarrow> (Inl (SocketError e), w')
           | (Inr _, w') \<Rightarrow> (Inr (), w')))"

definition decode_frame :: "'snap codec \<Rightarrow> string \<Rightarrow> coordination_error + 'snap coordination_message option" where
  "decode_frame codec bytes =
     (case decode_message codec bytes of Inl e \<Rightarrow> Inl (CodecError e) | Inr m \<Rightarrow> Inr (Some m))"

definition client_receive_message ::
  "'snap codec \<Rightarrow> 'w web_socket \<Rightarrow> 'w \<Rightarrow> (coordination_error + 'snap coordination_message option) \<times> 'w" where
  "client_receive_message codec ops w =
     (case ws_receive ops w of
        (Inl e, w') \<Rightarrow> (Inl (SocketError e), w')
      | (Inr None, w') \<Rightarrow> (Inr None, w')
      | (Inr (Some frame), w') \<Rightarrow>
          ((case frame of
              FrameBinary bytes \<Rightarrow> decode_frame codec bytes
            | FrameText text \<Rightarrow> decode_frame codec text
            | FrameClose \<Rightarrow> Inr None), w'))"

text \<open>The messages of the client's six broadcasts.\<close>

definition claim_message :: "string \<Rightarrow> nat \<Rightarrow> string \<Rightarrow> 'snap coordination_message" where
  "claim_message wiki rid actor = EditClaim \<lparr>ec_wiki_id = wiki, ec_rev_id = rid, ec_actor = actor\<rparr>"

definition action_message :: "string \<Rightarrow> nat \<Rightarrow> action \<Rightarrow> string \<Rightarrow> 'snap coordination_message" where
  "action_message wiki rid act actor =
     ActionBroadcast \<lparr>ab_wiki_id = wiki, ab_rev_id = rid, ab_action = act, ab_actor = actor\<rparr>"

definition delta_message :: "string \<Rightarrow> nat \<Rightarrow> int \<Rightarrow> string \<Rightarrow> 'snap coordination_message" where
  "delta_message wiki rid delta reason =
     ScoreDelta \<lparr>sd_wiki_id = wiki, sd_rev_id = rid, sd_delta = delta, sd_reason = reason\<rparr>"

definition presence_message :: "string \<Rightarrow> string \<Rightarrow> nat \<Rightarrow> 'snap coordination_message" where
  "presence_message wiki actor n =
     PresenceHeartbeat \<lparr>ph_wiki_id = wiki, ph_actor = actor, ph_active_edit_count = n\<rparr>"

definition flag_message :: "string \<Rightarrow> nat \<Rightarrow> int \<Rightarrow> string \<Rightarrow> 'snap coordination_message" where
  "flag_message wiki rid score reason =
     FlaggedEdit \<lparr>fe_wiki_id = wiki, fe_rev_id = rid, fe_score = score, fe_reason = reason\<rparr>"

definition race_message :: "string \<Rightarrow> nat \<Rightarrow> string \<Rightarrow> 'snap coordination_message" where
  "race_message wiki rid winner =
     RaceResolution \<lparr>rr_wiki_id = wiki, rr_rev_id = rid, rr_winning_actor = winner\<rparr>"

subsection \<open>Runtime\<close>

record 'w coordination_runtime =
  cr_socket :: 'w
  cr_state :: coordination_state
  cr_outgoing_messages :: nat
  cr_incoming_messages :: nat
  cr_stream_closed :: bool

definition new_runtime :: "string \<Rightarrow> 'w \<Rightarrow> 'w coordination_runtime" where
  "new_runtime wiki socket =
     \<lparr>cr_socket = socket, cr_state = new_state wiki, cr_outgoing_messages = 0, cr_incoming_messages = 0,
      cr_stream_closed = False\<rparr>"

text \<open>The six broadcasts of the runtime send their message and fold it into the local room.\<close>

definition runtime_broadcast ::
  "'snap codec \<Rightarrow> 'w web_socket \<Rightarrow> 'snap coordination_message \<Rightarrow> 'w coordination_runtime \<Rightarrow>
     (coordination_error + unit) \<times> 'w coordination_runtime" where
  "runtime_broadcast codec ops message r =
     (case send_message codec ops message (cr_socket r) of
        (Inl e, w) \<Rightarrow> (Inl e, r\<lparr>cr_socket := w\<rparr>)
      | (Inr _, w) \<Rightarrow>
          (Inr (), r\<lparr>cr_socket := w, cr_outgoing_messages := sat_u64 (Suc (cr_outgoing_messages r)),
                     cr_state := snd (coord_apply message (cr_state r))\<rparr>))"

definition claim_edit where
  "claim_edit codec ops wiki rid actor = runtime_broadcast codec ops (claim_message wiki rid actor)"

definition broadcast_action where
  "broadcast_action codec ops wiki rid act actor = runtime_broadcast codec ops (action_message wiki rid act actor)"

definition send_score_delta where
  "send_score_delta codec ops wiki rid delta reason = runtime_broadcast codec ops (delta_message wiki rid delta reason)"

definition send_presence where
  "send_presence codec ops wiki actor n = runtime_broadcast codec ops (presence_message wiki actor n)"

definition flag_edit where
  "flag_edit codec ops wiki rid score reason = runtime_broadcast codec ops (flag_message wiki rid score reason)"

definition resolve_race where
  "resolve_race codec ops wiki rid winner = runtime_broadcast codec ops (race_message wiki rid winner)"

definition receive_message ::
  "'snap codec \<Rightarrow> 'w web_socket \<Rightarrow> 'w coordination_runtime \<Rightarrow>
     (coordination_error + 'snap coordination_message option) \<times> 'w coordination_runtime" where
  "receive_message codec ops r =
     (case client_receive_message codec ops (cr_socket r) of
        (Inl e, w) \<Rightarrow> (Inl e, r\<lparr>cr_socket := w\<rparr>)
      | (Inr (Some message), w) \<Rightarrow>
          (Inr (Some message),
           r\<lparr>cr_socket := w, cr_incoming_messages := sat_u64 (Suc (cr_incoming_messages r)),
             cr_state := snd (coord_apply message (cr_state r))\<rparr>)
      | (Inr None, w) \<Rightarrow> (Inr None, r\<lparr>cr_socket := w, cr_stream_closed := True\<rparr>))"

fun drain_incoming ::
  "'snap codec \<Rightarrow> 'w web_socket \<Rightarrow> nat \<Rightarrow> 'w coordination_runtime \<Rightarrow>
     (coordination_error + 'snap coordination_message list) \<times> 'w coordination_runtime" where
  "drain_incoming codec ops 0 r = (Inr [], r)"
| "drain_incoming codec ops (Suc limit) r =
     (case receive_message codec ops r of
        (Inl e, r') \<Rightarrow> (Inl e, r')
      | (Inr None, r') \<Rightarrow> (Inr [], r')
      | (Inr (Some message), r') \<Rightarrow>
          (case drain_incoming codec ops limit r' of
             (Inl e, r'') \<Rightarrow> (Inl e, r'')
           | (Inr messages, r'') \<Rightarrow> (Inr (message # messages), r'')))"

record coordination_runtime_status =
  crs_wiki_id :: string
  crs_outgoing_messages :: nat
  crs_incoming_messages :: nat
  crs_claim_count :: nat
  crs_presence_count :: nat
  crs_flagged_edit_count :: nat
  crs_score_delta_count :: nat
  crs_race_resolution_count :: nat
  crs_recent_action_count :: nat
  crs_stream_closed :: bool

definition runtime_status :: "'w coordination_runtime \<Rightarrow> coordination_runtime_status" where
  "runtime_status r =
     \<lparr>crs_wiki_id = cs_wiki_id (cr_state r), crs_outgoing_messages = cr_outgoing_messages r,
      crs_incoming_messages = cr_incoming_messages r, crs_claim_count = length (claims (cr_state r)),
      crs_presence_count = length (presence (cr_state r)),
      crs_flagged_edit_count = length (flagged_edits (cr_state r)),
      crs_score_delta_count = length (score_deltas (cr_state r)),
      crs_race_resolution_count = length (race_resolutions (cr_state r)),
      crs_recent_action_count = length (recent_actions (cr_state r)), crs_stream_closed = cr_stream_closed r\<rparr>"

subsection \<open>Histories of a runtime\<close>

datatype direction = Sent | Received

inductive runtime_history ::
  "'snap codec \<Rightarrow> 'w web_socket \<Rightarrow> string \<Rightarrow> (direction \<times> 'snap coordination_message) list \<Rightarrow>
     'w coordination_runtime \<Rightarrow> bool"
  for codec ops wiki where
  start: "runtime_history codec ops wiki [] (new_runtime wiki socket)"
| sent: "runtime_history codec ops wiki h r \<Longrightarrow> runtime_broadcast codec ops m r = (Inr (), r') \<Longrightarrow>
    runtime_history codec ops wiki (h @ [(Sent, m)]) r'"
| send_failed: "runtime_history codec ops wiki h r \<Longrightarrow> runtime_broadcast codec ops m r = (Inl e, r') \<Longrightarrow>
    runtime_history codec ops wiki h r'"
| received: "runtime_history codec ops wiki h r \<Longrightarrow> receive_message codec ops r = (Inr (Some m), r') \<Longrightarrow>
    runtime_history codec ops wiki (h @ [(Received, m)]) r'"
| nothing_received: "runtime_history codec ops wiki h r \<Longrightarrow> receive_message codec ops r = (Inr None, r') \<Longrightarrow>
    runtime_history codec ops wiki h r'"
| receive_failed: "runtime_history codec ops wiki h r \<Longrightarrow> receive_message codec ops r = (Inl e, r') \<Longrightarrow>
    runtime_history codec ops wiki h r'"

lemma coord_apply_room_after:
  "snd (coord_apply m (room_after w ms)) = room_after w (ms @ [m])"
  by (simp add: coord_apply_def room_after_snoc)

definition reflects :: "string \<Rightarrow> (direction \<times> 'snap coordination_message) list \<Rightarrow> 'w coordination_runtime \<Rightarrow> bool" where
  "reflects wiki h r \<longleftrightarrow>
     cr_state r = room_after wiki (map snd h) \<and>
     cr_outgoing_messages r = sat_u64 (length (filter (\<lambda>p. fst p = Sent) h)) \<and>
     cr_incoming_messages r = sat_u64 (length (filter (\<lambda>p. fst p = Received) h))"

lemma history_reflects: "runtime_history codec ops wiki h r \<Longrightarrow> reflects wiki h r"
proof (induction rule: runtime_history.induct)
  case (sent h r m r')
  then show ?case
    by (auto simp: reflects_def runtime_broadcast_def coord_apply_room_after sat_simps split: prod.splits sum.splits)
next
  case (send_failed h r m e r')
  then show ?case
    by (auto simp: reflects_def runtime_broadcast_def split: prod.splits sum.splits)
next
  case (received h r m r')
  then show ?case
    by (auto simp: reflects_def receive_message_def coord_apply_room_after sat_simps split: prod.splits sum.splits option.splits)
next
  case (nothing_received h r r')
  then show ?case
    by (auto simp: reflects_def receive_message_def split: prod.splits sum.splits option.splits)
next
  case (receive_failed h r e r')
  then show ?case
    by (auto simp: reflects_def receive_message_def split: prod.splits sum.splits option.splits)
qed (simp add: reflects_def new_runtime_def sat_u64_def)

lemma drain_history:
  "runtime_history codec ops wiki h r \<Longrightarrow> drain_incoming codec ops n r = (res, r') \<Longrightarrow>
     \<exists>ms. runtime_history codec ops wiki (h @ map (Pair Received) ms) r' \<and> length ms \<le> n \<and>
       (\<forall>ms'. res = Inr ms' \<longrightarrow> ms' = ms)"
proof (induction n arbitrary: h r res)
  case 0
  then show ?case by (intro exI [of _ "[]"]) auto
next
  case (Suc n)
  obtain got r1 where got: "receive_message codec ops r = (got, r1)" by fastforce
  show ?case
  proof (cases got)
    case (Inl e)
    then have "runtime_history codec ops wiki h r1" using Suc.prems(1) got by (auto intro: receive_failed)
    then show ?thesis using Suc.prems(2) got Inl by (intro exI [of _ "[]"]) auto
  next
    case (Inr om)
    show ?thesis
    proof (cases om)
      case None
      then have "runtime_history codec ops wiki h r1" using Suc.prems(1) got Inr by (auto intro: nothing_received)
      then show ?thesis using Suc.prems(2) got Inr None by (intro exI [of _ "[]"]) auto
    next
      case (Some m)
      then have run: "runtime_history codec ops wiki (h @ [(Received, m)]) r1"
        using Suc.prems(1) got Inr by (auto intro: received)
      obtain res1 where rest: "drain_incoming codec ops n r1 = (res1, r')"
        and res: "res = (case res1 of Inl e \<Rightarrow> Inl e | Inr ms \<Rightarrow> Inr (m # ms))"
        using Suc.prems(2) got Inr Some by (auto split: prod.splits sum.splits)
      from Suc.IH [OF run rest] obtain ms where "runtime_history codec ops wiki ((h @ [(Received, m)]) @ map (Pair Received) ms) r'"
          "length ms \<le> n" "\<forall>ms'. res1 = Inr ms' \<longrightarrow> ms' = ms" by blast
      then show ?thesis using res by (intro exI [of _ "m # ms"]) (auto split: sum.splits)
    qed
  qed
qed

subsection \<open>Sockets that keep their order\<close>

locale fifo_socket =
  fixes ops :: "'w web_socket"
    and pending :: "'w \<Rightarrow> web_socket_frame list"
    and sent_frames :: "'w \<Rightarrow> web_socket_frame list"
  assumes send_law: "ws_send ops f w = (r, w') \<Longrightarrow>
      pending w' = pending w \<and> sent_frames w' = (case r of Inl _ \<Rightarrow> sent_frames w | Inr _ \<Rightarrow> sent_frames w @ [f])"
    and receive_law: "ws_receive ops w = (res, w') \<Longrightarrow>
      sent_frames w' = sent_frames w \<and>
      (case res of Inl _ \<Rightarrow> pending w' = pending w
       | Inr None \<Rightarrow> pending w = [] \<and> pending w' = []
       | Inr (Some f) \<Rightarrow> pending w = f # pending w')"
begin

lemma broadcast_frames:
  assumes "runtime_broadcast codec ops m r = (res, r')"
  shows "pending (cr_socket r') = pending (cr_socket r) \<and>
    (case res of
       Inl _ \<Rightarrow> sent_frames (cr_socket r') = sent_frames (cr_socket r)
     | Inr _ \<Rightarrow> \<exists>p. encode_message codec m = Inr p \<and>
         sent_frames (cr_socket r') = sent_frames (cr_socket r) @ [FrameBinary p])"
proof (cases "encode_message codec m")
  case (Inr p)
  obtain s w where "ws_send ops (FrameBinary p) (cr_socket r) = (s, w)" by fastforce
  with Inr assms send_law [OF this] show ?thesis
    by (auto simp: runtime_broadcast_def send_message_def split: sum.splits)
qed (use assms in \<open>auto simp: runtime_broadcast_def send_message_def\<close>)

lemma receive_frames:
  assumes "receive_message codec ops r = (res, r')"
  shows "sent_frames (cr_socket r') = sent_frames (cr_socket r) \<and>
    (case res of
       Inr (Some m) \<Rightarrow> \<exists>p fs. pending (cr_socket r) = p # fs \<and> pending (cr_socket r') = fs \<and>
         (\<exists>bytes. p \<in> {FrameBinary bytes, FrameText bytes} \<and> decode_message codec bytes = Inr m)
     | Inr None \<Rightarrow> pending (cr_socket r) = [] \<or> pending (cr_socket r) = FrameClose # pending (cr_socket r')
     | Inl _ \<Rightarrow> True)"
proof -
  obtain s w where recv: "ws_receive ops (cr_socket r) = (s, w)" by fastforce
  show ?thesis
    using receive_law [OF recv] assms recv
    by (auto simp: receive_message_def client_receive_message_def decode_frame_def
        split: sum.splits option.splits web_socket_frame.splits)
qed

text \<open>What a runtime has put on the wire encodes exactly the messages of its history that it sent.\<close>

lemma wire_history:
  assumes "runtime_history codec ops wiki h r"
  shows "\<exists>before. sent_frames (cr_socket r) = before @ map FrameBinary (concat (map (\<lambda>(d, m).
    case d of Sent \<Rightarrow> (case encode_message codec m of Inr p \<Rightarrow> [p] | Inl _ \<Rightarrow> []) | Received \<Rightarrow> []) h))"
  using assms
proof (induction rule: runtime_history.induct)
  case (start socket)
  then show ?case by (simp add: new_runtime_def)
next
  case (sent h r m r')
  then show ?case using broadcast_frames [OF sent(2)] by auto
next
  case (send_failed h r m e r')
  then show ?case using broadcast_frames [OF send_failed(2)] by auto
next
  case (received h r m r')
  then show ?case using receive_frames [OF received(2)] by auto
next
  case (nothing_received h r r')
  then show ?case using receive_frames [OF nothing_received(2)] by auto
next
  case (receive_failed h r e r')
  then show ?case using receive_frames [OF receive_failed(2)] by auto
qed

end

interpretation loopback: fifo_socket loopback_web_socket lb_incoming lb_outgoing
  by unfold_locales (auto simp: loopback_web_socket_def split: list.splits)

subsection \<open>A room, its server and its clients\<close>



text \<open>Both ends of the wire use one codec; the server sees its payloads as bytes.\<close>

definition text_bytes :: "string \<Rightarrow> bytes" where
  "text_bytes s = map of_char s"

definition bytes_text :: "bytes \<Rightarrow> string" where
  "bytes_text bs = map (\<lambda>b. char_of (unat b)) bs"







text \<open>A codec that reads back what it wrote.\<close>

definition codec_faithful :: "'snap codec \<Rightarrow> 'snap coordination_message \<Rightarrow> bool" where
  "codec_faithful codec m \<longleftrightarrow>
     (case encode_message codec m of Inl _ \<Rightarrow> False | Inr p \<Rightarrow> decode_message codec p = Inr m)"

definition wire :: "'snap codec \<Rightarrow> 'snap coordination_message \<Rightarrow> web_socket_frame" where
  "wire codec m = (case encode_message codec m of Inl _ \<Rightarrow> FrameClose | Inr p \<Rightarrow> FrameBinary p)"

lemma broadcast_loopback:
  assumes "codec_faithful codec m"
  shows "runtime_broadcast codec loopback_web_socket m r =
    (Inr (), r\<lparr>cr_socket := (cr_socket r)\<lparr>lb_outgoing := lb_outgoing (cr_socket r) @ [wire codec m]\<rparr>,
               cr_outgoing_messages := sat_u64 (Suc (cr_outgoing_messages r)),
               cr_state := snd (coord_apply m (cr_state r))\<rparr>)"
  using assms
  by (auto simp: codec_faithful_def wire_def runtime_broadcast_def send_message_def loopback_web_socket_def split: sum.splits)









lemma bytes_text_bytes [simp]: "bytes_text (text_bytes s) = s"
proof (induction s)
  case (Cons c s)
  have "unat (of_char c :: 8 word) = unat (of_nat (of_char c) :: 8 word)" by (simp only: of_nat_of_char)
  also have "\<dots> = of_char c" unfolding unat_of_nat using nat_of_char_less_256 [of c] by simp
  finally have "unat (of_char c :: 8 word) = of_char c" .
  with Cons show ?case by (simp add: bytes_text_def text_bytes_def)
qed (simp add: bytes_text_def text_bytes_def)













subsection \<open>Properties\<close>

text \<open>
  C29. A runtime is its history: after any sends, receipts and failures of either, the local room is the
  room after the messages sent or received, in that order, the counters count them, and draining adds
  exactly the messages it returns, at most its limit.
\<close>

theorem runtime_is_its_history:
  assumes "runtime_history codec ops wiki h r"
  shows "cr_state r = room_after wiki (map snd h) \<and>
    cr_outgoing_messages r = sat_u64 (length (filter (\<lambda>p. fst p = Sent) h)) \<and>
    cr_incoming_messages r = sat_u64 (length (filter (\<lambda>p. fst p = Received) h)) \<and>
    (drain_incoming codec ops n r = (res, r') \<longrightarrow>
      (\<exists>ms. cr_state r' = room_after wiki (map snd h @ ms) \<and> length ms \<le> n \<and> (\<forall>ms'. res = Inr ms' \<longrightarrow> ms' = ms)))"
proof -
  note now = history_reflects [OF assms, unfolded reflects_def]
  have "\<exists>ms. cr_state r' = room_after wiki (map snd h @ ms) \<and> length ms \<le> n \<and> (\<forall>ms'. res = Inr ms' \<longrightarrow> ms' = ms)"
    if "drain_incoming codec ops n r = (res, r')"
  proof -
    from drain_history [OF assms that] obtain ms
      where "runtime_history codec ops wiki (h @ map (Pair Received) ms) r'" "length ms \<le> n" "\<forall>ms'. res = Inr ms' \<longrightarrow> ms' = ms"
      by blast
    then show ?thesis
      using history_reflects [of codec ops wiki "h @ map (Pair Received) ms" r']
      by (intro exI [of _ ms]) (simp add: reflects_def comp_def)
  qed
  with now show ?thesis by blast
qed


text \<open>
  Two writers: when two clients claim the same revision before they hear of each other, each ends up
  showing the other as its holder, for good; a race resolution that reaches both settles it.
\<close>

theorem concurrent_claims_swap:
  fixes h :: "'snap coordination_message list"
  assumes "alice = room_after wiki (h @ [claim_message wiki rid a, claim_message wiki rid b])"
    and "bob = room_after wiki (h @ [claim_message wiki rid b, claim_message wiki rid a])"
    and "race_resolution_for (room_after wiki h) rid = None"
  shows "map_option ec_actor (claim_for alice rid) = Some b \<and> map_option ec_actor (claim_for bob rid) = Some a \<and>
    map_option ec_actor (claim_for (snd (coord_apply (race_message wiki rid w) alice)) rid) = Some w \<and>
    map_option ec_actor (claim_for (snd (coord_apply (race_message wiki rid w) bob)) rid) = Some w"
proof -
  have two: "room_after wiki (h @ [m, m']) = snd (coord_apply m' (snd (coord_apply m (room_after wiki h))))" for m m'
    by (simp add: coord_apply_room_after)
  note simps = apply_defs claim_message_def race_message_def claim_for_def race_resolution_for_def coord_apply_def
  show ?thesis
    using assms(3) unfolding assms(1,2) two by (simp add: simps)
qed

subsection \<open>Witnesses\<close>

definition sample_claim :: "unit coordination_message" where
  "sample_claim = claim_message ''frwiki'' 7 ''Ana''"

definition forged_claim :: "unit coordination_message" where
  "forged_claim = claim_message ''frwiki'' 7 ''Bo''"

definition sample_codec :: "unit codec" where
  "sample_codec =
     \<lparr>encode_message = (\<lambda>m. if m = sample_claim then Inr ''c'' else if m = forged_claim then Inr ''f'' else Inl (EncodeFailed ''other'')),
      decode_message = (\<lambda>b. if b = ''c'' then Inr sample_claim else if b = ''f'' then Inr forged_claim
        else Inl (DecodeFailed ''other''))\<rparr>"

lemma sample_faithful: "codec_faithful sample_codec sample_claim" "codec_faithful sample_codec forged_claim"
  by (simp_all add: codec_faithful_def sample_codec_def sample_claim_def forged_claim_def claim_message_def)


theorem runtime_is_its_history_witness:
  "\<exists>r. runtime_history sample_codec loopback_web_socket ''frwiki'' [(Sent, sample_claim)] r \<and>
     cr_state r = room_after ''frwiki'' [sample_claim] \<and> cr_outgoing_messages r = 1"
proof -
  let ?new = "new_runtime ''frwiki'' \<lparr>lb_incoming = [], lb_outgoing = []\<rparr>"
  from broadcast_loopback [OF sample_faithful(1)] obtain r where "runtime_broadcast sample_codec loopback_web_socket sample_claim ?new = (Inr (), r)"
    by blast
  from runtime_history.sent [OF runtime_history.start this]
  have "runtime_history sample_codec loopback_web_socket ''frwiki'' [(Sent, sample_claim)] r" by simp
  with runtime_is_its_history [OF this] show ?thesis by (auto simp: sat_u64_def)
qed


theorem concurrent_claims_swap_witness:
  "map_option ec_actor (claim_for (room_after ''frwiki''
      [claim_message ''frwiki'' 7 ''Ana'', claim_message ''frwiki'' 7 ''Bo'' :: unit coordination_message]) 7) = Some ''Bo''"
proof -
  have "race_resolution_for (room_after ''frwiki'' ([] :: unit coordination_message list)) 7 = None"
    by (simp add: race_resolution_for_def new_state_def)
  from concurrent_claims_swap [OF refl refl this, of "''Ana''" "''Bo''", THEN conjunct1] show ?thesis by simp
qed

end
