(* ===== verification/Intake_Types.thy ===== *)
theory Intake_Types
  imports BTree_Map
begin

section \<open>The vocabulary of intake pipelines\<close>

text \<open>
  \<open>crates/sp42-types/src/intake.rs\<close>: items, the closed field and operator vocabulary, conditions,
  pipelines, decisions and the two resolver interfaces. A \<open>Timestamp\<close> is the number of milliseconds
  in an \<open>i64\<close>. The resolvers are trait objects: they are functions here, arguments of the
  evaluator. A \<open>BTreeSet\<close> of values is a list, since the code only asks for membership.
\<close>

record intake_actor =
  actor_username :: "string option"
  actor_rights :: "string list option"
  actor_is_bot :: bool
  actor_created_at :: "int option"

record intake_item =
  it_wiki_id :: string
  it_event_type :: string
  it_namespace :: int
  it_page_id :: "int option"
  it_revision_id :: "int option"
  it_created_at :: "int option"
  it_last_revision_at :: "int option"
  it_actor :: intake_actor
  it_observed_at :: int
  it_payload_ref :: "string option"

datatype intake_field =
    F_EventType | F_Namespace | F_PageId | F_RevisionId | F_CreatedAt | F_LastRevisionAt
  | F_ActorUsername | F_ActorRights | F_ActorIsBot | F_ActorAccountCreatedAt | F_ObservedAt
  | F_Custom string

datatype intake_op =
    Op_Eq | Op_NotEq | Op_In | Op_NotIn | Op_Has | Op_NotHas | Op_Before | Op_After
  | Op_OlderThan | Op_YoungerThan

datatype intake_value =
    V_Str string | V_Int int | V_StrList "string list" | V_IntList "int list" | V_Bool bool
  | V_Timestamp int | V_Duration int | V_CapabilityRef string

record intake_rule =
  rule_field :: intake_field
  rule_op :: intake_op
  rule_value :: intake_value

datatype intake_condition =
    C_All "intake_condition list"
  | C_Any "intake_condition list"
  | C_Not intake_condition
  | C_Rule intake_rule

abbreviation always_true :: intake_condition where "always_true \<equiv> C_All []"

datatype intake_outcome = Admit string | Drop | Reclassify string

record intake_pipeline =
  pl_id :: string
  pl_condition :: intake_condition
  pl_on_pass :: intake_outcome
  pl_on_fail :: intake_outcome
  pl_on_unknown :: "intake_outcome option"

definition outcome_for :: "intake_pipeline \<Rightarrow> bool \<Rightarrow> intake_outcome" where
  "outcome_for p known = (if known then pl_on_pass p else pl_on_fail p)"

definition unknown_outcome :: "intake_pipeline \<Rightarrow> intake_outcome" where
  "unknown_outcome p = (case pl_on_unknown p of Some out \<Rightarrow> out | None \<Rightarrow> Drop)"

datatype intake_misconfiguration =
    UnresolvedCapability string
  | UnregisteredCustomField string
  | InvalidRule string
  | UnusableCustomField string intake_op string

datatype intake_decision =
    Routed intake_outcome string "string list" string
  | Misconfigured string intake_misconfiguration

fun decision_outcome :: "intake_decision \<Rightarrow> intake_outcome option" where
  "decision_outcome (Routed out _ _ _) = Some out"
| "decision_outcome (Misconfigured _ _) = None"

datatype resolved_field =
    R_Text string | R_Number int | R_TextList "string list" | R_Flag bool | R_Instant int | R_Absent

definition is_absent :: "resolved_field \<Rightarrow> bool" where
  "is_absent r = (case r of R_Absent \<Rightarrow> True | _ \<Rightarrow> False)"

datatype intake_resolve_error = UnregisteredField string | UnresolvedCapabilityRef string

type_synonym field_resolver = "string \<Rightarrow> intake_item \<Rightarrow> intake_resolve_error + resolved_field"
type_synonym capability_resolver = "string \<Rightarrow> intake_resolve_error + intake_value list"

definition no_capabilities :: capability_resolver where
  "no_capabilities reference = Inl (UnresolvedCapabilityRef reference)"

definition no_custom_fields :: field_resolver where
  "no_custom_fields field item = Inl (UnregisteredField field)"

subsection \<open>The registry a deployment wires up\<close>

type_synonym field_registry = "(string, resolved_field) btree"

definition registry_with :: "string \<Rightarrow> resolved_field \<Rightarrow> field_registry \<Rightarrow> field_registry" where
  "registry_with field v reg = bt_insert field v reg"

definition registered :: "field_registry \<Rightarrow> string list" where
  "registered reg = bt_keys reg"

end
