(* ===== verification/Intake_Engine.thy ===== *)
theory Intake_Engine
  imports Intake_Types
begin

section \<open>The intake engine: three-valued evaluation of pipelines\<close>

text \<open>
  \<open>crates/sp42-platform/src/intake_engine.rs\<close>: Kleene connectives, the type check of rules, the
  compilation of a pipeline with its content digest, and the evaluation of a pipeline on an item.
  The hash function (SHA-256 printed in hexadecimal) is a parameter. Labels pushed on the
  \<open>matched\<close> vector are returned; the code drops them on the error path and below a negation.
\<close>

subsection \<open>Kleene connectives\<close>

datatype tri = T_True | T_False | T_Unknown

fun tri_all_step :: "tri \<Rightarrow> tri \<Rightarrow> tri" where
  "tri_all_step _ T_False = T_False"
| "tri_all_step T_False _ = T_False"
| "tri_all_step T_True T_Unknown = T_Unknown"
| "tri_all_step T_Unknown _ = T_Unknown"
| "tri_all_step T_True T_True = T_True"

fun tri_all_loop :: "tri option \<Rightarrow> tri list \<Rightarrow> tri" where
  "tri_all_loop acc [] = (case acc of None \<Rightarrow> T_True | Some r \<Rightarrow> r)"
| "tri_all_loop acc (v # vs) =
     (let r = tri_all_step (case acc of None \<Rightarrow> T_True | Some r \<Rightarrow> r) v
      in if r = T_False then T_False else tri_all_loop (Some r) vs)"

definition tri_all :: "tri list \<Rightarrow> tri" where
  "tri_all vs = tri_all_loop None vs"

fun tri_any_step :: "tri \<Rightarrow> tri \<Rightarrow> tri" where
  "tri_any_step _ T_True = T_True"
| "tri_any_step T_True _ = T_True"
| "tri_any_step T_False T_Unknown = T_Unknown"
| "tri_any_step T_Unknown _ = T_Unknown"
| "tri_any_step T_False T_False = T_False"

fun tri_any_loop :: "tri option \<Rightarrow> tri list \<Rightarrow> tri" where
  "tri_any_loop acc [] = (case acc of None \<Rightarrow> T_Unknown | Some r \<Rightarrow> r)"
| "tri_any_loop acc (v # vs) =
     (let r = tri_any_step (case acc of None \<Rightarrow> T_False | Some r \<Rightarrow> r) v
      in if r = T_True then T_True else tri_any_loop (Some r) vs)"

definition tri_any :: "tri list \<Rightarrow> tri" where
  "tri_any vs = tri_any_loop None vs"

fun tri_not :: "tri \<Rightarrow> tri" where
  "tri_not T_True = T_False"
| "tri_not T_False = T_True"
| "tri_not T_Unknown = T_Unknown"

definition truth :: "bool \<Rightarrow> tri" where
  "truth holds = (if holds then T_True else T_False)"

subsection \<open>The type check of rules\<close>

datatype value_kind = K_Text | K_Number | K_TextList | K_Flag | K_Instant

record field_spec_rec =
  fs_kind :: value_kind
  fs_ops :: "intake_op list"

definition scalar_ops :: "intake_op list" where "scalar_ops = [Op_Eq, Op_NotEq, Op_In, Op_NotIn]"
definition list_ops :: "intake_op list" where "list_ops = [Op_In, Op_NotIn, Op_Has, Op_NotHas]"
definition flag_ops :: "intake_op list" where "flag_ops = [Op_Eq, Op_NotEq]"
definition temporal_ops :: "intake_op list" where
  "temporal_ops = [Op_Before, Op_After, Op_OlderThan, Op_YoungerThan]"

fun field_spec :: "intake_field \<Rightarrow> field_spec_rec option" where
  "field_spec F_EventType = Some \<lparr>fs_kind = K_Text, fs_ops = scalar_ops\<rparr>"
| "field_spec F_ActorUsername = Some \<lparr>fs_kind = K_Text, fs_ops = scalar_ops\<rparr>"
| "field_spec F_Namespace = Some \<lparr>fs_kind = K_Number, fs_ops = scalar_ops\<rparr>"
| "field_spec F_PageId = Some \<lparr>fs_kind = K_Number, fs_ops = scalar_ops\<rparr>"
| "field_spec F_RevisionId = Some \<lparr>fs_kind = K_Number, fs_ops = scalar_ops\<rparr>"
| "field_spec F_ActorRights = Some \<lparr>fs_kind = K_TextList, fs_ops = list_ops\<rparr>"
| "field_spec F_ActorIsBot = Some \<lparr>fs_kind = K_Flag, fs_ops = flag_ops\<rparr>"
| "field_spec F_CreatedAt = Some \<lparr>fs_kind = K_Instant, fs_ops = temporal_ops\<rparr>"
| "field_spec F_LastRevisionAt = Some \<lparr>fs_kind = K_Instant, fs_ops = temporal_ops\<rparr>"
| "field_spec F_ActorAccountCreatedAt = Some \<lparr>fs_kind = K_Instant, fs_ops = temporal_ops\<rparr>"
| "field_spec F_ObservedAt = Some \<lparr>fs_kind = K_Instant, fs_ops = temporal_ops\<rparr>"
| "field_spec (F_Custom _) = None"

fun label :: "intake_field \<Rightarrow> string" where
  "label F_EventType = ''event_type''"
| "label F_Namespace = ''namespace''"
| "label F_PageId = ''page_id''"
| "label F_RevisionId = ''revision_id''"
| "label F_CreatedAt = ''created_at''"
| "label F_LastRevisionAt = ''last_revision_at''"
| "label F_ActorUsername = ''actor_username''"
| "label F_ActorRights = ''actor_rights''"
| "label F_ActorIsBot = ''actor_is_bot''"
| "label F_ActorAccountCreatedAt = ''actor_account_created_at''"
| "label F_ObservedAt = ''observed_at''"
| "label (F_Custom name) = ''custom:'' @ name"

fun op_label :: "intake_op \<Rightarrow> string" where
  "op_label Op_Eq = ''eq''"
| "op_label Op_NotEq = ''not_eq''"
| "op_label Op_In = ''in''"
| "op_label Op_NotIn = ''not_in''"
| "op_label Op_Has = ''has''"
| "op_label Op_NotHas = ''not_has''"
| "op_label Op_Before = ''before''"
| "op_label Op_After = ''after''"
| "op_label Op_OlderThan = ''older_than''"
| "op_label Op_YoungerThan = ''younger_than''"

datatype intake_error =
    OperatorNotAllowed string intake_op
  | ValueNotAllowed string value_kind intake_op intake_value

definition operand_fits :: "value_kind \<Rightarrow> intake_op \<Rightarrow> intake_value \<Rightarrow> bool" where
  "operand_fits kind op v =
     (case v of
        V_CapabilityRef _ \<Rightarrow> op \<in> {Op_In, Op_NotIn} \<and> kind \<in> {K_Text, K_Number, K_TextList}
      | _ \<Rightarrow>
        (if op \<in> {Op_Eq, Op_NotEq} then
           (case (kind, v) of (K_Text, V_Str _) \<Rightarrow> True | (K_Number, V_Int _) \<Rightarrow> True
                            | (K_Flag, V_Bool _) \<Rightarrow> True | _ \<Rightarrow> False)
         else if op \<in> {Op_In, Op_NotIn} then
           (case (kind, v) of (K_Text, V_StrList _) \<Rightarrow> True | (K_TextList, V_StrList _) \<Rightarrow> True
                            | (K_Number, V_IntList _) \<Rightarrow> True | _ \<Rightarrow> False)
         else if op \<in> {Op_Has, Op_NotHas} then
           (case (kind, v) of (K_TextList, V_Str _) \<Rightarrow> True | _ \<Rightarrow> False)
         else if op \<in> {Op_Before, Op_After} then
           (case (kind, v) of (K_Instant, V_Timestamp _) \<Rightarrow> True | _ \<Rightarrow> False)
         else (case (kind, v) of (K_Instant, V_Duration _) \<Rightarrow> True | _ \<Rightarrow> False)))"

definition validate_rule :: "intake_rule \<Rightarrow> intake_error + unit" where
  "validate_rule rule =
     (case field_spec (rule_field rule) of
        None \<Rightarrow> Inr ()
      | Some spec \<Rightarrow>
          if rule_op rule \<notin> set (fs_ops spec)
          then Inl (OperatorNotAllowed (label (rule_field rule)) (rule_op rule))
          else if \<not> operand_fits (fs_kind spec) (rule_op rule) (rule_value rule)
          then Inl (ValueNotAllowed (label (rule_field rule)) (fs_kind spec) (rule_op rule) (rule_value rule))
          else Inr ())"

fun validate_condition :: "intake_condition \<Rightarrow> intake_error + unit"
  and validate_children :: "intake_condition list \<Rightarrow> intake_error + unit" where
  "validate_condition (C_All cs) = validate_children cs"
| "validate_condition (C_Any cs) = validate_children cs"
| "validate_condition (C_Not c) = validate_condition c"
| "validate_condition (C_Rule r) = validate_rule r"
| "validate_children [] = Inr ()"
| "validate_children (c # cs) =
     (case validate_condition c of Inl e \<Rightarrow> Inl e | Inr _ \<Rightarrow> validate_children cs)"

subsection \<open>Compilation and the content digest\<close>

fun canonical_value :: "intake_value \<Rightarrow> string" where
  "canonical_value (V_Str text) = ''str:'' @ text"
| "canonical_value (V_Int number) = ''int:'' @ show_int number"
| "canonical_value (V_StrList items) = ''strs:['' @ str_join '','' items @ '']''"
| "canonical_value (V_IntList items) = ''ints:['' @ str_join '','' (map show_int items) @ '']''"
| "canonical_value (V_Bool flag) = ''bool:'' @ (if flag then ''true'' else ''false'')"
| "canonical_value (V_Timestamp stamp) = ''ts:'' @ show_int stamp"
| "canonical_value (V_Duration duration) = ''dur:'' @ show_int duration"
| "canonical_value (V_CapabilityRef name) = ''cap:'' @ name"

fun canonical_condition :: "intake_condition \<Rightarrow> string"
  and canonical_children :: "intake_condition list \<Rightarrow> string list" where
  "canonical_condition (C_All cs) = ''all('' @ str_join '','' (canonical_children cs) @ '')''"
| "canonical_condition (C_Any cs) = ''any('' @ str_join '','' (canonical_children cs) @ '')''"
| "canonical_condition (C_Not c) = ''not('' @ canonical_condition c @ '')''"
| "canonical_condition (C_Rule r) =
     ''rule('' @ label (rule_field r) @ '','' @ op_label (rule_op r) @ '','' @
       canonical_value (rule_value r) @ '')''"
| "canonical_children [] = []"
| "canonical_children (c # cs) = canonical_condition c # canonical_children cs"

fun canonical_outcome :: "intake_outcome \<Rightarrow> string" where
  "canonical_outcome (Admit route_to) = ''admit:'' @ route_to"
| "canonical_outcome Drop = ''drop''"
| "canonical_outcome (Reclassify pipeline) = ''reclassify:'' @ pipeline"

abbreviation nul :: string where "nul \<equiv> [char_of (0 :: nat)]"

definition digest_parts :: "intake_pipeline \<Rightarrow> string list" where
  "digest_parts p =
     [pl_id p, canonical_condition (pl_condition p), canonical_outcome (pl_on_pass p),
      canonical_outcome (pl_on_fail p),
      (case pl_on_unknown p of None \<Rightarrow> [] | Some out \<Rightarrow> canonical_outcome out)]"

definition config_digest :: "(string \<Rightarrow> string) \<Rightarrow> intake_pipeline \<Rightarrow> string" where
  "config_digest sha256_hex p =
     take 16 (sha256_hex (''sp42/intake-pipeline/v1'' @ nul @ concat (map (\<lambda>part. part @ nul) (digest_parts p))))"

record compiled_pipeline =
  cp_pipeline :: intake_pipeline
  cp_config_version :: string

definition compile_pipeline ::
  "(string \<Rightarrow> string) \<Rightarrow> intake_pipeline \<Rightarrow> intake_error + compiled_pipeline" where
  "compile_pipeline sha256_hex p =
     (case validate_condition (pl_condition p) of
        Inl e \<Rightarrow> Inl e
      | Inr _ \<Rightarrow> Inr \<lparr>cp_pipeline = p, cp_config_version = config_digest sha256_hex p\<rparr>)"

subsection \<open>Evaluation\<close>

record intake_context =
  cx_now_ms :: int
  cx_custom_fields :: field_resolver
  cx_capabilities :: capability_resolver

definition bare_context :: "int \<Rightarrow> intake_context" where
  "bare_context now =
     \<lparr>cx_now_ms = now, cx_custom_fields = no_custom_fields, cx_capabilities = no_capabilities\<rparr>"

definition optional_number :: "int option \<Rightarrow> resolved_field" where
  "optional_number v = (case v of None \<Rightarrow> R_Absent | Some n \<Rightarrow> R_Number n)"

definition optional_instant :: "int option \<Rightarrow> resolved_field" where
  "optional_instant v = (case v of None \<Rightarrow> R_Absent | Some t \<Rightarrow> R_Instant t)"

fun resolve_field ::
  "intake_field \<Rightarrow> intake_item \<Rightarrow> intake_context \<Rightarrow> intake_misconfiguration + resolved_field" where
  "resolve_field F_EventType item cx = Inr (R_Text (it_event_type item))"
| "resolve_field F_Namespace item cx = Inr (R_Number (it_namespace item))"
| "resolve_field F_PageId item cx = Inr (optional_number (it_page_id item))"
| "resolve_field F_RevisionId item cx = Inr (optional_number (it_revision_id item))"
| "resolve_field F_CreatedAt item cx = Inr (optional_instant (it_created_at item))"
| "resolve_field F_LastRevisionAt item cx = Inr (optional_instant (it_last_revision_at item))"
| "resolve_field F_ObservedAt item cx = Inr (R_Instant (it_observed_at item))"
| "resolve_field F_ActorUsername item cx =
     Inr (case actor_username (it_actor item) of None \<Rightarrow> R_Absent | Some u \<Rightarrow> R_Text u)"
| "resolve_field F_ActorRights item cx =
     Inr (case actor_rights (it_actor item) of None \<Rightarrow> R_Absent | Some rs \<Rightarrow> R_TextList rs)"
| "resolve_field F_ActorIsBot item cx = Inr (R_Flag (actor_is_bot (it_actor item)))"
| "resolve_field F_ActorAccountCreatedAt item cx = Inr (optional_instant (actor_created_at (it_actor item)))"
| "resolve_field (F_Custom name) item cx =
     (case cx_custom_fields cx name item of
        Inl _ \<Rightarrow> Inl (UnregisteredCustomField name)
      | Inr r \<Rightarrow> Inr r)"

definition compare_membership :: "resolved_field \<Rightarrow> intake_value list \<Rightarrow> intake_op \<Rightarrow> tri" where
  "compare_membership resolved allowed op =
     (let contains =
        (case resolved of
           R_Text text \<Rightarrow> V_Str text \<in> set allowed
         | R_Number n \<Rightarrow> V_Int n \<in> set allowed
         | R_TextList items \<Rightarrow>
             list_all (\<lambda>v. case v of V_Str wanted \<Rightarrow> wanted \<in> set items | _ \<Rightarrow> False) allowed
         | _ \<Rightarrow> False)
      in (if op \<in> {Op_In, Op_Has} then truth contains
          else if op \<in> {Op_NotIn, Op_NotHas} then tri_not (truth contains)
          else T_Unknown))"

fun describe_resolved :: "resolved_field \<Rightarrow> string" where
  "describe_resolved (R_Text _) = ''text''"
| "describe_resolved (R_Number _) = ''number''"
| "describe_resolved (R_TextList _) = ''text_list''"
| "describe_resolved (R_Flag _) = ''flag''"
| "describe_resolved (R_Instant _) = ''instant''"
| "describe_resolved R_Absent = ''absent''"

definition contains_all :: "string list \<Rightarrow> string list \<Rightarrow> bool" where
  "contains_all wanted actual = list_all (\<lambda>w. w \<in> set actual) wanted"

definition compare_direct ::
  "intake_field \<Rightarrow> resolved_field \<Rightarrow> intake_value \<Rightarrow> intake_op \<Rightarrow> int \<Rightarrow> intake_misconfiguration + tri" where
  "compare_direct field resolved v op now_ms =
     (case (resolved, v, op) of
        (R_Text a, V_Str e, Op_Eq) \<Rightarrow> Inr (truth (a = e))
      | (R_Text a, V_Str e, Op_NotEq) \<Rightarrow> Inr (tri_not (truth (a = e)))
      | (R_Text a, V_StrList es, Op_In) \<Rightarrow> Inr (truth (a \<in> set es))
      | (R_Text a, V_StrList es, Op_NotIn) \<Rightarrow> Inr (tri_not (truth (a \<in> set es)))
      | (R_Number a, V_Int e, Op_Eq) \<Rightarrow> Inr (truth (a = e))
      | (R_Number a, V_Int e, Op_NotEq) \<Rightarrow> Inr (tri_not (truth (a = e)))
      | (R_Number a, V_IntList es, Op_In) \<Rightarrow> Inr (truth (a \<in> set es))
      | (R_Number a, V_IntList es, Op_NotIn) \<Rightarrow> Inr (tri_not (truth (a \<in> set es)))
      | (R_TextList a, V_Str e, Op_Has) \<Rightarrow> Inr (truth (e \<in> set a))
      | (R_TextList a, V_Str e, Op_NotHas) \<Rightarrow> Inr (tri_not (truth (e \<in> set a)))
      | (R_TextList a, V_StrList es, Op_In) \<Rightarrow> Inr (truth (contains_all es a))
      | (R_TextList a, V_StrList es, Op_NotIn) \<Rightarrow> Inr (tri_not (truth (contains_all es a)))
      | (R_Flag a, V_Bool e, Op_Eq) \<Rightarrow> Inr (truth (a = e))
      | (R_Flag a, V_Bool e, Op_NotEq) \<Rightarrow> Inr (tri_not (truth (a = e)))
      | (R_Instant a, V_Timestamp e, Op_Before) \<Rightarrow> Inr (truth (a < e))
      | (R_Instant a, V_Timestamp e, Op_After) \<Rightarrow> Inr (truth (a > e))
      | (R_Instant a, V_Duration d, Op_OlderThan) \<Rightarrow> Inr (truth (a < sat_i64 (now_ms - d)))
      | (R_Instant a, V_Duration d, Op_YoungerThan) \<Rightarrow> Inr (truth (a > sat_i64 (now_ms - d)))
      | _ \<Rightarrow> Inl (UnusableCustomField (label field) op (describe_resolved resolved)))"

definition eval_rule ::
  "intake_rule \<Rightarrow> intake_item \<Rightarrow> intake_context \<Rightarrow> intake_misconfiguration + tri" where
  "eval_rule rule item cx =
     (case resolve_field (rule_field rule) item cx of
        Inl e \<Rightarrow> Inl e
      | Inr resolved \<Rightarrow>
          (if is_absent resolved then Inr T_Unknown
           else (case rule_value rule of
                   V_CapabilityRef reference \<Rightarrow>
                     (case cx_capabilities cx reference of
                        Inl _ \<Rightarrow> Inl (UnresolvedCapability reference)
                      | Inr allowed \<Rightarrow> Inr (compare_membership resolved allowed (rule_op rule)))
                 | v \<Rightarrow> compare_direct (rule_field rule) resolved v (rule_op rule) (cx_now_ms cx))))"

definition rule_label :: "intake_rule \<Rightarrow> string" where
  "rule_label rule = label (rule_field rule) @ ''.'' @ op_label (rule_op rule)"

fun eval_condition ::
  "intake_item \<Rightarrow> intake_context \<Rightarrow> intake_condition \<Rightarrow> intake_misconfiguration + (tri \<times> string list)"
  and eval_children ::
  "intake_item \<Rightarrow> intake_context \<Rightarrow> intake_condition list \<Rightarrow>
     intake_misconfiguration + (tri list \<times> string list)" where
  "eval_condition item cx (C_All cs) =
     (case eval_children item cx cs of
        Inl e \<Rightarrow> Inl e
      | Inr (vs, local) \<Rightarrow> Inr (tri_all vs, local))"
| "eval_condition item cx (C_Any cs) =
     (case eval_children item cx cs of
        Inl e \<Rightarrow> Inl e
      | Inr (vs, local) \<Rightarrow> Inr (tri_any vs, local))"
| "eval_condition item cx (C_Not c) =
     (case eval_condition item cx c of
        Inl e \<Rightarrow> Inl e
      | Inr (v, discarded) \<Rightarrow> Inr (tri_not v, []))"
| "eval_condition item cx (C_Rule r) =
     (case eval_rule r item cx of
        Inl e \<Rightarrow> Inl e
      | Inr v \<Rightarrow> Inr (v, if v = T_True then [rule_label r] else []))"
| "eval_children item cx [] = Inr ([], [])"
| "eval_children item cx (c # cs) =
     (case eval_condition item cx c of
        Inl e \<Rightarrow> Inl e
      | Inr (v, l) \<Rightarrow>
          (case eval_children item cx cs of
             Inl e \<Rightarrow> Inl e
           | Inr (vs, ls) \<Rightarrow> Inr (v # vs, l @ ls)))"

definition verdict_outcome :: "intake_pipeline \<Rightarrow> tri \<Rightarrow> intake_outcome" where
  "verdict_outcome p v =
     (case v of T_True \<Rightarrow> pl_on_pass p | T_False \<Rightarrow> pl_on_fail p | T_Unknown \<Rightarrow> unknown_outcome p)"

definition evaluate_intake ::
  "intake_item \<Rightarrow> compiled_pipeline \<Rightarrow> intake_context \<Rightarrow> intake_error + intake_decision" where
  "evaluate_intake item compiled cx =
     (let p = cp_pipeline compiled
      in (case validate_condition (pl_condition p) of
            Inl e \<Rightarrow> Inl e
          | Inr _ \<Rightarrow>
              Inr (case eval_condition item cx (pl_condition p) of
                     Inr (verdict, matched) \<Rightarrow>
                       Routed (verdict_outcome p verdict) (pl_id p) matched (cp_config_version compiled)
                   | Inl reason \<Rightarrow> Misconfigured (pl_id p) reason)))"

subsection \<open>The connectives\<close>

lemma tri_all_loop_None: "tri_all_loop None vs = tri_all_loop (Some T_True) vs"
  by (cases vs) (auto simp: Let_def)

lemma tri_all_loop_Some:
  "r \<noteq> T_False \<Longrightarrow> tri_all_loop (Some r) vs =
     (if T_False \<in> set vs then T_False else if r = T_Unknown \<or> T_Unknown \<in> set vs then T_Unknown else T_True)"
proof (induction vs arbitrary: r)
  case (Nil r)
  then show ?case by (cases r) auto
next
  case (Cons v vs)
  then show ?case by (cases r; cases v) (auto simp: Let_def)
qed

lemma tri_all_eq:
  "tri_all vs = (if T_False \<in> set vs then T_False else if T_Unknown \<in> set vs then T_Unknown else T_True)"
  by (simp add: tri_all_def tri_all_loop_None tri_all_loop_Some)

lemma tri_any_loop_Some:
  "r \<noteq> T_True \<Longrightarrow> tri_any_loop (Some r) vs =
     (if T_True \<in> set vs then T_True else if r = T_Unknown \<or> T_Unknown \<in> set vs then T_Unknown else T_False)"
proof (induction vs arbitrary: r)
  case (Nil r)
  then show ?case by (cases r) auto
next
  case (Cons v vs)
  then show ?case by (cases r; cases v) (auto simp: Let_def)
qed

lemma tri_any_eq:
  "tri_any vs = (if T_True \<in> set vs then T_True
     else if vs = [] \<or> T_Unknown \<in> set vs then T_Unknown else T_False)"
proof (cases vs)
  case (Cons v ws)
  then show ?thesis by (cases v) (auto simp: tri_any_def Let_def tri_any_loop_Some)
qed (simp add: tri_any_def)

lemma tri_not_iff [simp]:
  "tri_not v = T_True \<longleftrightarrow> v = T_False" "tri_not v = T_False \<longleftrightarrow> v = T_True"
  "tri_not v = T_Unknown \<longleftrightarrow> v = T_Unknown"
  by (cases v; simp)+

lemma tri_not_image_iff [simp]:
  "T_True \<in> tri_not ` A \<longleftrightarrow> T_False \<in> A" "T_False \<in> tri_not ` A \<longleftrightarrow> T_True \<in> A"
  "T_Unknown \<in> tri_not ` A \<longleftrightarrow> T_Unknown \<in> A"
  by (metis image_iff tri_not_iff(1) tri_not.simps(2), metis image_iff tri_not_iff(2) tri_not.simps(1),
      metis image_iff tri_not_iff(3) tri_not.simps(3))

text \<open>
  Kleene connectives: the early-returning loops compute conjunction and disjunction with
  False/True dominating Unknown, whatever the order of the operands; disjunction is the De Morgan dual
  of conjunction on every non-empty list, and on the empty list it is Unknown while conjunction is True.
\<close>

theorem kleene_connectives:
  "tri_all vs = (if T_False \<in> set vs then T_False else if T_Unknown \<in> set vs then T_Unknown else T_True) \<and>
   tri_any vs = (if vs = [] then T_Unknown else tri_not (tri_all (map tri_not vs)))"
  by (auto simp: tri_all_eq tri_any_eq)

subsection \<open>Which rules matter\<close>

fun condition_rules :: "intake_condition \<Rightarrow> intake_rule list"
  and children_rules :: "intake_condition list \<Rightarrow> intake_rule list" where
  "condition_rules (C_All cs) = children_rules cs"
| "condition_rules (C_Any cs) = children_rules cs"
| "condition_rules (C_Not c) = condition_rules c"
| "condition_rules (C_Rule r) = [r]"
| "children_rules [] = []"
| "children_rules (c # cs) = condition_rules c @ children_rules cs"

fun positive_rules :: "intake_condition \<Rightarrow> intake_rule list"
  and positive_children :: "intake_condition list \<Rightarrow> intake_rule list" where
  "positive_rules (C_All cs) = positive_children cs"
| "positive_rules (C_Any cs) = positive_children cs"
| "positive_rules (C_Not c) = []"
| "positive_rules (C_Rule r) = [r]"
| "positive_children [] = []"
| "positive_children (c # cs) = positive_rules c @ positive_children cs"

lemma positive_rules_subset:
  "set (positive_rules c) \<subseteq> set (condition_rules c)"
  "set (positive_children cs) \<subseteq> set (children_rules cs)"
  by (induction c and cs rule: positive_rules_positive_children.induct) auto

lemma validate_rules_iff:
  "validate_condition c = Inr () \<longleftrightarrow> list_all (\<lambda>r. validate_rule r = Inr ()) (condition_rules c)"
  "validate_children cs = Inr () \<longleftrightarrow> list_all (\<lambda>r. validate_rule r = Inr ()) (children_rules cs)"
  by (induction c and cs rule: validate_condition_validate_children.induct) (auto split: sum.splits)

lemma eval_matched:
  "eval_condition item cx c = Inr (v, m) \<Longrightarrow>
     m = map rule_label (filter (\<lambda>r. eval_rule r item cx = Inr T_True) (positive_rules c))"
  "eval_children item cx cs = Inr (vs, m) \<Longrightarrow>
     m = map rule_label (filter (\<lambda>r. eval_rule r item cx = Inr T_True) (positive_children cs))"
  by (induction item cx c and item cx cs arbitrary: v m and vs m
      rule: eval_condition_eval_children.induct) (fastforce split: sum.splits prod.splits if_splits)+

subsection \<open>Compiled pipelines\<close>

definition rule_serves :: "intake_context \<Rightarrow> intake_rule \<Rightarrow> bool" where
  "rule_serves cx r \<longleftrightarrow>
     (case rule_field r of F_Custom _ \<Rightarrow> False | _ \<Rightarrow> True) \<and>
     (case rule_value r of V_CapabilityRef reference \<Rightarrow> (case cx_capabilities cx reference of Inl _ \<Rightarrow> False | Inr _ \<Rightarrow> True)
                         | _ \<Rightarrow> True)"

lemmas op_lists = scalar_ops_def list_ops_def flag_ops_def temporal_ops_def

lemma compile_Inr:
  "compile_pipeline sha p = Inr compiled \<Longrightarrow>
     validate_condition (pl_condition p) = Inr () \<and> cp_pipeline compiled = p \<and>
     cp_config_version compiled = config_digest sha p"
  by (auto simp: compile_pipeline_def split: sum.splits)

subsection \<open>What a condition says\<close>

text \<open>
  The meaning of a condition, apart from the evaluator: a rule stands or is refuted when its field is
  known, according to a comparison of sets of values, and a condition is established or refuted by the
  two-valued reading of its tree. What is neither is unknown.
\<close>

definition operands :: "intake_context \<Rightarrow> intake_value \<Rightarrow> intake_value set" where
  "operands cx v =
     (case v of V_StrList texts \<Rightarrow> V_Str ` set texts | V_IntList numbers \<Rightarrow> V_Int ` set numbers
        | V_CapabilityRef reference \<Rightarrow> (case cx_capabilities cx reference of Inl _ \<Rightarrow> {} | Inr allowed \<Rightarrow> set allowed)
        | _ \<Rightarrow> {v})"

fun field_values :: "resolved_field \<Rightarrow> intake_value set" where
  "field_values (R_Text text) = {V_Str text}"
| "field_values (R_Number number) = {V_Int number}"
| "field_values (R_Flag flag) = {V_Bool flag}"
| "field_values (R_Instant stamp) = {V_Timestamp stamp}"
| "field_values (R_TextList texts) = V_Str ` set texts"
| "field_values R_Absent = {}"

fun is_text_list :: "resolved_field \<Rightarrow> bool" where
  "is_text_list (R_TextList _) = True" | "is_text_list _ = False"

definition rule_matches :: "intake_context \<Rightarrow> resolved_field \<Rightarrow> intake_value \<Rightarrow> bool" where
  "rule_matches cx a v = (if is_text_list a then operands cx v \<subseteq> field_values a else field_values a \<subseteq> operands cx v)"

text \<open>A comparison, read as a relation between the operands and the values of the field.\<close>

definition asserts :: "intake_context \<Rightarrow> resolved_field \<Rightarrow> intake_op \<Rightarrow> intake_value \<Rightarrow> bool" where
  "asserts cx a op v =
     (if op \<in> {Op_Eq, Op_In, Op_Has} then rule_matches cx a v
      else if op \<in> {Op_NotEq, Op_NotIn, Op_NotHas} then \<not> rule_matches cx a v
      else (case (a, v) of
              (R_Instant at, V_Timestamp bound) \<Rightarrow> (if op = Op_Before then at < bound else bound < at)
            | (R_Instant at, V_Duration age) \<Rightarrow>
                (let edge = sat_i64 (cx_now_ms cx - age) in if op = Op_OlderThan then at < edge else edge < at)
            | _ \<Rightarrow> False))"

definition rule_stands :: "intake_item \<Rightarrow> intake_context \<Rightarrow> bool \<Rightarrow> intake_rule \<Rightarrow> bool" where
  "rule_stands item cx b r \<longleftrightarrow>
     (case resolve_field (rule_field r) item cx of
        Inl _ \<Rightarrow> False
      | Inr a \<Rightarrow> a \<noteq> R_Absent \<and> asserts cx a (rule_op r) (rule_value r) = b)"

fun established :: "intake_item \<Rightarrow> intake_context \<Rightarrow> intake_condition \<Rightarrow> bool"
  and refuted :: "intake_item \<Rightarrow> intake_context \<Rightarrow> intake_condition \<Rightarrow> bool" where
  "established item cx (C_All cs) \<longleftrightarrow> (\<forall>c \<in> set cs. established item cx c)"
| "established item cx (C_Any cs) \<longleftrightarrow> (\<exists>c \<in> set cs. established item cx c)"
| "established item cx (C_Not c) \<longleftrightarrow> refuted item cx c"
| "established item cx (C_Rule r) \<longleftrightarrow> rule_stands item cx True r"
| "refuted item cx (C_All cs) \<longleftrightarrow> (\<exists>c \<in> set cs. refuted item cx c)"
| "refuted item cx (C_Any cs) \<longleftrightarrow> cs \<noteq> [] \<and> (\<forall>c \<in> set cs. refuted item cx c)"
| "refuted item cx (C_Not c) \<longleftrightarrow> established item cx c"
| "refuted item cx (C_Rule r) \<longleftrightarrow> rule_stands item cx False r"

fun has_kind :: "value_kind \<Rightarrow> resolved_field \<Rightarrow> bool" where
  "has_kind K_Text a \<longleftrightarrow> (\<exists>t. a = R_Text t)"
| "has_kind K_Number a \<longleftrightarrow> (\<exists>n. a = R_Number n)"
| "has_kind K_TextList a \<longleftrightarrow> (\<exists>ts. a = R_TextList ts)"
| "has_kind K_Flag a \<longleftrightarrow> (\<exists>b. a = R_Flag b)"
| "has_kind K_Instant a \<longleftrightarrow> (\<exists>t. a = R_Instant t)"

definition kind_ops :: "value_kind \<Rightarrow> intake_op list" where
  "kind_ops k = (case k of K_Text \<Rightarrow> scalar_ops | K_Number \<Rightarrow> scalar_ops | K_TextList \<Rightarrow> list_ops | K_Flag \<Rightarrow> flag_ops
     | K_Instant \<Rightarrow> temporal_ops)"

lemma field_spec_kind_ops: "field_spec f = Some spec \<Longrightarrow> fs_ops spec = kind_ops (fs_kind spec)"
  by (cases f) (auto simp: kind_ops_def)

lemma resolve_field_kind:
  "field_spec f = Some spec \<Longrightarrow> \<exists>a. resolve_field f item cx = Inr a \<and> (a = R_Absent \<or> has_kind (fs_kind spec) a)"
  by (cases f) (auto simp: optional_number_def optional_instant_def split: option.splits)

lemma compare_direct_asserts:
  assumes "operand_fits k op v" "op \<in> set (kind_ops k)" "has_kind k a" "\<forall>n. v \<noteq> V_CapabilityRef n"
  shows "compare_direct f a v op (cx_now_ms cx) = Inr (truth (asserts cx a op v))"
  using assms
  by (cases k; cases op; simp add: kind_ops_def op_lists; cases v; simp add: operand_fits_def; elim exE;
      simp add: compare_direct_def asserts_def rule_matches_def operands_def truth_def Let_def)
    (auto simp: contains_all_def list_all_iff)

lemma all_wanted_subset:
  "list_all (\<lambda>v. case v of V_Str wanted \<Rightarrow> wanted \<in> set texts | _ \<Rightarrow> False) allowed \<longleftrightarrow>
     set allowed \<subseteq> V_Str ` set texts"
  by (induction allowed) (auto split: intake_value.splits)

lemma compare_membership_asserts:
  assumes "operand_fits k op (V_CapabilityRef n)" "op \<in> set (kind_ops k)" "has_kind k a"
    and "cx_capabilities cx n = Inr allowed"
  shows "compare_membership a allowed op = truth (asserts cx a op (V_CapabilityRef n))"
  using assms
  by (cases k)
    (auto simp: operand_fits_def compare_membership_def asserts_def rule_matches_def operands_def
      truth_def all_wanted_subset)

lemma eval_rule_stands:
  assumes "validate_rule r = Inr ()" "rule_serves cx r"
  shows "eval_rule r item cx =
     Inr (if rule_stands item cx True r then T_True else if rule_stands item cx False r then T_False else T_Unknown)"
proof -
  obtain spec where spec: "field_spec (rule_field r) = Some spec"
    "operand_fits (fs_kind spec) (rule_op r) (rule_value r)" "rule_op r \<in> set (kind_ops (fs_kind spec))"
    using assms field_spec_kind_ops [of "rule_field r"]
    by (cases "rule_field r") (auto simp: validate_rule_def rule_serves_def split: if_splits)
  obtain a where a: "resolve_field (rule_field r) item cx = Inr a" "a = R_Absent \<or> has_kind (fs_kind spec) a"
    using resolve_field_kind [OF spec(1)] by blast
  show ?thesis
  proof (cases "a = R_Absent")
    case True
    with a(1) show ?thesis by (simp add: eval_rule_def is_absent_def rule_stands_def)
  next
    case False
    with a(2) have kind: "has_kind (fs_kind spec) a" by simp
    have "eval_rule r item cx = Inr (truth (asserts cx a (rule_op r) (rule_value r)))"
    proof (cases "\<exists>n. rule_value r = V_CapabilityRef n")
      case True
      then obtain n where n: "rule_value r = V_CapabilityRef n" by blast
      then obtain allowed where "cx_capabilities cx n = Inr allowed"
        using assms(2) by (auto simp: rule_serves_def split: sum.splits)
      with n a(1) False spec show ?thesis
        using compare_membership_asserts [OF _ spec(3) kind, of n cx allowed]
        by (cases a) (simp_all add: eval_rule_def is_absent_def)
    next
      case direct: False
      then show ?thesis
        using a(1) False compare_direct_asserts [OF spec(2,3) kind]
        by (cases "rule_value r"; cases a) (auto simp: eval_rule_def is_absent_def)
    qed
    with a(1) False show ?thesis by (simp add: rule_stands_def truth_def)
  qed
qed

definition speaks :: "intake_item \<Rightarrow> intake_context \<Rightarrow> tri \<Rightarrow> intake_condition \<Rightarrow> bool" where
  "speaks item cx v c \<longleftrightarrow> (v = T_True \<longleftrightarrow> established item cx c) \<and> (v = T_False \<longleftrightarrow> refuted item cx c)"

lemma tri_all_iff [simp]:
  "tri_all vs = T_True \<longleftrightarrow> (\<forall>v \<in> set vs. v = T_True)" "tri_all vs = T_False \<longleftrightarrow> T_False \<in> set vs"
  by (auto simp: tri_all_eq) (metis tri.exhaust)+

lemma tri_any_iff [simp]:
  "tri_any vs = T_True \<longleftrightarrow> T_True \<in> set vs" "tri_any vs = T_False \<longleftrightarrow> vs \<noteq> [] \<and> (\<forall>v \<in> set vs. v = T_False)"
  by (auto simp: tri_any_eq) (metis tri.exhaust)+

lemma speaks_all: "list_all2 (speaks item cx) vs cs \<Longrightarrow> speaks item cx (tri_all vs) (C_All cs)"
  by (induction rule: list_all2_induct) (auto simp: speaks_def)

lemma speaks_any: "list_all2 (speaks item cx) vs cs \<Longrightarrow> speaks item cx (tri_any vs) (C_Any cs)"
proof -
  assume a: "list_all2 (speaks item cx) vs cs"
  then have "(T_True \<in> set vs \<longleftrightarrow> (\<exists>c \<in> set cs. established item cx c)) \<and>
      ((\<forall>v \<in> set vs. v = T_False) \<longleftrightarrow> (\<forall>c \<in> set cs. refuted item cx c))"
    by (induction rule: list_all2_induct) (auto simp: speaks_def)
  moreover have "vs = [] \<longleftrightarrow> cs = []" using a by auto
  ultimately show ?thesis by (simp add: speaks_def)
qed

lemma eval_speaks:
  "list_all (\<lambda>r. validate_rule r = Inr () \<and> rule_serves cx r) (condition_rules c) \<Longrightarrow>
     \<exists>v m. eval_condition item cx c = Inr (v, m) \<and> speaks item cx v c"
  "list_all (\<lambda>r. validate_rule r = Inr () \<and> rule_serves cx r) (children_rules cs) \<Longrightarrow>
     \<exists>vs m. eval_children item cx cs = Inr (vs, m) \<and> list_all2 (speaks item cx) vs cs"
proof (induction item cx c and item cx cs rule: eval_condition_eval_children.induct)
  case (1 item cx cs)
  then show ?case by (auto intro: speaks_all)
next
  case (2 item cx cs)
  then show ?case by (auto intro: speaks_any)
next
  case (3 item cx c)
  then show ?case by (auto simp: speaks_def)
next
  case (4 item cx r)
  then show ?case by (auto simp: speaks_def eval_rule_stands) (simp add: rule_stands_def split: sum.splits)+
next
  case (5 item cx)
  then show ?case by simp
next
  case (6 item cx c cs)
  then show ?case by fastforce
qed

text \<open>
  C11. A pipeline that compiles never fails to evaluate: on every item, when its capability references
  resolve and it uses no custom field, it is routed: to the pass outcome when the item establishes the
  condition, to the fail outcome when it refutes it, and otherwise to the outcome for unknown verdicts,
  with the labels of the rules that stand outside negations as the matched path, in tree order. That a
  condition is established or refuted is said by the sets of values of the fields and the operands, not
  by the evaluator.
\<close>

theorem compiled_pipeline_routes:
  assumes "compile_pipeline sha p = Inr compiled"
    and "list_all (rule_serves cx) (condition_rules (pl_condition p))"
  shows "evaluate_intake item compiled cx =
     Inr (Routed
       (if established item cx (pl_condition p) then pl_on_pass p
        else if refuted item cx (pl_condition p) then pl_on_fail p
        else (case pl_on_unknown p of Some out \<Rightarrow> out | None \<Rightarrow> Drop))
       (pl_id p)
       (map rule_label (filter (rule_stands item cx True) (positive_rules (pl_condition p))))
       (config_digest sha p))"
proof -
  note compiled = compile_Inr [OF assms(1)]
  have valid: "list_all (\<lambda>r. validate_rule r = Inr () \<and> rule_serves cx r) (condition_rules (pl_condition p))"
    using assms(2) compiled by (auto simp: list_all_iff validate_rules_iff)
  then obtain v m where v: "eval_condition item cx (pl_condition p) = Inr (v, m)"
    "speaks item cx v (pl_condition p)"
    using eval_speaks(1) by blast
  have "m = map rule_label (filter (rule_stands item cx True) (positive_rules (pl_condition p)))"
    using eval_matched(1) [OF v(1)] valid positive_rules_subset(1) [of "pl_condition p"]
    by (auto simp: list_all_iff eval_rule_stands subset_iff split: if_splits
        intro!: arg_cong [of _ _ "map rule_label"] filter_cong)
  with v compiled show ?thesis
    by (cases v) (auto simp: evaluate_intake_def Let_def verdict_outcome_def unknown_outcome_def speaks_def)
qed

definition sample_item :: intake_item where
  "sample_item =
     \<lparr>it_wiki_id = ''frwiki'', it_event_type = ''edit'', it_namespace = 0, it_page_id = Some 9,
      it_revision_id = None, it_created_at = None, it_last_revision_at = None,
      it_actor = \<lparr>actor_username = Some ''Ana'', actor_rights = None, actor_is_bot = False, actor_created_at = None\<rparr>,
      it_observed_at = 1000, it_payload_ref = None\<rparr>"

definition bot_pipeline :: "string \<Rightarrow> intake_value \<Rightarrow> intake_pipeline" where
  "bot_pipeline name v =
     \<lparr>pl_id = name,
      pl_condition = C_All [C_Rule \<lparr>rule_field = F_EventType, rule_op = Op_In, rule_value = v\<rparr>,
        C_Not (C_Rule \<lparr>rule_field = F_ActorIsBot, rule_op = Op_Eq, rule_value = V_Bool True\<rparr>)],
      pl_on_pass = Admit ''review'', pl_on_fail = Drop, pl_on_unknown = None\<rparr>"

theorem compiled_pipeline_routes_witness:
  "let p = bot_pipeline ''p'' (V_StrList [''edit'', ''new'']);
       compiled = \<lparr>cp_pipeline = p, cp_config_version = config_digest (\<lambda>s. s) p\<rparr>
   in evaluate_intake sample_item compiled (bare_context 5000) =
        Inr (Routed (Admit ''review'') ''p'' [''event_type.in''] (config_digest (\<lambda>s. s) p))"
proof -
  let ?p = "bot_pipeline ''p'' (V_StrList [''edit'', ''new''])"
  have "compile_pipeline (\<lambda>s. s) ?p =
     Inr \<lparr>cp_pipeline = ?p, cp_config_version = config_digest (\<lambda>s. s) ?p\<rparr>"
    by (simp add: compile_pipeline_def bot_pipeline_def validate_rule_def op_lists operand_fits_def)
  from compiled_pipeline_routes [OF this, of "bare_context 5000" sample_item] show ?thesis
    by (simp add: bot_pipeline_def rule_serves_def sample_item_def rule_stands_def asserts_def rule_matches_def
        operands_def rule_label_def)
qed

subsection \<open>Missing information never flips a verdict\<close>

definition tri_le :: "tri \<Rightarrow> tri \<Rightarrow> bool" where
  "tri_le a b \<longleftrightarrow> a = T_Unknown \<or> a = b"

definition opt_le :: "'a option \<Rightarrow> 'a option \<Rightarrow> bool" where
  "opt_le x y \<longleftrightarrow> x = None \<or> x = y"

text \<open>The second item is the first one with some of its missing fields filled in.\<close>

definition item_le :: "intake_item \<Rightarrow> intake_item \<Rightarrow> bool" where
  "item_le i j \<longleftrightarrow>
     it_event_type i = it_event_type j \<and> it_namespace i = it_namespace j \<and>
     opt_le (it_page_id i) (it_page_id j) \<and> opt_le (it_revision_id i) (it_revision_id j) \<and>
     opt_le (it_created_at i) (it_created_at j) \<and>
     opt_le (it_last_revision_at i) (it_last_revision_at j) \<and>
     it_observed_at i = it_observed_at j \<and>
     opt_le (actor_username (it_actor i)) (actor_username (it_actor j)) \<and>
     opt_le (actor_rights (it_actor i)) (actor_rights (it_actor j)) \<and>
     actor_is_bot (it_actor i) = actor_is_bot (it_actor j) \<and>
     opt_le (actor_created_at (it_actor i)) (actor_created_at (it_actor j))"

text \<open>A custom field resolver that answers more about the better-known item, never differently.\<close>

definition resolver_le :: "field_resolver \<Rightarrow> intake_item \<Rightarrow> intake_item \<Rightarrow> bool" where
  "resolver_le resolver i j \<longleftrightarrow>
     (\<forall>name r s. resolver name i = Inr r \<longrightarrow> resolver name j = Inr s \<longrightarrow> r = R_Absent \<or> r = s)"

lemma resolve_field_mono:
  "item_le i j \<Longrightarrow> resolver_le (cx_custom_fields cx) i j \<Longrightarrow>
     resolve_field f i cx = Inr r \<Longrightarrow> resolve_field f j cx = Inr s \<Longrightarrow> r = R_Absent \<or> r = s"
  by (cases f)
    (auto simp: item_le_def opt_le_def resolver_le_def optional_number_def optional_instant_def
      split: sum.splits option.splits)

lemma eval_rule_mono:
  assumes "item_le i j" "resolver_le (cx_custom_fields cx) i j"
    and "eval_rule r i cx = Inr v" "eval_rule r j cx = Inr w"
  shows "tri_le v w"
proof -
  obtain a where a: "resolve_field (rule_field r) i cx = Inr a"
    using assms(3) by (auto simp: eval_rule_def split: sum.splits)
  obtain b where b: "resolve_field (rule_field r) j cx = Inr b"
    using assms(4) by (auto simp: eval_rule_def split: sum.splits)
  from resolve_field_mono [OF assms(1,2) a b] assms(3,4) a b show ?thesis
    by (auto simp: eval_rule_def tri_le_def is_absent_def)
qed

lemma tri_le_not: "tri_le v w \<Longrightarrow> tri_le (tri_not v) (tri_not w)"
  by (auto simp: tri_le_def)

lemma tri_le_all: "list_all2 tri_le vs ws \<Longrightarrow> tri_le (tri_all vs) (tri_all ws)"
  by (induction rule: list_all2_induct) (auto simp: tri_all_eq tri_le_def split: if_splits)

lemma tri_le_any: "list_all2 tri_le vs ws \<Longrightarrow> tri_le (tri_any vs) (tri_any ws)"
  by (induction rule: list_all2_induct) (auto simp: tri_any_eq tri_le_def split: if_splits)

lemma eval_mono:
  assumes "item_le i j" "resolver_le (cx_custom_fields cx) i j"
  shows "eval_condition i cx c = Inr (v, m) \<Longrightarrow> eval_condition j cx c = Inr (w, n) \<Longrightarrow>
      tri_le v w \<and> subseq m n"
    and "eval_children i cx cs = Inr (vs, m) \<Longrightarrow> eval_children j cx cs = Inr (ws, n) \<Longrightarrow>
      list_all2 tri_le vs ws \<and> subseq m n"
  using assms
proof (induction i cx c and i cx cs arbitrary: v m w n and vs m ws n
    rule: eval_condition_eval_children.induct)
  case (4 item cx r)
  then obtain v' w' where "eval_rule r item cx = Inr v'" "eval_rule r j cx = Inr w'" "tri_le v' w'"
    by (auto split: sum.splits intro: eval_rule_mono)
  with 4 show ?case by (auto simp: tri_le_def)
next
  case (6 item cx c cs)
  then show ?case
    by (fastforce split: sum.splits intro: list_emb_append_mono)
qed (fastforce split: sum.splits intro: tri_le_all tri_le_any tri_le_not)+

text \<open>
  C4. Fail-closed on missing data: if filling in missing fields of an item changes where a pipeline
  routes it, the poorer item was routed to the pipeline's outcome for unknown verdicts; an item is never
  admitted or dropped on a verdict that more information would reverse, and the matched path only grows.
\<close>

theorem missing_information_fails_closed:
  assumes "item_le i j" and "resolver_le (cx_custom_fields cx) i j"
    and "evaluate_intake i compiled cx = Inr (Routed out n m cv)"
    and "evaluate_intake j compiled cx = Inr (Routed out' n' m' cv')"
  shows "(out = unknown_outcome (cp_pipeline compiled) \<or> out = out') \<and> subseq m m'"
proof -
  let ?p = "cp_pipeline compiled"
  obtain v where v: "eval_condition i cx (pl_condition ?p) = Inr (v, m)" "out = verdict_outcome ?p v"
    using assms(3) by (auto simp: evaluate_intake_def Let_def split: sum.splits)
  obtain w where w: "eval_condition j cx (pl_condition ?p) = Inr (w, m')" "out' = verdict_outcome ?p w"
    using assms(4) by (auto simp: evaluate_intake_def Let_def split: sum.splits)
  from eval_mono(1) [OF assms(1,2) v(1) w(1)] v(2) w(2) show ?thesis
    by (auto simp: tri_le_def verdict_outcome_def)
qed

definition rights_pipeline :: intake_pipeline where
  "rights_pipeline =
     \<lparr>pl_id = ''r'', pl_condition =
        C_Not (C_Rule \<lparr>rule_field = F_ActorRights, rule_op = Op_Has, rule_value = V_Str ''autopatrol''\<rparr>),
      pl_on_pass = Admit ''review'', pl_on_fail = Drop, pl_on_unknown = Some (Reclassify ''slow'')\<rparr>"

theorem missing_information_fails_closed_witness:
  "let known = sample_item\<lparr>it_actor := (it_actor sample_item)\<lparr>actor_rights := Some []\<rparr>\<rparr>;
       c = \<lparr>cp_pipeline = rights_pipeline, cp_config_version = ''v''\<rparr>
   in evaluate_intake sample_item c (bare_context 0) = Inr (Routed (Reclassify ''slow'') ''r'' [] ''v'') \<and>
      evaluate_intake known c (bare_context 0) = Inr (Routed (Admit ''review'') ''r'' [] ''v'') \<and>
      (Reclassify ''slow'' = unknown_outcome rights_pipeline \<or> Reclassify ''slow'' = Admit ''review'')"
proof -
  let ?known = "sample_item\<lparr>it_actor := (it_actor sample_item)\<lparr>actor_rights := Some []\<rparr>\<rparr>"
  let ?c = "\<lparr>cp_pipeline = rights_pipeline, cp_config_version = ''v''\<rparr>"
  note simps = evaluate_intake_def rights_pipeline_def validate_rule_def op_lists operand_fits_def
    eval_rule_def sample_item_def is_absent_def compare_direct_def truth_def verdict_outcome_def
    unknown_outcome_def
  have poor: "evaluate_intake sample_item ?c (bare_context 0) = Inr (Routed (Reclassify ''slow'') ''r'' [] ''v'')"
    by (simp add: simps)
  have rich: "evaluate_intake ?known ?c (bare_context 0) = Inr (Routed (Admit ''review'') ''r'' [] ''v'')"
    by (simp add: simps)
  have le: "item_le sample_item ?known"
    by (simp add: item_le_def opt_le_def sample_item_def)
  have "resolver_le (cx_custom_fields (bare_context 0)) sample_item ?known"
    by (simp add: resolver_le_def bare_context_def no_custom_fields_def)
  from missing_information_fails_closed [OF le this poor rich] poor rich show ?thesis
    by (simp add: Let_def)
qed

subsection \<open>Two defects\<close>

text \<open>
  The digest does not identify the pipeline: list operands are joined with commas and no quoting,
  so a pipeline that admits edits of type \<open>edit\<close> or \<open>y\<close> and one that admits only the type spelled
  with the commas compile to the same version, whatever the hash function, yet route the same edit
  differently.
\<close>

theorem config_version_collision:
  "\<exists>cp cq d d'.
     compile_pipeline sha (bot_pipeline n (V_StrList (''edit'' # y # ys))) = Inr cp \<and>
     compile_pipeline sha (bot_pipeline n (V_StrList [str_join '','' (''edit'' # y # ys)])) = Inr cq \<and>
     cp_config_version cp = cp_config_version cq \<and>
     evaluate_intake sample_item cp (bare_context now) = Inr d \<and> decision_outcome d = Some (Admit ''review'') \<and>
     evaluate_intake sample_item cq (bare_context now) = Inr d' \<and> decision_outcome d' = Some Drop"
  by (simp add: compile_pipeline_def bot_pipeline_def validate_rule_def op_lists operand_fits_def
      config_digest_def digest_parts_def evaluate_intake_def Let_def eval_rule_def sample_item_def
      is_absent_def compare_direct_def truth_def verdict_outcome_def tri_all_eq)

text \<open>
  A capability on a custom field escapes both checks: the type check accepts the rule because the
  field is custom, and the membership comparison answers \<open>NotIn\<close> with True for an instant or a flag,
  instead of reporting the field as unusable; the same rule with \<open>Eq\<close> is silently Unknown.
\<close>

theorem capability_on_custom_field_unchecked:
  "let cx = \<lparr>cx_now_ms = now, cx_custom_fields = (\<lambda>_ _. Inr (R_Instant t)),
             cx_capabilities = (\<lambda>_. Inr allowed)\<rparr>;
       rule = (\<lambda>op. \<lparr>rule_field = F_Custom name, rule_op = op, rule_value = V_CapabilityRef reference\<rparr>)
   in validate_rule (rule Op_NotIn) = Inr () \<and> eval_rule (rule Op_NotIn) item cx = Inr T_True \<and>
      validate_rule (rule Op_Eq) = Inr () \<and> eval_rule (rule Op_Eq) item cx = Inr T_Unknown \<and>
      eval_rule (rule Op_NotIn\<lparr>rule_value := V_StrList []\<rparr>) item cx =
        Inl (UnusableCustomField (''custom:'' @ name) Op_NotIn ''instant'')"
  by (simp add: Let_def validate_rule_def eval_rule_def is_absent_def compare_membership_def truth_def
      compare_direct_def)

end
