(* ===== verification/Platform_Types.thy ===== *)
theory Platform_Types
  imports Complex_Main Prelude
begin

section \<open>Edits, scores and their configuration\<close>

text \<open>
  \<open>crates/sp42-platform/src/types.rs\<close>: edit events, score weights and parameters, scoring
  context, contributions and queue entries, and the content-model classification of
  \<open>crates/sp42-platform/src/wikibase.rs\<close> that the scorer consults. \<open>FlagState\<close> is \<open>bool\<close>
  (\<open>Enabled\<close> is \<open>True\<close>). An \<open>f32\<close> is either not finite or the rational it denotes; the code
  compares, clamps and prints it, and multiplies it by 100 in \<open>f64\<close>, which is exact for every
  \<open>f32\<close> between 0 and 1.
\<close>

datatype f32 = NonFinite | Finite rat

datatype editor_identity = Registered string | Anonymous string | Temporary string

fun stable_label :: "editor_identity \<Rightarrow> string" where
  "stable_label (Registered u) = u"
| "stable_label (Anonymous u) = u"
| "stable_label (Temporary u) = u"

definition is_anonymous :: "editor_identity \<Rightarrow> bool" where
  "is_anonymous e = (case e of Anonymous _ \<Rightarrow> True | _ \<Rightarrow> False)"

definition is_temporary :: "editor_identity \<Rightarrow> bool" where
  "is_temporary e = (case e of Temporary _ \<Rightarrow> True | _ \<Rightarrow> False)"

definition is_registered :: "editor_identity \<Rightarrow> bool" where
  "is_registered e = (case e of Registered _ \<Rightarrow> True | _ \<Rightarrow> False)"

record edit_event =
  ev_wiki_id :: string
  ev_title :: string
  ev_namespace :: int
  ev_rev_id :: nat
  ev_old_rev_id :: "nat option"
  ev_performer :: editor_identity
  ev_timestamp_ms :: int
  ev_is_bot :: bool
  ev_is_minor :: bool
  ev_is_new_page :: bool
  ev_tags :: "string list"
  ev_comment :: "string option"
  ev_byte_delta :: int
  ev_is_patrolled :: bool
  ev_content_model :: "string option"

datatype scoring_signal =
    AnonymousUser | TemporaryAccount | NewPage | RevertedBefore | LargeContentRemoval | LinkAddition
  | ReferenceAddition | CategoryAddition | InterwikiAddition | MassBlanking | InsertedProfanity
  | RepeatedCharacterNoise | Profanity | LinkSpam | TrustedUser | BotLikeEdit | LiftWingRisk
  | WarningHistory | ObviousVandalism | DuplicatePattern | CombinationRule | IdentityCapAdjustment

record score_weights =
  w_anonymous_user :: int
  w_temporary_account :: int
  w_new_page :: int
  w_reverted_before :: int
  w_large_content_removal :: int
  w_link_addition :: int
  w_reference_addition :: int
  w_category_addition :: int
  w_interwiki_addition :: int
  w_mass_blanking :: int
  w_inserted_profanity :: int
  w_repeated_character_noise :: int
  w_profanity :: int
  w_link_spam :: int
  w_trusted_user :: int
  w_bot_like_edit :: int
  w_liftwing_risk :: int
  w_warning_history :: int
  w_obvious_vandalism :: int
  w_duplicate_pattern :: int

record signal_parameters =
  sp_large_content_removal_threshold :: int
  sp_massive_blanking_threshold :: int
  sp_repeated_character_run_threshold :: nat
  sp_profanity_markers :: "string list"
  sp_link_markers :: "string list"
  sp_trusted_tags :: "string list"
  sp_revert_tags :: "string list"
  sp_suspicious_comment_markers :: "string list"

record identity_config =
  id_contribution_cap :: "int option"
  id_anonymous_modifier_enabled :: bool
  id_temporary_modifier_enabled :: bool
  id_account_age_modifier_enabled :: bool

record combination_rule =
  cr_slug :: string
  cr_weight :: int
  cr_when_all :: "scoring_signal list"
  cr_notes :: "string option"

record external_evaluation =
  ee_liftwing_enabled :: bool
  ee_liftwing_max_contribution :: int

record scoring_config =
  sc_base_score :: int
  sc_max_score :: int
  sc_identity :: identity_config
  sc_weights :: score_weights
  sc_signal_parameters :: signal_parameters
  sc_combination_rules :: "combination_rule list"
  sc_external_evaluation :: external_evaluation

record contribution =
  con_signal :: scoring_signal
  con_weight :: int
  con_note :: "string option"

record composite_score =
  cs_total :: int
  cs_contributions :: "contribution list"

datatype warning_level = W_None | W_Level1 | W_Level2 | W_Level3 | W_Level4 | W_Final

fun severity :: "warning_level \<Rightarrow> int" where
  "severity W_None = 0"
| "severity W_Level1 = 1"
| "severity W_Level2 = 2"
| "severity W_Level3 = 3"
| "severity W_Level4 = 4"
| "severity W_Final = 4"

fun debug_level :: "warning_level \<Rightarrow> string" where
  "debug_level W_None = ''None''"
| "debug_level W_Level1 = ''Level1''"
| "debug_level W_Level2 = ''Level2''"
| "debug_level W_Level3 = ''Level3''"
| "debug_level W_Level4 = ''Level4''"
| "debug_level W_Final = ''Final''"

record user_risk_profile =
  ur_warning_level :: warning_level
  ur_warning_count :: nat
  ur_has_recent_vandalism_templates :: bool

record scoring_context =
  ctx_user_risk :: "user_risk_profile option"
  ctx_liftwing_risk :: "f32 option"
  ctx_trust_override :: bool
  ctx_link_addition_only :: bool
  ctx_reference_addition_only :: bool
  ctx_category_addition_only :: bool
  ctx_interwiki_addition_only :: bool
  ctx_mass_blanking_detected :: bool
  ctx_inserted_profanity_detected :: bool
  ctx_repeated_character_noise_detected :: bool
  ctx_duplicate_cluster_size :: "nat option"

definition default_context :: scoring_context where
  "default_context =
     \<lparr>ctx_user_risk = None, ctx_liftwing_risk = None, ctx_trust_override = False,
      ctx_link_addition_only = False, ctx_reference_addition_only = False,
      ctx_category_addition_only = False, ctx_interwiki_addition_only = False,
      ctx_mass_blanking_detected = False, ctx_inserted_profanity_detected = False,
      ctx_repeated_character_noise_detected = False, ctx_duplicate_cluster_size = None\<rparr>"

record queue_heuristic_policy =
  qp_trusted_usernames :: "string list"
  qp_duplicate_cluster_boost :: bool

record queued_edit =
  qe_event :: edit_event
  qe_score :: composite_score

subsection \<open>Content models\<close>

datatype content_model_class = CM_Wikitext | CM_WikibaseEntity | CM_Other | CM_Unknown

definition classify_content_model :: "string option \<Rightarrow> content_model_class" where
  "classify_content_model m =
     (case m of
        None \<Rightarrow> CM_Unknown
      | Some s \<Rightarrow> if s = ''wikitext'' then CM_Wikitext
                  else if s = ''wikibase-item'' \<or> s = ''wikibase-property'' then CM_WikibaseEntity
                  else CM_Other)"

record content_model_capabilities =
  cap_wikitext_signals :: bool
  cap_revertrisk_scoring :: bool
  cap_entity_diff :: bool

definition derive_content_model_capabilities :: "string option \<Rightarrow> content_model_capabilities" where
  "derive_content_model_capabilities m =
     (case classify_content_model m of
        CM_WikibaseEntity \<Rightarrow>
          \<lparr>cap_wikitext_signals = False, cap_revertrisk_scoring = False, cap_entity_diff = True\<rparr>
      | _ \<Rightarrow> \<lparr>cap_wikitext_signals = True, cap_revertrisk_scoring = True, cap_entity_diff = False\<rparr>)"

definition wikidata_namespace_default :: "int \<Rightarrow> string option" where
  "wikidata_namespace_default ns =
     (if ns = 0 then Some ''wikibase-item'' else if ns = 120 then Some ''wikibase-property'' else None)"

definition default_namespace_content_model_for_wiki :: "string \<Rightarrow> int \<Rightarrow> string option" where
  "default_namespace_content_model_for_wiki wiki ns =
     (if wiki \<noteq> ''wikidatawiki'' \<and> wiki \<noteq> ''testwikidatawiki'' then None
      else wikidata_namespace_default ns)"

end
