(* ===== verification/Text_Tools.thy ===== *)
theory Text_Tools
  imports Prelude
begin

section \<open>More of Rust's text operations\<close>

text \<open>
  What the text-processing components use beyond the prelude: lines, characters of a UTF-8 text,
  replacing and splitting at a text pattern, and the lemmas that relate them to sublists.
\<close>

text \<open>\<open>str::lines\<close>: terminated by a line feed, with a carriage return before it dropped.\<close>

fun lines_from :: "string \<Rightarrow> string \<Rightarrow> string list" where
  "lines_from acc [] = (if acc = [] then [] else [rev acc])"
| "lines_from acc (c # s) =
     (if c = CHR 0x0A
      then rev (case acc of d # acc' \<Rightarrow> if d = CHR 0x0D then acc' else acc | [] \<Rightarrow> []) # lines_from [] s
      else lines_from (c # acc) s)"

definition str_lines :: "string \<Rightarrow> string list" where
  "str_lines s = lines_from [] s"

text \<open>
  The number of bytes of the character a text starts with, and \<open>char::is_alphanumeric\<close>: the Unicode
  tables for characters beyond ASCII are the parameter \<open>uni\<close>.
\<close>

definition char_len :: "string \<Rightarrow> nat" where
  "char_len s = (case s of [] \<Rightarrow> 0 | _ # s' \<Rightarrow> Suc (length (takeWhile is_continuation s')))"

definition ascii_alphanumeric :: "char \<Rightarrow> bool" where
  "ascii_alphanumeric c =
     (let n = (of_char c :: nat) in 48 \<le> n \<and> n \<le> 57 \<or> 65 \<le> n \<and> n \<le> 90 \<or> 97 \<le> n \<and> n \<le> 122)"

definition is_alphanumeric :: "(string \<Rightarrow> bool) \<Rightarrow> string \<Rightarrow> bool" where
  "is_alphanumeric uni c = (case c of [a] \<Rightarrow> ascii_alphanumeric a | _ \<Rightarrow> uni c)"

lemma char_len_pos [simp]: "s \<noteq> [] \<Longrightarrow> 0 < char_len s"
  by (cases s) (simp_all add: char_len_def)

lemma char_len_Cons: "char_len (c # s) = Suc (length (takeWhile is_continuation s))"
  by (simp add: char_len_def)

lemma char_len_le: "char_len s \<le> length s"
  by (cases s) (simp_all add: char_len_def length_takeWhile_le)

text \<open>The characters of a text.\<close>

function str_chars :: "string \<Rightarrow> string list" where
  "str_chars s = (if s = [] then [] else take (char_len s) s # str_chars (drop (char_len s) s))"
  by pat_completeness auto
termination
  by (relation "measure length") auto

declare str_chars.simps [simp del]

lemma concat_str_chars [simp]: "concat (str_chars s) = s"
  by (induction s rule: str_chars.induct) (subst str_chars.simps, simp)

text \<open>
  \<open>chars().flat_map(char::to_lowercase)\<close>, seen through \<open>is_ascii_alphanumeric\<close>: ASCII characters
  are lowered, the Kelvin sign lowers to \<open>k\<close> and the dotted capital I to \<open>i\<close> and a combining dot;
  every other character lowers to non-ASCII ones, \<open>None\<close> here. Continuation bytes are part of the
  character their lead byte starts.
\<close>

fun lower_view :: "string \<Rightarrow> char option list" where
  "lower_view [] = []"
| "lower_view (c # s) =
     (let n = (of_char c :: nat)
      in if n < 128 then Some (lower_byte c) # lower_view s
         else if n < 192 then lower_view s
         else if n = 226 \<and> map of_char (take 2 s) = [132 :: nat, 170] then Some (CHR ''k'') # lower_view s
         else if n = 196 \<and> map of_char (take 1 s) = [176 :: nat] then Some (CHR ''i'') # None # lower_view s
         else None # lower_view s)"

text \<open>\<open>str::replace\<close> and \<open>str::split\<close> with a non-empty text pattern: occurrences from the left, not overlapping.\<close>

function str_replace :: "string \<Rightarrow> string \<Rightarrow> string \<Rightarrow> string" where
  "str_replace pat new [] = []"
| "str_replace pat new (c # s) =
     (if pat \<noteq> [] \<and> prefix pat (c # s) then new @ str_replace pat new (drop (length pat) (c # s))
      else c # str_replace pat new s)"
  by pat_completeness auto
termination
  by (relation "measure (length \<circ> snd \<circ> snd)") (auto simp: neq_Nil_conv)

function split_on :: "string \<Rightarrow> string \<Rightarrow> string \<Rightarrow> string list" where
  "split_on pat acc [] = [rev acc]"
| "split_on pat acc (c # s) =
     (if pat \<noteq> [] \<and> prefix pat (c # s) then rev acc # split_on pat [] (drop (length pat) (c # s))
      else split_on pat (c # acc) s)"
  by pat_completeness auto
termination
  by (relation "measure (length \<circ> snd \<circ> snd)") (auto simp: neq_Nil_conv)

definition str_split :: "string \<Rightarrow> string \<Rightarrow> string list" where
  "str_split pat s = split_on pat [] s"

text \<open>\<open>str::split_once\<close>, and \<open>starts_with\<close>, \<open>ends_with\<close> as \<open>prefix\<close> and \<open>suffix\<close>.\<close>

definition str_split_once :: "string \<Rightarrow> string \<Rightarrow> (string \<times> string) option" where
  "str_split_once pat s = map_option (\<lambda>i. (take i s, drop (i + length pat) s)) (str_find pat s)"

subsection \<open>Searching\<close>

lemma str_find_Some:
  "str_find pat s = Some i \<Longrightarrow> i + length pat \<le> length s \<and> take (length pat) (drop i s) = pat"
proof (induction pat s arbitrary: i rule: str_find.induct)
  case (2 pat c s)
  then show ?case
    by (auto split: if_splits simp: prefix_def dest: arg_cong [where f = length])
qed (auto split: if_splits)

lemma str_find_sublist: "str_find pat s \<noteq> None \<longleftrightarrow> sublist pat s"
  by (induction pat s rule: str_find.induct) (auto simp: sublist_Cons_right)

lemma str_contains_iff: "str_contains s pat \<longleftrightarrow> sublist pat s"
  using str_find_sublist by (simp add: str_contains_def)

lemma sublist_sep:
  "sublist xs (a @ c # b) \<Longrightarrow> c \<notin> set xs \<Longrightarrow> sublist xs a \<or> sublist xs b"
proof -
  assume "sublist xs (a @ c # b)" "c \<notin> set xs"
  then obtain p q where pq: "a @ c # b = p @ xs @ q" by (auto simp: sublist_def)
  then obtain us where "(a = p @ us \<and> us @ c # b = xs @ q) \<or> (a @ us = p \<and> c # b = us @ xs @ q)"
    by (auto simp: append_eq_append_conv2)
  then show ?thesis
  proof
    assume "a = p @ us \<and> us @ c # b = xs @ q"
    moreover then obtain vs where "(us = xs @ vs \<and> vs @ c # b = q) \<or> (us @ vs = xs \<and> c # b = vs @ q)"
      by (auto simp: append_eq_append_conv2)
    ultimately show ?thesis
      using \<open>c \<notin> set xs\<close> by (cases vs) (auto intro: sublist_appendI [of _ _ "[]", simplified])
  next
    assume "a @ us = p \<and> c # b = us @ xs @ q"
    then show ?thesis
      using \<open>c \<notin> set xs\<close> by (cases us; cases xs) (auto simp: sublist_def)
  qed
qed

subsection \<open>Trimming\<close>

lemma trim_start_suffix: "suffix (str_trim_start s) s"
proof (induction s rule: str_trim_start.induct)
  case (1 s)
  show ?case
  proof (cases "s \<noteq> [] \<and> 0 < ws_len s")
    case True
    then show ?thesis
      using 1 [OF True] by (subst str_trim_start.simps) (auto intro: suffix_order.trans suffix_drop)
  next
    case False
    then show ?thesis by (subst str_trim_start.simps) auto
  qed
qed

lemma trim_end_prefix: "prefix (str_trim_end s) s"
proof (induction s rule: str_trim_end.induct)
  case (1 s)
  show ?case
  proof (cases "s \<noteq> [] \<and> 0 < ws_tail_len s")
    case True
    then show ?thesis
      using 1 [OF True] by (subst str_trim_end.simps) (auto intro: prefix_order.trans take_is_prefix)
  next
    case False
    then show ?thesis by (subst str_trim_end.simps) auto
  qed
qed

lemma trim_start_length: "length (str_trim_start s) \<le> length s"
  using trim_start_suffix by (rule suffix_length_le)

lemma trim_end_length: "length (str_trim_end s) \<le> length s"
  using trim_end_prefix by (rule prefix_length_le)

lemma trim_start_eq: "drop (length s - length (str_trim_start s)) s = str_trim_start s"
  using trim_start_suffix by (metis suffix_take append_eq_conv_conj length_append diff_add_inverse2)

lemma trim_end_eq: "take (length (str_trim_end s)) s = str_trim_end s"
  using trim_end_prefix [of s] by (metis append_eq_conv_conj prefix_def)

lemma trim_sublist: "sublist (str_trim s) s"
  unfolding str_trim_def
  by (metis prefix_imp_sublist suffix_imp_sublist sublist_order.order.trans trim_end_prefix trim_start_suffix)

subsection \<open>White space from both ends\<close>

text \<open>The white-space code points by their length, and the texts that consist of them.\<close>

definition ws1 :: "nat \<Rightarrow> bool" where "ws1 a \<longleftrightarrow> a = 32 \<or> 9 \<le> a \<and> a \<le> 13"
definition ws2 :: "nat \<Rightarrow> nat \<Rightarrow> bool" where "ws2 a b \<longleftrightarrow> a = 194 \<and> (b = 133 \<or> b = 160)"
definition ws3 :: "nat \<Rightarrow> nat \<Rightarrow> nat \<Rightarrow> bool" where
  "ws3 a b c \<longleftrightarrow> (a, b, c) = (225, 154, 128) \<or>
     (a = 226 \<and> b = 128 \<and> ((128 \<le> c \<and> c \<le> 138) \<or> c = 168 \<or> c = 169 \<or> c = 175)) \<or>
     (a, b, c) = (226, 129, 159) \<or> (a, b, c) = (227, 128, 128)"

lemma ws_len_eq:
  "ws_len [] = 0"
  "ws_len [x] = (if ws1 (of_char x) then 1 else 0)"
  "ws_len [x, y] = (if ws1 (of_char x) then 1 else if ws2 (of_char x) (of_char y) then 2 else 0)"
  "ws_len (x # y # z # s) =
     (if ws1 (of_char x) then 1 else if ws2 (of_char x) (of_char y) then 2
      else if ws3 (of_char x) (of_char y) (of_char z) then 3 else 0)"
  by (simp_all only: ws_len_simps ws_bytes.simps ws1_def ws2_def ws3_def list.case)

definition ws_cp :: "string \<Rightarrow> bool" where
  "ws_cp t \<longleftrightarrow> t \<noteq> [] \<and> ws_len t = length t"

lemma ws_cp_append: "ws_cp t \<Longrightarrow> ws_len (t @ u) = length t"
  by (cases t rule: list3_cases; cases u rule: list3_cases) (auto simp: ws_cp_def ws_len_eq split: if_splits)

lemma ws_len_take: "0 < ws_len s \<Longrightarrow> ws_cp (take (ws_len s) s) \<and> ws_len s \<le> length s"
  by (cases s rule: list3_cases) (auto simp: ws_cp_def ws_len_eq split: if_splits)

lemma ws_cp_cases:
  assumes "ws_cp t"
  obtains x where "t = [x]" "ws1 (of_char x)"
    | x y where "t = [x, y]" "ws2 (of_char x) (of_char y)"
    | x y z where "t = [x, y, z]" "ws3 (of_char x) (of_char y) (of_char z)"
  using assms by (cases t rule: list3_cases) (auto simp: ws_cp_def ws_len_eq split: if_splits)

text \<open>Two code points do not overlap.\<close>

lemma ws_bytes_facts:
  "ws1 a \<Longrightarrow> a < 128" "ws2 a b \<Longrightarrow> a = 194 \<and> 128 \<le> b \<and> b < 192"
  "ws3 a b c \<Longrightarrow> a \<in> {225, 226, 227} \<and> 128 \<le> b \<and> b < 192 \<and> 128 \<le> c \<and> c < 192"
  by (auto simp: ws1_def ws2_def ws3_def)

lemma ws_exclusive:
  "ws2 a b \<Longrightarrow> \<not> ws1 a \<and> \<not> ws1 b"
  "ws3 a b c \<Longrightarrow> \<not> ws1 a \<and> \<not> ws1 b \<and> \<not> ws1 c \<and> \<not> ws2 a b \<and> \<not> ws2 b c"
  by (auto simp: ws1_def ws2_def ws3_def)

lemma ws_tail_cp: "ws_cp t \<Longrightarrow> ws_tail_len (s @ t) = length t"
  by (erule ws_cp_cases) (simp_all add: ws_tail_len_def ws_len_eq ws_exclusive)

lemma ws_tail_len_cp: "0 < ws_tail_len s \<Longrightarrow> \<exists>u t. s = u @ t \<and> ws_cp t \<and> ws_tail_len s = length t"
proof -
  assume pos: "0 < ws_tail_len s"
  then have "ws_tail_len s \<le> length s" "ws_len (drop (length s - ws_tail_len s) s) = ws_tail_len s"
    by (auto simp: ws_tail_len_def neq_Nil_conv split: if_splits)
  with pos have "ws_cp (drop (length s - ws_tail_len s) s)"
      "ws_tail_len s = length (drop (length s - ws_tail_len s) s)"
    by (auto simp: ws_cp_def)
  then show ?thesis by (metis append_take_drop_id)
qed

lemma trim_start_cp: "ws_cp t \<Longrightarrow> str_trim_start (t @ u) = str_trim_start u"
  by (subst str_trim_start.simps) (simp add: ws_cp_append, simp add: ws_cp_def)

lemma trim_end_cp: "ws_cp t \<Longrightarrow> str_trim_end (u @ t) = str_trim_end u"
  by (subst str_trim_end.simps) (simp add: ws_tail_cp, simp add: ws_cp_def)

lemma trim_start_split: "\<exists>cps. s = concat cps @ str_trim_start s \<and> list_all ws_cp cps \<and> ws_len (str_trim_start s) = 0"
proof (induction s rule: str_trim_start.induct)
  case (1 s)
  show ?case
  proof (cases "s \<noteq> [] \<and> 0 < ws_len s")
    case True
    then obtain cps where "drop (ws_len s) s = concat cps @ str_trim_start (drop (ws_len s) s)" "list_all ws_cp cps"
        "ws_len (str_trim_start (drop (ws_len s) s)) = 0"
      using 1 by blast
    moreover have "str_trim_start s = str_trim_start (drop (ws_len s) s)"
      using True by (subst str_trim_start.simps) simp
    moreover have "ws_cp (take (ws_len s) s)" using ws_len_take [of s] True by simp
    moreover have "s = take (ws_len s) s @ drop (ws_len s) s" by simp
    ultimately have "s = concat (take (ws_len s) s # cps) @ str_trim_start s \<and>
        list_all ws_cp (take (ws_len s) s # cps) \<and> ws_len (str_trim_start s) = 0"
      by (simp del: append_take_drop_id)
    then show ?thesis by (rule exI)
  next
    case False
    then have "str_trim_start s = s" by (subst str_trim_start.simps) auto
    then show ?thesis using False by (intro exI [of _ "[]"]) (auto simp: ws_len_eq)
  qed
qed

lemma trim_end_cps: "list_all ws_cp cps \<Longrightarrow> str_trim_end (u @ concat cps) = str_trim_end u"
proof (induction cps rule: rev_induct)
  case (snoc t cps)
  then show ?case using trim_end_cp [of t "u @ concat cps"] by simp
qed simp

lemma trim_end_blank: "str_trim_start s = [] \<Longrightarrow> str_trim_end s = []"
  using trim_start_split [of s] trim_end_cps [of _ "[]"] by (auto simp: str_trim_end.simps [of "[]"])

text \<open>A code point at the end of a text does not reach back into leading white space.\<close>

lemma cps_last:
  assumes "list_all ws_cp cps" "concat cps = u @ [x]"
  shows "of_char x \<notin> {194, 225, 226, 227 :: nat}"
proof -
  obtain cs t where "cps = cs @ [t]" using assms(2) by (cases cps rule: rev_cases) auto
  with assms have "ws_cp t" "concat cs @ t = u @ [x]" by auto
  then show ?thesis
    by (elim ws_cp_cases) (auto dest!: ws_bytes_facts simp: append_eq_append_conv2 Cons_eq_append_conv)
qed

lemma cps_last2:
  assumes "list_all ws_cp cps" "concat cps = u @ [x, y]"
  shows "\<not> (of_char x \<in> {225, 226, 227 :: nat} \<and> (\<exists>z. ws3 (of_char x) (of_char y) z))"
proof -
  obtain cs t where "cps = cs @ [t]" using assms(2) by (cases cps rule: rev_cases) auto
  with assms have t: "ws_cp t" "concat cs @ t = u @ [x, y]" by auto
  then show ?thesis
  proof (cases rule: ws_cp_cases)
    case (1 a)
    then show ?thesis using t(2) by (auto dest!: ws_bytes_facts)
  next
    case (2 a b)
    then show ?thesis using t(2) by (auto dest!: ws_bytes_facts)
  next
    case (3 a b c)
    then have "x = b" "y = c" using t(2) by auto
    then show ?thesis using 3 by (auto dest!: ws_bytes_facts)
  qed
qed

lemma tail_in_rest:
  assumes "list_all ws_cp cps" "q \<noteq> []" "ws_len q = 0" "concat cps @ q = u @ t" "ws_cp t"
  shows "length t < length q"
proof (rule ccontr)
  assume "\<not> length t < length q"
  then obtain v where v: "t = v @ q" "concat cps = u @ v"
    using assms(4) by (auto simp: append_eq_append_conv2)
  have "v \<noteq> []" using v assms(2,3,5) by (auto simp: ws_cp_def)
  then have short: "length v < length t" using v assms(2) by simp
  show False
    using assms(5)
  proof (cases rule: ws_cp_cases)
    case 1
    then show ?thesis using \<open>v \<noteq> []\<close> short by simp
  next
    case (2 x y)
    then have "v = [x]" using v(1) \<open>v \<noteq> []\<close> short by (cases v) auto
    then show ?thesis using cps_last [OF assms(1), of u x] v 2 ws_bytes_facts(2) by auto
  next
    case (3 x y z)
    then consider "v = [x]" | "v = [x, y]"
      using v(1) \<open>v \<noteq> []\<close> short by (cases v rule: list3_cases) auto
    then show ?thesis
      using cps_last [OF assms(1), of u x] cps_last2 [OF assms(1), of u x y] v 3 ws_bytes_facts(3) by cases auto
  qed
qed

text \<open>What trimming takes off both ends of a text that is not blank leaves something between.\<close>

lemma trim_end_keeps_rest:
  assumes "list_all ws_cp cps" "q \<noteq> []" "ws_len q = 0"
  shows "length (concat cps) < length (str_trim_end (concat cps @ q))"
  using assms(2,3)
proof (induction q rule: measure_induct_rule [of length])
  case (less q)
  show ?case
  proof (cases "0 < ws_tail_len (concat cps @ q)")
    case True
    then obtain u t where ut: "concat cps @ q = u @ t" "ws_cp t"
      using ws_tail_len_cp by blast
    have "length t < length q" by (rule tail_in_rest [OF assms(1) less.prems ut])
    moreover have "length u + length t = length (concat cps) + length q"
      using ut(1) by (metis length_append)
    ultimately obtain q' where q': "q = q' @ t" "u = concat cps @ q'" "q' \<noteq> []"
      using ut(1) unfolding append_eq_append_conv2 by (metis add.commute add_less_cancel_left append.right_neutral
        length_append less_add_same_cancel1 not_less0 not_less_iff_gr_or_eq self_append_conv2 trans_less_add1)
    moreover have "ws_len q' = 0" using less.prems(2) q' by (metis ws_len_append)
    moreover have "length q' < length q" using ut(2) q' by (simp add: ws_cp_def)
    ultimately show ?thesis
      using less.IH [of q'] trim_end_cp [OF ut(2), of u] ut(1) by simp
  next
    case False
    then have "str_trim_end (concat cps @ q) = concat cps @ q" by (subst str_trim_end.simps) simp
    then show ?thesis using less.prems(1) by simp
  qed
qed

lemma trims_apart:
  assumes "str_trim_start s \<noteq> []"
  shows "length s - length (str_trim_start s) < length (str_trim_end s)"
proof -
  obtain cps q where cps: "s = concat cps @ q" "q = str_trim_start s" "list_all ws_cp cps" "ws_len q = 0"
    using trim_start_split by blast
  then have "q \<noteq> []" using assms by simp
  from trim_end_keeps_rest [OF cps(3) this cps(4)] show ?thesis
    unfolding cps(2) [symmetric] by (simp add: cps(1))
qed

text \<open>Texts of visible ASCII characters have nothing to trim.\<close>

definition visible_ascii :: "char \<Rightarrow> bool" where
  "visible_ascii c \<longleftrightarrow> 33 \<le> (of_char c :: nat) \<and> (of_char c :: nat) \<le> 126"

lemma ws_len_visible: "visible_ascii c \<Longrightarrow> ws_len (c # s) = 0"
  by (cases s; cases "tl s") (auto simp: ws_len_def visible_ascii_def)

lemma trim_visible: "list_all visible_ascii s \<Longrightarrow> str_trim s = s"
proof -
  assume v: "list_all visible_ascii s"
  have "ws_len s = 0" using v by (cases s) (simp_all add: ws_len_visible ws_len_simps)
  then have "str_trim_start s = s" by (subst str_trim_start.simps) simp
  moreover have "ws_len (drop n s) = 0" if "n < length s" for n
    using v that by (simp add: Cons_nth_drop_Suc [symmetric] list_all_length ws_len_visible)
  then have "ws_tail_len s = 0" by (auto simp: ws_tail_len_def)
  then have "str_trim_end s = s" by (subst str_trim_end.simps) simp
  ultimately show ?thesis by (simp add: str_trim_def)
qed

lemma visible_not_blank:
  assumes "b \<in> set s" "33 \<le> (of_char b :: nat)" "of_char b \<le> (126 :: nat)"
  shows "str_trim s \<noteq> []"
proof
  assume blank: "str_trim s = []"
  obtain cps where split: "s = concat cps @ str_trim_start s" "list_all ws_cp cps" "ws_len (str_trim_start s) = 0"
    using trim_start_split by blast
  have "str_trim_start s = []"
    using trim_end_keeps_rest [of "[]" "str_trim_start s"] split(3) blank by (auto simp: str_trim_def)
  then obtain t where t: "ws_cp t" "b \<in> set t"
    using split assms(1) by (auto simp: list_all_iff)
  then show False
    using assms(2,3) by (cases t rule: list3_cases) (auto simp: ws_cp_def ws_len_simps split: if_splits)
qed

end
