(* ===== verification/Scoring_Engine.thy ===== *)
theory Scoring_Engine
  imports Platform_Types Text_Tools
begin

section \<open>The scoring engine\<close>

text \<open>
  \<open>crates/sp42-platform/src/scoring_engine.rs\<close>. The running total and the contribution list, two
  mutable arguments in the code, are the record \<open>ledger\<close>. A panic of \<open>clamp\<close>, or of \<open>abs\<close>
  and negation in builds with overflow checks, is the value \<open>None\<close>; every other path is \<open>Some\<close> of a result. All integers
  are \<open>i32\<close> with saturating addition written out.
\<close>

datatype scoring_error = Computation string

record ledger =
  led_total :: int
  led_contributions :: "contribution list"

subsection \<open>The ledger\<close>

fun merge_notes :: "string option \<Rightarrow> string option \<Rightarrow> string option" where
  "merge_notes None None = None"
| "merge_notes (Some note) None = Some note"
| "merge_notes None (Some note) = Some note"
| "merge_notes (Some existing) (Some incoming) =
     (if existing = incoming then Some existing else Some (existing @ ''; '' @ incoming))"

fun record_contribution ::
  "scoring_signal \<Rightarrow> int \<Rightarrow> string option \<Rightarrow> contribution list \<Rightarrow> contribution list" where
  "record_contribution sig w note [] = [\<lparr>con_signal = sig, con_weight = w, con_note = note\<rparr>]"
| "record_contribution sig w note (c # cs) =
     (if con_signal c = sig
      then c\<lparr>con_weight := sat_i32 (con_weight c + w), con_note := merge_notes (con_note c) note\<rparr> # cs
      else c # record_contribution sig w note cs)"

definition push_signal :: "scoring_signal \<Rightarrow> int \<Rightarrow> string option \<Rightarrow> ledger \<Rightarrow> ledger" where
  "push_signal sig w note l =
     \<lparr>led_total = sat_i32 (led_total l + w),
      led_contributions = record_contribution sig w note (led_contributions l)\<rparr>"

subsection \<open>Helpers\<close>

definition scale_weight :: "int \<Rightarrow> int \<Rightarrow> int \<Rightarrow> int" where
  "scale_weight w num den =
     (if den \<le> 0 then 0
      else (let n = sat_i64 (w * num);
                adjustment = trunc_div den 2;
                rounded = (if n < 0 then sat_i64 (n - adjustment) else sat_i64 (n + adjustment))
            in max i32_min (min i32_max (trunc_div rounded den))))"

definition contains_any :: "string option \<Rightarrow> string list \<Rightarrow> bool" where
  "contains_any haystack markers =
     (case haystack of
        None \<Rightarrow> False
      | Some h \<Rightarrow> list_ex (\<lambda>m. str_contains (to_ascii_lowercase h) m) markers)"

definition contains_tag :: "string \<Rightarrow> string list \<Rightarrow> bool" where
  "contains_tag tag markers = list_ex (\<lambda>m. str_contains (to_ascii_lowercase tag) m) markers"

fun run_loop :: "nat \<Rightarrow> char option \<Rightarrow> nat \<Rightarrow> char option list \<Rightarrow> bool" where
  "run_loop threshold prev run [] = False"
| "run_loop threshold prev run (ch # chs) =
     (if (case ch of None \<Rightarrow> False | Some c \<Rightarrow> ascii_alphanumeric c) \<and> ch = prev
      then (let run' = min 255 (run + 1)
            in if threshold \<le> run' then True else run_loop threshold prev run' chs)
      else run_loop threshold ch 1 chs)"

definition has_repeated_character_run :: "string option \<Rightarrow> nat \<Rightarrow> bool" where
  "has_repeated_character_run v threshold =
     (case v of
        None \<Rightarrow> False
      | Some s \<Rightarrow> run_loop threshold (Some (char_of (0 :: nat))) 0 (lower_view s))"

definition normalize_probability :: "f32 \<Rightarrow> rat option" where
  "normalize_probability p =
     (case p of NonFinite \<Rightarrow> None | Finite x \<Rightarrow> Some (max 0 (min 1 x)))"

text \<open>Printing with a fixed number of decimals rounds the exact value, ties to even.\<close>

definition round_half_even :: "rat \<Rightarrow> int" where
  "round_half_even x =
     (let f = \<lfloor>x\<rfloor>; d = x - of_int f
      in if d < 1 / 2 then f else if d > 1 / 2 then f + 1 else if even f then f else f + 1)"

definition show_hundredths :: "int \<Rightarrow> string" where
  "show_hundredths n =
     show_int (n div 100) @ ''.'' @ show_int (n mod 100 div 10) @ show_int (n mod 10)"

definition detect_obvious_vandalism :: "edit_event \<Rightarrow> scoring_config \<Rightarrow> string option" where
  "detect_obvious_vandalism ev cfg =
     (let sp = sc_signal_parameters cfg;
          severe = ev_byte_delta ev \<le> sp_massive_blanking_threshold sp;
          t = sp_repeated_character_run_threshold sp;
          reasons =
            (if severe then [''massive blanking byte_delta='' @ show_int (ev_byte_delta ev)] else []) @
            (if contains_any (ev_comment ev) (sp_profanity_markers sp)
             then [''profanity marker in comment''] else []) @
            (if contains_any (ev_comment ev) (sp_link_markers sp)
             then [''external link marker in comment''] else []) @
            (if contains_any (ev_comment ev) (sp_suspicious_comment_markers sp)
             then [''suspicious moderation-style comment marker''] else []) @
            (if has_repeated_character_run (ev_comment ev) t \<or> has_repeated_character_run (Some (ev_title ev)) t
             then [''repeated-character noise detected''] else [])
      in (if reasons = [] then None
          else if severe \<or> 2 \<le> length reasons then Some (str_join ''; '' reasons)
          else None))"

subsection \<open>Signals of the edit\<close>

definition apply_editor_signal :: "edit_event \<Rightarrow> scoring_config \<Rightarrow> ledger \<times> int \<Rightarrow> ledger \<times> int" where
  "apply_editor_signal ev cfg st0 =
     (let w = sc_weights cfg; ident = sc_identity cfg;
          st1 = (if id_anonymous_modifier_enabled ident \<and> is_anonymous (ev_performer ev)
                 then (push_signal AnonymousUser (w_anonymous_user w) None (fst st0),
                       sat_i32 (snd st0 + w_anonymous_user w))
                 else st0)
      in (if id_temporary_modifier_enabled ident \<and> is_temporary (ev_performer ev)
          then (push_signal TemporaryAccount (w_temporary_account w)
                  (Some ''temporary account editors are newcomer-like but not raw IPs'') (fst st1),
                sat_i32 (snd st1 + w_temporary_account w))
          else st1))"

definition push_if :: "bool \<Rightarrow> scoring_signal \<Rightarrow> int \<Rightarrow> string option \<Rightarrow> ledger \<Rightarrow> ledger" where
  "push_if enabled sig w note l = (if enabled then push_signal sig w note l else l)"

definition apply_edit_shape_signals :: "edit_event \<Rightarrow> scoring_config \<Rightarrow> ledger \<Rightarrow> ledger" where
  "apply_edit_shape_signals ev cfg l0 =
     (let w = sc_weights cfg; sp = sc_signal_parameters cfg;
          l1 = push_if (ev_is_new_page ev) NewPage (w_new_page w) None l0;
          l2 = push_if (ev_byte_delta ev \<le> sp_large_content_removal_threshold sp) LargeContentRemoval
                 (w_large_content_removal w) (Some (''byte delta '' @ show_int (ev_byte_delta ev))) l1;
          l3 = push_if (ev_is_bot ev) BotLikeEdit (w_bot_like_edit w) None l2;
          l4 = push_if (contains_any (ev_comment ev) (sp_profanity_markers sp)) Profanity
                 (w_profanity w) (ev_comment ev) l3;
          l5 = push_if (contains_any (ev_comment ev) (sp_link_markers sp)) LinkSpam
                 (w_link_spam w) (ev_comment ev) l4
      in (case detect_obvious_vandalism ev cfg of
            None \<Rightarrow> l5
          | Some reason \<Rightarrow> push_signal ObviousVandalism (w_obvious_vandalism w) (Some reason) l5))"

definition apply_trusted_and_revert_signals ::
  "edit_event \<Rightarrow> scoring_context \<Rightarrow> scoring_config \<Rightarrow> ledger \<times> int \<Rightarrow> ledger \<times> int" where
  "apply_trusted_and_revert_signals ev ctx cfg st0 =
     (let w = sc_weights cfg; sp = sc_signal_parameters cfg;
          tagged = list_ex (\<lambda>t. contains_tag t (sp_trusted_tags sp)) (ev_tags ev);
          overridden = ctx_trust_override ctx;
          st1 = (if tagged \<or> overridden
                 then (push_signal TrustedUser (w_trusted_user w)
                         (if tagged \<and> overridden then Some ''trusted tag and public trusted-user rule matched''
                          else if tagged then Some ''trusted tag detected''
                          else Some ''public trusted-user rule matched'') (fst st0),
                       sat_i32 (snd st0 + w_trusted_user w))
                 else st0)
      in (push_if (list_ex (\<lambda>t. contains_tag t (sp_revert_tags sp)) (ev_tags ev)) RevertedBefore
            (w_reverted_before w) (Some ''revert-related tag detected'') (fst st1),
          snd st1))"

text \<open>
  \<open>abs\<close> and negation on \<open>i32\<close>: the smallest value has no opposite, which panics with overflow checks
  and wraps to itself without them (the release profile does not turn them on).
\<close>

definition abs_i32 :: "bool \<Rightarrow> int \<Rightarrow> int option" where
  "abs_i32 checks x = (if x = i32_min then (if checks then None else Some i32_min) else Some \<bar>x\<bar>)"

definition neg_i32 :: "bool \<Rightarrow> int \<Rightarrow> int option" where
  "neg_i32 checks x = (if x = i32_min then (if checks then None else Some i32_min) else Some (- x))"

definition apply_identity_contribution_cap ::
  "bool \<Rightarrow> int option \<Rightarrow> int \<Rightarrow> ledger \<Rightarrow> ledger option" where
  "apply_identity_contribution_cap checks cap identity_total l =
     (case cap of
        None \<Rightarrow> Some l
      | Some configured \<Rightarrow>
          (case abs_i32 checks configured of
             None \<Rightarrow> None
           | Some c \<Rightarrow>
               (case neg_i32 checks c of
                  None \<Rightarrow> None
                | Some low \<Rightarrow>
                    (case clamp_checked low c identity_total of
                       None \<Rightarrow> None
                     | Some bounded \<Rightarrow>
                         (let adjustment = sat_i32 (bounded - identity_total)
                          in if adjustment = 0 then Some l
                             else Some (push_signal IdentityCapAdjustment adjustment
                                    (Some (''identity contribution capped to +/- '' @ show_int c)) l))))))"

definition apply_primary_edit_signals ::
  "bool \<Rightarrow> edit_event \<Rightarrow> scoring_config \<Rightarrow> scoring_context \<Rightarrow> ledger \<Rightarrow> ledger option" where
  "apply_primary_edit_signals checks ev cfg ctx l =
     (let st1 = apply_editor_signal ev cfg (l, 0);
          st2 = (apply_edit_shape_signals ev cfg (fst st1), snd st1);
          st3 = apply_trusted_and_revert_signals ev ctx cfg st2
      in apply_identity_contribution_cap checks (id_contribution_cap (sc_identity cfg)) (snd st3) (fst st3))"

subsection \<open>Signals of the context\<close>

definition apply_warning_history_signal :: "scoring_context \<Rightarrow> score_weights \<Rightarrow> ledger \<Rightarrow> ledger" where
  "apply_warning_history_signal ctx w l =
     (case ctx_user_risk ctx of
        None \<Rightarrow> l
      | Some profile \<Rightarrow>
          (let s = severity (ur_warning_level profile)
           in if s \<le> 0 then l
              else push_signal WarningHistory (scale_weight (w_warning_history w) s 4)
                (Some (''warning level '' @ debug_level (ur_warning_level profile) @ '', '' @
                   show_nat (ur_warning_count profile) @ '' warning templates'')) l))"

definition apply_liftwing_signal :: "scoring_context \<Rightarrow> score_weights \<Rightarrow> ledger \<Rightarrow> ledger" where
  "apply_liftwing_signal ctx w l =
     (case ctx_liftwing_risk ctx of
        None \<Rightarrow> l
      | Some risk \<Rightarrow>
          (case normalize_probability risk of
             None \<Rightarrow> l
           | Some p \<Rightarrow>
               (if p \<le> 0 then l
                else push_signal LiftWingRisk
                       (scale_weight (w_liftwing_risk w) (round_half_even (p * 100)) 100)
                       (Some (''probability '' @ show_hundredths (round_half_even (p * 100)))) l)))"

definition apply_boolean_context_signals :: "scoring_context \<Rightarrow> score_weights \<Rightarrow> ledger \<Rightarrow> ledger" where
  "apply_boolean_context_signals ctx w l0 =
     (let l1 = push_if (ctx_link_addition_only ctx) LinkAddition (w_link_addition w)
                 (Some ''only wikilink wrapper characters were added'') l0;
          l2 = push_if (ctx_reference_addition_only ctx) ReferenceAddition (w_reference_addition w)
                 (Some ''only references or citation templates were added'') l1;
          l3 = push_if (ctx_category_addition_only ctx) CategoryAddition (w_category_addition w)
                 (Some ''only category links were added'') l2;
          l4 = push_if (ctx_interwiki_addition_only ctx) InterwikiAddition (w_interwiki_addition w)
                 (Some ''only interwiki or language links were added'') l3;
          l5 = push_if (ctx_mass_blanking_detected ctx) MassBlanking (w_mass_blanking w)
                 (Some ''diff removed substantially more content than it inserted'') l4;
          l6 = push_if (ctx_inserted_profanity_detected ctx) InsertedProfanity (w_inserted_profanity w)
                 (Some ''inserted diff text contains configured profanity markers'') l5
      in push_if (ctx_repeated_character_noise_detected ctx) RepeatedCharacterNoise
           (w_repeated_character_noise w) (Some ''inserted diff text contains repeated-character noise'') l6)"

definition apply_duplicate_pattern_signal :: "scoring_context \<Rightarrow> score_weights \<Rightarrow> ledger \<Rightarrow> ledger" where
  "apply_duplicate_pattern_signal ctx w l =
     (case ctx_duplicate_cluster_size ctx of
        None \<Rightarrow> l
      | Some cluster \<Rightarrow>
          (if cluster \<le> 1 then l
           else (let numerator = min i32_max (int (cluster - 1))
                 in push_signal DuplicatePattern (scale_weight (w_duplicate_pattern w) (min numerator 4) 4)
                      (Some (''duplicate cluster size '' @ show_nat cluster)) l)))"

definition apply_context_signals :: "scoring_context \<Rightarrow> score_weights \<Rightarrow> ledger \<Rightarrow> ledger" where
  "apply_context_signals ctx w l =
     apply_duplicate_pattern_signal ctx w
       (apply_boolean_context_signals ctx w
         (apply_liftwing_signal ctx w
           (apply_warning_history_signal ctx w l)))"

subsection \<open>Combination rules and the score\<close>

definition rule_matches :: "combination_rule \<Rightarrow> ledger \<Rightarrow> bool" where
  "rule_matches r l =
     list_all (\<lambda>sig. list_ex (\<lambda>c. con_signal c = sig) (led_contributions l)) (cr_when_all r)"

fun apply_combination_rules :: "combination_rule list \<Rightarrow> ledger \<Rightarrow> ledger" where
  "apply_combination_rules [] l = l"
| "apply_combination_rules (r # rs) l =
     apply_combination_rules rs
       (if rule_matches r l
        then push_signal CombinationRule (cr_weight r)
               (Some (''combination rule `'' @ cr_slug r @ ''` matched'')) l
        else l)"

text \<open>The argument \<open>checks\<close> is the build's setting of overflow checks.\<close>

definition score_edit_in ::
  "bool \<Rightarrow> edit_event \<Rightarrow> scoring_config \<Rightarrow> scoring_context \<Rightarrow> (scoring_error + composite_score) option" where
  "score_edit_in checks ev cfg ctx =
     (if sc_max_score cfg < sc_base_score cfg
      then Some (Inl (Computation ''max_score must be greater than or equal to base_score''))
      else if cap_entity_diff (derive_content_model_capabilities (ev_content_model ev))
      then map_option (\<lambda>t. Inr \<lparr>cs_total = t, cs_contributions = []\<rparr>)
             (clamp_checked 0 (sc_max_score cfg) (sc_base_score cfg))
      else (case apply_primary_edit_signals checks ev cfg ctx
                   \<lparr>led_total = sc_base_score cfg, led_contributions = []\<rparr> of
              None \<Rightarrow> None
            | Some l \<Rightarrow>
                (let l' = apply_combination_rules (sc_combination_rules cfg)
                            (apply_context_signals ctx (sc_weights cfg) l)
                 in map_option (\<lambda>t. Inr \<lparr>cs_total = t, cs_contributions = led_contributions l'\<rparr>)
                      (clamp_checked 0 (sc_max_score cfg) (led_total l')))))"

text \<open>Outside the theorem on failures the build is one with overflow checks.\<close>

definition score_edit_with_context ::
  "edit_event \<Rightarrow> scoring_config \<Rightarrow> scoring_context \<Rightarrow> (scoring_error + composite_score) option" where
  "score_edit_with_context = score_edit_in True"

definition score_edit :: "edit_event \<Rightarrow> scoring_config \<Rightarrow> (scoring_error + composite_score) option" where
  "score_edit ev cfg = score_edit_with_context ev cfg default_context"

subsection \<open>Overflow checks\<close>

lemma cap_checked:
  "apply_identity_contribution_cap True cap i l =
     (case cap of
        None \<Rightarrow> Some l
      | Some c \<Rightarrow>
          (if c = i32_min then None
           else (case clamp_checked (- \<bar>c\<bar>) \<bar>c\<bar> i of
                   None \<Rightarrow> None
                 | Some bounded \<Rightarrow>
                     (if sat_i32 (bounded - i) = 0 then Some l
                      else Some (push_signal IdentityCapAdjustment (sat_i32 (bounded - i))
                             (Some (''identity contribution capped to +/- '' @ show_int \<bar>c\<bar>)) l)))))"
  by (auto simp: apply_identity_contribution_cap_def abs_i32_def neg_i32_def Let_def split: option.splits)

lemma cap_checks_irrelevant:
  "cap \<noteq> Some i32_min \<Longrightarrow>
     apply_identity_contribution_cap checks cap i l = apply_identity_contribution_cap True cap i l"
  by (auto simp: apply_identity_contribution_cap_def abs_i32_def neg_i32_def split: option.splits)

text \<open>The two builds differ on the smallest cap only.\<close>

lemma checks_matter_at_min_only:
  "id_contribution_cap (sc_identity cfg) \<noteq> Some i32_min \<Longrightarrow>
     score_edit_in checks ev cfg ctx = score_edit_with_context ev cfg ctx"
  by (simp add: score_edit_with_context_def score_edit_in_def apply_primary_edit_signals_def Let_def
      cap_checks_irrelevant [of "id_contribution_cap (sc_identity cfg)" checks])

subsection \<open>Scaling\<close>

lemma trunc_div_between: "0 < d \<Longrightarrow> \<bar>a\<bar> < (m + 1) * d \<Longrightarrow> \<bar>trunc_div a d\<bar> \<le> m"
proof -
  assume d: "0 < d" and a: "\<bar>a\<bar> < (m + 1) * d"
  have "\<bar>a\<bar> div d < m + 1"
  proof -
    have "\<bar>a\<bar> div d * d + \<bar>a\<bar> mod d = \<bar>a\<bar>" "0 \<le> \<bar>a\<bar> mod d"
      using d by simp_all
    with a have "\<bar>a\<bar> div d * d < (m + 1) * d" by linarith
    with d show ?thesis by (simp add: mult_less_cancel_right_pos)
  qed
  moreover have "\<bar>trunc_div a d\<bar> \<le> \<bar>a\<bar> div d"
    using d by (cases "a = 0") (auto simp: trunc_div_def abs_mult pos_imp_zdiv_nonneg_iff)
  ultimately show ?thesis by simp
qed

lemma scale_weight_bound:
  assumes "0 \<le> n" "n \<le> d" "0 < d" "d \<le> 100" "in_i32 w"
  shows "\<bar>scale_weight w n d\<bar> \<le> \<bar>w\<bar>"
proof -
  have wn: "\<bar>w * n\<bar> \<le> \<bar>w\<bar> * d"
    using assms by (simp add: abs_mult mult_left_mono)
  also have "\<dots> \<le> 2147483648 * 100"
    using assms by (intro mult_mono) (auto simp: in_i32_def)
  finally have small: "\<bar>w * n\<bar> \<le> 214748364800" by simp
  have half: "trunc_div d 2 = d div 2" "2 * (d div 2) \<le> d" "0 \<le> d div 2"
    using assms by (simp_all add: trunc_div_nonneg)
  define r where "r = (if w * n < 0 then w * n - d div 2 else w * n + d div 2)"
  have "\<bar>r\<bar> \<le> \<bar>w * n\<bar> + d div 2"
    using half by (auto simp: r_def)
  also have "\<dots> < (\<bar>w\<bar> + 1) * d"
    using wn half assms(3) by (simp add: distrib_right)
  finally have "\<bar>trunc_div r d\<bar> \<le> \<bar>w\<bar>"
    using assms(3) trunc_div_between by blast
  moreover have "scale_weight w n d = max i32_min (min i32_max (trunc_div r d))"
    using small half assms(3,4) unfolding scale_weight_def r_def Let_def sat_i64_def by auto
  ultimately show ?thesis
    using assms(5) by (auto simp: in_i32_def)
qed

lemma round_half_even_percent:
  assumes "0 \<le> p" "p \<le> 1"
  shows "0 \<le> round_half_even (p * 100) \<and> round_half_even (p * 100) \<le> 100"
proof -
  let ?f = "\<lfloor>p * 100\<rfloor>"
  have f: "0 \<le> ?f" "?f \<le> 100"
    using assms by (auto simp: le_floor_iff floor_le_iff)
  have "p * 100 - of_int ?f = 0" if "?f = 100"
    using that assms of_int_floor_le [of "p * 100"] by simp
  moreover have "round_half_even (p * 100) \<le> ?f + 1" "?f \<le> round_half_even (p * 100)"
    by (auto simp: round_half_even_def Let_def)
  moreover have "round_half_even (p * 100) = ?f" if "p * 100 - of_int ?f = 0"
    using that by (simp add: round_half_even_def Let_def)
  ultimately show ?thesis
    using f by (cases "?f = 100") linarith+
qed

subsection \<open>A ledger explains its total\<close>

definition entry_sum :: "contribution list \<Rightarrow> int" where
  "entry_sum cs = sum_list (map con_weight cs)"

definition explains :: "int \<Rightarrow> int \<Rightarrow> ledger \<Rightarrow> bool" where
  "explains base budget l \<longleftrightarrow>
     led_total l = base + entry_sum (led_contributions l) \<and> \<bar>led_total l - base\<bar> \<le> budget \<and>
     list_all (\<lambda>c. \<bar>con_weight c\<bar> \<le> budget) (led_contributions l) \<and>
     distinct (map con_signal (led_contributions l))"

lemma record_signals:
  "set (map con_signal (record_contribution sig w note cs)) = insert sig (set (map con_signal cs))"
  by (induction cs) auto

lemma record_distinct:
  "distinct (map con_signal cs) \<Longrightarrow> distinct (map con_signal (record_contribution sig w note cs))"
proof (induction cs)
  case (Cons c cs)
  then show ?case using record_signals [of sig w "note" cs] by auto
qed simp

lemma record_weights:
  assumes "list_all (\<lambda>c. \<bar>con_weight c\<bar> \<le> b) cs" "0 \<le> b" "b + \<bar>w\<bar> \<le> i32_max"
  shows "entry_sum (record_contribution sig w note cs) = entry_sum cs + w \<and>
    list_all (\<lambda>c. \<bar>con_weight c\<bar> \<le> b + \<bar>w\<bar>) (record_contribution sig w note cs)"
  using assms
proof (induction cs)
  case (Cons c cs)
  have "sat_i32 (con_weight c + w) = con_weight c + w"
    using Cons.prems by (intro sat_i32_id) (auto simp: in_i32_def)
  moreover have "list_all (\<lambda>c. \<bar>con_weight c\<bar> \<le> b + \<bar>w\<bar>) cs"
    using Cons.prems(1) by (auto simp: list_all_iff)
  ultimately show ?case
    using Cons by (auto simp: entry_sum_def)
qed (simp add: entry_sum_def)

lemma explains_push:
  assumes "explains base b l" "0 \<le> b" "\<bar>base\<bar> + b + \<bar>w\<bar> \<le> i32_max"
  shows "explains base (b + \<bar>w\<bar>) (push_signal sig w note l)"
proof -
  have "in_i32 (led_total l + w)"
    using assms by (auto simp: explains_def in_i32_def)
  then have "sat_i32 (led_total l + w) = led_total l + w"
    by (rule sat_i32_id)
  moreover have "b + \<bar>w\<bar> \<le> i32_max" using assms(3) by linarith
  ultimately show ?thesis
    using assms(1,2) record_weights [of b "led_contributions l" w sig "note"]
    by (auto simp: explains_def push_signal_def record_distinct)
qed

lemma explains_mono: "explains base b l \<Longrightarrow> b \<le> b' \<Longrightarrow> explains base b' l"
  by (auto simp: explains_def list_all_iff)

text \<open>A ledger transformer that spends at most \<open>k\<close> more of the budget.\<close>

definition spends :: "int \<Rightarrow> (ledger \<Rightarrow> ledger) \<Rightarrow> bool" where
  "spends k f \<longleftrightarrow> 0 \<le> k \<and>
     (\<forall>base b l. explains base b l \<longrightarrow> 0 \<le> b \<longrightarrow> \<bar>base\<bar> + b + k \<le> i32_max \<longrightarrow> explains base (b + k) (f l))"

lemma spendsD:
  "spends k f \<Longrightarrow> explains base b l \<Longrightarrow> 0 \<le> b \<Longrightarrow> \<bar>base\<bar> + b + k \<le> i32_max \<Longrightarrow>
     explains base (b + k) (f l)"
  by (simp add: spends_def)

lemma spends_push: "\<bar>w\<bar> \<le> k \<Longrightarrow> spends k (push_signal sig w note)"
  unfolding spends_def
proof (intro conjI allI impI)
  fix base b l
  assume w: "\<bar>w\<bar> \<le> k" and l: "explains base b l" and b: "0 \<le> b" "\<bar>base\<bar> + b + k \<le> i32_max"
  have "explains base (b + \<bar>w\<bar>) (push_signal sig w note l)"
    using w l b by (intro explains_push) auto
  then show "explains base (b + k) (push_signal sig w note l)"
    using w by (elim explains_mono) simp
qed simp

lemma spends_none: "0 \<le> k \<Longrightarrow> spends k (\<lambda>l. l)"
  by (auto simp: spends_def intro: explains_mono)

lemma spends_comp: "spends k f \<Longrightarrow> spends m g \<Longrightarrow> spends (k + m) (\<lambda>l. g (f l))"
  unfolding spends_def by (simp flip: add.assoc)

lemma push_if_simps [simp]:
  "push_if True sig w note l = push_signal sig w note l" "push_if False sig w note l = l"
  by (simp_all add: push_if_def)

lemma spends_push_if: "\<bar>w\<bar> \<le> k \<Longrightarrow> spends k (push_if enabled sig w note)"
  using spends_push [of w k sig "note"] spends_none [of k] by (cases enabled) (auto simp: push_if_def [abs_def])

lemma spends_then_push_if:
  "spends k f \<Longrightarrow> \<bar>w\<bar> \<le> m \<Longrightarrow> spends (k + m) (\<lambda>l. push_if enabled sig w note (f l))"
  by (rule spends_comp [OF _ spends_push_if])

definition weights_bounded :: "int \<Rightarrow> score_weights \<Rightarrow> bool" where
  "weights_bounded W w \<longleftrightarrow> 0 \<le> W \<and> W \<le> i32_max \<and>
     list_all (\<lambda>x. \<bar>x\<bar> \<le> W)
       [w_anonymous_user w, w_temporary_account w, w_new_page w, w_reverted_before w,
        w_large_content_removal w, w_link_addition w, w_reference_addition w, w_category_addition w,
        w_interwiki_addition w, w_mass_blanking w, w_inserted_profanity w,
        w_repeated_character_noise w, w_profanity w, w_link_spam w, w_trusted_user w,
        w_bot_like_edit w, w_liftwing_risk w, w_warning_history w, w_obvious_vandalism w,
        w_duplicate_pattern w]"

lemma fst_editor:
  "fst (apply_editor_signal ev cfg st) =
     push_if (id_temporary_modifier_enabled (sc_identity cfg) \<and> is_temporary (ev_performer ev))
       TemporaryAccount (w_temporary_account (sc_weights cfg))
       (Some ''temporary account editors are newcomer-like but not raw IPs'')
       (push_if (id_anonymous_modifier_enabled (sc_identity cfg) \<and> is_anonymous (ev_performer ev))
          AnonymousUser (w_anonymous_user (sc_weights cfg)) None (fst st))"
  by (simp add: apply_editor_signal_def Let_def push_if_def)

lemma spends_editor:
  assumes "weights_bounded W (sc_weights cfg)"
  shows "spends (W + W) (\<lambda>l. fst (apply_editor_signal ev cfg (l, i)))"
  unfolding fst_editor fst_conv using assms
  by (intro spends_then_push_if spends_push_if) (simp_all add: weights_bounded_def)

lemma spends_shape:
  assumes "weights_bounded W (sc_weights cfg)"
  shows "spends (W + W + W + W + W + W) (apply_edit_shape_signals ev cfg)"
proof -
  let ?w = "sc_weights cfg" and ?sp = "sc_signal_parameters cfg"
  have eq: "apply_edit_shape_signals ev cfg = (\<lambda>l.
      push_if (detect_obvious_vandalism ev cfg \<noteq> None) ObviousVandalism (w_obvious_vandalism ?w)
        (detect_obvious_vandalism ev cfg)
      (push_if (contains_any (ev_comment ev) (sp_link_markers ?sp)) LinkSpam (w_link_spam ?w) (ev_comment ev)
      (push_if (contains_any (ev_comment ev) (sp_profanity_markers ?sp)) Profanity (w_profanity ?w) (ev_comment ev)
      (push_if (ev_is_bot ev) BotLikeEdit (w_bot_like_edit ?w) None
      (push_if (ev_byte_delta ev \<le> sp_large_content_removal_threshold ?sp) LargeContentRemoval
         (w_large_content_removal ?w) (Some (''byte delta '' @ show_int (ev_byte_delta ev)))
      (push_if (ev_is_new_page ev) NewPage (w_new_page ?w) None l))))))"
    by (cases "detect_obvious_vandalism ev cfg")
      (simp_all add: apply_edit_shape_signals_def Let_def fun_eq_iff)
  show ?thesis
    unfolding eq using assms
    by (intro spends_then_push_if spends_push_if) (simp_all add: weights_bounded_def)
qed

lemma fst_trusted:
  "\<exists>trusted n reverted. fst (apply_trusted_and_revert_signals ev ctx cfg st) =
     push_if reverted RevertedBefore (w_reverted_before (sc_weights cfg)) (Some ''revert-related tag detected'')
       (push_if trusted TrustedUser (w_trusted_user (sc_weights cfg)) n (fst st)) \<and>
     snd (apply_trusted_and_revert_signals ev ctx cfg st) =
       (if trusted then sat_i32 (snd st + w_trusted_user (sc_weights cfg)) else snd st)"
  unfolding apply_trusted_and_revert_signals_def Let_def
  by (rule exI [of _ "list_ex (\<lambda>t. contains_tag t (sp_trusted_tags (sc_signal_parameters cfg))) (ev_tags ev)
        \<or> ctx_trust_override ctx"]) (auto simp: push_if_def)

lemma snd_editor:
  "snd (apply_editor_signal ev cfg (l, 0)) \<in>
     {0, sat_i32 (w_anonymous_user (sc_weights cfg)), sat_i32 (w_temporary_account (sc_weights cfg))}"
  by (cases "ev_performer ev")
    (auto simp: apply_editor_signal_def Let_def is_anonymous_def is_temporary_def)

lemma spends_boolean:
  assumes "weights_bounded W w"
  shows "spends (W + W + W + W + W + W + W) (apply_boolean_context_signals ctx w)"
  unfolding apply_boolean_context_signals_def [abs_def] Let_def using assms
  by (intro spends_then_push_if spends_push_if) (simp_all add: weights_bounded_def)

lemma severity_range: "0 \<le> severity v \<and> severity v \<le> 4"
  by (cases v) auto

lemma scaled_le:
  assumes "\<bar>w\<bar> \<le> W" "W \<le> i32_max" "0 \<le> n" "n \<le> d" "0 < d" "d \<le> 100"
  shows "\<bar>scale_weight w n d\<bar> \<le> W"
proof -
  have "in_i32 w" using assms by (simp add: in_i32_def abs_le_iff)
  then show ?thesis using assms scale_weight_bound [of n d w] by linarith
qed

lemma spends_unless: "0 \<le> k \<Longrightarrow> (\<not> b \<Longrightarrow> spends k f) \<Longrightarrow> spends k (\<lambda>l. if b then l else f l)"
  by (cases b) (simp_all add: spends_none)

lemma spends_option:
  "0 \<le> k \<Longrightarrow> (\<And>x. opt = Some x \<Longrightarrow> spends k (f x)) \<Longrightarrow>
     spends k (\<lambda>l. case opt of None \<Rightarrow> l | Some x \<Rightarrow> f x l)"
  by (cases opt) (simp_all add: spends_none)

lemma weights_boundedD:
  "weights_bounded W w \<Longrightarrow> 0 \<le> W" "weights_bounded W w \<Longrightarrow> W \<le> i32_max"
  "weights_bounded W w \<Longrightarrow> \<bar>w_warning_history w\<bar> \<le> W" "weights_bounded W w \<Longrightarrow> \<bar>w_liftwing_risk w\<bar> \<le> W"
  "weights_bounded W w \<Longrightarrow> \<bar>w_duplicate_pattern w\<bar> \<le> W" "weights_bounded W w \<Longrightarrow> \<bar>w_trusted_user w\<bar> \<le> W"
  "weights_bounded W w \<Longrightarrow> \<bar>w_reverted_before w\<bar> \<le> W" "weights_bounded W w \<Longrightarrow> \<bar>w_anonymous_user w\<bar> \<le> W"
  "weights_bounded W w \<Longrightarrow> \<bar>w_temporary_account w\<bar> \<le> W"
  by (simp_all add: weights_bounded_def)

lemma spends_warning:
  assumes "weights_bounded W w"
  shows "spends W (apply_warning_history_signal ctx w)"
  unfolding apply_warning_history_signal_def [abs_def] Let_def
  using assms severity_range
  by (intro spends_option spends_unless spends_push scaled_le) (auto dest: weights_boundedD)

lemma spends_liftwing:
  assumes "weights_bounded W w"
  shows "spends W (apply_liftwing_signal ctx w)"
proof -
  have "0 \<le> round_half_even (p * 100) \<and> round_half_even (p * 100) \<le> 100"
    if "normalize_probability risk = Some p" for risk p
    using that by (intro round_half_even_percent) (auto simp: normalize_probability_def split: f32.splits)
  then show ?thesis
    unfolding apply_liftwing_signal_def [abs_def] using assms
    by (intro spends_option spends_unless spends_push scaled_le) (auto dest: weights_boundedD)
qed

lemma spends_duplicate:
  assumes "weights_bounded W w"
  shows "spends W (apply_duplicate_pattern_signal ctx w)"
  unfolding apply_duplicate_pattern_signal_def [abs_def] Let_def using assms
  by (intro spends_option spends_unless spends_push scaled_le) (auto dest: weights_boundedD)

lemma spends_context:
  assumes "weights_bounded W w"
  shows "spends (W + W + (W + W + W + W + W + W + W) + W) (apply_context_signals ctx w)"
  unfolding apply_context_signals_def [abs_def] using assms
  by (intro spends_comp spends_warning spends_liftwing spends_boolean spends_duplicate)

lemma spends_rules:
  "spends (\<Sum>r\<leftarrow>rs. \<bar>cr_weight r\<bar>) (apply_combination_rules rs)"
proof (induction rs)
  case Nil
  then show ?case using spends_none [of 0] by (simp add: spends_def)
next
  case (Cons r rs)
  have one: "spends \<bar>cr_weight r\<bar> (\<lambda>l. if rule_matches r l then push_signal CombinationRule (cr_weight r)
      (Some (''combination rule `'' @ cr_slug r @ ''` matched'')) l else l)"
    using spends_push [of "cr_weight r" "\<bar>cr_weight r\<bar>"] spends_none [of "\<bar>cr_weight r\<bar>"]
    by (auto simp: spends_def)
  from spends_comp [OF one Cons.IH] show ?case by simp
qed

lemma spends_trusted:
  assumes "weights_bounded W (sc_weights cfg)"
  shows "spends (W + W) (\<lambda>l. fst (apply_trusted_and_revert_signals ev ctx cfg (l, i)))"
proof -
  let ?w = "sc_weights cfg" and ?sp = "sc_signal_parameters cfg"
  let ?tagged = "list_ex (\<lambda>t. contains_tag t (sp_trusted_tags ?sp)) (ev_tags ev)"
  have eq: "(\<lambda>l. fst (apply_trusted_and_revert_signals ev ctx cfg (l, i))) = (\<lambda>l.
      push_if (list_ex (\<lambda>t. contains_tag t (sp_revert_tags ?sp)) (ev_tags ev)) RevertedBefore
        (w_reverted_before ?w) (Some ''revert-related tag detected'')
        (push_if (?tagged \<or> ctx_trust_override ctx) TrustedUser (w_trusted_user ?w)
          (if ?tagged \<and> ctx_trust_override ctx then Some ''trusted tag and public trusted-user rule matched''
           else if ?tagged then Some ''trusted tag detected'' else Some ''public trusted-user rule matched'') l))"
    by (auto simp: apply_trusted_and_revert_signals_def Let_def push_if_def fun_eq_iff)
  show ?thesis
    unfolding eq by (intro spends_then_push_if spends_push_if weights_boundedD(6,7) [OF assms])
qed

lemma sat_i32_abs: "\<bar>sat_i32 x\<bar> \<le> \<bar>x\<bar>"
  by (auto simp: sat_i32_def)

definition identity_total :: "edit_event \<Rightarrow> scoring_context \<Rightarrow> scoring_config \<Rightarrow> int" where
  "identity_total ev ctx cfg =
     (let st = apply_editor_signal ev cfg (\<lparr>led_total = sc_base_score cfg, led_contributions = []\<rparr>, 0)
      in snd (apply_trusted_and_revert_signals ev ctx cfg (apply_edit_shape_signals ev cfg (fst st), snd st)))"

lemma identity_total_bound:
  assumes "weights_bounded W (sc_weights cfg)"
  shows "\<bar>identity_total ev ctx cfg\<bar> \<le> W + W"
proof -
  define e where "e = snd (apply_editor_signal ev cfg (\<lparr>led_total = sc_base_score cfg, led_contributions = []\<rparr>, 0))"
  have "\<bar>e\<bar> \<le> W"
    using snd_editor [of ev cfg "\<lparr>led_total = sc_base_score cfg, led_contributions = []\<rparr>"] assms
      sat_i32_abs [of "w_anonymous_user (sc_weights cfg)"]
      sat_i32_abs [of "w_temporary_account (sc_weights cfg)"]
      weights_boundedD(1,8,9) [OF assms]
    unfolding e_def by (elim insertE emptyE) linarith+
  moreover have "identity_total ev ctx cfg = e \<or>
      identity_total ev ctx cfg = sat_i32 (e + w_trusted_user (sc_weights cfg))"
    by (simp add: identity_total_def e_def Let_def apply_trusted_and_revert_signals_def)
  ultimately show ?thesis
    using weights_boundedD(1,6) [OF assms] sat_i32_abs [of "e + w_trusted_user (sc_weights cfg)"] by linarith
qed

lemma explains_cap:
  assumes "apply_identity_contribution_cap True cap i l = Some l'" "explains base b l" "0 \<le> b"
    and "\<bar>i\<bar> \<le> k" "\<bar>base\<bar> + b + k \<le> i32_max"
  shows "explains base (b + k) l'"
proof (cases "l' = l")
  case True
  with assms show ?thesis by (auto elim: explains_mono)
next
  case False
  with assms(1) obtain c bounded where c: "cap = Some c" "clamp_checked (- \<bar>c\<bar>) \<bar>c\<bar> i = Some bounded"
    and l': "\<exists>n. l' = push_signal IdentityCapAdjustment (sat_i32 (bounded - i)) n l"
    by (auto simp: cap_checked Let_def split: option.splits if_splits)
  have "\<bar>bounded - i\<bar> \<le> \<bar>i\<bar>"
    using c(2) by (auto simp: clamp_checked_def split: if_splits)
  then have "\<bar>sat_i32 (bounded - i)\<bar> \<le> k"
    using assms(4) sat_i32_abs [of "bounded - i"] by linarith
  with l' assms(2,3,5) show ?thesis
    using spends_push by (auto simp: spends_def)
qed

lemma explains_primary:
  assumes "weights_bounded W (sc_weights cfg)" "\<bar>sc_base_score cfg\<bar> + 12 * W \<le> i32_max"
    and "apply_primary_edit_signals True ev cfg ctx \<lparr>led_total = sc_base_score cfg, led_contributions = []\<rparr> = Some l"
  shows "explains (sc_base_score cfg) (12 * W) l"
proof -
  let ?base = "sc_base_score cfg"
  let ?l0 = "\<lparr>led_total = ?base, led_contributions = []\<rparr>"
  define l1 where "l1 = fst (apply_editor_signal ev cfg (?l0, 0))"
  define l2 where "l2 = apply_edit_shape_signals ev cfg l1"
  define i where "i = snd (apply_editor_signal ev cfg (?l0, 0))"
  define l3 where "l3 = fst (apply_trusted_and_revert_signals ev ctx cfg (l2, i))"
  note spends = spends_editor [OF assms(1), of ev 0] spends_shape [OF assms(1), of ev]
    spends_trusted [OF assms(1), of ev ctx i]
  have W: "0 \<le> W" using weights_boundedD(1) [OF assms(1)] .
  have "explains ?base 0 ?l0"
    by (simp add: explains_def entry_sum_def)
  then have "explains ?base (0 + (W + W)) l1"
    unfolding l1_def using assms(2) W by (intro spendsD [OF spends(1)]) auto
  then have "explains ?base (0 + (W + W) + (W + W + W + W + W + W)) l2"
    unfolding l2_def using assms(2) W by (intro spendsD [OF spends(2)]) auto
  then have "explains ?base (0 + (W + W) + (W + W + W + W + W + W) + (W + W)) l3"
    unfolding l3_def using assms(2) W by (intro spendsD [OF spends(3)]) auto
  then have "explains ?base (10 * W) l3" by simp
  moreover have "apply_identity_contribution_cap True (id_contribution_cap (sc_identity cfg))
      (identity_total ev ctx cfg) l3 = Some l"
    using assms(3) by (simp add: apply_primary_edit_signals_def identity_total_def Let_def
        l1_def l2_def l3_def i_def)
  ultimately have "explains ?base (10 * W + (W + W)) l"
    using identity_total_bound [OF assms(1)] assms(2) W by (intro explains_cap) auto
  then show ?thesis by simp
qed

text \<open>
  C6. Explained scores: with weights small enough for \<open>i32\<close>, the total of a scored edit is the base
  score plus the weights of the listed contributions, clamped to the range of scores, and every signal
  is listed once; no addition of the accumulation saturates.
\<close>

theorem score_explained:
  assumes "weights_bounded W (sc_weights cfg)"
    and "\<bar>sc_base_score cfg\<bar> + 22 * W + (\<Sum>r\<leftarrow>sc_combination_rules cfg. \<bar>cr_weight r\<bar>) \<le> i32_max"
    and "score_edit_with_context ev cfg ctx = Some (Inr s)"
  shows "cs_total s = max 0 (min (sc_max_score cfg) (sc_base_score cfg + entry_sum (cs_contributions s))) \<and>
    distinct (map con_signal (cs_contributions s)) \<and> 0 \<le> cs_total s \<and> cs_total s \<le> sc_max_score cfg"
proof (cases "cap_entity_diff (derive_content_model_capabilities (ev_content_model ev))")
  case True
  with assms(3) show ?thesis
    by (auto simp: score_edit_with_context_def score_edit_in_def clamp_checked_def entry_sum_def split: if_splits)
next
  case False
  let ?rules = "apply_combination_rules (sc_combination_rules cfg)"
  let ?R = "\<Sum>r\<leftarrow>sc_combination_rules cfg. \<bar>cr_weight r\<bar>"
  have pos: "0 \<le> W" "0 \<le> ?R"
    using weights_boundedD(1) [OF assms(1)] by (simp, intro sum_list_nonneg) auto
  from assms(3) False obtain l where primary: "apply_primary_edit_signals True ev cfg ctx
      \<lparr>led_total = sc_base_score cfg, led_contributions = []\<rparr> = Some l"
    and total: "clamp_checked 0 (sc_max_score cfg)
      (led_total (?rules (apply_context_signals ctx (sc_weights cfg) l))) = Some (cs_total s)"
    and entries: "cs_contributions s = led_contributions (?rules (apply_context_signals ctx (sc_weights cfg) l))"
    by (auto simp: score_edit_with_context_def score_edit_in_def Let_def split: if_splits option.splits)
  have "explains (sc_base_score cfg) (12 * W) l"
    using assms(1,2) pos primary by (intro explains_primary) auto
  then have "explains (sc_base_score cfg) (12 * W + (W + W + (W + W + W + W + W + W + W) + W))
      (apply_context_signals ctx (sc_weights cfg) l)"
    using assms(2) pos by (intro spendsD [OF spends_context [OF assms(1)]]) auto
  then have "explains (sc_base_score cfg) (12 * W + (W + W + (W + W + W + W + W + W + W) + W) + ?R)
      (?rules (apply_context_signals ctx (sc_weights cfg) l))"
    using assms(2) pos by (intro spendsD [OF spends_rules]) auto
  with total entries show ?thesis
    by (auto simp: explains_def clamp_checked_def split: if_splits)
qed

definition sample_weights :: score_weights where
  "sample_weights =
     \<lparr>w_anonymous_user = 25, w_temporary_account = 18, w_new_page = 6, w_reverted_before = 12,
      w_large_content_removal = 20, w_link_addition = - 8, w_reference_addition = - 12,
      w_category_addition = - 6, w_interwiki_addition = - 4, w_mass_blanking = 30,
      w_inserted_profanity = 30, w_repeated_character_noise = 15, w_profanity = 25, w_link_spam = 15,
      w_trusted_user = - 30, w_bot_like_edit = - 20, w_liftwing_risk = 40, w_warning_history = 20,
      w_obvious_vandalism = 35, w_duplicate_pattern = 15\<rparr>"

definition sample_config :: "int option \<Rightarrow> int \<Rightarrow> int \<Rightarrow> scoring_config" where
  "sample_config cap base mx =
     \<lparr>sc_base_score = base, sc_max_score = mx,
      sc_identity = \<lparr>id_contribution_cap = cap, id_anonymous_modifier_enabled = True,
        id_temporary_modifier_enabled = True, id_account_age_modifier_enabled = False\<rparr>,
      sc_weights = sample_weights,
      sc_signal_parameters = \<lparr>sp_large_content_removal_threshold = - 500, sp_massive_blanking_threshold = - 2000,
        sp_repeated_character_run_threshold = 5, sp_profanity_markers = [''poop''], sp_link_markers = [''http''],
        sp_trusted_tags = [''trusted''], sp_revert_tags = [''mw-undo''], sp_suspicious_comment_markers = [''lol'']\<rparr>,
      sc_combination_rules = [\<lparr>cr_slug = ''anon-removal'', cr_weight = 7,
        cr_when_all = [AnonymousUser, LargeContentRemoval], cr_notes = None\<rparr>],
      sc_external_evaluation = \<lparr>ee_liftwing_enabled = True, ee_liftwing_max_contribution = 40\<rparr>\<rparr>"

definition sample_event :: edit_event where
  "sample_event =
     \<lparr>ev_wiki_id = ''frwiki'', ev_title = ''Chat'', ev_namespace = 0, ev_rev_id = 7, ev_old_rev_id = Some 6,
      ev_performer = Anonymous ''192.0.2.1'', ev_timestamp_ms = 0, ev_is_bot = False, ev_is_minor = False,
      ev_is_new_page = False, ev_tags = [], ev_comment = Some ''lol'', ev_byte_delta = - 600,
      ev_is_patrolled = False, ev_content_model = None\<rparr>"

lemma sample_score:
  "score_edit_with_context sample_event (sample_config (Some 20) 0 100) default_context =
     Some (Inr \<lparr>cs_total = 47, cs_contributions =
       [\<lparr>con_signal = AnonymousUser, con_weight = 25, con_note = None\<rparr>,
        \<lparr>con_signal = LargeContentRemoval, con_weight = 20, con_note = Some ''byte delta -600''\<rparr>,
        \<lparr>con_signal = IdentityCapAdjustment, con_weight = - 5,
         con_note = Some ''identity contribution capped to +/- 20''\<rparr>,
        \<lparr>con_signal = CombinationRule, con_weight = 7,
         con_note = Some ''combination rule `anon-removal` matched''\<rparr>]\<rparr>)"
  by code_simp

theorem score_explained_witness:
  "case score_edit_with_context sample_event (sample_config (Some 20) 0 100) default_context of
     Some (Inr s) \<Rightarrow> cs_total s = max 0 (min 100 (0 + entry_sum (cs_contributions s))) \<and>
       distinct (map con_signal (cs_contributions s))
   | _ \<Rightarrow> False"
proof -
  let ?cfg = "sample_config (Some 20) 0 100"
  have "weights_bounded 100 (sc_weights ?cfg)" and max: "sc_max_score ?cfg = 100" "sc_base_score ?cfg = 0"
    and "\<bar>sc_base_score ?cfg\<bar> + 22 * 100 + (\<Sum>r\<leftarrow>sc_combination_rules ?cfg. \<bar>cr_weight r\<bar>) \<le> i32_max"
    by (simp_all add: sample_config_def sample_weights_def weights_bounded_def)
  from score_explained [OF this(1,4) sample_score] show ?thesis
    unfolding sample_score max by simp
qed

subsection \<open>Panics\<close>

lemma cap_None_iff:
  "apply_identity_contribution_cap checks cap i l = None \<longleftrightarrow> checks \<and> cap = Some i32_min"
  by (auto simp: apply_identity_contribution_cap_def abs_i32_def neg_i32_def clamp_checked_def Let_def
      split: option.splits if_splits)

lemma primary_None_iff:
  "apply_primary_edit_signals checks ev cfg ctx l = None \<longleftrightarrow>
     checks \<and> id_contribution_cap (sc_identity cfg) = Some i32_min"
  by (simp add: apply_primary_edit_signals_def Let_def cap_None_iff)

lemma score_in_Inl_iff:
  "score_edit_in checks ev cfg ctx = Some (Inl e) \<longleftrightarrow>
     e = Computation ''max_score must be greater than or equal to base_score'' \<and>
     sc_max_score cfg < sc_base_score cfg"
  unfolding score_edit_in_def Let_def
  by (auto simp: clamp_checked_def split: option.splits if_splits)

lemma score_in_None_iff:
  "score_edit_in checks ev cfg ctx = None \<longleftrightarrow>
     sc_base_score cfg \<le> sc_max_score cfg \<and>
     (sc_max_score cfg < 0 \<or>
      checks \<and> \<not> cap_entity_diff (derive_content_model_capabilities (ev_content_model ev)) \<and>
      id_contribution_cap (sc_identity cfg) = Some i32_min)"
  unfolding score_edit_in_def Let_def
  by (auto simp: clamp_checked_def split: option.splits if_splits dest: primary_None_iff [THEN iffD1]
      simp flip: primary_None_iff [of checks ev cfg ctx "\<lparr>led_total = sc_base_score cfg, led_contributions = []\<rparr>"])

lemma score_in_range:
  "score_edit_in checks ev cfg ctx = Some (Inr s) \<Longrightarrow> 0 \<le> cs_total s \<and> cs_total s \<le> sc_max_score cfg"
  by (auto simp: score_edit_in_def Let_def clamp_checked_def split: option.splits if_splits)

lemmas scoring_Inl_iff = score_in_Inl_iff [of True, folded score_edit_with_context_def]
lemmas scoring_None_iff = score_in_None_iff [of True, folded score_edit_with_context_def, simplified]
lemmas scoring_range = score_in_range [of True, folded score_edit_with_context_def]

text \<open>
  C15. Exactly when scoring fails, in builds with and without overflow checks. The three outcomes are
  told apart by the configuration: an inverted range of scores is the one error there is; a range that
  passed the check panics when the maximum score is negative (the final clamp) or, for a text edit in a
  build with overflow checks, when the identity cap is the smallest \<open>i32\<close>; in every other case there is
  a result, with its total between 0 and the maximum. Without overflow checks, as in the release
  profile, the smallest cap does not panic.
\<close>

theorem score_failures:
  "(case score_edit_in checks ev cfg ctx of
      Some (Inl e) \<Rightarrow>
        sc_max_score cfg < sc_base_score cfg \<and>
        e = Computation ''max_score must be greater than or equal to base_score''
    | None \<Rightarrow>
        sc_base_score cfg \<le> sc_max_score cfg \<and>
        (sc_max_score cfg < 0 \<or>
         checks \<and> \<not> cap_entity_diff (derive_content_model_capabilities (ev_content_model ev)) \<and>
         id_contribution_cap (sc_identity cfg) = Some i32_min)
    | Some (Inr s) \<Rightarrow>
        sc_base_score cfg \<le> sc_max_score cfg \<and>
        \<not> (checks \<and> \<not> cap_entity_diff (derive_content_model_capabilities (ev_content_model ev)) \<and>
           id_contribution_cap (sc_identity cfg) = Some i32_min) \<and>
        0 \<le> cs_total s \<and> cs_total s \<le> sc_max_score cfg)"
proof (cases "score_edit_in checks ev cfg ctx")
  case None
  then have "sc_base_score cfg \<le> sc_max_score cfg \<and>
      (sc_max_score cfg < 0 \<or>
       checks \<and> \<not> cap_entity_diff (derive_content_model_capabilities (ev_content_model ev)) \<and>
       id_contribution_cap (sc_identity cfg) = Some i32_min)"
    unfolding score_in_None_iff .
  with None show ?thesis by simp
next
  case (Some r)
  show ?thesis
  proof (cases r)
    case (Inl e)
    with Some have "score_edit_in checks ev cfg ctx = Some (Inl e)" by simp
    then have "e = Computation ''max_score must be greater than or equal to base_score'' \<and>
        sc_max_score cfg < sc_base_score cfg"
      unfolding score_in_Inl_iff .
    with Some Inl show ?thesis by simp
  next
    case (Inr s)
    with Some have scored: "score_edit_in checks ev cfg ctx = Some (Inr s)" by simp
    then have "score_edit_in checks ev cfg ctx \<noteq> None"
      "score_edit_in checks ev cfg ctx \<noteq>
         Some (Inl (Computation ''max_score must be greater than or equal to base_score''))"
      by simp_all
    with score_in_range [OF scored] scored show ?thesis
      unfolding score_in_None_iff score_in_Inl_iff by auto
  qed
qed

subsection \<open>The identity cap\<close>

abbreviation identity_signals :: "scoring_signal set" where
  "identity_signals \<equiv> {AnonymousUser, TemporaryAccount, TrustedUser, IdentityCapAdjustment}"

definition identity_share :: "contribution list \<Rightarrow> int" where
  "identity_share cs = sum_list (map con_weight (filter (\<lambda>c. con_signal c \<in> identity_signals) cs))"

definition listed_signals :: "ledger \<Rightarrow> scoring_signal set" where
  "listed_signals l = set (map con_signal (led_contributions l))"

lemma identity_share_record:
  "sig \<notin> set (map con_signal cs) \<Longrightarrow> identity_share (record_contribution sig w note cs) =
     identity_share cs + (if sig \<in> identity_signals then w else 0)"
  by (induction cs) (auto simp: identity_share_def)

lemma identity_share_other:
  "sig \<notin> identity_signals \<Longrightarrow> identity_share (record_contribution sig w note cs) = identity_share cs"
  by (induction cs) (auto simp: identity_share_def)

text \<open>A transformer that leaves the identity signals alone.\<close>

definition neutral :: "(ledger \<Rightarrow> ledger) \<Rightarrow> bool" where
  "neutral f \<longleftrightarrow> (\<forall>l. identity_share (led_contributions (f l)) = identity_share (led_contributions l) \<and>
     listed_signals (f l) \<inter> identity_signals = listed_signals l \<inter> identity_signals)"

lemma neutral_push: "sig \<notin> identity_signals \<Longrightarrow> neutral (push_signal sig w note)"
  by (auto simp: neutral_def listed_signals_def push_signal_def identity_share_other record_signals
      simp del: set_map)

lemma neutral_id: "neutral (\<lambda>l. l)"
  by (simp add: neutral_def)

lemma neutral_push_if: "sig \<notin> identity_signals \<Longrightarrow> neutral (push_if enabled sig w note)"
  using neutral_push [of sig w "note"] neutral_id by (cases enabled) (auto simp: neutral_def)

lemma neutral_comp: "neutral f \<Longrightarrow> neutral g \<Longrightarrow> neutral (\<lambda>l. g (f l))"
  by (simp add: neutral_def)

lemma neutral_then_push_if:
  "neutral f \<Longrightarrow> sig \<notin> identity_signals \<Longrightarrow> neutral (\<lambda>l. push_if enabled sig w note (f l))"
  by (rule neutral_comp [OF _ neutral_push_if])

lemma neutral_unless: "neutral f \<Longrightarrow> neutral (\<lambda>l. if b then l else f l)"
  by (cases b) (simp_all add: neutral_id)

lemma neutral_option: "(\<And>x. neutral (f x)) \<Longrightarrow> neutral (\<lambda>l. case opt of None \<Rightarrow> l | Some x \<Rightarrow> f x l)"
  by (cases opt) (simp_all add: neutral_id)

lemma neutral_context: "neutral (apply_context_signals ctx w)"
proof -
  have warning: "neutral (apply_warning_history_signal ctx w)"
    unfolding apply_warning_history_signal_def [abs_def] Let_def
    by (intro neutral_option neutral_unless neutral_push) simp
  have liftwing: "neutral (apply_liftwing_signal ctx w)"
    unfolding apply_liftwing_signal_def [abs_def]
    by (intro neutral_option neutral_unless neutral_push) simp
  have boolean: "neutral (apply_boolean_context_signals ctx w)"
    unfolding apply_boolean_context_signals_def [abs_def] Let_def
    by (intro neutral_then_push_if neutral_push_if) simp_all
  have duplicate: "neutral (apply_duplicate_pattern_signal ctx w)"
    unfolding apply_duplicate_pattern_signal_def [abs_def] Let_def
    by (intro neutral_option neutral_unless neutral_push) simp
  from neutral_comp [OF neutral_comp [OF neutral_comp [OF warning liftwing] boolean] duplicate]
  show ?thesis
    by (simp add: apply_context_signals_def [abs_def])
qed

lemma neutral_rules: "neutral (apply_combination_rules rs)"
proof (induction rs)
  case (Cons r rs)
  have "neutral (\<lambda>l. if rule_matches r l then push_signal CombinationRule (cr_weight r)
      (Some (''combination rule `'' @ cr_slug r @ ''` matched'')) l else l)"
    using neutral_push [of CombinationRule "cr_weight r"] by (auto simp: neutral_def)
  from neutral_comp [OF this Cons.IH] show ?case by simp
qed (simp add: neutral_def)

lemma neutral_vandalism:
  "neutral f \<Longrightarrow> neutral (\<lambda>l. case opt of None \<Rightarrow> f l | Some x \<Rightarrow> push_signal ObviousVandalism w (Some x) (f l))"
  using neutral_comp [OF _ neutral_push [of ObviousVandalism w]] by (cases opt) simp_all

lemma neutral_shape: "neutral (apply_edit_shape_signals ev cfg)"
  unfolding apply_edit_shape_signals_def [abs_def] Let_def
  by (rule neutral_vandalism, rule neutral_then_push_if, rule neutral_then_push_if,
      rule neutral_then_push_if, rule neutral_then_push_if, rule neutral_push_if) simp_all

lemma share_push:
  "sig \<notin> listed_signals l \<Longrightarrow> identity_share (led_contributions (push_signal sig w note l)) =
     identity_share (led_contributions l) + (if sig \<in> identity_signals then w else 0)"
  by (simp add: push_signal_def listed_signals_def identity_share_record del: set_map)

lemma listed_push: "listed_signals (push_signal sig w note l) = insert sig (listed_signals l)"
  by (simp add: push_signal_def listed_signals_def record_signals del: set_map)

lemma editor_share:
  fixes base :: int
  assumes "in_i32 (w_anonymous_user (sc_weights cfg))" "in_i32 (w_temporary_account (sc_weights cfg))"
  shows "let st = apply_editor_signal ev cfg (\<lparr>led_total = base, led_contributions = []\<rparr>, 0)
    in identity_share (led_contributions (fst st)) = snd st \<and>
       listed_signals (fst st) \<subseteq> {AnonymousUser, TemporaryAccount}"
  using assms
  by (cases "ev_performer ev")
    (auto simp: apply_editor_signal_def Let_def is_anonymous_def is_temporary_def push_signal_def
      identity_share_def listed_signals_def sat_i32_id)

lemma trusted_share:
  assumes "TrustedUser \<notin> listed_signals l" "identity_share (led_contributions l) = i"
    and "in_i32 (i + w_trusted_user (sc_weights cfg))"
  shows "let st = apply_trusted_and_revert_signals ev ctx cfg (l, i)
    in identity_share (led_contributions (fst st)) = snd st \<and>
       listed_signals (fst st) \<inter> identity_signals \<subseteq> insert TrustedUser (listed_signals l)"
proof -
  let ?st = "apply_trusted_and_revert_signals ev ctx cfg (l, i)"
  obtain trusted n b where st: "fst ?st = push_if b RevertedBefore (w_reverted_before (sc_weights cfg))
      (Some ''revert-related tag detected'') (push_if trusted TrustedUser (w_trusted_user (sc_weights cfg)) n l)"
    "snd ?st = (if trusted then sat_i32 (i + w_trusted_user (sc_weights cfg)) else i)"
    using fst_trusted [of ev ctx cfg "(l, i)"] by auto
  define l1 where "l1 = push_if trusted TrustedUser (w_trusted_user (sc_weights cfg)) n l"
  have "identity_share (led_contributions l1) = snd ?st" "listed_signals l1 \<subseteq> insert TrustedUser (listed_signals l)"
    using assms st(2) by (cases trusted; auto simp: l1_def share_push listed_push sat_i32_id)+
  moreover have "neutral (push_if b RevertedBefore w m)" for w m
    by (rule neutral_push_if) simp
  ultimately show ?thesis
    using st(1) by (auto simp: neutral_def Let_def l1_def)
qed

lemma capped_share:
  assumes "apply_identity_contribution_cap True (Some c) i l = Some l'"
    and "identity_share (led_contributions l) = i" "IdentityCapAdjustment \<notin> listed_signals l"
    and "\<bar>i\<bar> \<le> i32_max"
  shows "\<bar>identity_share (led_contributions l')\<bar> \<le> \<bar>c\<bar>"
proof -
  from assms(1) obtain bounded where bounded: "clamp_checked (- \<bar>c\<bar>) \<bar>c\<bar> i = Some bounded"
    and l': "l' = (if sat_i32 (bounded - i) = 0 then l
      else push_signal IdentityCapAdjustment (sat_i32 (bounded - i))
             (Some (''identity contribution capped to +/- '' @ show_int \<bar>c\<bar>)) l)"
    by (auto simp: cap_checked Let_def split: option.splits if_splits)
  have b: "\<bar>bounded\<bar> \<le> \<bar>c\<bar>" "\<bar>bounded - i\<bar> \<le> \<bar>i\<bar>"
    using bounded by (auto simp: clamp_checked_def split: if_splits)
  then have "sat_i32 (bounded - i) = bounded - i"
    using assms(4) by (intro sat_i32_id) (auto simp: in_i32_def)
  with l' b(1) assms(2,3) show ?thesis
    by (auto simp: share_push split: if_splits)
qed

text \<open>
  The identity cap holds: whatever the edit, the combined contribution of who the editor is
  (anonymous, temporary, trusted, and the adjustment) in a scored edit stays within the configured cap.
\<close>

theorem identity_cap_respected:
  assumes "weights_bounded 1073741823 (sc_weights cfg)"
    and "id_contribution_cap (sc_identity cfg) = Some c"
    and "score_edit_with_context ev cfg ctx = Some (Inr s)"
  shows "\<bar>identity_share (cs_contributions s)\<bar> \<le> \<bar>c\<bar>"
proof (cases "cap_entity_diff (derive_content_model_capabilities (ev_content_model ev))")
  case True
  with assms(3) show ?thesis
    by (auto simp: score_edit_with_context_def score_edit_in_def identity_share_def split: if_splits)
next
  case False
  define st where "st = apply_editor_signal ev cfg (\<lparr>led_total = sc_base_score cfg, led_contributions = []\<rparr>, 0)"
  define l2 where "l2 = apply_edit_shape_signals ev cfg (fst st)"
  define st' where "st' = apply_trusted_and_revert_signals ev ctx cfg (l2, snd st)"
  note w = weights_boundedD [OF assms(1)]
  have small: "in_i32 (w_anonymous_user (sc_weights cfg))" "in_i32 (w_temporary_account (sc_weights cfg))"
    using w(8,9) by (simp_all add: in_i32_def abs_le_iff)
  have share: "identity_share (led_contributions (fst st)) = snd st"
    and listed: "listed_signals (fst st) \<subseteq> {AnonymousUser, TemporaryAccount}"
    using editor_share [OF small(1,2), of ev "sc_base_score cfg"] by (simp_all add: st_def Let_def)
  have e: "\<bar>snd st\<bar> \<le> 1073741823"
    using snd_editor [of ev cfg "\<lparr>led_total = sc_base_score cfg, led_contributions = []\<rparr>"] w(8,9)
      sat_i32_abs [of "w_anonymous_user (sc_weights cfg)"] sat_i32_abs [of "w_temporary_account (sc_weights cfg)"]
    unfolding st_def by (elim insertE emptyE) linarith+
  have "identity_share (led_contributions l2) = identity_share (led_contributions (fst st))"
    and listed2: "listed_signals l2 \<inter> identity_signals = listed_signals (fst st) \<inter> identity_signals"
    using neutral_shape [of ev cfg] by (auto simp: neutral_def l2_def)
  with share have l2: "identity_share (led_contributions l2) = snd st" "TrustedUser \<notin> listed_signals l2"
    using listed by auto
  have i: "in_i32 (snd st + w_trusted_user (sc_weights cfg))"
    using e w(6) unfolding in_i32_def abs_le_iff by linarith
  have st': "identity_share (led_contributions (fst st')) = snd st'"
    "listed_signals (fst st') \<inter> identity_signals \<subseteq> insert TrustedUser (listed_signals l2)"
    using trusted_share [OF l2(2,1) i, of ev ctx] by (simp_all add: st'_def Let_def)
  have "\<bar>snd st'\<bar> \<le> i32_max"
    using e w(6) sat_i32_abs [of "snd st + w_trusted_user (sc_weights cfg)"]
    by (auto simp: st'_def apply_trusted_and_revert_signals_def Let_def)
  moreover have "IdentityCapAdjustment \<notin> listed_signals (fst st')"
    using st'(2) listed2 listed by auto
  moreover from assms(3) False obtain l where
    l: "apply_primary_edit_signals True ev cfg ctx \<lparr>led_total = sc_base_score cfg, led_contributions = []\<rparr> = Some l"
    and s: "cs_contributions s = led_contributions (apply_combination_rules (sc_combination_rules cfg)
      (apply_context_signals ctx (sc_weights cfg) l))"
    by (auto simp: score_edit_with_context_def score_edit_in_def Let_def split: if_splits option.splits)
  ultimately have "\<bar>identity_share (led_contributions l)\<bar> \<le> \<bar>c\<bar>"
    using st'(1) l assms(2)
    by (intro capped_share [where l = "fst st'" and i = "snd st'"])
      (simp_all add: apply_primary_edit_signals_def Let_def st'_def l2_def st_def)
  moreover have "identity_share (cs_contributions s) = identity_share (led_contributions l)"
    using neutral_context [of ctx "sc_weights cfg"] neutral_rules [of "sc_combination_rules cfg"] s
    by (simp add: neutral_def)
  ultimately show ?thesis by simp
qed

theorem identity_cap_respected_witness:
  "case score_edit_with_context sample_event (sample_config (Some 20) 0 100) default_context of
     Some (Inr s) \<Rightarrow> \<bar>identity_share (cs_contributions s)\<bar> \<le> 20 | _ \<Rightarrow> False"
proof -
  let ?cfg = "sample_config (Some 20) 0 100"
  have "weights_bounded 1073741823 (sc_weights ?cfg)" "id_contribution_cap (sc_identity ?cfg) = Some 20"
    by (simp_all add: sample_config_def sample_weights_def weights_bounded_def)
  from identity_cap_respected [OF this sample_score] show ?thesis
    unfolding sample_score by simp
qed

subsection \<open>Text detectors\<close>

definition has_window :: "nat \<Rightarrow> char option list \<Rightarrow> bool" where
  "has_window n xs \<longleftrightarrow>
     (\<exists>c pre post. ascii_alphanumeric c \<and> xs = pre @ replicate n (Some c) @ post)"

lemma has_window_Nil: "0 < n \<Longrightarrow> \<not> has_window n []"
  by (auto simp: has_window_def)

lemma has_window_Cons:
  "has_window n (x # xs) \<longleftrightarrow>
     (\<exists>c. ascii_alphanumeric c \<and> prefix (replicate n (Some c)) (x # xs)) \<or> has_window n xs"
proof
  assume "has_window n (x # xs)"
  then obtain c pre post where c: "ascii_alphanumeric c" "x # xs = pre @ replicate n (Some c) @ post"
    by (auto simp: has_window_def)
  show "(\<exists>c. ascii_alphanumeric c \<and> prefix (replicate n (Some c)) (x # xs)) \<or> has_window n xs"
  proof (cases pre)
    case (Cons y ys)
    with c have "has_window n xs" unfolding has_window_def by auto
    then show ?thesis ..
  qed (use c in \<open>auto simp: prefix_def\<close>)
next
  assume "(\<exists>c. ascii_alphanumeric c \<and> prefix (replicate n (Some c)) (x # xs)) \<or> has_window n xs"
  then show "has_window n (x # xs)"
    unfolding has_window_def prefix_def by (metis append_Cons append_Nil)
qed

lemma prefix_replicate_le: "k \<le> n \<Longrightarrow> prefix (replicate n c) xs \<Longrightarrow> prefix (replicate k c) xs"
  by (metis le_add_diff_inverse prefixI prefix_order.trans replicate_add)

lemma prefix_replicate_Cons:
  "0 < n \<Longrightarrow> prefix (replicate n c) (x # xs) \<longleftrightarrow> x = c \<and> prefix (replicate (n - 1) c) xs"
  by (cases n) auto

lemma run_loop_iff:
  assumes "t \<le> 255" "1 \<le> run" "run < max 2 t"
  shows "run_loop t prev run chs \<longleftrightarrow>
    (\<exists>c. prev = Some c \<and> ascii_alphanumeric c \<and> prefix (replicate (max 2 t - run) (Some c)) chs) \<or>
    has_window (max 2 t) chs"
  using assms
proof (induction chs arbitrary: prev run)
  case Nil
  then show ?case by (auto simp: has_window_Nil)
next
  case (Cons ch chs)
  let ?m = "max 2 t"
  have w: "has_window ?m (ch # chs) \<longleftrightarrow>
      (\<exists>c. ch = Some c \<and> ascii_alphanumeric c \<and> prefix (replicate (?m - 1) (Some c)) chs) \<or> has_window ?m chs"
    unfolding has_window_Cons by (auto simp: prefix_replicate_Cons)
  have p: "prefix (replicate (?m - run) (Some c)) (ch # chs) \<longleftrightarrow>
      ch = Some c \<and> prefix (replicate (?m - Suc run) (Some c)) chs" for c
    using Cons.prems by (simp add: prefix_replicate_Cons)
  show ?case
  proof (cases "\<exists>c. prev = Some c \<and> ch = Some c \<and> ascii_alphanumeric c")
    case True
    then obtain c where c: "prev = Some c" "ch = Some c" "ascii_alphanumeric c" by blast
    have longer: "prefix (replicate (?m - 1) (Some c)) chs \<Longrightarrow> prefix (replicate (?m - Suc run) (Some c)) chs"
      using Cons.prems by (elim prefix_replicate_le [rotated]) simp
    show ?thesis
    proof (cases "t \<le> Suc run")
      case True
      then have "?m - Suc run = 0" using Cons.prems by simp
      with c p True Cons.prems show ?thesis by auto
    next
      case False
      with Cons.prems have "run_loop t (Some c) (Suc run) chs \<longleftrightarrow>
          prefix (replicate (?m - Suc run) (Some c)) chs \<or> has_window ?m chs"
        using c(3) by (subst Cons.IH) auto
      with c p w longer False Cons.prems show ?thesis by auto
    qed
  next
    case False
    have "run_loop t ch 1 chs \<longleftrightarrow>
        (\<exists>c. ch = Some c \<and> ascii_alphanumeric c \<and> prefix (replicate (?m - 1) (Some c)) chs) \<or> has_window ?m chs"
      using Cons.prems by (subst Cons.IH) auto
    with False p w show ?thesis by (auto split: option.splits)
  qed
qed

text \<open>
  Repeated characters: the detector fires exactly when the lower-cased text contains the same
  ASCII letter or digit \<open>threshold\<close> times in a row, a threshold below two counting as two.
\<close>

theorem repeated_run_detected:
  assumes "threshold \<le> 255"
  shows "has_repeated_character_run (Some s) threshold \<longleftrightarrow>
    (\<exists>c pre post. ascii_alphanumeric c \<and> lower_view s = pre @ replicate (max 2 threshold) (Some c) @ post)"
proof (cases "lower_view s")
  case Nil
  then show ?thesis
    by (simp add: has_repeated_character_run_def)
next
  case (Cons ch chs)
  have start: "\<not> ascii_alphanumeric (char_of (0 :: nat))"
    by (simp add: ascii_alphanumeric_def)
  have "has_repeated_character_run (Some s) threshold = run_loop threshold ch 1 chs"
    using Cons start by (auto simp: has_repeated_character_run_def split: option.splits)
  also have "\<dots> \<longleftrightarrow> has_window (max 2 threshold) (ch # chs)"
    using run_loop_iff [OF assms, of 1 ch chs] by (auto simp: has_window_Cons prefix_replicate_Cons)
  finally show ?thesis
    unfolding has_window_def Cons .
qed

theorem repeated_run_detected_witness:
  "has_repeated_character_run (Some ''xAaAaa'') 5 \<and> \<not> has_repeated_character_run (Some ''aabb'') 3"
proof -
  have "lower_view ''xAaAaa'' = [Some (CHR ''x'')] @ replicate (max 2 5) (Some (CHR ''a'')) @ []"
    "ascii_alphanumeric (CHR ''a'')"
    by code_simp+
  then have "has_repeated_character_run (Some ''xAaAaa'') 5"
    by (subst repeated_run_detected) (simp, blast)
  moreover have "\<not> has_repeated_character_run (Some ''aabb'') 3"
    by code_simp
  ultimately show ?thesis by simp
qed

end
