(* ===== verification/Scoring_Policy.thy ===== *)
theory Scoring_Policy
  imports BTree_Map Scoring_Engine
begin

section \<open>Scoring policies: validation and compilation\<close>

text \<open>
  \<open>crates/sp42-platform/src/scoring_policy.rs\<close>: the policy document, its validation and its
  compilation into the scorer's configuration. The YAML parser is a library: documents are given.
  A panic of \<open>clamp\<close> (or of a negation, with overflow checks on) is \<open>None\<close>. Floats of the document
  are carried through unchanged, as \<open>f32\<close> values.
\<close>

datatype scoring_domain =
    VandalismPatrol | ArticleQuality | SourcingReview | StructuredData | Maintenance
  | PolicyCompliance | CustomDomain

datatype policy_lifecycle = Active | Candidate | Suggested

record dimension_weights =
  dw_content :: f32
  dw_actor :: f32
  dw_subject :: f32
  dw_context :: f32
  dw_temporal :: f32
  dw_policy :: f32
  dw_external_evaluation :: f32

record identity_policy =
  ip_contribution_cap :: int
  ip_anonymous_modifier_enabled :: bool
  ip_temporary_modifier_enabled :: bool
  ip_account_age_modifier_enabled :: bool

record queue_policy_config =
  qc_default_limit :: nat
  qc_max_limit :: nat
  qc_min_score_cutoff :: int

record rule_policy =
  rp_enabled :: bool
  rp_weight :: int
  rp_threshold :: "f32 option"
  rp_max_bonus :: "int option"
  rp_notes :: "string option"

record combination_rule_policy =
  crp_slug :: string
  crp_enabled :: bool
  crp_weight :: int
  crp_when_all :: "string list"
  crp_notes :: "string option"

datatype external_evaluator_role = RoleDisabled | SupportingSignal | TieBreaker

record liftwing_policy =
  lp_enabled :: bool
  lp_role :: external_evaluator_role
  lp_max_contribution :: int

record fairness_policy =
  fp_newcomer_bps :: nat
  fp_temporary_bps :: nat
  fp_anonymous_bps :: nat

record policy_document =
  pd_domain :: scoring_domain
  pd_wiki_id :: string
  pd_policy_version :: string
  pd_evaluation_profile :: string
  pd_inherits_from :: "string option"
  pd_lifecycle :: policy_lifecycle
  pd_dimensions :: dimension_weights
  pd_identity :: identity_policy
  pd_queue :: queue_policy_config
  pd_signal_parameters :: signal_parameters
  pd_rules :: "(string, rule_policy) btree"
  pd_combination_rules :: "combination_rule_policy list"
  pd_liftwing :: "liftwing_policy option"
  pd_fairness :: fairness_policy

record compiled_policy =
  pc_domain :: scoring_domain
  pc_wiki_id :: string
  pc_policy_version :: string
  pc_evaluation_profile :: string
  pc_lifecycle :: policy_lifecycle
  pc_dimensions :: dimension_weights
  pc_scoring_config :: scoring_config
  pc_queue_policy :: queue_heuristic_policy
  pc_queue_defaults :: queue_policy_config
  pc_combination_rules :: "combination_rule_policy list"
  pc_liftwing :: "liftwing_policy option"
  pc_fairness :: fairness_policy

datatype policy_error = InvalidField string string | MissingRule string

definition required_rules :: "string list" where
  "required_rules =
     [''anonymous_user'', ''temporary_account'', ''new_page'', ''reverted_before'',
      ''large_content_removal'', ''link_addition'', ''reference_addition'', ''category_addition'',
      ''interwiki_addition'', ''mass_blanking'', ''inserted_profanity'',
      ''repeated_character_noise'', ''profanity'', ''link_spam'', ''trusted_user'', ''bot_like_edit'',
      ''liftwing_risk'', ''warning_history'', ''obvious_vandalism'', ''duplicate_pattern'']"

subsection \<open>Validation\<close>

text \<open>The checks of the code in their order: the first one that fails is the error.\<close>

definition ensure :: "bool \<Rightarrow> policy_error \<Rightarrow> policy_error + unit" where
  "ensure holds e = (if holds then Inr () else Inl e)"

fun first_error :: "(policy_error + unit) list \<Rightarrow> policy_error + unit" where
  "first_error [] = Inr ()"
| "first_error (c # cs) = (case c of Inl e \<Rightarrow> Inl e | Inr _ \<Rightarrow> first_error cs)"

definition blank :: "string \<Rightarrow> bool" where
  "blank s \<longleftrightarrow> str_trim s = []"

definition validate_marker_list :: "string \<Rightarrow> string list \<Rightarrow> policy_error + unit" where
  "validate_marker_list field markers =
     first_error
       [ensure (markers \<noteq> []) (InvalidField field ''must not be empty''),
        ensure (\<not> list_ex blank markers) (InvalidField field ''must not contain blank entries'')]"

definition validate_combination :: "combination_rule_policy \<Rightarrow> policy_error + unit" where
  "validate_combination c =
     first_error
       [ensure (\<not> blank (crp_slug c)) (InvalidField ''combination_rules.slug'' ''must not be blank''),
        ensure (crp_when_all c \<noteq> []) (InvalidField ''combination_rules.when_all'' ''must not be empty'')]"

definition validate_scoring_policy :: "policy_document \<Rightarrow> policy_error + unit" where
  "validate_scoring_policy d =
     (let sp = pd_signal_parameters d; q = pd_queue d
      in first_error
        ([ensure (\<not> blank (pd_wiki_id d)) (InvalidField ''wiki_id'' ''must not be blank''),
          ensure (\<not> blank (pd_policy_version d)) (InvalidField ''policy_version'' ''must not be blank''),
          ensure (\<not> blank (pd_evaluation_profile d)) (InvalidField ''evaluation_profile'' ''must not be blank''),
          ensure (0 \<le> ip_contribution_cap (pd_identity d))
            (InvalidField ''identity.contribution_cap'' ''must not be negative''),
          ensure (qc_default_limit q \<noteq> 0 \<and> qc_max_limit q \<noteq> 0)
            (InvalidField ''queue'' ''default_limit and max_limit must be positive''),
          ensure (qc_default_limit q \<le> qc_max_limit q)
            (InvalidField ''queue'' ''default_limit must not exceed max_limit''),
          ensure (2 \<le> sp_repeated_character_run_threshold sp)
            (InvalidField ''signal_parameters.repeated_character_run_threshold'' ''must be at least 2'')] @
         map (\<lambda>r. ensure (map_of (pd_rules d) r \<noteq> None) (MissingRule r)) required_rules @
         [validate_marker_list ''signal_parameters.profanity_markers'' (sp_profanity_markers sp),
          validate_marker_list ''signal_parameters.link_markers'' (sp_link_markers sp),
          validate_marker_list ''signal_parameters.trusted_tags'' (sp_trusted_tags sp),
          validate_marker_list ''signal_parameters.revert_tags'' (sp_revert_tags sp),
          validate_marker_list ''signal_parameters.suspicious_comment_markers''
            (sp_suspicious_comment_markers sp)] @
         map validate_combination (pd_combination_rules d)))"

subsection \<open>Compilation\<close>

definition rule_weight :: "policy_document \<Rightarrow> string \<Rightarrow> int" where
  "rule_weight d slug =
     (case map_of (pd_rules d) slug of
        None \<Rightarrow> 0
      | Some r \<Rightarrow> if rp_enabled r then rp_weight r else 0)"

definition compile_liftwing_weight :: "bool \<Rightarrow> policy_document \<Rightarrow> int option" where
  "compile_liftwing_weight checks d =
     (let configured = rule_weight d ''liftwing_risk''
      in (case pd_liftwing d of
            None \<Rightarrow> Some configured
          | Some lw \<Rightarrow>
              (if \<not> lp_enabled lw \<or> lp_role lw = RoleDisabled then Some 0
               else (case neg_i32 checks (lp_max_contribution lw) of
                       None \<Rightarrow> None
                     | Some low \<Rightarrow> clamp_checked low (lp_max_contribution lw) configured))))"

definition signal_slugs :: "(string \<times> scoring_signal) list" where
  "signal_slugs =
     [(''anonymous_user'', AnonymousUser), (''temporary_account'', TemporaryAccount),
      (''new_page'', NewPage), (''reverted_before'', RevertedBefore),
      (''large_content_removal'', LargeContentRemoval), (''link_addition'', LinkAddition),
      (''reference_addition'', ReferenceAddition), (''category_addition'', CategoryAddition),
      (''interwiki_addition'', InterwikiAddition), (''mass_blanking'', MassBlanking),
      (''inserted_profanity'', InsertedProfanity),
      (''repeated_character_noise'', RepeatedCharacterNoise), (''profanity'', Profanity),
      (''link_spam'', LinkSpam), (''trusted_user'', TrustedUser), (''bot_like_edit'', BotLikeEdit),
      (''liftwing_risk'', LiftWingRisk), (''warning_history'', WarningHistory),
      (''obvious_vandalism'', ObviousVandalism), (''duplicate_pattern'', DuplicatePattern)]"

definition signal_from_slug :: "string \<Rightarrow> policy_error + scoring_signal" where
  "signal_from_slug slug =
     (case map_of signal_slugs slug of
        Some sig \<Rightarrow> Inr sig
      | None \<Rightarrow> Inl (InvalidField ''combination_rules.when_all'' (''unknown scoring signal `'' @ slug @ ''`'')))"

fun signals_from_slugs :: "string list \<Rightarrow> policy_error + scoring_signal list" where
  "signals_from_slugs [] = Inr []"
| "signals_from_slugs (s # ss) =
     (case signal_from_slug s of
        Inl e \<Rightarrow> Inl e
      | Inr sig \<Rightarrow> map_sum id ((#) sig) (signals_from_slugs ss))"

fun compile_combination_rules :: "combination_rule_policy list \<Rightarrow> policy_error + combination_rule list" where
  "compile_combination_rules [] = Inr []"
| "compile_combination_rules (r # rs) =
     (if \<not> crp_enabled r then compile_combination_rules rs
      else (case signals_from_slugs (crp_when_all r) of
              Inl e \<Rightarrow> Inl e
            | Inr sigs \<Rightarrow>
                map_sum id ((#) \<lparr>cr_slug = crp_slug r, cr_weight = crp_weight r, cr_when_all = sigs,
                                cr_notes = crp_notes r\<rparr>) (compile_combination_rules rs)))"

definition compile_weights :: "policy_document \<Rightarrow> int \<Rightarrow> score_weights" where
  "compile_weights d liftwing =
     \<lparr>w_anonymous_user = rule_weight d ''anonymous_user'',
      w_temporary_account = rule_weight d ''temporary_account'',
      w_new_page = rule_weight d ''new_page'', w_reverted_before = rule_weight d ''reverted_before'',
      w_large_content_removal = rule_weight d ''large_content_removal'',
      w_link_addition = rule_weight d ''link_addition'',
      w_reference_addition = rule_weight d ''reference_addition'',
      w_category_addition = rule_weight d ''category_addition'',
      w_interwiki_addition = rule_weight d ''interwiki_addition'',
      w_mass_blanking = rule_weight d ''mass_blanking'',
      w_inserted_profanity = rule_weight d ''inserted_profanity'',
      w_repeated_character_noise = rule_weight d ''repeated_character_noise'',
      w_profanity = rule_weight d ''profanity'', w_link_spam = rule_weight d ''link_spam'',
      w_trusted_user = rule_weight d ''trusted_user'', w_bot_like_edit = rule_weight d ''bot_like_edit'',
      w_liftwing_risk = liftwing, w_warning_history = rule_weight d ''warning_history'',
      w_obvious_vandalism = rule_weight d ''obvious_vandalism'',
      w_duplicate_pattern = rule_weight d ''duplicate_pattern''\<rparr>"

definition compile_scoring_policy :: "bool \<Rightarrow> policy_document \<Rightarrow> (policy_error + compiled_policy) option" where
  "compile_scoring_policy checks d =
     (case validate_scoring_policy d of
        Inl e \<Rightarrow> Some (Inl e)
      | Inr _ \<Rightarrow>
          (case compile_liftwing_weight checks d of
             None \<Rightarrow> None
           | Some liftwing \<Rightarrow>
               Some (case compile_combination_rules (pd_combination_rules d) of
                  Inl e \<Rightarrow> Inl e
                | Inr rules \<Rightarrow> Inr
                    \<lparr>pc_domain = pd_domain d, pc_wiki_id = pd_wiki_id d,
                     pc_policy_version = pd_policy_version d,
                     pc_evaluation_profile = pd_evaluation_profile d,
                     pc_lifecycle = pd_lifecycle d, pc_dimensions = pd_dimensions d,
                     pc_scoring_config =
                       \<lparr>sc_base_score = 0, sc_max_score = 100,
                        sc_identity =
                          \<lparr>id_contribution_cap = Some (ip_contribution_cap (pd_identity d)),
                           id_anonymous_modifier_enabled = ip_anonymous_modifier_enabled (pd_identity d),
                           id_temporary_modifier_enabled = ip_temporary_modifier_enabled (pd_identity d),
                           id_account_age_modifier_enabled = ip_account_age_modifier_enabled (pd_identity d)\<rparr>,
                        sc_weights = compile_weights d liftwing,
                        sc_signal_parameters = pd_signal_parameters d,
                        sc_combination_rules = rules,
                        sc_external_evaluation =
                          \<lparr>ee_liftwing_enabled =
                             (case pd_liftwing d of None \<Rightarrow> False | Some lw \<Rightarrow> lp_enabled lw),
                           ee_liftwing_max_contribution =
                             (case pd_liftwing d of None \<Rightarrow> 0 | Some lw \<Rightarrow> lp_max_contribution lw)\<rparr>\<rparr>,
                     pc_queue_policy =
                       \<lparr>qp_trusted_usernames = [],
                        qp_duplicate_cluster_boost =
                          (case map_of (pd_rules d) ''duplicate_pattern'' of
                             None \<Rightarrow> True | Some r \<Rightarrow> rp_enabled r)\<rparr>,
                     pc_queue_defaults = pd_queue d,
                     pc_combination_rules = pd_combination_rules d,
                     pc_liftwing = pd_liftwing d, pc_fairness = pd_fairness d\<rparr>)))"

subsection \<open>What compilation guarantees\<close>

lemma first_error_ok: "first_error cs = Inr () \<longleftrightarrow> list_all (\<lambda>c. c = Inr ()) cs"
  by (induction cs) (auto split: sum.splits)

declare first_error.simps [simp del]

lemma ensure_ok [simp]: "ensure b e = Inr () \<longleftrightarrow> b"
  by (simp add: ensure_def)

lemma marker_list_ok:
  "validate_marker_list f ms = Inr () \<longleftrightarrow> ms \<noteq> [] \<and> list_all (\<lambda>m. \<not> blank m) ms"
  by (auto simp: validate_marker_list_def first_error_ok list_all_iff list_ex_iff)

lemma validated_cap: "validate_scoring_policy d = Inr () \<Longrightarrow> 0 \<le> ip_contribution_cap (pd_identity d)"
  by (simp add: validate_scoring_policy_def Let_def first_error_ok)

lemma compile_config:
  "compile_scoring_policy checks d = Some (Inr p) \<Longrightarrow>
     validate_scoring_policy d = Inr () \<and> sc_base_score (pc_scoring_config p) = 0 \<and>
     sc_max_score (pc_scoring_config p) = 100 \<and>
     id_contribution_cap (sc_identity (pc_scoring_config p)) = Some (ip_contribution_cap (pd_identity d)) \<and>
     compile_liftwing_weight checks d = Some (w_liftwing_risk (sc_weights (pc_scoring_config p)))"
  unfolding compile_scoring_policy_def
  by (auto simp: compile_weights_def split: sum.splits option.splits)

lemma compiled_config_scores:
  assumes "compile_scoring_policy checks d = Some (Inr p)"
  shows "\<exists>s. score_edit_with_context ev (pc_scoring_config p) ctx = Some (Inr s) \<and>
    0 \<le> cs_total s \<and> cs_total s \<le> 100"
proof -
  note config = compile_config [OF assms]
  have "0 \<le> ip_contribution_cap (pd_identity d)"
    using config validated_cap by blast
  then have "score_edit_with_context ev (pc_scoring_config p) ctx \<noteq> None"
    using config by (simp add: scoring_None_iff)
  moreover have "score_edit_with_context ev (pc_scoring_config p) ctx \<noteq> Some (Inl e)" for e
    using config by (simp add: scoring_Inl_iff)
  ultimately obtain s where s: "score_edit_with_context ev (pc_scoring_config p) ctx = Some (Inr s)"
    by (metis option.exhaust sum.exhaust)
  then show ?thesis
    using scoring_range [OF s] config by simp
qed

text \<open>
  Compiled policies always score: with a configuration that came out of the compiler, every edit
  in every context gets a score between 0 and 100; neither the range error nor a panic can occur, and
  the weight of the external evaluator respects its configured maximum.
\<close>

theorem compiled_policy_scores:
  assumes "compile_scoring_policy checks d = Some (Inr p)"
  shows "(\<exists>s. score_edit_with_context ev (pc_scoring_config p) ctx = Some (Inr s) \<and>
      0 \<le> cs_total s \<and> cs_total s \<le> 100) \<and>
    (case pd_liftwing d of
       None \<Rightarrow> True
     | Some lw \<Rightarrow> \<bar>w_liftwing_risk (sc_weights (pc_scoring_config p))\<bar> \<le> \<bar>lp_max_contribution lw\<bar>)"
  using compiled_config_scores [OF assms] compile_config [OF assms]
  by (auto simp: compile_liftwing_weight_def neg_i32_def Let_def split: option.splits if_splits
      dest!: clamp_checked_Some)

definition sample_policy :: "int \<Rightarrow> string \<Rightarrow> policy_document" where
  "sample_policy liftwing_max marker =
     (let zero = Finite 0 in
      \<lparr>pd_domain = VandalismPatrol, pd_wiki_id = ''frwiki'', pd_policy_version = ''v1'',
       pd_evaluation_profile = ''base'', pd_inherits_from = None, pd_lifecycle = Active,
       pd_dimensions = \<lparr>dw_content = zero, dw_actor = zero, dw_subject = zero, dw_context = zero,
         dw_temporal = zero, dw_policy = zero, dw_external_evaluation = zero\<rparr>,
       pd_identity = \<lparr>ip_contribution_cap = 20, ip_anonymous_modifier_enabled = True,
         ip_temporary_modifier_enabled = True, ip_account_age_modifier_enabled = False\<rparr>,
       pd_queue = \<lparr>qc_default_limit = 10, qc_max_limit = 50, qc_min_score_cutoff = 0\<rparr>,
       pd_signal_parameters = \<lparr>sp_large_content_removal_threshold = - 500,
         sp_massive_blanking_threshold = - 2000, sp_repeated_character_run_threshold = 5,
         sp_profanity_markers = [marker], sp_link_markers = [''http''], sp_trusted_tags = [''trusted''],
         sp_revert_tags = [''mw-undo''], sp_suspicious_comment_markers = [''lol'']\<rparr>,
       pd_rules = map (\<lambda>r. (r, \<lparr>rp_enabled = True, rp_weight = 25, rp_threshold = None,
         rp_max_bonus = None, rp_notes = None\<rparr>)) (sort required_rules),
       pd_combination_rules = [],
       pd_liftwing = Some \<lparr>lp_enabled = True, lp_role = SupportingSignal, lp_max_contribution = liftwing_max\<rparr>,
       pd_fairness = \<lparr>fp_newcomer_bps = 0, fp_temporary_bps = 0, fp_anonymous_bps = 0\<rparr>\<rparr>)"

lemma sample_policy_valid: "validate_scoring_policy (sample_policy (- 5) ''SPAM'') = Inr ()"
  by code_simp

lemma sample_policy_compiles:
  "\<exists>p. compile_scoring_policy checks (sample_policy 10 ''poop'') = Some (Inr p)"
proof -
  have "validate_scoring_policy (sample_policy 10 ''poop'') = Inr ()"
    "compile_liftwing_weight checks (sample_policy 10 ''poop'') = Some 10"
    "compile_combination_rules (pd_combination_rules (sample_policy 10 ''poop'')) = Inr []"
    by code_simp+
  then show ?thesis
    by (simp add: compile_scoring_policy_def)
qed

theorem compiled_policy_scores_witness:
  "\<exists>p s. compile_scoring_policy checks (sample_policy 10 ''poop'') = Some (Inr p) \<and>
     score_edit_with_context sample_event (pc_scoring_config p) default_context = Some (Inr s) \<and>
     0 \<le> cs_total s \<and> cs_total s \<le> 100"
  using sample_policy_compiles compiled_policy_scores [of checks "sample_policy 10 ''poop''" _ sample_event default_context]
  by blast

text \<open>
  Compilation panics exactly on a policy that passed validation and whose enabled external
  evaluator has a negative maximum contribution: validation never looks at that field. Only the
  smallest \<open>i32\<close> gets through, in a build without overflow checks, where it is its own opposite.
\<close>

theorem compile_panics_iff:
  "compile_scoring_policy checks d = None \<longleftrightarrow>
     validate_scoring_policy d = Inr () \<and>
     (\<exists>lw. pd_liftwing d = Some lw \<and> lp_enabled lw \<and> lp_role lw \<noteq> RoleDisabled \<and> lp_max_contribution lw < 0 \<and>
        (checks \<or> lp_max_contribution lw \<noteq> i32_min))"
  by (auto simp: compile_scoring_policy_def compile_liftwing_weight_def neg_i32_def Let_def clamp_checked_def
      split: sum.splits option.splits if_splits)

subsection \<open>Markers that can never match\<close>

lemma lower_byte_not_upper: "\<not> (65 \<le> (of_char (lower_byte c) :: nat) \<and> of_char (lower_byte c) \<le> (90 :: nat))"
  by (auto simp: lower_byte_def Let_def)

lemma str_find_prefix: "str_find pat s = Some i \<Longrightarrow> set pat \<subseteq> set s"
proof (induction pat s arbitrary: i rule: str_find.induct)
  case (2 pat c s)
  then show ?case
    by (auto split: if_splits dest: set_mono_prefix [THEN subsetD])
qed (auto split: if_splits)

text \<open>
  A marker with an ASCII capital is dead: comments and tags are lower-cased before the search and
  markers are compared as written, so such a marker, which validation accepts, never matches any text.
\<close>

theorem capital_marker_never_matches:
  assumes "c \<in> set marker" and "65 \<le> (of_char c :: nat)" and "of_char c \<le> (90 :: nat)"
  shows "\<not> contains_any text [marker] \<and> \<not> contains_tag tag [marker]"
proof -
  have "str_find marker (to_ascii_lowercase h) = None" for h
  proof (rule ccontr)
    assume "str_find marker (to_ascii_lowercase h) \<noteq> None"
    then obtain b where "c = lower_byte b"
      using assms(1) str_find_prefix by (fastforce simp: to_ascii_lowercase_def)
    with assms(2,3) lower_byte_not_upper show False by blast
  qed
  then show ?thesis
    by (auto simp: contains_any_def contains_tag_def str_contains_def split: option.splits)
qed

theorem capital_marker_never_matches_witness:
  "validate_scoring_policy (sample_policy (- 5) ''SPAM'') = Inr () \<and>
   \<not> contains_any (Some ''what the SPAM'') [''SPAM'']"
  using capital_marker_never_matches [of "CHR ''S''" "''SPAM''" "Some ''what the SPAM''"] sample_policy_valid
  by simp

end
