(* ===== verification/Priority_Queue.thy ===== *)
theory Priority_Queue
  imports Prelude "HOL-Library.Multiset" "HOL-Library.Product_Lexorder"
begin

section \<open>The priority queue\<close>

text \<open>
  \<open>crates/sp42-platform/src/priority_queue.rs\<close>: entries ordered by priority, then by age, in a
  \<open>BinaryHeap\<close> of the standard library, of which the code uses that \<open>pop\<close> removes a greatest
  element. The heap is the list of its entries; the sequence number is a \<open>u64\<close> whose increment
  panics on overflow (\<open>None\<close>). The interface \<open>max_queue\<close> states what a draining client needs.
\<close>

subsection \<open>The interface\<close>

locale max_queue =
  fixes pop :: "'q \<Rightarrow> ('e \<times> 'q) option"
    and elems :: "'q \<Rightarrow> 'e multiset"
    and key :: "'e \<Rightarrow> 'k::linorder"
    and drain :: "'q \<Rightarrow> 'e list"
  assumes pop_None: "pop q = None \<longleftrightarrow> elems q = {#}"
    and pop_elems: "pop q = Some (x, q') \<Longrightarrow> elems q = add_mset x (elems q')"
    and pop_greatest: "pop q = Some (x, q') \<Longrightarrow> y \<in># elems q' \<Longrightarrow> key y \<le> key x"
    and drain_eq: "drain q = (case pop q of None \<Rightarrow> [] | Some (x, q') \<Rightarrow> x # drain q')"
begin

lemma drain_all: "mset (drain q) = elems q \<and> sorted_wrt (\<lambda>x y. key y \<le> key x) (drain q)"
proof (induction "size (elems q)" arbitrary: q)
  case 0
  then have "pop q = None" by (simp add: pop_None)
  with 0 show ?case by (simp add: drain_eq [of q])
next
  case (Suc n)
  then have "pop q \<noteq> None" by (auto simp: pop_None)
  then obtain x q' where pop: "pop q = Some (x, q')" by fastforce
  then have "n = size (elems q')"
    using Suc(2) pop_elems by force
  from Suc(1) [OF this] pop show ?case
    by (auto simp: drain_eq [of q] pop_elems dest: pop_greatest simp flip: set_mset_mset)
qed

lemma drain_mset: "mset (drain q) = elems q"
  using drain_all by blast

lemma drain_sorted: "sorted_wrt (\<lambda>x y. key y \<le> key x) (drain q)"
  using drain_all by blast

end

subsection \<open>Entries and their order\<close>

datatype queue_key = Key (key_priority: int) (key_sequence: nat)

instantiation queue_key :: linorder
begin

definition less_eq_queue_key :: "queue_key \<Rightarrow> queue_key \<Rightarrow> bool" where
  "less_eq_queue_key a b \<longleftrightarrow>
     key_priority a < key_priority b \<or>
     key_priority a = key_priority b \<and> key_sequence b \<le> key_sequence a"

definition less_queue_key :: "queue_key \<Rightarrow> queue_key \<Rightarrow> bool" where
  "less_queue_key a b \<longleftrightarrow>
     key_priority a < key_priority b \<or>
     key_priority a = key_priority b \<and> key_sequence b < key_sequence a"

instance
  by standard (auto simp: less_eq_queue_key_def less_queue_key_def queue_key.expand)

end

record 'a queue_entry =
  ent_priority :: int
  ent_sequence :: nat
  ent_value :: 'a

definition entry_key :: "'a queue_entry \<Rightarrow> queue_key" where
  "entry_key e = Key (ent_priority e) (ent_sequence e)"

record 'a priority_queue =
  pq_heap :: "'a queue_entry list"
  pq_next_sequence :: nat

definition pq_new :: "'a priority_queue" where
  "pq_new = \<lparr>pq_heap = [], pq_next_sequence = 0\<rparr>"

definition pq_push :: "int \<Rightarrow> 'a \<Rightarrow> 'a priority_queue \<Rightarrow> (nat \<times> 'a priority_queue) option" where
  "pq_push priority v q =
     (if pq_next_sequence q = u64_max then None
      else Some (pq_next_sequence q,
        \<lparr>pq_heap = pq_heap q @ [\<lparr>ent_priority = priority, ent_sequence = pq_next_sequence q, ent_value = v\<rparr>],
         pq_next_sequence = Suc (pq_next_sequence q)\<rparr>))"

fun greatest :: "'a queue_entry \<Rightarrow> 'a queue_entry list \<Rightarrow> 'a queue_entry" where
  "greatest m [] = m"
| "greatest m (e # es) = greatest (if entry_key m < entry_key e then e else m) es"

definition heap_pop :: "'a queue_entry list \<Rightarrow> ('a queue_entry \<times> 'a queue_entry list) option" where
  "heap_pop h =
     (case h of
        [] \<Rightarrow> None
      | e # es \<Rightarrow> (let m = greatest e es in Some (m, remove1 m h)))"

definition pq_pop :: "'a priority_queue \<Rightarrow> ('a \<times> 'a priority_queue) option" where
  "pq_pop q =
     (case heap_pop (pq_heap q) of
        None \<Rightarrow> None
      | Some (e, h) \<Rightarrow> Some (ent_value e, q\<lparr>pq_heap := h\<rparr>))"

definition pq_len :: "'a priority_queue \<Rightarrow> nat" where
  "pq_len q = length (pq_heap q)"

text \<open>The loop \<open>while let Some(item) = queue.pop()\<close> of the clients, on entries and on values.\<close>

lemma greatest_in: "greatest m es \<in> insert m (set es)"
  by (induction m es rule: greatest.induct) auto

lemma greatest_ge: "entry_key m \<le> entry_key (greatest m es) \<and> (\<forall>e\<in>set es. entry_key e \<le> entry_key (greatest m es))"
proof (induction m es rule: greatest.induct)
  case (2 m e es)
  then show ?case by (auto simp: not_less split: if_splits)
qed simp

lemma heap_pop_Some:
  assumes "heap_pop h = Some (m, h')"
  shows "m \<in> set h" "h' = remove1 m h" "\<forall>e\<in>set h. entry_key e \<le> entry_key m"
  using assms greatest_in greatest_ge
  by (auto simp: heap_pop_def Let_def split: list.splits)

lemma heap_pop_None: "heap_pop h = None \<longleftrightarrow> h = []"
  by (auto simp: heap_pop_def Let_def split: list.splits)

lemma heap_pop_length: "heap_pop h = Some (m, h') \<Longrightarrow> length h' < length h"
  using heap_pop_Some by (metis One_nat_def diff_less length_pos_if_in_set length_remove1 zero_less_one)

function drain_entries :: "'a queue_entry list \<Rightarrow> 'a queue_entry list" where
  "drain_entries h = (case heap_pop h of None \<Rightarrow> [] | Some (e, h') \<Rightarrow> e # drain_entries h')"
  by pat_completeness auto
termination
  by (relation "measure length") (auto dest: heap_pop_length)

declare drain_entries.simps [simp del]

function pq_drain :: "'a priority_queue \<Rightarrow> 'a list" where
  "pq_drain q = (case pq_pop q of None \<Rightarrow> [] | Some (v, q') \<Rightarrow> v # pq_drain q')"
  by pat_completeness auto
termination
  by (relation "measure pq_len") (auto simp: pq_pop_def pq_len_def dest: heap_pop_length split: option.splits)

declare pq_drain.simps [simp del]

interpretation heap: max_queue heap_pop mset entry_key drain_entries
proof unfold_locales
  fix h h' :: "'b queue_entry list" and x y
  show "heap_pop h = None \<longleftrightarrow> mset h = {#}"
    by (simp add: heap_pop_None)
  show "drain_entries h = (case heap_pop h of None \<Rightarrow> [] | Some (x, q') \<Rightarrow> x # drain_entries q')"
    by (rule drain_entries.simps)
  assume pop: "heap_pop h = Some (x, h')"
  then show "mset h = add_mset x (mset h')"
    using heap_pop_Some(1,2) [OF pop] by simp
  show "entry_key y \<le> entry_key x" if "y \<in># mset h'"
    using heap_pop_Some [OF pop] that by (auto dest: in_diffD)
qed

lemma pq_drain_entries: "pq_drain q = map ent_value (drain_entries (pq_heap q))"
proof (induction q rule: pq_drain.induct)
  case (1 q)
  then show ?case
    by (auto simp: pq_drain.simps [of q] drain_entries.simps [of "pq_heap q"] pq_pop_def split: option.splits)
qed

subsection \<open>Draining is a stable sort\<close>

definition drain_order :: "'a queue_entry \<Rightarrow> int \<times> nat" where
  "drain_order e = (- ent_priority e, ent_sequence e)"

lemma drain_order_key: "drain_order x \<le> drain_order y \<longleftrightarrow> entry_key y \<le> entry_key x"
  by (auto simp: drain_order_def entry_key_def less_eq_queue_key_def)

lemma drain_entries_sort:
  assumes "distinct (map ent_sequence h)"
  shows "drain_entries h = sort_key drain_order h"
proof (rule map_sorted_distinct_set_unique [where f = drain_order])
  have set_eq: "set (drain_entries h) = set h"
    using heap.drain_mset [of h] by (metis set_mset_mset)
  have inj: "inj_on drain_order (set h)"
    using assms by (auto simp: inj_on_def drain_order_def distinct_map)
  show "inj_on drain_order (set (drain_entries h) \<union> set (sort_key drain_order h))"
    using inj set_eq by simp
  show "sorted (map drain_order (drain_entries h))"
    using heap.drain_sorted [of h] by (simp add: sorted_map drain_order_key)
  have "distinct h" using assms by (simp add: distinct_map)
  moreover from this have "distinct (drain_entries h)"
    using heap.drain_mset [of h] by (metis mset_eq_imp_distinct_iff)
  ultimately show "distinct (map drain_order (drain_entries h))"
    "distinct (map drain_order (sort_key drain_order h))"
    using inj set_eq by (simp_all add: distinct_map)
  show "set (drain_entries h) = set (sort_key drain_order h)"
    using set_eq by simp
qed simp

lemma insort_oldest:
  "\<forall>y\<in>set ys. ent_sequence x < ent_sequence y \<Longrightarrow>
     insort_key drain_order x ys = insort_key (\<lambda>e. - ent_priority e) x ys"
  by (induction ys) (auto simp: drain_order_def)

lemma sort_oldest_first:
  "sorted_wrt (<) (map ent_sequence es) \<Longrightarrow> sort_key drain_order es = sort_key (\<lambda>e. - ent_priority e) es"
  by (induction es) (auto simp: insort_oldest)

lemma insort_key_map: "insort_key f (g x) (map g ys) = map g (insort_key (\<lambda>x. f (g x)) x ys)"
  by (induction ys) auto

lemma sort_key_map: "sort_key f (map g xs) = map g (sort_key (\<lambda>x. f (g x)) xs)"
  by (induction xs) (simp_all add: insort_key_map)

end
