(* ===== verification/Queue_Builder.thy ===== *)
theory Queue_Builder
  imports BTree_Map Priority_Queue Scoring_Engine
begin

section \<open>Building the ranked queue\<close>

text \<open>
  \<open>crates/sp42-platform/src/queue_builder.rs\<close>: every event of a batch is scored, pushed with its
  total as priority, and the queue is drained. As in the scorer, \<open>None\<close> is a panic and \<open>Inl\<close> the
  error of the first event that cannot be scored.
\<close>

definition normalize_identifier :: "string \<Rightarrow> string" where
  "normalize_identifier v = str_join '' '' (str_split_whitespace (to_ascii_lowercase (str_trim v)))"

definition normalized_trusted_usernames :: "queue_heuristic_policy \<Rightarrow> string list" where
  "normalized_trusted_usernames policy = map normalize_identifier (qp_trusted_usernames policy)"

definition is_newcomer_like :: "editor_identity \<Rightarrow> bool" where
  "is_newcomer_like e = (case e of Registered _ \<Rightarrow> False | _ \<Rightarrow> True)"

definition duplicate_fingerprint :: "edit_event \<Rightarrow> string option" where
  "duplicate_fingerprint ev =
     (if \<not> is_newcomer_like (ev_performer ev) then None
      else (let comment = normalize_identifier (case ev_comment ev of None \<Rightarrow> ''no-comment'' | Some c \<Rightarrow> c);
                title = normalize_identifier (ev_title ev)
            in Some (title @ ''|'' @ comment @ ''|'' @ show_int (ev_namespace ev) @ ''|'' @
                 show_int (sgn (ev_byte_delta ev)))))"

definition count_fingerprint :: "edit_event \<Rightarrow> (string, nat) btree \<Rightarrow> (string, nat) btree" where
  "count_fingerprint ev counts =
     (case duplicate_fingerprint ev of
        None \<Rightarrow> counts
      | Some fp \<Rightarrow>
          bt_insert fp (sat_u32 (Suc (case map_of counts fp of None \<Rightarrow> 0 | Some n \<Rightarrow> n))) counts)"

definition duplicate_cluster_sizes :: "edit_event list \<Rightarrow> (string, nat) btree" where
  "duplicate_cluster_sizes evs = fold count_fingerprint evs []"

definition policy_context ::
  "queue_heuristic_policy \<Rightarrow> string list \<Rightarrow> (string, nat) btree \<Rightarrow> edit_event \<Rightarrow> scoring_context" where
  "policy_context policy trusted clusters ev =
     default_context
       \<lparr>ctx_trust_override := is_registered (ev_performer ev) \<and>
          normalize_identifier (stable_label (ev_performer ev)) \<in> set trusted,
        ctx_duplicate_cluster_size :=
          (if qp_duplicate_cluster_boost policy
           then (case duplicate_fingerprint ev of None \<Rightarrow> None | Some fp \<Rightarrow> map_of clusters fp)
           else None)\<rparr>"

definition score_with_policy ::
  "edit_event \<Rightarrow> scoring_config \<Rightarrow> scoring_context \<Rightarrow> (scoring_error + composite_score) option" where
  "score_with_policy ev cfg ctx =
     (if ctx_trust_override ctx \<or> ctx_duplicate_cluster_size ctx \<noteq> None
      then score_edit_with_context ev cfg ctx
      else score_edit ev cfg)"

text \<open>The loop that scores and pushes, for a given way of scoring an item.\<close>

fun push_scored ::
  "('i \<Rightarrow> (scoring_error + composite_score) option) \<Rightarrow> ('i \<Rightarrow> edit_event) \<Rightarrow> 'i list \<Rightarrow>
     queued_edit priority_queue \<Rightarrow> (scoring_error + queued_edit priority_queue) option" where
  "push_scored score event [] q = Some (Inr q)"
| "push_scored score event (i # is) q =
     (case score i of
        None \<Rightarrow> None
      | Some (Inl e) \<Rightarrow> Some (Inl e)
      | Some (Inr s) \<Rightarrow>
          (case pq_push (cs_total s) \<lparr>qe_event = event i, qe_score = s\<rparr> q of
             None \<Rightarrow> None
           | Some (_, q') \<Rightarrow> push_scored score event is q'))"

definition drain_ranked ::
  "(scoring_error + queued_edit priority_queue) option \<Rightarrow> (scoring_error + queued_edit list) option" where
  "drain_ranked r = map_option (map_sum id pq_drain) r"

definition build_ranked_queue_with_contexts ::
  "(edit_event \<times> scoring_context) list \<Rightarrow> scoring_config \<Rightarrow> (scoring_error + queued_edit list) option" where
  "build_ranked_queue_with_contexts items cfg =
     drain_ranked (push_scored (\<lambda>(ev, ctx). score_edit_with_context ev cfg ctx) fst items pq_new)"

definition build_ranked_queue_with_policy ::
  "edit_event list \<Rightarrow> scoring_config \<Rightarrow> queue_heuristic_policy \<Rightarrow> (scoring_error + queued_edit list) option" where
  "build_ranked_queue_with_policy evs cfg policy =
     (let clusters = duplicate_cluster_sizes evs; trusted = normalized_trusted_usernames policy
      in drain_ranked
           (push_scored (\<lambda>ev. score_with_policy ev cfg (policy_context policy trusted clusters ev))
              (\<lambda>ev. ev) evs pq_new))"

definition build_ranked_queue ::
  "edit_event list \<Rightarrow> scoring_config \<Rightarrow> (scoring_error + queued_edit list) option" where
  "build_ranked_queue evs cfg =
     build_ranked_queue_with_policy evs cfg \<lparr>qp_trusted_usernames = [], qp_duplicate_cluster_boost = True\<rparr>"

subsection \<open>The queue is a stable sort\<close>

fun entries_from :: "nat \<Rightarrow> queued_edit list \<Rightarrow> queued_edit queue_entry list" where
  "entries_from n [] = []"
| "entries_from n (v # vs) =
     \<lparr>ent_priority = cs_total (qe_score v), ent_sequence = n, ent_value = v\<rparr> # entries_from (Suc n) vs"

lemma entries_values [simp]: "map ent_value (entries_from n vs) = vs"
  by (induction n vs rule: entries_from.induct) auto

lemma entries_priority: "e \<in> set (entries_from n vs) \<Longrightarrow> ent_priority e = cs_total (qe_score (ent_value e))"
  by (induction n vs rule: entries_from.induct) auto

lemma entries_sequence: "e \<in> set (entries_from n vs) \<Longrightarrow> n \<le> ent_sequence e"
  by (induction n vs rule: entries_from.induct) auto

lemma entries_increasing: "sorted_wrt (<) (map ent_sequence (entries_from n vs))"
proof (induction n vs rule: entries_from.induct)
  case (2 n v vs)
  then show ?case by (auto dest: entries_sequence simp: Suc_le_eq)
qed simp

definition scored_as ::
  "('i \<Rightarrow> (scoring_error + composite_score) option) \<Rightarrow> ('i \<Rightarrow> edit_event) \<Rightarrow> 'i \<Rightarrow> queued_edit \<Rightarrow> bool" where
  "scored_as score event i v \<longleftrightarrow> qe_event v = event i \<and> score i = Some (Inr (qe_score v))"

lemma push_scored_iff:
  "pq_next_sequence q + length is \<le> u64_max \<Longrightarrow>
   push_scored score event is q = Some (Inr q') \<longleftrightarrow>
     (\<exists>vs. list_all2 (scored_as score event) is vs \<and>
        q' = \<lparr>pq_heap = pq_heap q @ entries_from (pq_next_sequence q) vs,
              pq_next_sequence = pq_next_sequence q + length is\<rparr>)"
proof (induction "score" event "is" q rule: push_scored.induct)
  case (2 "score" event i "is" q)
  show ?case
  proof (cases "score i")
    case (Some r)
    show ?thesis
    proof (cases r)
      case (Inr s)
      let ?v = "\<lparr>qe_event = event i, qe_score = s\<rparr>"
      let ?q = "\<lparr>pq_heap = pq_heap q @ [\<lparr>ent_priority = cs_total s, ent_sequence = pq_next_sequence q, ent_value = ?v\<rparr>],
                pq_next_sequence = Suc (pq_next_sequence q)\<rparr>"
      have push: "pq_push (cs_total s) ?v q = Some (pq_next_sequence q, ?q)"
        using 2(2) by (simp add: pq_push_def)
      have "scored_as score event i v \<longleftrightarrow> v = ?v" for v
        using Some Inr by (cases v) (auto simp: scored_as_def)
      then show ?thesis
        using 2 Some Inr push by (auto simp: list_all2_Cons1)
    qed (use Some in \<open>auto simp: list_all2_Cons1 scored_as_def\<close>)
  qed (auto simp: list_all2_Cons1 scored_as_def)
qed auto

lemma sort_key_cong_set: "(\<And>x. x \<in> set xs \<Longrightarrow> f x = g x) \<Longrightarrow> sort_key f xs = sort_key g xs"
proof (induction xs)
  case (Cons x xs)
  have "insort_key f x ys = insort_key g x ys" if "\<forall>y\<in>set ys. f y = g y" "f x = g x" for ys
    using that by (induction ys) auto
  with Cons show ?case by simp
qed simp

lemma drain_entries_from:
  "map ent_value (drain_entries (entries_from n vs)) = sort_key (\<lambda>v. - cs_total (qe_score v)) vs"
proof -
  let ?es = "entries_from n vs"
  have "distinct (map ent_sequence ?es)"
    using entries_increasing [of n vs] by (simp add: strict_sorted_iff)
  then have "drain_entries ?es = sort_key (\<lambda>e. - ent_priority e) ?es"
    by (simp add: drain_entries_sort sort_oldest_first entries_increasing)
  also have "\<dots> = sort_key (\<lambda>e. - cs_total (qe_score (ent_value e))) ?es"
    by (rule sort_key_cong_set) (simp add: entries_priority)
  finally show ?thesis
    using sort_key_map [of "\<lambda>v. - cs_total (qe_score v)" ent_value ?es] by simp
qed

lemma ranked_iff:
  assumes "length is \<le> u64_max"
  shows "drain_ranked (push_scored score event is pq_new) = Some (Inr ranked) \<longleftrightarrow>
    (\<exists>vs. list_all2 (scored_as score event) is vs \<and> ranked = sort_key (\<lambda>v. - cs_total (qe_score v)) vs)"
proof -
  have "drain_ranked (push_scored score event is pq_new) = Some (Inr ranked) \<longleftrightarrow>
      (\<exists>q'. push_scored score event is pq_new = Some (Inr q') \<and> ranked = pq_drain q')"
    by (cases "push_scored score event is pq_new"; cases "the (push_scored score event is pq_new)")
      (auto simp: drain_ranked_def)
  also have "\<dots> \<longleftrightarrow> (\<exists>vs. list_all2 (scored_as score event) is vs \<and>
      ranked = sort_key (\<lambda>v. - cs_total (qe_score v)) vs)"
    using assms by (auto simp: push_scored_iff pq_new_def pq_drain_entries drain_entries_from)
  finally show ?thesis .
qed

text \<open>
  C5. Ranking: the builder returns a queue exactly when every event of the batch has a score, and the
  queue is then the scored batch sorted by descending total with arrival order kept among equal totals;
  nothing is dropped, duplicated or reordered within a tie.
\<close>

theorem ranked_queue_is_stable_sort:
  assumes "length items \<le> u64_max"
  shows "build_ranked_queue_with_contexts items cfg = Some (Inr ranked) \<longleftrightarrow>
    (\<exists>scored. list_all2 (\<lambda>(ev, ctx) v. qe_event v = ev \<and>
        score_edit_with_context ev cfg ctx = Some (Inr (qe_score v))) items scored \<and>
      ranked = sort_key (\<lambda>v. - cs_total (qe_score v)) scored)"
  unfolding build_ranked_queue_with_contexts_def ranked_iff [OF assms]
  by (simp add: scored_as_def [abs_def] split_def)

theorem ranked_queue_is_stable_sort_witness:
  "\<exists>ranked. build_ranked_queue_with_contexts
     [(sample_event, default_context), (sample_event, default_context)] (sample_config (Some 20) 0 100) =
       Some (Inr ranked) \<and> length ranked = 2"
proof -
  obtain s where s: "score_edit_with_context sample_event (sample_config (Some 20) 0 100) default_context = Some (Inr s)"
    using sample_score by blast
  let ?vs = "[\<lparr>qe_event = sample_event, qe_score = s\<rparr>, \<lparr>qe_event = sample_event, qe_score = s\<rparr>]"
  let ?items = "[(sample_event, default_context), (sample_event, default_context)]"
  have "list_all2 (\<lambda>(ev, ctx) v. qe_event v = ev \<and>
      score_edit_with_context ev (sample_config (Some 20) 0 100) ctx = Some (Inr (qe_score v))) ?items ?vs"
    using s by simp
  then have "build_ranked_queue_with_contexts ?items (sample_config (Some 20) 0 100) =
      Some (Inr (sort_key (\<lambda>v. - cs_total (qe_score v)) ?vs))"
    by (subst ranked_queue_is_stable_sort) (simp, blast)
  then show ?thesis by simp
qed

subsection \<open>Duplicate clusters\<close>

lemma count_wf: "bt_wf m \<Longrightarrow> bt_wf (count_fingerprint ev m)"
  by (simp add: count_fingerprint_def split: option.splits)

lemma cluster_fold:
  "bt_wf m \<Longrightarrow> (case map_of m fp of None \<Rightarrow> 0 | Some n \<Rightarrow> n) = sat_u32 k \<Longrightarrow> (map_of m fp = None \<longleftrightarrow> k = 0) \<Longrightarrow>
     map_of (fold count_fingerprint evs m) fp =
       (let n = k + length (filter (\<lambda>ev. duplicate_fingerprint ev = Some fp) evs)
        in if n = 0 then None else Some (sat_u32 n))"
proof (induction evs arbitrary: m k)
  case Nil
  then show ?case by (auto simp: Let_def split: option.splits)
next
  case (Cons ev evs)
  show ?case
  proof (cases "duplicate_fingerprint ev = Some fp")
    case True
    have "map_of (count_fingerprint ev m) fp = Some (sat_u32 (Suc (sat_u32 k)))"
      using True Cons.prems by (simp add: count_fingerprint_def)
    moreover have "sat_u32 (Suc (sat_u32 k)) = sat_u32 (Suc k)"
      by (simp add: sat_u32_def min_def)
    ultimately show ?thesis
      using Cons.IH [of "count_fingerprint ev m" "Suc k"] Cons.prems(1) True by (simp add: count_wf Let_def)
  next
    case False
    then have "map_of (count_fingerprint ev m) fp = map_of m fp"
      using Cons.prems(1) by (auto simp: count_fingerprint_def split: option.splits)
    then show ?thesis
      using Cons.IH [of "count_fingerprint ev m" k] Cons.prems False by (simp add: count_wf)
  qed
qed

lemma normalized_bar_free [simp]: "CHR ''|'' \<notin> set (show_int (sgn (i :: int)))"
  by simp

text \<open>
  Duplicate clusters: with titles free of the separator (MediaWiki forbids it there), an event of
  the batch is given as cluster size the number of events in the batch by unregistered editors with the
  same normalised title, comment, namespace and direction of the size change.
\<close>

theorem duplicate_cluster_counts:
  assumes "ev \<in> set evs" and "is_newcomer_like (ev_performer ev)" and "qp_duplicate_cluster_boost policy"
    and "\<forall>e\<in>set evs. CHR ''|'' \<notin> set (normalize_identifier (ev_title e))"
  shows "ctx_duplicate_cluster_size (policy_context policy trusted (duplicate_cluster_sizes evs) ev) =
    Some (sat_u32 (length (filter (\<lambda>e. is_newcomer_like (ev_performer e) \<and>
      normalize_identifier (ev_title e) = normalize_identifier (ev_title ev) \<and>
      normalize_identifier (case ev_comment e of None \<Rightarrow> ''no-comment'' | Some c \<Rightarrow> c) =
        normalize_identifier (case ev_comment ev of None \<Rightarrow> ''no-comment'' | Some c \<Rightarrow> c) \<and>
      ev_namespace e = ev_namespace ev \<and> sgn (ev_byte_delta e) = sgn (ev_byte_delta ev)) evs)))"
    (is "_ = Some (sat_u32 (length (filter ?same evs)))")
proof -
  obtain fp where fp: "duplicate_fingerprint ev = Some fp"
    using assms(2) by (simp add: duplicate_fingerprint_def Let_def)
  have same: "duplicate_fingerprint e = Some fp \<longleftrightarrow> ?same e" if "e \<in> set evs" for e
  proof -
    have bars: "CHR ''|'' \<notin> set (normalize_identifier (ev_title e))"
      "CHR ''|'' \<notin> set (normalize_identifier (ev_title ev))"
      using assms(1,4) that by auto
    have inj: "t @ CHR ''|'' # c @ CHR ''|'' # show_int n @ CHR ''|'' # show_int d =
        t' @ CHR ''|'' # c' @ CHR ''|'' # show_int n' @ CHR ''|'' # show_int d' \<longleftrightarrow>
        t = t' \<and> c = c' \<and> n = n' \<and> d = d'"
      if "CHR ''|'' \<notin> set t" "CHR ''|'' \<notin> set t'" for t t' c c' n n' d d'
      using that split_last [of "CHR ''|''" "show_int d" "show_int d'"
          "c @ CHR ''|'' # show_int n" "c' @ CHR ''|'' # show_int n'"]
        split_last [of "CHR ''|''" "show_int n" "show_int n'" c c']
      by (auto simp: split_first)
    show ?thesis
      using assms(2) fp [symmetric] by (auto simp: duplicate_fingerprint_def Let_def inj [OF bars])
  qed
  then have "filter (\<lambda>e. duplicate_fingerprint e = Some fp) evs = filter ?same evs"
    by (intro filter_cong) auto
  moreover have "filter ?same evs \<noteq> []"
    using assms(1,2) by (auto simp: filter_empty_conv)
  moreover have "map_of (duplicate_cluster_sizes evs) fp =
      (let n = length (filter (\<lambda>e. duplicate_fingerprint e = Some fp) evs) in if n = 0 then None else Some (sat_u32 n))"
    using cluster_fold [of "[]" fp 0 evs] by (simp add: duplicate_cluster_sizes_def sat_u32_def Let_def)
  ultimately show ?thesis
    using fp assms(3) by (simp add: policy_context_def)
qed

theorem duplicate_cluster_counts_witness:
  "ctx_duplicate_cluster_size (policy_context \<lparr>qp_trusted_usernames = [], qp_duplicate_cluster_boost = True\<rparr> []
     (duplicate_cluster_sizes [sample_event, sample_event\<lparr>ev_title := ''CHAT''\<rparr>, sample_event\<lparr>ev_byte_delta := 5\<rparr>])
     sample_event) = Some 2"
proof -
  have norm: "normalize_identifier ''Chat'' = ''chat''" "normalize_identifier ''CHAT'' = ''chat''"
    "normalize_identifier ''lol'' = ''lol''"
    by code_simp+
  show ?thesis
    by (subst duplicate_cluster_counts)
      (simp_all add: sample_event_def norm is_newcomer_like_def sat_u32_def)
qed

end
