(* ===== verification/Review_Session.thy ===== *)
theory Review_Session
  imports Prelude
begin

section \<open>Review sessions\<close>

text \<open>
  \<open>crates/sp42-platform/src/review_session.rs\<close>: the state machine of one review session between an
  agent and an operator, the outline with its findings, and the texts the agent is given. Clock
  readings are arguments. The parsed document blocks come from the Parsoid component: only the
  fields the outline reads are kept.
\<close>

datatype review_ended_by = Operator | Agent

datatype review_status = RS_Open | RS_Feedback | RS_Ended

datatype review_prompt_kind = PK_Block | PK_Text | PK_Message

record review_anchor =
  anchor_block_ordinal :: nat
  anchor_ref_id :: "string option"
  anchor_selected_text :: "string option"

record finding_marker =
  fm_ref_id :: string
  fm_verdict :: string
  fm_claim :: string
  fm_detail :: "string option"

datatype findings_revision_mismatch = FindingsRevisionMismatch nat

record review_prompt =
  pr_kind :: review_prompt_kind
  pr_prompt :: string
  pr_anchor :: "review_anchor option"

datatype review_chat_role = OperatorRole | AgentRole

record review_chat_entry =
  ce_role :: review_chat_role
  ce_text :: string
  ce_at_ms :: int

record review_session =
  rv_wiki_id :: string
  rv_title :: string
  rv_rev_id :: nat
  rv_status :: review_status
  rv_queued_prompts :: "review_prompt list"
  rv_findings :: "finding_marker list"
  rv_chat :: "review_chat_entry list"
  rv_ended_by :: "review_ended_by option"
  rv_created_at_ms :: int
  rv_updated_at_ms :: int

datatype review_feedback_take =
    TakeWaiting
  | TakeFeedback "review_prompt list" bool "review_ended_by option"
  | TakeEnded review_ended_by

datatype reopen_refused = ReopenRefused

datatype session_ended = SessionEnded review_ended_by

record review_snapshot =
  rn_wiki_id :: string
  rn_title :: string
  rn_rev_id :: nat
  rn_status :: review_status
  rn_pending_prompts :: nat
  rn_findings :: nat
  rn_ended_by :: "review_ended_by option"
  rn_updated_at_ms :: int

subsection \<open>Operations\<close>

definition open_session :: "string \<Rightarrow> string \<Rightarrow> nat \<Rightarrow> int \<Rightarrow> review_session" where
  "open_session wiki title rid now =
     \<lparr>rv_wiki_id = wiki, rv_title = title, rv_rev_id = rid, rv_status = RS_Open,
      rv_queued_prompts = [], rv_findings = [], rv_chat = [], rv_ended_by = None,
      rv_created_at_ms = now, rv_updated_at_ms = now\<rparr>"

definition canonical_key :: "string \<Rightarrow> string \<Rightarrow> string" where
  "canonical_key wiki title = wiki @ unit_separator # normalize_title_spacing title"

definition gate_reopen :: "bool \<Rightarrow> review_session \<Rightarrow> reopen_refused + unit" where
  "gate_reopen reopen_requested s =
     (if rv_ended_by s = Some Operator \<and> \<not> reopen_requested then Inl ReopenRefused else Inr ())"

definition resume :: "nat \<Rightarrow> int \<Rightarrow> review_session \<Rightarrow> review_session" where
  "resume rid now s =
     s\<lparr>rv_status := (if rv_queued_prompts s = [] then RS_Open else RS_Feedback),
       rv_ended_by := None,
       rv_findings := (if rv_rev_id s \<noteq> rid then [] else rv_findings s),
       rv_rev_id := rid,
       rv_updated_at_ms := now\<rparr>"

definition attach_findings ::
  "nat \<Rightarrow> finding_marker list \<Rightarrow> int \<Rightarrow> review_session \<Rightarrow>
     (findings_revision_mismatch + nat) \<times> review_session" where
  "attach_findings report_rev fs now s =
     (if report_rev \<noteq> rv_rev_id s then (Inl (FindingsRevisionMismatch (rv_rev_id s)), s)
      else (Inr (length fs), s\<lparr>rv_findings := fs, rv_updated_at_ms := now\<rparr>))"

definition queue_prompts ::
  "review_prompt list \<Rightarrow> bool \<Rightarrow> int \<Rightarrow> review_session \<Rightarrow> (session_ended + unit) \<times> review_session" where
  "queue_prompts ps end_session now s =
     (if rv_status s = RS_Ended
      then (Inl (SessionEnded (case rv_ended_by s of None \<Rightarrow> Operator | Some by \<Rightarrow> by)), s)
      else (let s1 = s\<lparr>rv_queued_prompts := rv_queued_prompts s @ ps\<rparr>;
                s2 = (if end_session then s1\<lparr>rv_status := RS_Ended, rv_ended_by := Some Operator\<rparr>
                      else if rv_queued_prompts s1 \<noteq> [] then s1\<lparr>rv_status := RS_Feedback\<rparr>
                      else s1)
            in (Inr (), s2\<lparr>rv_updated_at_ms := now\<rparr>)))"

definition take_feedback :: "int \<Rightarrow> review_session \<Rightarrow> review_feedback_take \<times> review_session" where
  "take_feedback now s =
     (if rv_queued_prompts s \<noteq> []
      then (let ended = (rv_status s = RS_Ended)
            in (TakeFeedback (rv_queued_prompts s) ended (rv_ended_by s),
                s\<lparr>rv_queued_prompts := [], rv_status := (if ended then rv_status s else RS_Open),
                  rv_updated_at_ms := now\<rparr>))
      else (case rv_ended_by s of
              Some by \<Rightarrow> (if rv_status s = RS_Ended then TakeEnded by else TakeWaiting, s)
            | None \<Rightarrow> (TakeWaiting, s)))"

definition agent_reply :: "string \<Rightarrow> int \<Rightarrow> review_session \<Rightarrow> review_session" where
  "agent_reply txt now s =
     s\<lparr>rv_chat := rv_chat s @ [\<lparr>ce_role = AgentRole, ce_text = txt, ce_at_ms = now\<rparr>],
       rv_updated_at_ms := now\<rparr>"

definition end_by :: "review_ended_by \<Rightarrow> int \<Rightarrow> review_session \<Rightarrow> review_session" where
  "end_by by now s =
     (if rv_status s = RS_Ended then s
      else s\<lparr>rv_status := RS_Ended, rv_ended_by := Some by, rv_updated_at_ms := now\<rparr>)"

definition session_snapshot :: "review_session \<Rightarrow> review_snapshot" where
  "session_snapshot s =
     \<lparr>rn_wiki_id = rv_wiki_id s, rn_title = rv_title s, rn_rev_id = rv_rev_id s,
      rn_status = rv_status s, rn_pending_prompts = length (rv_queued_prompts s),
      rn_findings = length (rv_findings s), rn_ended_by = rv_ended_by s,
      rn_updated_at_ms = rv_updated_at_ms s\<rparr>"

subsection \<open>The outline and its findings\<close>

datatype block_kind = Paragraph | ListItem | TableCell | OtherBlock

record parsoid_block =
  pb_text :: string
  pb_ref_ids :: "string list"
  pb_kind :: block_kind
  pb_ordinal :: nat

record block_outline =
  bo_block_ordinal :: nat
  bo_kind :: string
  bo_text :: string
  bo_ref_ids :: "string list"
  bo_findings :: "finding_marker list"

fun block_kind_label :: "block_kind \<Rightarrow> string" where
  "block_kind_label Paragraph = ''paragraph''"
| "block_kind_label ListItem = ''list-item''"
| "block_kind_label TableCell = ''table-cell''"
| "block_kind_label OtherBlock = ''other''"

text \<open>The ellipsis character in UTF-8.\<close>

abbreviation ellipsis :: string where "ellipsis \<equiv> map char_of [226 :: nat, 128, 166]"

definition truncate_chars :: "string \<Rightarrow> nat \<Rightarrow> string" where
  "truncate_chars txt limit =
     (if char_count txt \<le> limit then txt else take_chars limit txt @ ellipsis)"

abbreviation outline_text_limit :: nat where "outline_text_limit \<equiv> 160"

definition build_article_outline :: "parsoid_block list \<Rightarrow> block_outline list" where
  "build_article_outline blocks =
     map (\<lambda>b. \<lparr>bo_block_ordinal = pb_ordinal b, bo_kind = block_kind_label (pb_kind b),
                bo_text = truncate_chars (pb_text b) outline_text_limit,
                bo_ref_ids = pb_ref_ids b, bo_findings = []\<rparr>) blocks"

fun place_finding :: "finding_marker \<Rightarrow> block_outline list \<Rightarrow> block_outline list option" where
  "place_finding m [] = None"
| "place_finding m (b # bs) =
     (if fm_ref_id m \<in> set (bo_ref_ids b) then Some (b\<lparr>bo_findings := bo_findings b @ [m]\<rparr> # bs)
      else map_option ((#) b) (place_finding m bs))"

fun annotate_outline ::
  "block_outline list \<Rightarrow> finding_marker list \<Rightarrow> block_outline list \<times> finding_marker list" where
  "annotate_outline outl [] = (outl, [])"
| "annotate_outline outl (m # ms) =
     (case place_finding m outl of
        Some outl' \<Rightarrow> annotate_outline outl' ms
      | None \<Rightarrow> (let (outl', unanchored) = annotate_outline outl ms in (outl', m # unanchored)))"

subsection \<open>What the agent is told\<close>

datatype review_poll_status = PollWaiting | PollFeedback | PollEnded | PollMissing

definition open_next_step :: "string \<Rightarrow> nat \<Rightarrow> string" where
  "open_next_step title findings =
     (let overlay = (if findings = 0 then []
          else '' The outline carries '' @ show_nat findings @ '' verification finding(s) anchored to blocks.'')
      in ''Session open on \"'' @ title @ ''\".'' @ overlay @
         '' Ask the operator to review it in the SP42 browser shell, then run `sp42-cli review poll` and wait for their feedback before responding further.'')"

fun poll_next_step :: "review_feedback_take \<Rightarrow> string \<Rightarrow> string" where
  "poll_next_step TakeWaiting title =
     ''No feedback on \"'' @ title @ ''\" yet. Poll again (the wait is safe to re-run; queued feedback is never lost).''"
| "poll_next_step (TakeFeedback ps ended by) title =
     (if ended
      then ''Final feedback batch: the operator ended the review of \"'' @ title @
           ''\". Apply the feedback and deliver remaining updates in chat; do not reopen unless asked.''
      else ''Apply the operator's feedback on \"'' @ title @
           ''\", then poll again with an agent reply summarizing what changed.'')"
| "poll_next_step (TakeEnded Operator) title =
     ''The operator ended the review of \"'' @ title @
     ''\". Stop polling and do not reopen uninvited; deliver any remaining updates in chat.''"
| "poll_next_step (TakeEnded Agent) title =
     ''Review of \"'' @ title @
     ''\" was ended by the agent. Stop polling; open a new session if further review is needed.''"

fun poll_status :: "review_feedback_take \<Rightarrow> review_poll_status" where
  "poll_status TakeWaiting = PollWaiting"
| "poll_status (TakeFeedback _ _ _) = PollFeedback"
| "poll_status (TakeEnded _) = PollEnded"

subsection \<open>Histories of a session\<close>

datatype session_step =
    QueuePrompts "review_prompt list" bool int
  | TakeFeedbackAt int
  | AgentReply string int
  | EndSession review_ended_by int
  | Reopen nat bool int
  | AttachFindings nat "finding_marker list" int

text \<open>What a history did: ghost logs beside the session.\<close>

record session_log =
  lg_accepted :: "review_prompt list"
  lg_delivered :: "review_prompt list"
  lg_attached_rid :: "nat option"
  lg_session :: review_session

fun session_step_log :: "session_step \<Rightarrow> session_log \<Rightarrow> session_log" where
  "session_step_log (QueuePrompts ps end_session now) lg =
     (case queue_prompts ps end_session now (lg_session lg) of
        (Inl _, s) \<Rightarrow> lg\<lparr>lg_session := s\<rparr>
      | (Inr _, s) \<Rightarrow> lg\<lparr>lg_accepted := lg_accepted lg @ ps, lg_session := s\<rparr>)"
| "session_step_log (TakeFeedbackAt now) lg =
     (case take_feedback now (lg_session lg) of
        (TakeFeedback ps _ _, s) \<Rightarrow> lg\<lparr>lg_delivered := lg_delivered lg @ ps, lg_session := s\<rparr>
      | (_, s) \<Rightarrow> lg\<lparr>lg_session := s\<rparr>)"
| "session_step_log (AgentReply txt now) lg = lg\<lparr>lg_session := agent_reply txt now (lg_session lg)\<rparr>"
| "session_step_log (EndSession by now) lg = lg\<lparr>lg_session := end_by by now (lg_session lg)\<rparr>"
| "session_step_log (Reopen rid requested now) lg =
     (case gate_reopen requested (lg_session lg) of
        Inl _ \<Rightarrow> lg
      | Inr _ \<Rightarrow> lg\<lparr>lg_session := resume rid now (lg_session lg)\<rparr>)"
| "session_step_log (AttachFindings rid fs now) lg =
     (case attach_findings rid fs now (lg_session lg) of
        (Inl _, s) \<Rightarrow> lg\<lparr>lg_session := s\<rparr>
      | (Inr _, s) \<Rightarrow> lg\<lparr>lg_attached_rid := Some rid, lg_session := s\<rparr>)"

definition start_log :: "review_session \<Rightarrow> session_log" where
  "start_log s = \<lparr>lg_accepted = [], lg_delivered = [], lg_attached_rid = None, lg_session = s\<rparr>"

definition session_history :: "session_step list \<Rightarrow> review_session \<Rightarrow> session_log" where
  "session_history steps s = fold session_step_log steps (start_log s)"

text \<open>The status is determined by who ended the session and by the queue.\<close>

definition status_ok :: "review_session \<Rightarrow> bool" where
  "status_ok s \<longleftrightarrow>
     rv_status s = (if rv_ended_by s \<noteq> None then RS_Ended
                    else if rv_queued_prompts s = [] then RS_Open else RS_Feedback)"

definition log_ok :: "session_log \<Rightarrow> bool" where
  "log_ok lg \<longleftrightarrow>
     status_ok (lg_session lg) \<and>
     lg_accepted lg = lg_delivered lg @ rv_queued_prompts (lg_session lg) \<and>
     (rv_findings (lg_session lg) \<noteq> [] \<longrightarrow> lg_attached_rid lg = Some (rv_rev_id (lg_session lg)))"

lemmas session_ops = queue_prompts_def take_feedback_def agent_reply_def end_by_def gate_reopen_def
  resume_def attach_findings_def

lemma log_ok_step: "log_ok lg \<Longrightarrow> log_ok (session_step_log st lg)"
  by (cases st)
    (auto simp: log_ok_def status_ok_def session_ops Let_def split: option.splits if_splits)

interpretation session: step_invariant session_step_log "\<lambda>_. True" log_ok
  by unfold_locales (simp add: log_ok_step)

lemma history_ok: "log_ok (session_history steps (open_session wiki title rid now))"
  unfolding session_history_def
  by (rule session.run_inv) (simp_all add: log_ok_def status_ok_def start_log_def open_session_def list_all_iff)

text \<open>
  C1. Exactly-once, in-order delivery: over any history of a session, the prompts accepted from the
  operator are those delivered to the agent followed by those still queued, so none is lost, repeated
  or reordered, and the status tells the truth: Ended exactly when someone ended it, Feedback exactly
  when a live session has queued prompts.
\<close>

theorem prompts_delivered_exactly_once:
  "let lg = session_history steps (open_session wiki title rid now); s = lg_session lg
   in lg_accepted lg = lg_delivered lg @ rv_queued_prompts s \<and>
      (rv_status s = RS_Ended \<longleftrightarrow> rv_ended_by s \<noteq> None) \<and>
      (rv_status s = RS_Feedback \<longleftrightarrow> rv_ended_by s = None \<and> rv_queued_prompts s \<noteq> [])"
  using history_ok [of steps wiki title rid now] by (auto simp: log_ok_def status_ok_def Let_def)

text \<open>
  C14. Findings are pinned to a revision: whenever a session shows findings, the last report that was
  attached was produced against the very revision the session is on now; moving the session to another
  revision clears them.
\<close>

theorem findings_match_revision:
  assumes "rv_findings (lg_session (session_history steps (open_session wiki title rid now))) \<noteq> []"
  shows "lg_attached_rid (session_history steps (open_session wiki title rid now)) =
    Some (rv_rev_id (lg_session (session_history steps (open_session wiki title rid now))))"
  using history_ok [of steps wiki title rid now] assms by (simp add: log_ok_def)

theorem findings_match_revision_witness:
  "let m = \<lparr>fm_ref_id = ''r1'', fm_verdict = ''supported'', fm_claim = ''c'', fm_detail = None\<rparr>;
       steps = [AttachFindings 7 [m] 1, Reopen 8 False 2, AttachFindings 7 [m] 3, AttachFindings 8 [m] 4]
   in lg_attached_rid (session_history steps (open_session ''frwiki'' ''Chat'' 7 0)) = Some 8"
  unfolding Let_def
  by (subst findings_match_revision)
    (simp_all add: session_history_def start_log_def open_session_def session_ops)

subsection \<open>Ending and reopening\<close>

fun uninvited :: "session_step \<Rightarrow> bool" where
  "uninvited (Reopen _ requested _) = (\<not> requested)"
| "uninvited _ = True"

definition operator_ended :: "session_log \<Rightarrow> bool" where
  "operator_ended lg \<longleftrightarrow> rv_status (lg_session lg) = RS_Ended \<and> rv_ended_by (lg_session lg) = Some Operator"

lemma operator_ended_step:
  "operator_ended lg \<Longrightarrow> uninvited st \<Longrightarrow>
     operator_ended (session_step_log st lg) \<and> lg_accepted (session_step_log st lg) = lg_accepted lg"
  by (cases st) (auto simp: operator_ended_def session_ops Let_def split: option.splits if_splits)

text \<open>
  C13. The operator's end holds: once the operator has ended a session, no sequence of operations short
  of an explicitly requested reopening makes it live again or gets another prompt into it.
\<close>

theorem operator_end_is_final:
  assumes "operator_ended (session_history before s)" and "list_all uninvited steps"
  shows "operator_ended (session_history (before @ steps) s) \<and>
    lg_accepted (session_history (before @ steps) s) = lg_accepted (session_history before s)"
proof -
  have "operator_ended lg \<Longrightarrow> operator_ended (fold session_step_log steps lg) \<and>
      lg_accepted (fold session_step_log steps lg) = lg_accepted lg" for lg
    using assms(2) operator_ended_step by (induction steps arbitrary: lg) auto
  with assms(1) show ?thesis by (simp add: session_history_def)
qed

theorem operator_end_is_final_witness:
  "let p = \<lparr>pr_kind = PK_Message, pr_prompt = ''fix'', pr_anchor = None\<rparr>;
       before = [QueuePrompts [p] True 1];
       steps = [TakeFeedbackAt 2, Reopen 9 False 3, QueuePrompts [p, p] False 4, EndSession Agent 5]
   in lg_accepted (session_history (before @ steps) (open_session ''frwiki'' ''Chat'' 7 0)) = [p]"
proof -
  define p where "p = \<lparr>pr_kind = PK_Message, pr_prompt = ''fix'', pr_anchor = None\<rparr>"
  have "operator_ended (session_history [QueuePrompts [p] True 1] (open_session ''frwiki'' ''Chat'' 7 0))"
    "lg_accepted (session_history [QueuePrompts [p] True 1] (open_session ''frwiki'' ''Chat'' 7 0)) = [p]"
    by (simp_all add: operator_ended_def session_history_def start_log_def open_session_def session_ops)
  from operator_end_is_final [OF this(1),
      of "[TakeFeedbackAt 2, Reopen 9 False 3, QueuePrompts [p, p] False 4, EndSession Agent 5]"] this(2)
  show ?thesis by (simp add: Let_def p_def)
qed

text \<open>
  Wrong attribution in the final batch: when the agent ends a session with prompts still queued,
  the next poll delivers them marked as ended by the agent, but tells the agent that the operator ended
  the review and not to reopen it unless asked, although the reopen gate would let it through.
\<close>

theorem agent_end_reported_as_operator:
  assumes "rv_status s \<noteq> RS_Ended" and "rv_queued_prompts s \<noteq> []"
  shows "\<exists>s'. take_feedback t2 (end_by Agent t1 s) = (TakeFeedback (rv_queued_prompts s) True (Some Agent), s') \<and>
    poll_next_step (TakeFeedback (rv_queued_prompts s) True (Some Agent)) title =
      ''Final feedback batch: the operator ended the review of \"'' @ title @
      ''\". Apply the feedback and deliver remaining updates in chat; do not reopen unless asked.'' \<and>
    gate_reopen False s' = Inr ()"
  using assms by (simp add: take_feedback_def end_by_def gate_reopen_def Let_def)

theorem agent_end_reported_as_operator_witness:
  "\<exists>s'. take_feedback 3 (end_by Agent 2 (snd (queue_prompts [\<lparr>pr_kind = PK_Text, pr_prompt = ''x'', pr_anchor = None\<rparr>]
      False 1 (open_session ''frwiki'' ''Chat'' 7 0)))) =
      (TakeFeedback [\<lparr>pr_kind = PK_Text, pr_prompt = ''x'', pr_anchor = None\<rparr>] True (Some Agent), s')"
  using agent_end_reported_as_operator [of "snd (queue_prompts [\<lparr>pr_kind = PK_Text, pr_prompt = ''x'', pr_anchor = None\<rparr>]
      False 1 (open_session ''frwiki'' ''Chat'' 7 0))" 3 2]
  by (auto simp: queue_prompts_def open_session_def)

subsection \<open>Placing findings\<close>

fun home_block :: "string list list \<Rightarrow> string \<Rightarrow> nat option" where
  "home_block [] ref = None"
| "home_block (refs # rest) ref =
     (if ref \<in> set refs then Some 0 else map_option Suc (home_block rest ref))"

lemma home_block_bound: "home_block refs r = Some i \<Longrightarrow> i < length refs"
  by (induction refs arbitrary: i) (auto split: if_splits)

lemma home_block_first:
  "home_block refs r = Some i \<longleftrightarrow> i < length refs \<and> r \<in> set (refs ! i) \<and> (\<forall>j<i. r \<notin> set (refs ! j))"
proof (induction refs arbitrary: i)
  case (Cons a refs)
  show ?case
  proof (cases i)
    case 0
    then show ?thesis by auto
  next
    case (Suc k)
    have all: "(\<forall>j<Suc k. r \<notin> set ((a # refs) ! j)) \<longleftrightarrow> r \<notin> set a \<and> (\<forall>j<k. r \<notin> set (refs ! j))"
      by (auto simp: All_less_Suc2)
    show ?thesis
      using Cons.IH [of k] by (auto simp: Suc all)
  qed
qed simp

lemma home_block_None: "home_block refs r = None \<longleftrightarrow> (\<forall>rs\<in>set refs. r \<notin> set rs)"
  by (induction refs) auto

lemma place_finding_home:
  "place_finding m bs = (case home_block (map bo_ref_ids bs) (fm_ref_id m) of
     None \<Rightarrow> None
   | Some i \<Rightarrow> Some (bs[i := (bs ! i)\<lparr>bo_findings := bo_findings (bs ! i) @ [m]\<rparr>]))"
  by (induction bs) (auto split: option.splits)

lemma annotate_places:
  "annotate_outline bs ms =
     (map (\<lambda>i. (bs ! i)\<lparr>bo_findings := bo_findings (bs ! i) @
         filter (\<lambda>m. home_block (map bo_ref_ids bs) (fm_ref_id m) = Some i) ms\<rparr>) [0..<length bs],
      filter (\<lambda>m. home_block (map bo_ref_ids bs) (fm_ref_id m) = None) ms)"
proof (induction bs ms rule: annotate_outline.induct)
  case (1 bs)
  then show ?case by (simp add: map_nth)
next
  case (2 bs m ms)
  let ?home = "home_block (map bo_ref_ids bs) (fm_ref_id m)"
  show ?case
  proof (cases ?home)
    case None
    then show ?thesis
      using 2 by (simp add: place_finding_home)
  next
    case (Some i)
    then have i: "i < length bs" using home_block_bound by fastforce
    let ?bs = "bs[i := (bs ! i)\<lparr>bo_findings := bo_findings (bs ! i) @ [m]\<rparr>]"
    have refs: "map bo_ref_ids ?bs = map bo_ref_ids bs"
      using i by (auto simp: list_eq_iff_nth_eq nth_list_update)
    show ?thesis
      using 2(2) [of ?bs] Some i
      by (auto simp: place_finding_home refs nth_list_update)
  qed
qed

text \<open>
  Every finding is shown exactly once: on the first block of the article that carries its
  reference, in the order of the report, or among the unanchored ones when no block does; the blocks
  themselves keep their order, kind, text and references.
\<close>

theorem findings_placed_once:
  "let refs = map pb_ref_ids blocks; (outl, unanchored) = annotate_outline (build_article_outline blocks) fs
   in length outl = length blocks \<and>
      (\<forall>i<length blocks.
         bo_ref_ids (outl ! i) = pb_ref_ids (blocks ! i) \<and>
         bo_findings (outl ! i) = filter (\<lambda>m. fm_ref_id m \<in> set (refs ! i) \<and>
           (\<forall>j<i. fm_ref_id m \<notin> set (refs ! j))) fs) \<and>
      unanchored = filter (\<lambda>m. \<forall>r\<in>set refs. fm_ref_id m \<notin> set r) fs"
proof -
  have refs: "map bo_ref_ids (build_article_outline blocks) = map pb_ref_ids blocks"
    and len: "length (build_article_outline blocks) = length blocks"
    by (simp_all add: build_article_outline_def)
  have "bo_findings (build_article_outline blocks ! i) = []" if "i < length blocks" for i
    using that by (simp add: build_article_outline_def)
  then show ?thesis
    unfolding annotate_places refs len Let_def
    by (auto simp: home_block_first home_block_None build_article_outline_def intro!: filter_cong)
qed

theorem findings_placed_once_witness:
  "let b = (\<lambda>n refs. \<lparr>pb_text = ''t'', pb_ref_ids = refs, pb_kind = Paragraph, pb_ordinal = n\<rparr>);
       m = (\<lambda>r. \<lparr>fm_ref_id = r, fm_verdict = ''v'', fm_claim = ''c'', fm_detail = None\<rparr>)
   in snd (annotate_outline (build_article_outline [b 0 [''r1''], b 1 [''r1'', ''r2'']]) [m ''r9'', m ''r1'']) = [m ''r9'']"
  using findings_placed_once [where blocks =
      "[\<lparr>pb_text = ''t'', pb_ref_ids = [''r1''], pb_kind = Paragraph, pb_ordinal = 0\<rparr>,
        \<lparr>pb_text = ''t'', pb_ref_ids = [''r1'', ''r2''], pb_kind = Paragraph, pb_ordinal = 1\<rparr>]" and fs =
      "[\<lparr>fm_ref_id = ''r9'', fm_verdict = ''v'', fm_claim = ''c'', fm_detail = None\<rparr>,
        \<lparr>fm_ref_id = ''r1'', fm_verdict = ''v'', fm_claim = ''c'', fm_detail = None\<rparr>]"]
  by (simp add: Let_def split_def)

end
