(* ===== verification/Review_Routes.thy ===== *)
theory Review_Routes
  imports BTree_Map Review_Session
begin

section \<open>The review routes of the server\<close>

text \<open>
  \<open>crates/sp42-server/src/review_routes.rs\<close>: the store of sessions keyed by wiki and page, and the
  handlers behind the review endpoints. Each locked section is one step on the store; a poll is a
  first drain, a wait and a second drain, an opening is a gate check, remote lookups and a commit, and
  other requests may run in between. The session and CSRF check, the target parser, the revision
  lookup and the block extraction are results handed to the handlers; the snapshots a handler
  publishes to the coordination room are returned with its answer.
\<close>

type_synonym review_store = "(string \<times> review_session) list"

datatype route_error =
    Unauthorized
  | MissingSession string string
  | OperatorEnded string
  | QueueAfterEnd string review_ended_by
  | RevisionMismatch nat nat
  | Upstream nat string

fun error_status :: "route_error \<Rightarrow> nat" where
  "error_status Unauthorized = 401"
| "error_status (MissingSession _ _) = 404"
| "error_status (OperatorEnded _) = 409"
| "error_status (QueueAfterEnd _ _) = 409"
| "error_status (RevisionMismatch _ _) = 409"
| "error_status (Upstream status _) = status"

abbreviation review_contract_version :: nat where "review_contract_version \<equiv> 1"
abbreviation poll_wait_default_ms :: nat where "poll_wait_default_ms \<equiv> 25000"
abbreviation poll_wait_max_ms :: nat where "poll_wait_max_ms \<equiv> 55000"

subsection \<open>Requests and responses\<close>

record review_open_request =
  oreq_wiki_id :: string
  oreq_target :: string
  oreq_rev_id :: nat
  oreq_reopen :: bool

record review_open_response =
  ores_contract_version :: nat
  ores_session :: review_snapshot
  ores_outline :: "block_outline list"
  ores_unanchored :: "finding_marker list"
  ores_chat :: "review_chat_entry list"
  ores_next_step :: string

record review_queue_request =
  qreq_wiki_id :: string
  qreq_title :: string
  qreq_prompts :: "review_prompt list"
  qreq_end_session :: bool

record review_findings_request =
  freq_wiki_id :: string
  freq_title :: string
  freq_rev_id :: nat
  freq_findings :: "finding_marker list"

record review_poll_request =
  preq_wiki_id :: string
  preq_title :: string
  preq_wait_ms :: "nat option"

record review_poll_response =
  pres_contract_version :: nat
  pres_status :: review_poll_status
  pres_prompts :: "review_prompt list"
  pres_session_ended :: bool
  pres_ended_by :: "review_ended_by option"
  pres_next_step :: string

subsection \<open>Opening\<close>

definition reopen_gate_error :: "review_session \<Rightarrow> bool \<Rightarrow> string \<Rightarrow> route_error + unit" where
  "reopen_gate_error s reopen_requested title =
     (case gate_reopen reopen_requested s of
        Inl _ \<Rightarrow> Inl (OperatorEnded title)
      | Inr _ \<Rightarrow> Inr ())"

definition open_or_resume ::
  "review_session option \<Rightarrow> bool \<Rightarrow> string \<Rightarrow> nat \<Rightarrow> int \<Rightarrow> route_error + review_session option" where
  "open_or_resume entry reopen_requested title rid now =
     (case entry of
        None \<Rightarrow> Inr None
      | Some s \<Rightarrow>
          (case reopen_gate_error s reopen_requested title of
             Inl e \<Rightarrow> Inl e
           | Inr _ \<Rightarrow> Inr (Some (resume rid now s))))"

definition resolve_open_target ::
  "route_error + unit \<Rightarrow> (string \<Rightarrow> string \<times> nat) \<Rightarrow> (string \<Rightarrow> route_error + nat) \<Rightarrow>
     (string \<Rightarrow> nat \<Rightarrow> route_error + parsoid_block list) \<Rightarrow> review_open_request \<Rightarrow>
     route_error + (string \<times> nat \<times> block_outline list)" where
  "resolve_open_target wiki_config parse_page_target latest_revid extract_blocks req =
     (case wiki_config of
        Inl e \<Rightarrow> Inl e
      | Inr _ \<Rightarrow>
          (let (title, target_rid) = parse_page_target (oreq_target req);
               rid = (if oreq_rev_id req = 0 then target_rid else oreq_rev_id req)
           in (case (if rid = 0 then latest_revid title else Inr rid) of
                 Inl e \<Rightarrow> Inl e
               | Inr rid' \<Rightarrow>
                   (case extract_blocks title rid' of
                      Inl e \<Rightarrow> Inl e
                    | Inr blocks \<Rightarrow> Inr (title, rid', build_article_outline blocks)))))"

definition open_precheck ::
  "route_error + unit \<Rightarrow> (string \<Rightarrow> string \<times> nat) \<Rightarrow> review_open_request \<Rightarrow> review_store \<Rightarrow> route_error + unit" where
  "open_precheck auth parse_page_target req store =
     (case auth of
        Inl e \<Rightarrow> Inl e
      | Inr _ \<Rightarrow>
          (let parsed_title = fst (parse_page_target (oreq_target req))
           in (case map_of store (canonical_key (oreq_wiki_id req) parsed_title) of
                 None \<Rightarrow> Inr ()
               | Some s \<Rightarrow> reopen_gate_error s (oreq_reopen req) parsed_title)))"

definition open_commit ::
  "review_open_request \<Rightarrow> string \<times> nat \<times> block_outline list \<Rightarrow> int \<Rightarrow> review_store \<Rightarrow>
     (route_error + review_open_response) \<times> review_snapshot list \<times> review_store" where
  "open_commit req resolved now store =
     (let (title, rid, outl) = resolved; key = canonical_key (oreq_wiki_id req) title
      in (case open_or_resume (map_of store key) (oreq_reopen req) title rid now of
            Inl e \<Rightarrow> (Inl e, [], store)
          | Inr resumed \<Rightarrow>
              (let s = (case resumed of Some s \<Rightarrow> s | None \<Rightarrow> open_session (oreq_wiki_id req) title rid now);
                   snap = session_snapshot s;
                   (outl', unanchored) = annotate_outline outl (rv_findings s)
               in (Inr \<lparr>ores_contract_version = review_contract_version, ores_session = snap,
                        ores_outline = outl', ores_unanchored = unanchored, ores_chat = rv_chat s,
                        ores_next_step = open_next_step (rn_title snap) (length (rv_findings s))\<rparr>,
                   [snap], AList.update key s store))))"

subsection \<open>Queueing, findings, replies, ending\<close>

definition post_review_prompts ::
  "route_error + unit \<Rightarrow> review_queue_request \<Rightarrow> int \<Rightarrow> review_store \<Rightarrow>
     (route_error + review_snapshot \<times> nat) \<times> review_snapshot list \<times> review_store" where
  "post_review_prompts auth req now store =
     (case auth of
        Inl e \<Rightarrow> (Inl e, [], store)
      | Inr _ \<Rightarrow>
          (let key = canonical_key (qreq_wiki_id req) (qreq_title req)
           in (case map_of store key of
                 None \<Rightarrow> (Inl (MissingSession (qreq_wiki_id req) (qreq_title req)), [], store)
               | Some s \<Rightarrow>
                   (case queue_prompts (qreq_prompts req) (qreq_end_session req) now s of
                      (Inl (SessionEnded by), _) \<Rightarrow> (Inl (QueueAfterEnd (qreq_title req) by), [], store)
                    | (Inr _, s') \<Rightarrow>
                        (Inr (session_snapshot s', length (qreq_prompts req)), [session_snapshot s'],
                         AList.update key s' store)))))"

definition post_review_findings ::
  "route_error + unit \<Rightarrow> review_findings_request \<Rightarrow> int \<Rightarrow> review_store \<Rightarrow>
     (route_error + review_snapshot \<times> nat) \<times> review_snapshot list \<times> review_store" where
  "post_review_findings auth req now store =
     (case auth of
        Inl e \<Rightarrow> (Inl e, [], store)
      | Inr _ \<Rightarrow>
          (let key = canonical_key (freq_wiki_id req) (freq_title req)
           in (case map_of store key of
                 None \<Rightarrow> (Inl (MissingSession (freq_wiki_id req) (freq_title req)), [], store)
               | Some s \<Rightarrow>
                   (case attach_findings (freq_rev_id req) (freq_findings req) now s of
                      (Inl (FindingsRevisionMismatch session_rid), _) \<Rightarrow>
                        (Inl (RevisionMismatch (freq_rev_id req) session_rid), [], store)
                    | (Inr attached, s') \<Rightarrow>
                        (Inr (session_snapshot s', attached), [session_snapshot s'],
                         AList.update key s' store)))))"

definition post_review_reply ::
  "route_error + unit \<Rightarrow> string \<Rightarrow> string \<Rightarrow> string \<Rightarrow> int \<Rightarrow> review_store \<Rightarrow>
     (route_error + review_snapshot) \<times> review_snapshot list \<times> review_store" where
  "post_review_reply auth wiki title txt now store =
     (case auth of
        Inl e \<Rightarrow> (Inl e, [], store)
      | Inr _ \<Rightarrow>
          (case map_of store (canonical_key wiki title) of
             None \<Rightarrow> (Inl (MissingSession wiki title), [], store)
           | Some s \<Rightarrow>
               (let s' = agent_reply txt now s
                in (Inr (session_snapshot s'), [session_snapshot s'],
                    AList.update (canonical_key wiki title) s' store))))"

definition post_review_end ::
  "route_error + unit \<Rightarrow> string \<Rightarrow> string \<Rightarrow> int \<Rightarrow> review_store \<Rightarrow>
     (route_error + review_snapshot) \<times> review_snapshot list \<times> review_store" where
  "post_review_end auth wiki title now store =
     (case auth of
        Inl e \<Rightarrow> (Inl e, [], store)
      | Inr _ \<Rightarrow>
          (case map_of store (canonical_key wiki title) of
             None \<Rightarrow> (Inl (MissingSession wiki title), [], store)
           | Some s \<Rightarrow>
               (let s' = end_by Agent now s
                in (Inr (session_snapshot s'), [session_snapshot s'],
                    AList.update (canonical_key wiki title) s' store))))"

definition get_review_sessions :: "review_store \<Rightarrow> review_snapshot list" where
  "get_review_sessions store =
     sort_key (\<lambda>s. - rn_updated_at_ms s) (map (\<lambda>(_, s). session_snapshot s) store)"

subsection \<open>Polling\<close>

definition drain_feedback ::
  "string \<Rightarrow> int \<Rightarrow> review_store \<Rightarrow> (review_feedback_take \<times> string) option \<times> review_store" where
  "drain_feedback key now store =
     (case map_of store key of
        None \<Rightarrow> (None, store)
      | Some s \<Rightarrow>
          (let (taken, s') = take_feedback now s
           in (Some (taken, rv_title s'), AList.update key s' store)))"

definition poll_response :: "review_feedback_take \<Rightarrow> string \<Rightarrow> review_poll_response" where
  "poll_response taken title =
     (let (prompts, ended, by) =
        (case taken of
           TakeWaiting \<Rightarrow> ([], False, None)
         | TakeFeedback ps ended by \<Rightarrow> (ps, ended, by)
         | TakeEnded by \<Rightarrow> ([], True, Some by))
      in \<lparr>pres_contract_version = review_contract_version, pres_status = poll_status taken,
          pres_prompts = prompts, pres_session_ended = ended, pres_ended_by = by,
          pres_next_step = poll_next_step taken title\<rparr>)"

definition missing_poll_response :: review_poll_response where
  "missing_poll_response =
     \<lparr>pres_contract_version = review_contract_version, pres_status = PollMissing, pres_prompts = [],
      pres_session_ended = False, pres_ended_by = None,
      pres_next_step = ''No review session is open for this page. Run `sp42-cli review open` first.''\<rparr>"

definition poll_wait_ms :: "nat option \<Rightarrow> nat" where
  "poll_wait_ms requested =
     (case requested of None \<Rightarrow> poll_wait_default_ms | Some ms \<Rightarrow> min ms poll_wait_max_ms)"

text \<open>The first drain: an answer, or the title to wait with for the given time.\<close>

definition poll_begin ::
  "route_error + unit \<Rightarrow> review_poll_request \<Rightarrow> int \<Rightarrow> review_store \<Rightarrow>
     (route_error + review_poll_response + string \<times> nat) \<times> review_store" where
  "poll_begin auth req now store =
     (case auth of
        Inl e \<Rightarrow> (Inl e, store)
      | Inr _ \<Rightarrow>
          (case drain_feedback (canonical_key (preq_wiki_id req) (preq_title req)) now store of
             (None, store') \<Rightarrow> (Inr (Inl missing_poll_response), store')
           | (Some (taken, title), store') \<Rightarrow>
               (if taken = TakeWaiting \<and> 0 < poll_wait_ms (preq_wait_ms req)
                then (Inr (Inr (title, poll_wait_ms (preq_wait_ms req))), store')
                else (Inr (Inl (poll_response taken title)), store'))))"

text \<open>The second drain, after the wait; the answer carries the title of the first.\<close>

definition poll_end :: "review_poll_request \<Rightarrow> string \<Rightarrow> int \<Rightarrow> review_store \<Rightarrow> review_poll_response \<times> review_store" where
  "poll_end req title now store =
     (case drain_feedback (canonical_key (preq_wiki_id req) (preq_title req)) now store of
        (None, store') \<Rightarrow> (missing_poll_response, store')
      | (Some (taken, _), store') \<Rightarrow> (poll_response taken title, store'))"

text \<open>A delivered batch is signalled with the state of the session at that later moment.\<close>

definition poll_signal :: "review_poll_request \<Rightarrow> review_poll_response \<Rightarrow> review_store \<Rightarrow> review_snapshot list" where
  "poll_signal req resp store =
     (if pres_status resp = PollFeedback
      then (case map_of store (canonical_key (preq_wiki_id req) (preq_title req)) of
              None \<Rightarrow> [] | Some s \<Rightarrow> [session_snapshot s])
      else [])"

subsection \<open>The store as a family of sessions\<close>

text \<open>The locked sections of the handlers, for requests that passed the session check.\<close>

datatype route_step =
    OpenCommit review_open_request "string \<times> nat \<times> block_outline list" int
  | Prompts review_queue_request int
  | Findings review_findings_request int
  | Reply string string string int
  | EndIt string string int
  | Drain string string int

fun route_apply :: "route_step \<Rightarrow> review_store \<Rightarrow> review_store" where
  "route_apply (OpenCommit req resolved now) store = snd (snd (open_commit req resolved now store))"
| "route_apply (Prompts req now) store = snd (snd (post_review_prompts (Inr ()) req now store))"
| "route_apply (Findings req now) store = snd (snd (post_review_findings (Inr ()) req now store))"
| "route_apply (Reply wiki title txt now) store = snd (snd (post_review_reply (Inr ()) wiki title txt now store))"
| "route_apply (EndIt wiki title now) store = snd (snd (post_review_end (Inr ()) wiki title now store))"
| "route_apply (Drain wiki title now) store = snd (drain_feedback (canonical_key wiki title) now store)"

fun step_key :: "route_step \<Rightarrow> string" where
  "step_key (OpenCommit req resolved now) = canonical_key (oreq_wiki_id req) (fst resolved)"
| "step_key (Prompts req now) = canonical_key (qreq_wiki_id req) (qreq_title req)"
| "step_key (Findings req now) = canonical_key (freq_wiki_id req) (freq_title req)"
| "step_key (Reply wiki title txt now) = canonical_key wiki title"
| "step_key (EndIt wiki title now) = canonical_key wiki title"
| "step_key (Drain wiki title now) = canonical_key wiki title"

fun session_step_of :: "route_step \<Rightarrow> session_step" where
  "session_step_of (OpenCommit req resolved now) = Reopen (fst (snd resolved)) (oreq_reopen req) now"
| "session_step_of (Prompts req now) = QueuePrompts (qreq_prompts req) (qreq_end_session req) now"
| "session_step_of (Findings req now) = AttachFindings (freq_rev_id req) (freq_findings req) now"
| "session_step_of (Reply wiki title txt now) = AgentReply txt now"
| "session_step_of (EndIt wiki title now) = EndSession Agent now"
| "session_step_of (Drain wiki title now) = TakeFeedbackAt now"

fun new_session_of :: "route_step \<Rightarrow> review_session option" where
  "new_session_of (OpenCommit req resolved now) =
     Some (open_session (oreq_wiki_id req) (fst resolved) (fst (snd resolved)) now)"
| "new_session_of _ = None"

definition next_session :: "route_step \<Rightarrow> review_session option \<Rightarrow> review_session option" where
  "next_session st entry =
     (case entry of
        None \<Rightarrow> new_session_of st
      | Some s \<Rightarrow> Some (lg_session (session_step_log (session_step_of st) (start_log s))))"

lemma update_same: "map_of m k = Some v \<Longrightarrow> (map_of m)(k \<mapsto> v) = map_of m"
  by (auto simp: fun_eq_iff)

text \<open>
  C8. The routes refine independent sessions: in every state of the store, a handler performs exactly
  one operation of the session machine on the session its request names (opening creates it when there
  is none, every other request for a missing session changes nothing), and leaves all others untouched.
\<close>

theorem routes_refine_sessions:
  "map_of (route_apply st store) =
     (map_of store)(step_key st := next_session st (map_of store (step_key st)))"
proof (cases st)
  case (OpenCommit req resolved now)
  then show ?thesis
    by (auto simp: open_commit_def open_or_resume_def reopen_gate_error_def next_session_def start_log_def
        update_conv' Let_def split_def fun_eq_iff split: option.splits sum.splits)
next
  case (Prompts req now)
  show ?thesis
  proof (cases "map_of store (step_key st)")
    case (Some s)
    then show ?thesis
      using Prompts by (auto simp: post_review_prompts_def next_session_def start_log_def queue_prompts_def
          update_conv' Let_def fun_eq_iff)
  qed (use Prompts in \<open>auto simp: post_review_prompts_def next_session_def Let_def\<close>)
next
  case (Findings req now)
  show ?thesis
  proof (cases "map_of store (step_key st)")
    case (Some s)
    then show ?thesis
      using Findings by (auto simp: post_review_findings_def next_session_def start_log_def attach_findings_def
          update_conv' Let_def fun_eq_iff)
  qed (use Findings in \<open>auto simp: post_review_findings_def next_session_def Let_def\<close>)
next
  case (Drain wiki title now)
  then show ?thesis
    by (auto simp: drain_feedback_def next_session_def start_log_def update_conv' Let_def split_def fun_eq_iff
        split: option.splits review_feedback_take.splits)
qed (auto simp: post_review_reply_def post_review_end_def next_session_def start_log_def update_conv'
      Let_def fun_eq_iff split: option.splits)

subsection \<open>Session keys\<close>

lemma normalize_idem: "normalize_title_spacing (normalize_title_spacing t) = normalize_title_spacing t"
proof -
  let ?spaced = "map (\<lambda>c. if c = CHR ''_'' then CHR '' '' else c) t"
  have "CHR ''_'' \<notin> set (normalize_title_spacing t)"
  proof
    assume "CHR ''_'' \<in> set (normalize_title_spacing t)"
    then obtain w where "w \<in> set (str_split_whitespace ?spaced)" "CHR ''_'' \<in> set w"
      using set_str_join [of "'' ''" "str_split_whitespace ?spaced"]
      by (auto simp: normalize_title_spacing_def)
    then have "CHR ''_'' \<in> set ?spaced" using split_whitespace_words by blast
    then show False by (auto split: if_splits)
  qed
  then have "map (\<lambda>c. if c = CHR ''_'' then CHR '' '' else c) (normalize_title_spacing t) = normalize_title_spacing t"
    by (auto intro!: map_idI)
  then show ?thesis
    by (subst normalize_title_spacing_def) (simp, simp add: normalize_title_spacing_def)
qed

text \<open>
  One page, one session: with wiki identifiers free of the separator byte, two requests address the
  same session exactly when they name the same wiki and titles that differ only in underscores and runs
  of white space; in particular the title a session was opened under and any other spelling of it agree.
\<close>

theorem canonical_key_identity:
  assumes "unit_separator \<notin> set wiki" and "unit_separator \<notin> set wiki'"
  shows "(canonical_key wiki title = canonical_key wiki' title' \<longleftrightarrow>
      wiki = wiki' \<and> normalize_title_spacing title = normalize_title_spacing title') \<and>
    canonical_key wiki (normalize_title_spacing title) = canonical_key wiki title"
  using split_first [OF assms] by (auto simp: canonical_key_def normalize_idem)

theorem canonical_key_identity_witness:
  "canonical_key ''frwiki'' ''Grand_Exemple'' = canonical_key ''frwiki'' ''  Grand  Exemple '' \<and>
   canonical_key ''frwiki'' ''Chat'' \<noteq> canonical_key ''dewiki'' ''Chat''"
proof -
  have "normalize_title_spacing ''Grand_Exemple'' = normalize_title_spacing ''  Grand  Exemple ''"
    by code_simp
  then show ?thesis
    using canonical_key_identity [of "''frwiki''" "''frwiki''" "''Grand_Exemple''" "''  Grand  Exemple ''"]
      canonical_key_identity [of "''frwiki''" "''dewiki''" "''Chat''" "''Chat''"] by simp
qed

end
