(* ===== verification/Voting.thy ===== *)
theory Voting
  imports Prelude "HOL-Library.Multiset"
begin

section \<open>Citation verdicts and panel votes\<close>

text \<open>
  \<open>crates/sp42-citation/src/citation/verdict.rs\<close> and \<open>voting.rs\<close>: the four verdicts, their wire
  names, the two-level verdict of the contract, and the plurality and majority votes of a panel. The
  \<open>u8\<close> sizes of an agreement saturate. The float the code derives from an agreement is not modelled.
\<close>

datatype support_level = SL_Supported | SL_Partial | SL_NotSupported

datatype citation_verdict = Judged support_level | CV_SourceUnavailable

datatype verdict = Supported | Partial | NotSupported | SourceUnavailable

definition all_verdicts :: "verdict list" where
  "all_verdicts = [Supported, Partial, NotSupported, SourceUnavailable]"

fun as_wire :: "verdict \<Rightarrow> string" where
  "as_wire Supported = ''supported''"
| "as_wire Partial = ''partial''"
| "as_wire NotSupported = ''not_supported''"
| "as_wire SourceUnavailable = ''source_unavailable''"

definition from_wire :: "string \<Rightarrow> verdict option" where
  "from_wire v =
     (if v = ''supported'' then Some Supported
      else if v = ''partial'' then Some Partial
      else if v = ''not_supported'' then Some NotSupported
      else if v = ''source_unavailable'' then Some SourceUnavailable
      else None)"

definition is_support_class :: "verdict \<Rightarrow> bool" where
  "is_support_class v = (case v of Supported \<Rightarrow> True | Partial \<Rightarrow> True | _ \<Rightarrow> False)"

fun verdict_of :: "citation_verdict \<Rightarrow> verdict" where
  "verdict_of (Judged SL_Supported) = Supported"
| "verdict_of (Judged SL_Partial) = Partial"
| "verdict_of (Judged SL_NotSupported) = NotSupported"
| "verdict_of CV_SourceUnavailable = SourceUnavailable"

fun citation_verdict_of :: "verdict \<Rightarrow> citation_verdict" where
  "citation_verdict_of Supported = Judged SL_Supported"
| "citation_verdict_of Partial = Judged SL_Partial"
| "citation_verdict_of NotSupported = Judged SL_NotSupported"
| "citation_verdict_of SourceUnavailable = CV_SourceUnavailable"

definition citation_as_wire :: "citation_verdict \<Rightarrow> string" where
  "citation_as_wire v = as_wire (verdict_of v)"

definition citation_from_wire :: "string \<Rightarrow> citation_verdict option" where
  "citation_from_wire raw = map_option citation_verdict_of (from_wire raw)"

definition is_support_judgment :: "citation_verdict \<Rightarrow> bool" where
  "is_support_judgment v = (case v of Judged _ \<Rightarrow> True | _ \<Rightarrow> False)"

subsection \<open>Votes\<close>

record panel_agreement =
  panel_size :: nat
  winner_votes :: nat

definition is_meaningful :: "panel_agreement \<Rightarrow> bool" where
  "is_meaningful a \<longleftrightarrow> 2 \<le> panel_size a"

record n_class_vote_result =
  ncv_winner :: verdict
  ncv_agreement :: panel_agreement
  ncv_counts :: "nat list"

record binary_vote_result =
  bv_positive :: bool
  bv_agreement :: panel_agreement

fun verdict_index :: "verdict \<Rightarrow> nat" where
  "verdict_index Supported = 0"
| "verdict_index Partial = 1"
| "verdict_index NotSupported = 2"
| "verdict_index SourceUnavailable = 3"

fun tiebreaker_rank :: "verdict \<Rightarrow> nat" where
  "tiebreaker_rank Partial = 4"
| "tiebreaker_rank NotSupported = 3"
| "tiebreaker_rank SourceUnavailable = 2"
| "tiebreaker_rank Supported = 1"

definition vote_count :: "n_class_vote_result \<Rightarrow> verdict \<Rightarrow> nat" where
  "vote_count r v = ncv_counts r ! verdict_index v"

definition tally :: "verdict list \<Rightarrow> nat list" where
  "tally vs = fold (\<lambda>v counts. counts[verdict_index v := Suc (counts ! verdict_index v)]) vs [0, 0, 0, 0]"

definition better_candidate :: "nat list \<Rightarrow> nat \<Rightarrow> verdict \<Rightarrow> verdict option \<Rightarrow> verdict option" where
  "better_candidate counts max_count candidate winner =
     (if counts ! verdict_index candidate \<noteq> max_count then winner
      else (case winner of
              None \<Rightarrow> Some candidate
            | Some current \<Rightarrow>
                if tiebreaker_rank current < tiebreaker_rank candidate then Some candidate else winner))"

definition u8_saturate :: "nat \<Rightarrow> nat" where
  "u8_saturate n = (if n \<le> 255 then n else 255)"

definition n_class_vote :: "verdict list \<Rightarrow> n_class_vote_result option" where
  "n_class_vote vs =
     (if vs = [] then None
      else (let counts = tally vs; max_count = fold max counts 0
            in (case fold (better_candidate counts max_count) all_verdicts None of
                  None \<Rightarrow> None
                | Some w \<Rightarrow> Some
                    \<lparr>ncv_winner = w,
                     ncv_agreement = \<lparr>panel_size = u8_saturate (length vs), winner_votes = u8_saturate max_count\<rparr>,
                     ncv_counts = counts\<rparr>)))"

definition binary_vote :: "verdict list \<Rightarrow> binary_vote_result option" where
  "binary_vote vs =
     (if vs = [] then None
      else (let support_count = length (filter is_support_class vs);
                panel = length vs;
                positive = (panel div 2 < support_count);
                backing = (if positive then support_count else panel - support_count)
            in Some \<lparr>bv_positive = positive,
                     bv_agreement = \<lparr>panel_size = u8_saturate panel, winner_votes = u8_saturate backing\<rparr>\<rparr>))"

subsection \<open>Properties\<close>

text \<open>
  Wire names: both verdict types survive a trip through their wire names, distinct verdicts have
  distinct names, and nothing else is accepted.
\<close>

theorem verdict_wire_roundtrip:
  "(from_wire s = Some v \<longleftrightarrow> s = as_wire v) \<and>
   (citation_from_wire s = Some cv \<longleftrightarrow> s = citation_as_wire cv) \<and>
   citation_verdict_of (verdict_of cv) = cv \<and> verdict_of (citation_verdict_of v) = v"
proof -
  have wire: "from_wire s = Some w \<longleftrightarrow> s = as_wire w" for w
    by (cases w) (auto simp: from_wire_def)
  have inverse: "citation_verdict_of (verdict_of cv) = cv" "verdict_of (citation_verdict_of w) = w" for w
    by (cases cv rule: verdict_of.cases; simp) (cases w; simp)
  have "citation_from_wire s = Some cv \<longleftrightarrow> from_wire s = Some (verdict_of cv)"
    unfolding citation_from_wire_def using inverse by (cases "from_wire s") auto
  then show ?thesis
    using wire inverse by (simp add: citation_as_wire_def)
qed

lemma tally_length: "length (tally vs) = 4"
proof -
  have "length cs = 4 \<Longrightarrow>
      length (fold (\<lambda>v counts. counts[verdict_index v := Suc (counts ! verdict_index v)]) vs cs) = 4" for cs :: "nat list"
    by (induction vs arbitrary: cs) auto
  then show ?thesis by (simp add: tally_def)
qed

lemma tally_count: "tally vs ! verdict_index v = count_list vs v"
proof -
  have "length cs = 4 \<Longrightarrow>
      fold (\<lambda>v counts. counts[verdict_index v := Suc (counts ! verdict_index v)]) vs cs ! verdict_index v =
        cs ! verdict_index v + count_list vs v" for cs :: "nat list"
  proof (induction vs arbitrary: cs)
    case (Cons w ws)
    have bound: "verdict_index w < length cs" using Cons.prems by (cases w) auto
    have same: "verdict_index w = verdict_index v \<longleftrightarrow> w = v" by (cases w; cases v) auto
    show ?case
      using Cons.IH [of "cs[verdict_index w := Suc (cs ! verdict_index w)]"] Cons.prems bound
      by (auto simp: nth_list_update same)
  qed simp
  then show ?thesis
    by (cases v) (simp_all add: tally_def)
qed

lemma tally_eq:
  "tally vs = [count_list vs Supported, count_list vs Partial, count_list vs NotSupported,
     count_list vs SourceUnavailable]"
  using tally_length [of vs] tally_count [of vs Supported] tally_count [of vs Partial]
    tally_count [of vs NotSupported] tally_count [of vs SourceUnavailable]
  by (cases "tally vs" rule: list.exhaust)
    (auto simp: length_Suc_conv eval_nat_numeral)

text \<open>
  C16. Plurality: a non-empty panel always has a winner, no verdict has more votes, among the verdicts
  with as many votes it is the one of highest tie-break rank (Partial, then NotSupported, then
  SourceUnavailable, then Supported), its votes are reported saturated, and the order of the votes is
  irrelevant.
\<close>

theorem n_class_vote_plurality:
  "case n_class_vote vs of
     None \<Rightarrow> vs = []
   | Some r \<Rightarrow>
       (\<forall>v. count_list vs v \<le> count_list vs (ncv_winner r) \<and>
          (count_list vs v = count_list vs (ncv_winner r) \<longrightarrow>
             tiebreaker_rank v \<le> tiebreaker_rank (ncv_winner r))) \<and>
       ncv_agreement r = \<lparr>panel_size = u8_saturate (length vs),
          winner_votes = u8_saturate (count_list vs (ncv_winner r))\<rparr> \<and>
       (\<forall>v. vote_count r v = count_list vs v) \<and>
       (\<forall>ws. mset ws = mset vs \<longrightarrow> n_class_vote ws = Some r)"
proof (cases "vs = []")
  case False
  obtain a b c d where counts: "count_list vs Supported = a" "count_list vs Partial = b"
    "count_list vs NotSupported = c" "count_list vs SourceUnavailable = d" by blast
  define r where "r = the (n_class_vote vs)"
  have r: "n_class_vote vs = Some r"
    using False unfolding r_def
    by (auto simp: n_class_vote_def tally_eq Let_def all_verdicts_def better_candidate_def max_def split: option.splits)
  have perm: "n_class_vote ws = n_class_vote vs" if "mset ws = mset vs" for ws
  proof -
    have "count_list ws v = count_list vs v" for v
      using that by (metis count_mset)
    moreover have "length ws = length vs" "ws \<noteq> []" using that False by (auto dest: mset_eq_length)
    ultimately show ?thesis
      using False by (simp add: n_class_vote_def tally_eq Let_def split: option.split)
  qed
  have "(\<forall>v. count_list vs v \<le> count_list vs (ncv_winner r) \<and>
      (count_list vs v = count_list vs (ncv_winner r) \<longrightarrow> tiebreaker_rank v \<le> tiebreaker_rank (ncv_winner r)))"
  proof
    fix v show "count_list vs v \<le> count_list vs (ncv_winner r) \<and>
        (count_list vs v = count_list vs (ncv_winner r) \<longrightarrow> tiebreaker_rank v \<le> tiebreaker_rank (ncv_winner r))"
      using r by (cases v) (auto simp: n_class_vote_def tally_eq counts Let_def all_verdicts_def
          better_candidate_def max_def split: if_splits)
  qed
  moreover have "ncv_agreement r = \<lparr>panel_size = u8_saturate (length vs),
      winner_votes = u8_saturate (count_list vs (ncv_winner r))\<rparr>"
    using r by (auto simp: n_class_vote_def tally_eq counts Let_def all_verdicts_def
        better_candidate_def max_def split: if_splits)
  moreover have "vote_count r v = count_list vs v" for v
    using r False tally_count by (auto simp: vote_count_def n_class_vote_def Let_def split: option.splits)
  moreover have "n_class_vote ws = Some r" if "mset ws = mset vs" for ws
    using perm [OF that] r by (rule trans)
  ultimately show ?thesis
    unfolding r option.case by blast
qed (simp add: n_class_vote_def)

theorem n_class_vote_plurality_witness:
  "case n_class_vote [Supported, NotSupported, Supported, NotSupported, Partial] of
     None \<Rightarrow> False | Some r \<Rightarrow> ncv_winner r = NotSupported \<and> vote_count r Supported = 2"
proof -
  have "map_option ncv_winner (n_class_vote [Supported, NotSupported, Supported, NotSupported, Partial]) = Some NotSupported"
    by code_simp
  then show ?thesis
    using n_class_vote_plurality [of "[Supported, NotSupported, Supported, NotSupported, Partial]"]
    by (auto split: option.splits)
qed

end
