(* ===== verification/Civil_Dates.thy ===== *)
theory Civil_Dates
  imports Prelude
begin

section \<open>Instants, civil dates and timestamps in text\<close>

text \<open>
  \<open>crates/sp42-types/src/timestamp.rs\<close> and the timestamp parsers of
  \<open>crates/sp42-live/src/stream_ingestor.rs\<close> and \<open>recent_changes.rs\<close>: days to proleptic Gregorian
  dates and back, the printed date of an instant, and the RFC 3339 parser that the two ingestion
  paths each have a copy of. Rust's \<open>/\<close> is \<open>trunc_div\<close>, \<open>div_euclid\<close> by a positive number is
  \<open>div\<close>. All intermediate values are far inside \<open>i64\<close>.
\<close>

subsection \<open>Days and dates\<close>

abbreviation ms_per_day :: int where "ms_per_day \<equiv> 86400000"

definition civil_from_days :: "int \<Rightarrow> int \<times> int \<times> int" where
  "civil_from_days days =
     (let shifted = days + 719468;
          era = shifted div 146097;
          day_of_era = shifted mod 146097;
          year_of_era =
            trunc_div (day_of_era - trunc_div day_of_era 1460 + trunc_div day_of_era 36524
              - trunc_div day_of_era 146096) 365;
          year = year_of_era + era * 400;
          day_of_year = day_of_era - (365 * year_of_era + trunc_div year_of_era 4 - trunc_div year_of_era 100);
          shifted_month = trunc_div (5 * day_of_year + 2) 153;
          day = day_of_year - trunc_div (153 * shifted_month + 2) 5 + 1;
          month = (if shifted_month < 10 then shifted_month + 3 else shifted_month - 9)
      in (if month \<le> 2 then year + 1 else year, month, day))"

definition is_leap_year :: "int \<Rightarrow> bool" where
  "is_leap_year year \<longleftrightarrow> year mod 4 = 0 \<and> year mod 100 \<noteq> 0 \<or> year mod 400 = 0"

definition days_in_month :: "int \<Rightarrow> int \<Rightarrow> int option" where
  "days_in_month year month =
     (if month \<in> {1, 3, 5, 7, 8, 10, 12} then Some 31
      else if month \<in> {4, 6, 9, 11} then Some 30
      else if month = 2 then Some (if is_leap_year year then 29 else 28)
      else None)"

definition is_valid_utc_date :: "int \<Rightarrow> int \<Rightarrow> int \<Rightarrow> bool" where
  "is_valid_utc_date year month day =
     (case days_in_month year month of None \<Rightarrow> False | Some max_day \<Rightarrow> 1 \<le> day \<and> day \<le> max_day)"

definition days_from_civil :: "int \<Rightarrow> int \<Rightarrow> int \<Rightarrow> int" where
  "days_from_civil year month day =
     (let adjusted_year = year - (if month \<le> 2 then 1 else 0);
          era = trunc_div (if 0 \<le> adjusted_year then adjusted_year else adjusted_year - 399) 400;
          year_of_era = adjusted_year - era * 400;
          day_of_year = trunc_div (153 * (month + (if 2 < month then - 3 else 9)) + 2) 5 + day - 1;
          day_of_era = year_of_era * 365 + trunc_div year_of_era 4 - trunc_div year_of_era 100 + day_of_year
      in era * 146097 + day_of_era - 719468)"

text \<open>\<open>{:04}\<close> and \<open>{:02}\<close>: the sign counts towards the width.\<close>

definition pad_zeros :: "nat \<Rightarrow> string \<Rightarrow> string" where
  "pad_zeros w s = replicate (w - length s) (CHR ''0'') @ s"

definition pad_int :: "nat \<Rightarrow> int \<Rightarrow> string" where
  "pad_int w i = (if i < 0 then CHR ''-'' # pad_zeros (w - 1) (show_nat (nat (- i))) else pad_zeros w (show_nat (nat i)))"

definition civil_date :: "int \<Rightarrow> string" where
  "civil_date ms =
     (let (year, month, day) = civil_from_days (ms div ms_per_day)
      in pad_int 4 year @ ''-'' @ pad_int 2 month @ ''-'' @ pad_int 2 day)"

subsection \<open>Arithmetic on instants\<close>

definition plus_days :: "int \<Rightarrow> int \<Rightarrow> int" where
  "plus_days ms days = sat_i64 (ms + sat_i64 (days * ms_per_day))"

definition days_since :: "int \<Rightarrow> int \<Rightarrow> int" where
  "days_since later earlier = trunc_div (sat_i64 (later - earlier)) ms_per_day"

definition timestamp_add :: "int \<Rightarrow> int \<Rightarrow> int" where
  "timestamp_add t ms = sat_i64 (t + ms)"

definition timestamp_sub :: "int \<Rightarrow> int \<Rightarrow> int" where
  "timestamp_sub t ms = sat_i64 (t - ms)"

definition timestamp_display :: "int \<Rightarrow> string" where
  "timestamp_display t = civil_date t @ '' ('' @ show_int t @ '')''"

subsection \<open>Timestamps in text\<close>

definition dec :: "string \<Rightarrow> int" where
  "dec s = (case digits_value 0 s of None \<Rightarrow> 0 | Some n \<Rightarrow> int n)"

text \<open>
  \<open>parse::<i64>\<close>: an optional sign, at least one digit, a value in range. The fields of a date are
  digits only, where it is \<open>dec\<close>.
\<close>

definition parse_i64 :: "string \<Rightarrow> int option" where
  "parse_i64 s =
     (let (negative, digits) =
        (case s of
           [] \<Rightarrow> (False, [])
         | c # r \<Rightarrow> if c = CHR ''-'' then (True, r) else if c = CHR ''+'' then (False, r) else (False, s))
      in if digits = [] then None
         else (case digits_value 0 digits of
                 None \<Rightarrow> None
               | Some n \<Rightarrow>
                   (let v = (if negative then - int n else int n) in if in_i64 v then Some v else None)))"

definition has_rfc3339_utc_layout :: "string \<Rightarrow> bool" where
  "has_rfc3339_utc_layout v \<longleftrightarrow>
     20 \<le> length v \<and>
     v ! 4 = CHR ''-'' \<and> v ! 7 = CHR ''-'' \<and> v ! 10 = CHR ''T'' \<and> v ! 13 = CHR '':'' \<and> v ! 16 = CHR '':'' \<and>
     v ! (length v - 1) = CHR ''Z'' \<and>
     list_all (\<lambda>i. ascii_digit (v ! i)) [0, 1, 2, 3, 5, 6, 8, 9, 11, 12, 14, 15, 17, 18] \<and>
     (let rest = take (length v - 20) (drop 19 v)
      in rest = [] \<or> hd rest = CHR ''.'' \<and> list_all ascii_digit (tl rest))"

text \<open>
  The fraction of a second, scaled to a number of digits (9 in the stream parser, 3 in the recent
  changes parser); further digits are cut off.
\<close>

definition parse_fraction :: "nat \<Rightarrow> string \<Rightarrow> int option" where
  "parse_fraction width segment =
     (case segment of
        [] \<Rightarrow> Some 0
      | c # fractional \<Rightarrow>
          (if c \<noteq> CHR ''.'' then None
           else if fractional = [] \<or> \<not> list_all ascii_digit fractional then None
           else Some (dec (take width fractional) * 10 ^ (width - min (length fractional) width))))"

definition field_at :: "nat \<Rightarrow> nat \<Rightarrow> string \<Rightarrow> int" where
  "field_at i j v = dec (take (j - i) (drop i v))"

definition epoch_seconds :: "string \<Rightarrow> int" where
  "epoch_seconds v =
     sat_i64 (sat_i64 (sat_i64 (sat_i64 (days_from_civil (field_at 0 4 v) (field_at 5 7 v) (field_at 8 10 v) * 86400)
       + field_at 11 13 v * 3600) + field_at 14 16 v * 60) + field_at 17 19 v)"

definition fields_ok :: "string \<Rightarrow> bool" where
  "fields_ok v \<longleftrightarrow>
     is_valid_utc_date (field_at 0 4 v) (field_at 5 7 v) (field_at 8 10 v) \<and>
     field_at 11 13 v \<le> 23 \<and> field_at 14 16 v \<le> 59 \<and> field_at 17 19 v \<le> 59"

definition parse_rfc3339_utc :: "string \<Rightarrow> (int \<times> int) option" where
  "parse_rfc3339_utc v =
     (if length v < 20 \<or> v ! (length v - 1) \<noteq> CHR ''Z'' \<or> \<not> has_rfc3339_utc_layout v \<or> \<not> fields_ok v then None
      else (case parse_fraction 9 (take (length v - 20) (drop 19 v)) of
              None \<Rightarrow> None
            | Some nanos \<Rightarrow> Some (epoch_seconds v, nanos)))"

definition normalize_unix_timestamp_ms :: "int \<Rightarrow> int" where
  "normalize_unix_timestamp_ms v = (if 10000000000 < v then v else sat_i64 (v * 1000))"

definition parse_timestamp_text :: "string \<Rightarrow> int option" where
  "parse_timestamp_text v =
     (case parse_i64 v of
        Some n \<Rightarrow> Some (normalize_unix_timestamp_ms n)
      | None \<Rightarrow>
          (case parse_rfc3339_utc v of
             None \<Rightarrow> None
           | Some (seconds, nanos) \<Rightarrow> Some (sat_i64 (sat_i64 (seconds * 1000) + trunc_div nanos 1000000))))"

definition parse_rfc3339_utc_to_ms :: "string \<Rightarrow> int option" where
  "parse_rfc3339_utc_to_ms v =
     (if length v < 20 \<or> v ! (length v - 1) \<noteq> CHR ''Z'' \<or> \<not> has_rfc3339_utc_layout v \<or> \<not> fields_ok v then None
      else (case parse_fraction 3 (take (length v - 20) (drop 19 v)) of
              None \<Rightarrow> None
            | Some millis \<Rightarrow> Some (sat_i64 (sat_i64 (epoch_seconds v * 1000) + millis))))"

subsection \<open>The calendar\<close>

definition year_start :: "int \<Rightarrow> int" where
  "year_start y = 365 * y + y div 4 - y div 100"

definition year_length :: "int \<Rightarrow> int" where
  "year_length y = (if is_leap_year (y + 1) then 366 else 365)"

definition squeeze :: "int \<Rightarrow> int" where
  "squeeze n = n - n div 1460 + n div 36524 - n div 146096"

lemma squeeze_step: "0 \<le> n \<Longrightarrow> n < 146096 \<Longrightarrow> squeeze n \<le> squeeze (n + 1)"
proof (cases "n = 146095")
  case False
  assume n: "0 \<le> n" "n < 146096"
  have "(n + 1) div 1460 \<le> (n + 1460) div 1460"
    by (intro zdiv_mono1) simp_all
  then have "(n + 1) div 1460 \<le> n div 1460 + 1" by simp
  moreover have "n div 36524 \<le> (n + 1) div 36524"
    by (intro zdiv_mono1) simp_all
  moreover have "n div 146096 = 0" "(n + 1) div 146096 = 0"
    using n False by (simp_all add: div_pos_pos_trivial)
  ultimately show ?thesis unfolding squeeze_def by linarith
qed (simp add: squeeze_def)

lemma squeeze_mono:
  assumes "a \<le> b" "0 \<le> a" "b \<le> 146096" shows "squeeze a \<le> squeeze b"
  using assms
proof (induction b rule: int_ge_induct)
  case (step i)
  then show ?case using squeeze_step [of i] by simp
qed simp

lemma year_ends:
  "list_all (\<lambda>y. squeeze (year_start y) div 365 = y \<and>
     squeeze (year_start y + year_length y - 1) div 365 = y) [0..399]"
  by code_simp


lemma year_bounds:
  "list_all (\<lambda>y. 0 \<le> year_start y \<and> year_start y + year_length y \<le> 146097 \<and>
     (y < 399 \<longrightarrow> year_start (y + 1) = year_start y + year_length y)) [0..399]"
  by code_simp

lemma year_of_day:
  assumes y: "0 \<le> y" "y \<le> 399" and d: "0 \<le> d" "d < year_length y"
  shows "0 \<le> year_start y + d" "year_start y + d < 146097" "squeeze (year_start y + d) div 365 = y"
proof -
  have y_in: "y \<in> set [0..399]" using y by simp
  then have b: "0 \<le> year_start y" "year_start y + year_length y \<le> 146097"
    using year_bounds by (auto simp: list_all_iff)
  then show range: "0 \<le> year_start y + d" "year_start y + d < 146097"
    using d by auto
  have ends: "squeeze (year_start y) div 365 = y" "squeeze (year_start y + year_length y - 1) div 365 = y"
    using year_ends y_in by (auto simp: list_all_iff)
  have "squeeze (year_start y) \<le> squeeze (year_start y + d)"
    using b d range by (intro squeeze_mono) auto
  moreover have "squeeze (year_start y + d) \<le> squeeze (year_start y + year_length y - 1)"
    using b d range by (intro squeeze_mono) auto
  ultimately have "squeeze (year_start y) div 365 \<le> squeeze (year_start y + d) div 365"
      "squeeze (year_start y + d) div 365 \<le> squeeze (year_start y + year_length y - 1) div 365"
    by (auto intro: zdiv_mono1)
  with ends show "squeeze (year_start y + d) div 365 = y" by linarith
qed

text \<open>The months of a year that starts in March: number and day of a day of the year, and back.\<close>

definition month_of :: "int \<Rightarrow> int" where
  "month_of doy = (5 * doy + 2) div 153"

definition month_start :: "int \<Rightarrow> int" where
  "month_start mp = (153 * mp + 2) div 5"

definition civil_month :: "int \<Rightarrow> int" where
  "civil_month mp = (if mp < 10 then mp + 3 else mp - 9)"

lemma civil_from_parts:
  assumes "0 \<le> y" "y \<le> 399" "0 \<le> d" "d < year_length y"
  shows "civil_from_days (era * 146097 + (year_start y + d) - 719468) =
    (let mp = month_of d
     in (y + era * 400 + (if civil_month mp \<le> 2 then 1 else 0), civil_month mp, d - month_start mp + 1))"
proof -
  note doe = year_of_day [OF assms]
  have era: "(era * 146097 + (year_start y + d)) div 146097 = era"
    "(era * 146097 + (year_start y + d)) mod 146097 = year_start y + d"
    using doe by (simp_all add: div_mult_self3 div_pos_pos_trivial)
  have shifted: "era * 146097 + (year_start y + d) - 719468 + 719468 = era * 146097 + (year_start y + d)"
    by simp
  have nonneg: "0 \<le> squeeze (year_start y + d)"
    using doe(3) assms(1) by (metis div_neg_pos_less0 not_less zero_less_numeral)
  then have yoe: "trunc_div (year_start y + d - trunc_div (year_start y + d) 1460 + trunc_div (year_start y + d) 36524
      - trunc_div (year_start y + d) 146096) 365 = y"
    using doe by (simp add: trunc_div_nonneg squeeze_def)
  have doy: "year_start y + d - (365 * y + trunc_div y 4 - trunc_div y 100) = d"
    using assms by (simp add: trunc_div_nonneg year_start_def)
  have month: "trunc_div (5 * d + 2) 153 = month_of d" "trunc_div (153 * month_of d + 2) 5 = month_start (month_of d)"
    using assms by (simp_all add: trunc_div_nonneg month_of_def month_start_def pos_imp_zdiv_nonneg_iff)
  show ?thesis
    unfolding civil_from_days_def Let_def shifted era yoe doy month
    by (simp add: civil_month_def)
qed

lemma parts_of_day:
  obtains era y d where "n = era * 146097 + (year_start y + d) - 719468"
    "0 \<le> y" "y \<le> 399" "0 \<le> d" "d < year_length y"
proof -
  define doe where "doe = (n + 719468) mod 146097"
  have doe: "0 \<le> doe" "doe < 146097" by (simp_all add: doe_def)
  have "\<exists>y\<in>{0..399}. year_start y \<le> doe \<and> doe < year_start y + year_length y"
  proof -
    have "\<exists>y\<in>{0..k}. year_start y \<le> doe \<and> doe < year_start y + year_length y"
      if "0 \<le> k" "k \<le> 399" "doe < year_start k + year_length k" for k
      using that
    proof (induction k rule: int_ge_induct)
      case base
      then show ?case using doe by (intro bexI [of _ 0]) (auto simp: year_start_def)
    next
      case (step i)
      show ?case
      proof (cases "year_start (i + 1) \<le> doe")
        case True
        with step.prems step.hyps show ?thesis by (intro bexI [of _ "i + 1"]) auto
      next
        case False
        moreover have "year_start (i + 1) = year_start i + year_length i"
          using year_bounds step.hyps step.prems by (auto simp: list_all_iff)
        ultimately have "\<exists>y\<in>{0..i}. year_start y \<le> doe \<and> doe < year_start y + year_length y"
          using step by auto
        then show ?thesis by auto
      qed
    qed
    from this [of 399] show ?thesis
      using doe by (simp add: year_start_def year_length_def is_leap_year_def)
  qed
  then obtain y where y: "y \<in> {0..399}" "year_start y \<le> doe" "doe < year_start y + year_length y" by blast
  have "n = (n + 719468) div 146097 * 146097 + doe - 719468"
    using div_mult_mod_eq [of "n + 719468" 146097] unfolding doe_def by simp
  with y show thesis
    by (intro that [of "(n + 719468) div 146097" y "doe - year_start y"]) auto
qed


definition month_length :: "int \<Rightarrow> int" where
  "month_length mp = (if mp \<in> {1, 3, 6, 8} then 30 else if mp = 11 then 29 else 31)"

lemma month_of_table:
  "list_all (\<lambda>doy. 0 \<le> month_of doy \<and> month_of doy \<le> 11 \<and> 1 \<le> doy - month_start (month_of doy) + 1 \<and>
     doy - month_start (month_of doy) + 1 \<le> month_length (month_of doy) \<and>
     (month_of doy = 11 \<longrightarrow> doy - month_start 11 + 1 = 29 \<longrightarrow> doy = 365)) [0..365]"
  by code_simp

lemma month_start_table:
  "list_all (\<lambda>mp. list_all (\<lambda>day. month_of (month_start mp + day - 1) = mp \<and>
     0 \<le> month_start mp + day - 1 \<and> month_start mp + day - 1 \<le> 365 \<and>
     (month_start mp + day - 1 = 365 \<longrightarrow> mp = 11 \<and> day = 29)) [1..month_length mp]) [0..11]"
  by code_simp

lemma leap_periodic: "is_leap_year (era * 400 + y) = is_leap_year y"
proof -
  have "(era * 400 + y) mod 4 = y mod 4" "(era * 400 + y) mod 100 = y mod 100" "(era * 400 + y) mod 400 = y mod 400"
    using mod_mult_self1 [of y "era * 100" 4] mod_mult_self1 [of y "era * 4" 100] mod_mult_self1 [of y era 400]
    by (simp_all add: algebra_simps)
  then show ?thesis by (simp add: is_leap_year_def)
qed

lemma month_number:
  assumes "0 \<le> mp" "mp \<le> 11"
  shows "days_in_month year (civil_month mp) =
      Some (if mp = 11 \<and> \<not> is_leap_year year then 28 else month_length mp)"
    and "civil_month mp + (if 2 < civil_month mp then - 3 else 9) = mp"
    and "civil_month mp \<le> 2 \<longleftrightarrow> 10 \<le> mp"
proof -
  have "mp \<in> {0, 1, 2, 3, 4, 5, 6, 7, 8, 9, 10, 11}"
    unfolding insert_iff empty_iff using assms by presburger
  then show "days_in_month year (civil_month mp) =
      Some (if mp = 11 \<and> \<not> is_leap_year year then 28 else month_length mp)"
    by (auto simp: days_in_month_def civil_month_def month_length_def)
qed (use assms in \<open>auto simp: civil_month_def\<close>)

lemma days_from_parts:
  assumes "0 \<le> y" "y \<le> 399" "0 \<le> mp" "mp \<le> 11"
  shows "days_from_civil (y + era * 400 + (if civil_month mp \<le> 2 then 1 else 0)) (civil_month mp) day =
    era * 146097 + (year_start y + (month_start mp + day - 1)) - 719468"
proof -
  let ?adj = "y + era * 400"
  have era: "trunc_div (if 0 \<le> ?adj then ?adj else ?adj - 399) 400 = era"
  proof (cases "0 \<le> ?adj")
    case True
    then show ?thesis using assms by (simp add: trunc_div_nonneg)
  next
    case False
    then have "era < 0" using assms by auto
    moreover have "(399 - ?adj) div 400 = - era"
      using assms by (intro int_div_pos_eq [of _ _ _ "399 - y"]) auto
    ultimately show ?thesis
      using False by (simp add: trunc_div_def sgn_if)
  qed
  have month: "trunc_div (153 * mp + 2) 5 = month_start mp"
    using assms by (simp add: trunc_div_nonneg month_start_def)
  have adj: "?adj + (if civil_month mp \<le> 2 then 1 else 0) - (if civil_month mp \<le> 2 then 1 else 0) = ?adj"
    by simp
  show ?thesis
    using assms unfolding days_from_civil_def Let_def month_number(2) [OF assms(3,4)] adj era month
    by (simp add: trunc_div_nonneg year_start_def)
qed

text \<open>A valid date in parts.\<close>

lemma date_parts:
  assumes "is_valid_utc_date year month day"
  obtains era y mp where "0 \<le> y" "y \<le> 399" "0 \<le> mp" "mp \<le> 11" "month = civil_month mp"
    "year = y + era * 400 + (if civil_month mp \<le> 2 then 1 else 0)"
    "0 \<le> month_start mp + day - 1" "month_start mp + day - 1 < year_length y"
    "month_of (month_start mp + day - 1) = mp"
proof -
  define mp where "mp = month + (if 2 < month then - 3 else 9)"
  have "month \<in> {1, 3, 5, 7, 8, 10, 12} \<union> {4, 6, 9, 11} \<union> {2}"
    using assms by (auto simp: is_valid_utc_date_def days_in_month_def split: if_splits)
  then have mp: "0 \<le> mp" "mp \<le> 11" "month = civil_month mp"
    by (auto simp: mp_def civil_month_def)
  define adj where "adj = year - (if civil_month mp \<le> 2 then 1 else 0)"
  have day: "1 \<le> day" "day \<le> month_length mp" "mp = 11 \<longrightarrow> day = 29 \<longrightarrow> is_leap_year year"
    using assms month_number(1) [OF mp(1,2), of year] mp(3)
    by (auto simp: is_valid_utc_date_def month_length_def split: if_splits)
  have table: "month_of (month_start mp + day - 1) = mp" "0 \<le> month_start mp + day - 1"
    "month_start mp + day - 1 \<le> 365" "month_start mp + day - 1 = 365 \<longrightarrow> mp = 11 \<and> day = 29"
    using month_start_table mp day by (auto simp: list_all_iff)
  have adj: "year = adj mod 400 + adj div 400 * 400 + (if civil_month mp \<le> 2 then 1 else 0)"
    by (simp add: adj_def mod_div_mult_eq)
  have "is_leap_year (adj mod 400 + 1)" if "mp = 11" "day = 29"
  proof -
    have "year = adj div 400 * 400 + (adj mod 400 + 1)"
      using adj that by (simp add: civil_month_def)
    then show ?thesis
      using day(3) that leap_periodic by metis
  qed
  with table have "month_start mp + day - 1 < year_length (adj mod 400)"
    by (auto simp: year_length_def)
  then show thesis
    using mp table adj by (intro that [of "adj mod 400" mp "adj div 400"]) auto
qed

lemma civil_of_days:
  assumes "is_valid_utc_date year month day"
  shows "civil_from_days (days_from_civil year month day) = (year, month, day)"
proof -
  obtain era y mp where p: "0 \<le> y" "y \<le> 399" "0 \<le> mp" "mp \<le> 11" "month = civil_month mp"
      "year = y + era * 400 + (if civil_month mp \<le> 2 then 1 else 0)"
      "0 \<le> month_start mp + day - 1" "month_start mp + day - 1 < year_length y"
      "month_of (month_start mp + day - 1) = mp"
    using assms by (rule date_parts)
  then show ?thesis
    using civil_from_parts [OF p(1,2,7,8), of era] days_from_parts [OF p(1-4), of era day] by (simp add: Let_def)
qed

lemma days_of_civil:
  "case civil_from_days n of (y, m, d) \<Rightarrow> is_valid_utc_date y m d \<and> days_from_civil y m d = n"
proof -
  obtain era y d where p: "n = era * 146097 + (year_start y + d) - 719468"
      "0 \<le> y" "y \<le> 399" "0 \<le> d" "d < year_length y"
    by (rule parts_of_day)
  define mp where "mp = month_of d"
  have "d \<in> set [0..365]" using p by (auto simp: year_length_def split: if_splits)
  then have mp: "0 \<le> mp" "mp \<le> 11" "1 \<le> d - month_start mp + 1" "d - month_start mp + 1 \<le> month_length mp"
      "mp = 11 \<longrightarrow> d - month_start mp + 1 = 29 \<longrightarrow> d = 365"
    using month_of_table by (auto simp: list_all_iff mp_def)
  let ?y = "y + era * 400 + (if civil_month mp \<le> 2 then 1 else 0)"
  have civil: "civil_from_days n = (?y, civil_month mp, d - month_start mp + 1)"
    using civil_from_parts [OF p(2-5), of era] by (simp add: p(1) mp_def Let_def)
  have "is_leap_year ?y" if "mp = 11" "d - month_start mp + 1 = 29"
  proof -
    have "is_leap_year (y + 1)" using mp(5) that p(5) by (simp add: year_length_def split: if_splits)
    then show ?thesis using that leap_periodic [of era "y + 1"] by (simp add: civil_month_def ac_simps)
  qed
  then have "d - month_start mp + 1 \<le> (if mp = 11 \<and> \<not> is_leap_year ?y then 28 else month_length mp)"
    using mp(4) by (cases "d - month_start mp + 1 = 29") (auto simp: month_length_def split: if_splits)
  then have "is_valid_utc_date ?y (civil_month mp) (d - month_start mp + 1)"
    using mp(3) by (simp only: is_valid_utc_date_def month_number(1) [OF mp(1,2)] option.case simp_thms)
  then show "case civil_from_days n of (y, m, d) \<Rightarrow> is_valid_utc_date y m d \<and> days_from_civil y m d = n"
    using civil days_from_parts [OF p(2,3) mp(1,2), of era] p(1) by simp
qed

text \<open>
  The calendar is a bijection: every day number is the day of the valid date computed for it, and
  every valid date, before the epoch and in negative years too, is recovered from its day number.
\<close>

theorem calendar_bijection:
  "(is_valid_utc_date year month day \<longrightarrow>
      civil_from_days (days_from_civil year month day) = (year, month, day)) \<and>
   (case civil_from_days n of (y, m, d) \<Rightarrow> is_valid_utc_date y m d \<and> days_from_civil y m d = n)"
  by (intro conjI impI civil_of_days days_of_civil)

theorem calendar_bijection_witness:
  "civil_from_days (days_from_civil (- 4) 2 29) = (- 4, 2, 29)"
  using calendar_bijection [of "- 4" 2 29] by (simp add: is_valid_utc_date_def days_in_month_def is_leap_year_def)

subsection \<open>Parsing and printing\<close>

lemma digits_value_all: "digits_value acc s \<noteq> None \<longleftrightarrow> list_all ascii_digit s"
  by (induction acc s rule: digits_value.induct) (auto simp: ascii_digit_def split: option.splits)

lemma digits_value_bound: "digits_value acc s = Some n \<Longrightarrow> n < (acc + 1) * 10 ^ length s"
proof (induction acc s rule: digits_value.induct)
  case (2 acc c cs)
  then obtain d where d: "digit_value c = Some d" "digits_value (10 * acc + d) cs = Some n"
    by (auto split: option.splits)
  then have "d < 10" by (auto simp: digit_value_def Let_def split: if_splits)
  then have "(10 * acc + d + 1) * 10 ^ length cs \<le> (10 * (acc + 1)) * 10 ^ length cs"
    by (intro mult_right_mono) auto
  with 2(1) [OF d] have "n < (10 * (acc + 1)) * 10 ^ length cs" by linarith
  then show ?case by (simp only: length_Cons power_Suc mult.assoc mult.left_commute)
qed simp

lemma digits_value_shift: "digits_value acc s = Some n \<Longrightarrow> \<exists>m. digits_value 0 s = Some m \<and> n = acc * 10 ^ length s + m"
proof (induction s arbitrary: acc n)
  case (Cons c s)
  then obtain d where d: "digit_value c = Some d" "digits_value (10 * acc + d) s = Some n"
    by (auto split: option.splits)
  from Cons.IH [OF d(2)] obtain m where m: "digits_value 0 s = Some m" "n = (10 * acc + d) * 10 ^ length s + m"
    by blast
  from d(1) m(1) have "digits_value 0 (c # s) = digits_value d s" by simp
  moreover have "digits_value d s \<noteq> None"
    using d(2) by (metis digits_value_all option.distinct(1))
  then obtain k where k: "digits_value d s = Some k" by blast
  from Cons.IH [OF k] m(1) have "k = d * 10 ^ length s + m" by simp
  ultimately show ?case using k m(2) by (simp add: algebra_simps)
qed simp

lemma dec_bounds: "0 \<le> dec s \<and> dec s < 10 ^ length s"
  using digits_value_bound [of 0 s] by (auto simp: dec_def split: option.splits simp flip: of_nat_less_of_nat_power_cancel_iff)

lemma dec_append:
  assumes "list_all ascii_digit (s @ t)"
  shows "dec (s @ t) = dec s * 10 ^ length t + dec t"
proof -
  obtain m where m: "digits_value 0 s = Some m" using assms digits_value_all [of 0 s] by auto
  obtain n where n: "digits_value m t = Some n" using assms digits_value_all [of m t] by auto
  from digits_value_shift [OF n] obtain k where "digits_value 0 t = Some k" "n = m * 10 ^ length t + k" by blast
  with m n show ?thesis by (simp add: dec_def digits_value_append)
qed

lemma pad_digits:
  "digits_value 0 s = Some n \<Longrightarrow> s \<noteq> [] \<Longrightarrow> pad_zeros (length s) (show_nat n) = s"
proof (induction s arbitrary: n rule: rev_induct)
  case (snoc c t)
  obtain m d where md: "digits_value 0 t = Some m" "digit_value c = Some d" "n = 10 * m + d"
    using snoc.prems(1) by (auto simp: digits_value_append split: option.splits)
  have d: "d < 10" "char_of (48 + d) = c"
    using md(2) by (auto simp: digit_value_def Let_def split: if_splits)
  show ?case
  proof (cases "m = 0")
    case True
    have zero: "show_nat 0 = ''0''" by code_simp
    have "t = replicate (length t) (CHR ''0'')"
    proof (cases "t = []")
      case False
      then have "t = pad_zeros (length t) (show_nat 0)" using snoc.IH md(1) True by simp
      also have "\<dots> = replicate (length t) (CHR ''0'')"
        using False zero by (cases "length t") (simp_all add: pad_zeros_def replicate_append_same)
      finally show ?thesis .
    qed simp
    moreover have "show_nat n = [c]"
      unfolding show_nat.simps [of n] using True md(3) d by simp
    ultimately show ?thesis by (simp add: pad_zeros_def)
  next
    case False
    then have "t \<noteq> []" using md(1) by auto
    then have t: "pad_zeros (length t) (show_nat m) = t" using snoc.IH md(1) by blast
    have "show_nat n = show_nat m @ [c]"
      unfolding show_nat.simps [of n] using False md(3) d by simp
    then show ?thesis using t by (simp add: pad_zeros_def)
  qed
qed simp

lemma pad_dec: "list_all ascii_digit s \<Longrightarrow> s \<noteq> [] \<Longrightarrow> pad_int (length s) (dec s) = s"
  using digits_value_all [of 0 s] pad_digits [of s] by (auto simp: pad_int_def dec_def)

lemma fraction_scaled:
  assumes "parse_fraction 9 seg = Some nanos"
  shows "parse_fraction 3 seg = Some (nanos div 1000000) \<and> 0 \<le> nanos \<and> nanos < 1000000000"
proof (cases seg)
  case (Cons c f)
  with assms have c: "c = CHR ''.''" "f \<noteq> []" "list_all ascii_digit f"
    and n: "nanos = dec (take 9 f) * 10 ^ (9 - min (length f) 9)"
    by (auto simp: parse_fraction_def split: if_splits)
  have "0 \<le> dec (take 9 f)" "dec (take 9 f) < 10 ^ length (take 9 f)"
    using dec_bounds by blast+
  then have bounds: "0 \<le> nanos" "nanos < 10 ^ length (take 9 f) * 10 ^ (9 - min (length f) 9)"
    unfolding n by (auto intro: mult_strict_right_mono)
  have "(10 :: int) ^ length (take 9 f) * 10 ^ (9 - min (length f) 9) = 10 ^ 9"
    by (simp flip: power_add add: min_def)
  moreover have "dec (take 3 f) * 10 ^ (3 - min (length f) 3) = nanos div 1000000"
  proof (cases "length f \<le> 3")
    case True
    then have "9 - length f = (3 - length f) + 6" by simp
    then have "(10 :: int) ^ (9 - length f) = 10 ^ (3 - length f) * 10 ^ 6"
      by (simp only: power_add)
    then show ?thesis using True n by (simp add: min_def)
  next
    case False
    let ?m = "take 6 (drop 3 f)"
    have f9: "take 9 f = take 3 f @ ?m" by (simp add: take_add [of 3 6 f, simplified])
    have digits: "list_all ascii_digit (take 3 f @ ?m)"
      using c(3) by (metis f9 append_take_drop_id list_all_append)
    have k: "length ?m + (9 - min (length f) 9) = 6" using False by auto
    have "nanos = dec (take 3 f) * 10 ^ (length ?m + (9 - min (length f) 9)) + dec ?m * 10 ^ (9 - min (length f) 9)"
      unfolding n f9 dec_append [OF digits] power_add by (simp add: algebra_simps)
    moreover have "dec ?m * 10 ^ (9 - min (length f) 9) < 10 ^ (length ?m + (9 - min (length f) 9))"
      unfolding power_add using dec_bounds [of ?m] by (intro mult_strict_right_mono) auto
    moreover have "0 \<le> dec ?m * 10 ^ (9 - min (length f) 9)"
      using dec_bounds [of ?m] by simp
    ultimately have "nanos div 1000000 = dec (take 3 f)"
      unfolding k by simp
    then show ?thesis using False by simp
  qed
  ultimately show ?thesis
    using Cons c bounds by (simp add: parse_fraction_def)
qed (use assms in \<open>simp add: parse_fraction_def\<close>)

lemma fraction_None: "parse_fraction 9 seg = None \<Longrightarrow> parse_fraction 3 seg = None"
  by (auto simp: parse_fraction_def split: list.splits if_splits)


lemma seconds_of_date:
  assumes "is_valid_utc_date year month day" "0 \<le> year" "year \<le> 9999"
  shows "- 1000000 \<le> days_from_civil year month day \<and> days_from_civil year month day \<le> 4000000"
proof -
  obtain era y mp where p: "0 \<le> y" "y \<le> 399" "0 \<le> mp" "mp \<le> 11" "month = civil_month mp"
      "year = y + era * 400 + (if civil_month mp \<le> 2 then 1 else 0)"
      "0 \<le> month_start mp + day - 1" "month_start mp + day - 1 < year_length y"
    using date_parts [OF assms(1)] by metis
  have "- 1 \<le> era" "era \<le> 24"
    using p(1,2,6) assms by (auto split: if_splits)
  moreover have "0 \<le> year_start y + (month_start mp + day - 1)" "year_start y + (month_start mp + day - 1) < 146097"
    using year_of_day [OF p(1,2,7,8)] by auto
  ultimately show ?thesis
    unfolding p(5,6) days_from_parts [OF p(1-4)] by linarith
qed

lemma field_bounds: "0 \<le> field_at i j v \<and> (i \<le> j \<longrightarrow> field_at i j v < 10 ^ (j - i))"
proof -
  have "dec (take (j - i) (drop i v)) < 10 ^ length (take (j - i) (drop i v))" "0 \<le> dec (take (j - i) (drop i v))"
    using dec_bounds by blast+
  moreover have "(10 :: int) ^ length (take (j - i) (drop i v)) \<le> 10 ^ (j - i)"
    by (rule power_increasing) auto
  ultimately have "0 \<le> dec (take (j - i) (drop i v)) \<and> dec (take (j - i) (drop i v)) < 10 ^ (j - i)"
    by linarith
  then show ?thesis by (simp add: field_at_def)
qed

lemma epoch_exact:
  assumes "fields_ok v"
  shows "epoch_seconds v = days_from_civil (field_at 0 4 v) (field_at 5 7 v) (field_at 8 10 v) * 86400 + (field_at 11 13 v * 3600 + field_at 14 16 v * 60 + field_at 17 19 v)"
    and "0 \<le> field_at 11 13 v * 3600 + field_at 14 16 v * 60 + field_at 17 19 v" "field_at 11 13 v * 3600 + field_at 14 16 v * 60 + field_at 17 19 v < 86400"
    and "- 1000000 \<le> days_from_civil (field_at 0 4 v) (field_at 5 7 v) (field_at 8 10 v)" "days_from_civil (field_at 0 4 v) (field_at 5 7 v) (field_at 8 10 v) \<le> 4000000"
proof -
  let ?days = "days_from_civil (field_at 0 4 v) (field_at 5 7 v) (field_at 8 10 v)"
  let ?secs = "field_at 11 13 v * 3600 + field_at 14 16 v * 60 + field_at 17 19 v"
  have year: "0 \<le> field_at 0 4 v" "field_at 0 4 v \<le> 9999"
    using field_bounds [of 0 4 v] by simp_all
  show days: "- 1000000 \<le> ?days" "?days \<le> 4000000"
    using seconds_of_date [OF _ year] assms by (auto simp: fields_ok_def)
  have fields: "0 \<le> field_at 11 13 v" "field_at 11 13 v \<le> 23" "0 \<le> field_at 14 16 v" "field_at 14 16 v \<le> 59"
      "0 \<le> field_at 17 19 v" "field_at 17 19 v \<le> 59"
    using field_bounds assms by (auto simp: fields_ok_def)
  then show "0 \<le> ?secs" "?secs < 86400" by linarith+
  show "epoch_seconds v = ?days * 86400 + ?secs"
    unfolding epoch_seconds_def using days fields by (simp add: sat_i64_def)
qed

lemma ten_bytes:
  "10 \<le> length v \<Longrightarrow>
    \<exists>a0 a1 a2 a3 a4 a5 a6 a7 a8 a9 r. v = a0 # a1 # a2 # a3 # a4 # a5 # a6 # a7 # a8 # a9 # r"
  by (auto simp: eval_nat_numeral Suc_le_length_iff)

lemma layout_digits:
  assumes "has_rfc3339_utc_layout v"
  shows "list_all ascii_digit (take 4 v)" "list_all ascii_digit (take 2 (drop 5 v))" "list_all ascii_digit (take 2 (drop 8 v))"
    "take 10 v = take 4 v @ ''-'' @ take 2 (drop 5 v) @ ''-'' @ take 2 (drop 8 v)"
    "length (take 4 v) = 4" "length (take 2 (drop 5 v)) = 2" "length (take 2 (drop 8 v)) = 2"
    "parse_i64 v = None"
proof -
  obtain a0 a1 a2 a3 a4 a5 a6 a7 a8 a9 r where v: "v = a0 # a1 # a2 # a3 # a4 # a5 # a6 # a7 # a8 # a9 # r"
    using ten_bytes [of v] assms by (auto simp: has_rfc3339_utc_layout_def)
  show "list_all ascii_digit (take 4 v)" "list_all ascii_digit (take 2 (drop 5 v))" "list_all ascii_digit (take 2 (drop 8 v))"
    "take 10 v = take 4 v @ ''-'' @ take 2 (drop 5 v) @ ''-'' @ take 2 (drop 8 v)"
    "length (take 4 v) = 4" "length (take 2 (drop 5 v)) = 2" "length (take 2 (drop 8 v)) = 2"
    using assms unfolding v has_rfc3339_utc_layout_def by simp_all
  have "\<not> list_all ascii_digit (tl v)" "a0 \<noteq> CHR ''-''" "a0 \<noteq> CHR ''+''"
    using assms unfolding v has_rfc3339_utc_layout_def by (auto simp: ascii_digit_def digit_value_def)
  then have "digits_value 0 v = None"
    using digits_value_all [of 0 v] v by auto
  with \<open>a0 \<noteq> CHR ''-''\<close> \<open>a0 \<noteq> CHR ''+''\<close> show "parse_i64 v = None"
    by (simp add: parse_i64_def v)
qed

lemma text_as_rfc3339:
  assumes "parse_i64 v = None"
  shows "parse_timestamp_text v = parse_rfc3339_utc_to_ms v"
proof (cases "parse_fraction 9 (take (length v - 20) (drop 19 v))")
  case None
  then show ?thesis
    using assms fraction_None [OF None]
    by (simp add: parse_timestamp_text_def parse_rfc3339_utc_def parse_rfc3339_utc_to_ms_def)
next
  case (Some nanos)
  then show ?thesis
    using assms fraction_scaled [OF Some]
    by (simp add: parse_timestamp_text_def parse_rfc3339_utc_def parse_rfc3339_utc_to_ms_def trunc_div_nonneg)
qed

lemma scaled_range:
  "0 \<le> s \<Longrightarrow> s < 86400 \<Longrightarrow> 0 \<le> m \<Longrightarrow> m < 1000 \<Longrightarrow> 0 \<le> s * 1000 + m \<and> s * 1000 + m < ms_per_day"
  for s m :: int
  by linarith

text \<open>
  C20. Timestamps: the date printed for an accepted RFC 3339 timestamp is the date it was written with,
  the time of day is the one it names, and both ingestion paths read the same instant.
\<close>

theorem timestamps_print_back:
  assumes "parse_rfc3339_utc_to_ms v = Some ms"
  shows "civil_date ms = take 10 v \<and> parse_timestamp_text v = Some ms \<and>
    ms mod ms_per_day div 1000 = field_at 11 13 v * 3600 + field_at 14 16 v * 60 + field_at 17 19 v"
proof -
  let ?days = "days_from_civil (field_at 0 4 v) (field_at 5 7 v) (field_at 8 10 v)"
  let ?secs = "field_at 11 13 v * 3600 + field_at 14 16 v * 60 + field_at 17 19 v"
  let ?rest = "take (length v - 20) (drop 19 v)"
  have guards: "\<not> (length v < 20 \<or> v ! (length v - 1) \<noteq> CHR ''Z'' \<or> \<not> has_rfc3339_utc_layout v \<or> \<not> fields_ok v)"
    using assms by (auto simp: parse_rfc3339_utc_to_ms_def split: if_splits)
  then have layout: "has_rfc3339_utc_layout v" and ok: "fields_ok v" by auto
  from guards have long: "20 \<le> length v" "v \<noteq> []" by auto
  obtain nanos where nanos: "parse_fraction 9 ?rest = Some nanos"
    using assms guards fraction_None [of ?rest] by (fastforce simp: parse_rfc3339_utc_to_ms_def split: option.splits)
  note scaled = fraction_scaled [OF nanos]
  define millis where "millis = nanos div 1000000"
  have millis: "0 \<le> millis" "millis < 1000"
    using scaled unfolding millis_def by auto
  note epoch = epoch_exact [OF ok]
  have "ms = sat_i64 (sat_i64 (epoch_seconds v * 1000) + millis)"
    using assms guards scaled by (simp add: parse_rfc3339_utc_to_ms_def millis_def)
  then have ms: "ms = ?days * ms_per_day + (?secs * 1000 + millis)"
    using epoch millis by (simp add: sat_i64_def)
  have "parse_timestamp_text v = Some ms"
    using assms text_as_rfc3339 [OF layout_digits(8) [OF layout]] by simp
  moreover have rest: "0 \<le> ?secs * 1000 + millis" "?secs * 1000 + millis < ms_per_day"
    using scaled_range [OF epoch(2,3) millis] by simp_all
  then have day: "ms div ms_per_day = ?days" "ms mod ms_per_day = ?secs * 1000 + millis"
    unfolding ms by (simp_all add: div_pos_pos_trivial)
  then have "ms mod ms_per_day div 1000 = ?secs"
    using millis by simp
  moreover have "civil_from_days ?days = (field_at 0 4 v, field_at 5 7 v, field_at 8 10 v)"
    using civil_of_days ok by (simp add: fields_ok_def)
  then have "civil_date ms = take 10 v"
    unfolding civil_date_def day Let_def
    using long layout_digits(1-7) [OF layout] pad_dec [of "take 4 v"] pad_dec [of "take 2 (drop 5 v)"] pad_dec [of "take 2 (drop 8 v)"]
    by (simp add: field_at_def)
  ultimately show ?thesis by blast
qed

theorem timestamps_print_back_witness:
  "civil_date 951825599250 = ''2000-02-29''"
proof -
  have "parse_rfc3339_utc_to_ms ''2000-02-29T11:59:59.25Z'' = Some 951825599250" by code_simp
  from timestamps_print_back [OF this] show ?thesis by simp
qed

end
