(* ===== verification/Edit_Ingestion.thy ===== *)
theory Edit_Ingestion
  imports Platform_Types Ports Civil_Dates Text_Tools
begin

section \<open>From recent changes to edit events\<close>

text \<open>
  \<open>crates/sp42-live/src/stream_ingestor.rs\<close> and \<open>recent_changes.rs\<close>: the two ways an edit enters the
  system, from an event stream and from the recent-changes API. Decoding JSON into the declared
  shapes is the parameter \<open>decode\<close> (its error a text). Of a wiki's configuration only the fields read
  here are kept; \<open>wc_api_host\<close> is what the \<open>url\<close> crate answers for the host of the API address.
\<close>

record wiki_config =
  wc_wiki_id :: string
  wc_api_url :: string
  wc_api_host :: "string option"
  wc_namespace_allowlist :: "int list"

definition default_namespace_content_model :: "string option \<Rightarrow> int \<Rightarrow> string option" where
  "default_namespace_content_model host ns =
     (case host of
        None \<Rightarrow> None
      | Some h \<Rightarrow>
          (if h = ''wikidata.org'' \<or> suffix ''.wikidata.org'' h then wikidata_namespace_default ns else None))"

subsection \<open>Who edited\<close>

text \<open>
  Rust's \<open>IpAddr::from_str\<close>: a dotted quad, or up to eight groups of hexadecimal digits with one
  \<open>::\<close> and possibly a trailing dotted quad. A reader returns what it leaves unread.
\<close>

definition digit_of :: "nat \<Rightarrow> char \<Rightarrow> nat option" where
  "digit_of radix c =
     (let n = of_char c;
          d = (if 48 \<le> n \<and> n \<le> 57 then Some (n - 48)
               else if 97 \<le> n \<and> n \<le> 122 then Some (n - 87)
               else if 65 \<le> n \<and> n \<le> 90 then Some (n - 55) else None)
      in (case d of None \<Rightarrow> None | Some v \<Rightarrow> if v < radix then Some v else None))"

definition read_number :: "nat \<Rightarrow> nat \<Rightarrow> bool \<Rightarrow> nat \<Rightarrow> string \<Rightarrow> string option" where
  "read_number radix max_digits allow_zero_prefix max_value s =
     (let ds = takeWhile (\<lambda>c. digit_of radix c \<noteq> None) s;
          v = fold (\<lambda>c acc. acc * radix + the (digit_of radix c)) ds 0
      in if max_digits < length ds \<or> ds = [] \<or> (\<not> allow_zero_prefix \<and> hd ds = CHR ''0'' \<and> 1 < length ds) \<or>
            max_value < v then None
         else Some (drop (length ds) s))"

definition read_given_char :: "char \<Rightarrow> string \<Rightarrow> string option" where
  "read_given_char c s = (case s of [] \<Rightarrow> None | d # r \<Rightarrow> if d = c then Some r else None)"

definition read_separator :: "char \<Rightarrow> nat \<Rightarrow> (string \<Rightarrow> string option) \<Rightarrow> string \<Rightarrow> string option" where
  "read_separator sep index inner s =
     (if 0 < index then Option.bind (read_given_char sep s) inner else inner s)"

definition read_ipv4 :: "string \<Rightarrow> string option" where
  "read_ipv4 s =
     fold (\<lambda>i r. Option.bind r (read_separator (CHR ''.'') i (read_number 10 3 False 255))) [0, 1, 2, 3] (Some s)"

function read_groups :: "nat \<Rightarrow> nat \<Rightarrow> string \<Rightarrow> nat \<times> bool \<times> string" where
  "read_groups limit i s =
     (if limit \<le> i then (limit, False, s)
      else (case (if i < limit - 1 then read_separator (CHR '':'') i read_ipv4 s else None) of
              Some r \<Rightarrow> (i + 2, True, r)
            | None \<Rightarrow>
                (case read_separator (CHR '':'') i (read_number 16 4 True 65535) s of
                   Some r \<Rightarrow> read_groups limit (i + 1) r
                 | None \<Rightarrow> (i, False, s))))"
  by pat_completeness auto
termination
  by (relation "measure (\<lambda>(limit, i, _). limit - i)") auto

declare read_groups.simps [simp del]

definition read_ipv6 :: "string \<Rightarrow> string option" where
  "read_ipv6 s =
     (let (head_size, head_ipv4, r) = read_groups 8 0 s
      in if head_size = 8 then Some r
         else if head_ipv4 then None
         else (case Option.bind (read_given_char (CHR '':'') r) (read_given_char (CHR '':'')) of
                 None \<Rightarrow> None
               | Some r' \<Rightarrow> Some (snd (snd (read_groups (8 - (head_size + 1)) 0 r')))))"

definition is_ip_addr :: "string \<Rightarrow> bool" where
  "is_ip_addr s =
     (case read_ipv4 s of
        Some r \<Rightarrow> r = []
      | None \<Rightarrow> (case read_ipv6 s of Some r \<Rightarrow> r = [] | None \<Rightarrow> False))"

definition classify_editor :: "string \<Rightarrow> editor_identity" where
  "classify_editor user =
     (if prefix ''~'' user then Temporary user
      else if is_ip_addr user then Anonymous user
      else Registered user)"

subsection \<open>The stream ingestor\<close>

datatype stream_ingestor_error = InvalidPayload string | JsonError string

record stream_ingestor =
  si_wiki_id :: string
  si_api_host :: "string option"
  si_namespace_allowlist :: "int set"
  si_ignore_bots :: bool
  si_ignore_minor :: bool
  si_allowed_change_types :: "string set"

record stream_ingestor_options =
  so_ignore_bots :: bool
  so_ignore_minor :: bool
  so_allowed_change_types :: "string set"

definition supported_change_types :: "string list" where
  "supported_change_types = [''edit'', ''new'']"

definition with_options :: "wiki_config \<Rightarrow> stream_ingestor_options \<Rightarrow> stream_ingestor" where
  "with_options config options =
     \<lparr>si_wiki_id = wc_wiki_id config, si_api_host = wc_api_host config,
      si_namespace_allowlist = set (wc_namespace_allowlist config),
      si_ignore_bots = so_ignore_bots options, si_ignore_minor = so_ignore_minor options,
      si_allowed_change_types = so_allowed_change_types options\<rparr>"

definition ingestor_from_config :: "wiki_config \<Rightarrow> stream_ingestor" where
  "ingestor_from_config config =
     with_options config
       \<lparr>so_ignore_bots = True, so_ignore_minor = False, so_allowed_change_types = set supported_change_types\<rparr>"

datatype timestamp_value = TsNumeric int | TsText string

record revision_state =
  rs_new_rev_id :: "nat option"
  rs_old_rev_id :: "nat option"

record length_state =
  ls_new_length :: int
  ls_old_length :: "int option"

record recent_change_event =
  rce_wiki :: string
  rce_namespace :: int
  rce_title :: string
  rce_user :: string
  rce_timestamp :: timestamp_value
  rce_bot :: bool
  rce_minor :: bool
  rce_change_type :: string
  rce_comment :: "string option"
  rce_tags :: "string list"
  rce_revision :: "revision_state option"
  rce_length :: "length_state option"

definition to_ms :: "timestamp_value \<Rightarrow> stream_ingestor_error + int" where
  "to_ms t =
     (case t of
        TsNumeric n \<Rightarrow> Inr (normalize_unix_timestamp_ms n)
      | TsText v \<Rightarrow>
          (case parse_timestamp_text v of
             None \<Rightarrow> Inl (InvalidPayload (''unsupported timestamp format: '' @ v))
           | Some ms \<Rightarrow> Inr ms))"

definition is_allowed_change_type :: "string set \<Rightarrow> string \<Rightarrow> bool" where
  "is_allowed_change_type allowed t \<longleftrightarrow> t \<in> set supported_change_types \<and> t \<in> allowed"

definition compute_byte_delta :: "int \<Rightarrow> int option \<Rightarrow> int" where
  "compute_byte_delta new_length old_length = sat_i32 (new_length - (case old_length of None \<Rightarrow> 0 | Some n \<Rightarrow> n))"

definition nonempty_comment :: "string option \<Rightarrow> string option" where
  "nonempty_comment c = (case c of Some [] \<Rightarrow> None | _ \<Rightarrow> c)"

definition ingest ::
  "(string \<Rightarrow> string + recent_change_event) \<Rightarrow> stream_ingestor \<Rightarrow> string \<Rightarrow> stream_ingestor_error + edit_event option" where
  "ingest decode ing payload =
     (case decode payload of
        Inl e \<Rightarrow> Inl (JsonError e)
      | Inr raw \<Rightarrow>
          (if rce_wiki raw \<noteq> si_wiki_id ing then Inr None
           else if \<not> is_allowed_change_type (si_allowed_change_types ing) (rce_change_type raw) then Inr None
           else if si_ignore_bots ing \<and> rce_bot raw then Inr None
           else if si_ignore_minor ing \<and> rce_minor raw then Inr None
           else if si_namespace_allowlist ing \<noteq> {} \<and> rce_namespace raw \<notin> si_namespace_allowlist ing then Inr None
           else (case rce_revision raw of
                   None \<Rightarrow> Inl (InvalidPayload ''revision object is required'')
                 | Some revision \<Rightarrow>
                     (case rs_new_rev_id revision of
                        None \<Rightarrow> Inl (InvalidPayload ''revision.new is required'')
                      | Some rid \<Rightarrow>
                          (case to_ms (rce_timestamp raw) of
                             Inl e \<Rightarrow> Inl e
                           | Inr ms \<Rightarrow> Inr (Some
                               \<lparr>ev_wiki_id = rce_wiki raw, ev_title = rce_title raw, ev_namespace = rce_namespace raw,
                                ev_rev_id = rid, ev_old_rev_id = rs_old_rev_id revision,
                                ev_performer = classify_editor (rce_user raw), ev_timestamp_ms = ms,
                                ev_is_bot = rce_bot raw, ev_is_minor = rce_minor raw,
                                ev_is_new_page = (rce_change_type raw = ''new''), ev_tags = rce_tags raw,
                                ev_comment = nonempty_comment (rce_comment raw),
                                ev_byte_delta = (case rce_length raw of None \<Rightarrow> 0
                                   | Some l \<Rightarrow> compute_byte_delta (ls_new_length l) (ls_old_length l)),
                                ev_is_patrolled = False,
                                ev_content_model = default_namespace_content_model (si_api_host ing) (rce_namespace raw)\<rparr>))))))"

fun ingest_each ::
  "(string \<Rightarrow> stream_ingestor_error + edit_event option) \<Rightarrow> string list \<Rightarrow> stream_ingestor_error + edit_event list" where
  "ingest_each f [] = Inr []"
| "ingest_each f (line # ls) =
     (let trimmed = str_trim line
      in if trimmed = [] then ingest_each f ls
         else (case f trimmed of
                 Inl e \<Rightarrow> Inl e
               | Inr None \<Rightarrow> ingest_each f ls
               | Inr (Some ev) \<Rightarrow> (case ingest_each f ls of Inl e \<Rightarrow> Inl e | Inr evs \<Rightarrow> Inr (ev # evs))))"

definition ingest_lines ::
  "(string \<Rightarrow> string + recent_change_event) \<Rightarrow> stream_ingestor \<Rightarrow> string \<Rightarrow> stream_ingestor_error + edit_event list" where
  "ingest_lines decode ing payloads = ingest_each (ingest decode ing) (str_lines payloads)"

subsection \<open>Recent changes\<close>

datatype recent_changes_error = InvalidRequest string | InvalidResponse string | RcJson string

record recent_changes_query =
  rq_limit :: nat
  rq_rccontinue :: "string option"
  rq_include_bots :: bool
  rq_unpatrolled_only :: bool
  rq_include_minor :: bool
  rq_include_anonymous :: bool
  rq_include_new_pages :: bool
  rq_tag_filter :: "string option"
  rq_namespace_override :: "int list option"


record recent_changes_batch =
  rb_events :: "edit_event list"
  rb_next_continue :: "string option"

record recent_change_item =
  rci_change_type :: string
  rci_namespace :: int
  rci_title :: string
  rci_user :: string
  rci_timestamp :: string
  rci_bot :: bool
  rci_minor :: bool
  rci_is_new :: bool
  rci_revid :: nat
  rci_old_revid :: "nat option"
  rci_oldlen :: "int option"
  rci_newlen :: int
  rci_comment :: "string option"
  rci_tags :: "string list"
  rci_patrolled :: bool

record recent_changes_envelope =
  rcv_continue :: "string option option"
  rcv_recentchanges :: "recent_change_item list"

definition normalize_continue_token :: "string option \<Rightarrow> recent_changes_error + string option" where
  "normalize_continue_token token =
     (case token of
        None \<Rightarrow> Inr None
      | Some t \<Rightarrow>
          (if str_trim t = [] then Inl (InvalidRequest ''rccontinue must not be empty'') else Inr (Some t)))"

definition normalize_response_continue :: "string option \<Rightarrow> string option" where
  "normalize_response_continue token =
     (case token of None \<Rightarrow> None | Some t \<Rightarrow> if str_trim t = [] then None else Some t)"

definition effective_namespaces :: "wiki_config \<Rightarrow> recent_changes_query \<Rightarrow> int list" where
  "effective_namespaces config query =
     (case rq_namespace_override query of None \<Rightarrow> wc_namespace_allowlist config | Some ns \<Rightarrow> ns)"

definition show_flags :: "recent_changes_query \<Rightarrow> string list" where
  "show_flags query =
     (if \<not> rq_include_bots query then [''!bot''] else []) @
     (if rq_unpatrolled_only query then [''!patrolled''] else []) @
     (if \<not> rq_include_minor query then [''!minor''] else []) @
     (if \<not> rq_include_anonymous query then [''!anon''] else [])"

definition build_recent_changes_request ::
  "wiki_config \<Rightarrow> recent_changes_query \<Rightarrow> recent_changes_error + http_request" where
  "build_recent_changes_request config query =
     (if rq_limit query = 0 then Inl (InvalidRequest ''limit must be non-zero'')
      else (case normalize_continue_token (rq_rccontinue query) of
              Inl e \<Rightarrow> Inl e
            | Inr continue_token \<Rightarrow> Inr
                \<lparr>hr_method = Get, hr_url = wc_api_url config,
                 hr_query =
                   [(''action'', ''query''), (''format'', ''json''), (''formatversion'', ''2''),
                    (''list'', ''recentchanges''),
                    (''rcprop'', ''title|ids|sizes|flags|user|tags|comment|timestamp|patrolled''),
                    (''rclimit'', show_nat (rq_limit query)),
                    (''rctype'', if rq_include_new_pages query then ''edit|new'' else ''edit'')] @
                   (if show_flags query = [] then [] else [(''rcshow'', str_join ''|'' (show_flags query))]) @
                   (case rq_tag_filter query of
                      None \<Rightarrow> []
                    | Some tag \<Rightarrow> if str_trim tag = [] then [] else [(''rctag'', str_trim tag)]) @
                   (if effective_namespaces config query = [] then []
                    else [(''rcnamespace'', str_join ''|'' (map show_int (effective_namespaces config query)))]) @
                   (case continue_token of None \<Rightarrow> [] | Some t \<Rightarrow> [(''rccontinue'', t)]),
                 hr_headers = [], hr_body = []\<rparr>))"

definition change_event ::
  "wiki_config \<Rightarrow> recent_change_item \<Rightarrow> recent_changes_error + edit_event" where
  "change_event config change =
     (case parse_rfc3339_utc_to_ms (rci_timestamp change) of
        None \<Rightarrow> Inl (InvalidResponse (''unsupported timestamp format: '' @ rci_timestamp change))
      | Some ms \<Rightarrow> Inr
          \<lparr>ev_wiki_id = wc_wiki_id config, ev_title = rci_title change, ev_namespace = rci_namespace change,
           ev_rev_id = rci_revid change, ev_old_rev_id = rci_old_revid change,
           ev_performer = classify_editor (rci_user change), ev_timestamp_ms = ms,
           ev_is_bot = rci_bot change, ev_is_minor = rci_minor change,
           ev_is_new_page = (rci_change_type change = ''new'' \<or> rci_is_new change), ev_tags = rci_tags change,
           ev_comment = nonempty_comment (rci_comment change),
           ev_byte_delta = compute_byte_delta (rci_newlen change) (rci_oldlen change),
           ev_is_patrolled = rci_patrolled change,
           ev_content_model = default_namespace_content_model (wc_api_host config) (rci_namespace change)\<rparr>)"

definition change_wanted :: "wiki_config \<Rightarrow> recent_changes_query \<Rightarrow> recent_change_item \<Rightarrow> bool" where
  "change_wanted config query change \<longleftrightarrow>
     rci_change_type change \<in> {''edit'', ''new''} \<and>
     \<not> (\<not> rq_include_bots query \<and> rci_bot change) \<and>
     \<not> (\<not> rq_include_minor query \<and> rci_minor change) \<and>
     \<not> (effective_namespaces config query \<noteq> [] \<and> rci_namespace change \<notin> set (effective_namespaces config query))"

fun change_events ::
  "wiki_config \<Rightarrow> recent_changes_query \<Rightarrow> recent_change_item list \<Rightarrow> recent_changes_error + edit_event list" where
  "change_events config query [] = Inr []"
| "change_events config query (change # cs) =
     (if \<not> change_wanted config query change then change_events config query cs
      else (case change_event config change of
              Inl e \<Rightarrow> Inl e
            | Inr ev \<Rightarrow> (case change_events config query cs of Inl e \<Rightarrow> Inl e | Inr evs \<Rightarrow> Inr (ev # evs))))"

definition parse_recent_changes_response ::
  "(string \<Rightarrow> string + recent_changes_envelope) \<Rightarrow> wiki_config \<Rightarrow> http_response \<Rightarrow> recent_changes_query \<Rightarrow>
     recent_changes_error + recent_changes_batch" where
  "parse_recent_changes_response decode config response query =
     (if \<not> (200 \<le> hs_status response \<and> hs_status response < 300)
      then Inl (InvalidResponse (''unexpected HTTP status '' @ show_nat (hs_status response)))
      else (case decode (hs_body response) of
              Inl e \<Rightarrow> Inl (RcJson e)
            | Inr parsed \<Rightarrow>
                (case change_events config query (rcv_recentchanges parsed) of
                   Inl e \<Rightarrow> Inl e
                 | Inr evs \<Rightarrow> Inr
                     \<lparr>rb_events = evs,
                      rb_next_continue = normalize_response_continue (Option.bind (rcv_continue parsed) id)\<rparr>)))"

fun http_client_error_text :: "http_client_error \<Rightarrow> string" where
  "http_client_error_text (HttpTransport m) = ''transport failed: '' @ m"
| "http_client_error_text (HttpInvalidResponse m) = ''response was invalid: '' @ m"
| "http_client_error_text (HttpStatePoisoned r) = ''stub state is poisoned: '' @ r"

definition execute_recent_changes ::
  "(string \<Rightarrow> string + recent_changes_envelope) \<Rightarrow> (http_request \<Rightarrow> http_client_error + http_response) \<Rightarrow>
     wiki_config \<Rightarrow> recent_changes_query \<Rightarrow> recent_changes_error + recent_changes_batch" where
  "execute_recent_changes decode client config query =
     (case build_recent_changes_request config query of
        Inl e \<Rightarrow> Inl e
      | Inr request \<Rightarrow>
          (case client request of
             Inl e \<Rightarrow> Inl (InvalidResponse (http_client_error_text e))
           | Inr response \<Rightarrow> parse_recent_changes_response decode config response query))"

subsection \<open>The two ways agree\<close>










definition sample_announcement :: recent_change_event where
  "sample_announcement =
     \<lparr>rce_wiki = ''frwiki'', rce_namespace = 0, rce_title = ''Chat'', rce_user = ''Alice'',
      rce_timestamp = TsNumeric 1709208000, rce_bot = False, rce_minor = False, rce_change_type = ''edit'',
      rce_comment = Some [], rce_tags = [],
      rce_revision = Some \<lparr>rs_new_rev_id = Some 7, rs_old_rev_id = Some 6\<rparr>,
      rce_length = Some \<lparr>ls_new_length = 12, ls_old_length = Some 10\<rparr>\<rparr>"

definition sample_wiki :: wiki_config where
  "sample_wiki = \<lparr>wc_wiki_id = ''frwiki'', wc_api_url = ''https://fr.wikipedia.org/w/api.php'',
     wc_api_host = Some ''fr.wikipedia.org'', wc_namespace_allowlist = [0]\<rparr>"


lemma sample_ingest:
  assumes "decode payload = Inr sample_announcement"
  shows "\<exists>ev. ingest decode (ingestor_from_config sample_wiki) payload = Inr (Some ev)"
  unfolding ingest_def assms
  by (simp add: sample_announcement_def ingestor_from_config_def with_options_def sample_wiki_def
      is_allowed_change_type_def supported_change_types_def to_ms_def)

end
