(* ===== verification/Stream_Runtime.thy ===== *)
theory Stream_Runtime
  imports Edit_Ingestion
begin

section \<open>The stream runtime\<close>

text \<open>
  \<open>crates/sp42-live/src/stream_runtime.rs\<close>: pulls events from a source, keeps those the ingestor turns
  into edits and records the id of the last event it consumed in a storage, so that a restarted runtime
  can reconnect there. The source and the storage are the records of operations of the ports; an
  operation answers a result and the new state of the runtime. Waiting for the first actionable event
  of a source that only sends others never ends: that loop is a partial function, \<open>None\<close> its divergence.
\<close>

subsection \<open>UTF-8\<close>

text \<open>
  \<open>String::from_utf8\<close>: the length of the sequence at the front of a text, or the length of the invalid
  part (\<open>None\<close> when the text ends inside a sequence), then the first error with its position.
\<close>

definition second_byte_ok :: "nat \<Rightarrow> nat \<Rightarrow> bool" where
  "second_byte_ok a b \<longleftrightarrow>
     (if a = 0xE0 then 0xA0 \<le> b \<and> b \<le> 0xBF
      else if a = 0xED then 0x80 \<le> b \<and> b \<le> 0x9F
      else if a = 0xF0 then 0x90 \<le> b \<and> b \<le> 0xBF
      else if a = 0xF4 then 0x80 \<le> b \<and> b \<le> 0x8F
      else 0x80 \<le> b \<and> b \<le> 0xBF)"

definition utf8_width :: "nat \<Rightarrow> nat" where
  "utf8_width a =
     (if a < 0x80 then 1 else if 0xC2 \<le> a \<and> a \<le> 0xDF then 2
      else if 0xE0 \<le> a \<and> a \<le> 0xEF then 3 else if 0xF0 \<le> a \<and> a \<le> 0xF4 then 4 else 0)"

definition utf8_step :: "nat list \<Rightarrow> nat option + nat" where
  "utf8_step bs =
     (case bs of
        [] \<Rightarrow> Inl None
      | a # r \<Rightarrow>
          (let w = utf8_width a;
               good = takeWhile (\<lambda>(i, b). if i = 1 then second_byte_ok a b else 0x80 \<le> b \<and> b \<le> 0xBF)
                        (zip [1..<w] r)
           in if w = 0 then Inl (Some 1)
              else if length good = w - 1 then Inr w
              else if length r = length good then Inl None
              else Inl (Some (length good + 1))))"

function utf8_error :: "nat \<Rightarrow> nat list \<Rightarrow> (nat \<times> nat option) option" where
  "utf8_error i bs =
     (if bs = [] then None
      else (case utf8_step bs of
              Inl e \<Rightarrow> Some (i, e)
            | Inr w \<Rightarrow> if w = 0 then None else utf8_error (i + w) (drop w bs)))"
  by pat_completeness auto
termination
  by (relation "measure (\<lambda>(_, bs). length bs)") auto

definition utf8_error_text :: "nat \<times> nat option \<Rightarrow> string" where
  "utf8_error_text e =
     (case e of
        (i, Some n) \<Rightarrow> ''invalid utf-8 sequence of '' @ show_nat n @ '' bytes from index '' @ show_nat i
      | (i, None) \<Rightarrow> ''incomplete utf-8 byte sequence from index '' @ show_nat i)"

definition from_utf8 :: "string \<Rightarrow> string + string" where
  "from_utf8 bytes =
     (case utf8_error 0 (map of_char bytes) of None \<Rightarrow> Inr bytes | Some e \<Rightarrow> Inl (utf8_error_text e))"

subsection \<open>The runtime\<close>

datatype stream_runtime_error =
    SR_EventSource event_source_error
  | SR_Storage storage_error
  | SR_Ingestor stream_ingestor_error

record ('e, 's) stream_env =
  env_source :: "'e event_source"
  env_storage :: "'s storage"
  env_decode :: "string \<Rightarrow> string + recent_change_event"

record ('e, 's) stream_runtime =
  sr_event_source :: 'e
  sr_storage :: 's
  sr_ingestor :: stream_ingestor
  sr_checkpoint_key :: string
  sr_last_event_id :: "string option"
  sr_delivered_events :: nat
  sr_filtered_events :: nat
  sr_reconnect_attempts :: nat

record stream_runtime_status =
  ss_checkpoint_key :: string
  ss_last_event_id :: "string option"
  ss_delivered_events :: nat
  ss_filtered_events :: nat
  ss_reconnect_attempts :: nat

definition new_stream_runtime :: "stream_ingestor \<Rightarrow> 'e \<Rightarrow> 's \<Rightarrow> string \<Rightarrow> ('e, 's) stream_runtime" where
  "new_stream_runtime ing source store key =
     \<lparr>sr_event_source = source, sr_storage = store, sr_ingestor = ing, sr_checkpoint_key = key,
      sr_last_event_id = None, sr_delivered_events = 0, sr_filtered_events = 0, sr_reconnect_attempts = 0\<rparr>"

definition stream_runtime_from_config :: "wiki_config \<Rightarrow> 'e \<Rightarrow> 's \<Rightarrow> ('e, 's) stream_runtime" where
  "stream_runtime_from_config config source store =
     new_stream_runtime (ingestor_from_config config) source store (''stream.last_event_id.'' @ wc_wiki_id config)"

definition decode_checkpoint :: "string option \<Rightarrow> stream_runtime_error + string option" where
  "decode_checkpoint v =
     (case v of
        None \<Rightarrow> Inr None
      | Some bytes \<Rightarrow>
          (case from_utf8 bytes of
             Inl e \<Rightarrow> Inl (SR_Storage (StorageOperation (''checkpoint data is not valid UTF-8: '' @ e)))
           | Inr s \<Rightarrow> Inr (Some s)))"

definition load_checkpoint :: "('e, 's) stream_env \<Rightarrow> ('e, 's) stream_runtime \<Rightarrow> stream_runtime_error + string option" where
  "load_checkpoint env rt =
     (case st_get (env_storage env) (sr_checkpoint_key rt) (sr_storage rt) of
        Inl e \<Rightarrow> Inl (SR_Storage e)
      | Inr v \<Rightarrow> decode_checkpoint v)"

definition store_checkpoint ::
  "('e, 's) stream_env \<Rightarrow> string \<Rightarrow> ('e, 's) stream_runtime \<Rightarrow> (stream_runtime_error + unit) \<times> ('e, 's) stream_runtime" where
  "store_checkpoint env event_id rt =
     (case st_set (env_storage env) (sr_checkpoint_key rt) event_id (sr_storage rt) of
        (Inl e, s) \<Rightarrow> (Inl (SR_Storage e), rt\<lparr>sr_storage := s\<rparr>)
      | (Inr _, s) \<Rightarrow> (Inr (), rt\<lparr>sr_storage := s, sr_last_event_id := Some event_id\<rparr>))"

definition checkpoint_event ::
  "('e, 's) stream_env \<Rightarrow> server_sent_event \<Rightarrow> ('e, 's) stream_runtime \<Rightarrow>
     (stream_runtime_error + unit) \<times> ('e, 's) stream_runtime" where
  "checkpoint_event env event rt =
     (case sse_id event of None \<Rightarrow> (Inr (), rt) | Some event_id \<Rightarrow> store_checkpoint env event_id rt)"

definition restore_checkpoint ::
  "('e, 's) stream_env \<Rightarrow> ('e, 's) stream_runtime \<Rightarrow> (stream_runtime_error + unit) \<times> ('e, 's) stream_runtime" where
  "restore_checkpoint env rt =
     (case load_checkpoint env rt of
        Inl e \<Rightarrow> (Inl e, rt)
      | Inr v \<Rightarrow> (Inr (), rt\<lparr>sr_last_event_id := v\<rparr>))"

definition reconnect_from_checkpoint ::
  "('e, 's) stream_env \<Rightarrow> ('e, 's) stream_runtime \<Rightarrow> (stream_runtime_error + unit) \<times> ('e, 's) stream_runtime" where
  "reconnect_from_checkpoint env rt =
     (case (case sr_last_event_id rt of Some v \<Rightarrow> Inr (Some v) | None \<Rightarrow> load_checkpoint env rt) of
        Inl e \<Rightarrow> (Inl e, rt)
      | Inr checkpoint \<Rightarrow>
          (case es_reconnect (env_source env) checkpoint (sr_event_source rt) of
             (Inl e, source) \<Rightarrow> (Inl (SR_EventSource e), rt\<lparr>sr_event_source := source\<rparr>)
           | (Inr _, source) \<Rightarrow>
               (Inr (), rt\<lparr>sr_event_source := source,
                  sr_reconnect_attempts := sat_u64 (Suc (sr_reconnect_attempts rt)),
                  sr_last_event_id := checkpoint\<rparr>)))"

definition initialize_stream ::
  "('e, 's) stream_env \<Rightarrow> ('e, 's) stream_runtime \<Rightarrow> (stream_runtime_error + unit) \<times> ('e, 's) stream_runtime" where
  "initialize_stream env rt =
     (case restore_checkpoint env rt of
        (Inl e, rt') \<Rightarrow> (Inl e, rt')
      | (Inr _, rt') \<Rightarrow>
          (if sr_last_event_id rt' \<noteq> None then reconnect_from_checkpoint env rt' else (Inr (), rt')))"

partial_function (option) next_actionable_event ::
  "('e, 's) stream_env \<Rightarrow> ('e, 's) stream_runtime \<Rightarrow>
     ((stream_runtime_error + edit_event option) \<times> ('e, 's) stream_runtime) option" where
  "next_actionable_event env rt =
     (case es_next (env_source env) (sr_event_source rt) of
        (pulled, source) \<Rightarrow>
          (case pulled of
             Inl e \<Rightarrow> Some (Inl (SR_EventSource e), rt\<lparr>sr_event_source := source\<rparr>)
           | Inr None \<Rightarrow> Some (Inr None, rt\<lparr>sr_event_source := source\<rparr>)
           | Inr (Some event) \<Rightarrow>
               (case ingest (env_decode env) (sr_ingestor rt) (sse_data event) of
                  Inl e \<Rightarrow> Some (Inl (SR_Ingestor e), rt\<lparr>sr_event_source := source\<rparr>)
                | Inr ingested \<Rightarrow>
                    (case checkpoint_event env event (rt\<lparr>sr_event_source := source\<rparr>) of
                       (stored, rt') \<Rightarrow>
                         (case stored of
                            Inl e \<Rightarrow> Some (Inl e, rt')
                          | Inr _ \<Rightarrow>
                              (case ingested of
                                 Some edit \<Rightarrow>
                                   Some (Inr (Some edit),
                                     rt'\<lparr>sr_delivered_events := sat_u64 (Suc (sr_delivered_events rt'))\<rparr>)
                               | None \<Rightarrow>
                                   next_actionable_event env
                                     (rt'\<lparr>sr_filtered_events := sat_u64 (Suc (sr_filtered_events rt'))\<rparr>)))))))"

declare next_actionable_event.simps [code]

fun drain_actionable_events ::
  "('e, 's) stream_env \<Rightarrow> nat \<Rightarrow> ('e, 's) stream_runtime \<Rightarrow>
     ((stream_runtime_error + edit_event list) \<times> ('e, 's) stream_runtime) option" where
  "drain_actionable_events env 0 rt = Some (Inr [], rt)"
| "drain_actionable_events env (Suc n) rt =
     (case next_actionable_event env rt of
        None \<Rightarrow> None
      | Some (Inl e, rt') \<Rightarrow> Some (Inl e, rt')
      | Some (Inr None, rt') \<Rightarrow> Some (Inr [], rt')
      | Some (Inr (Some edit), rt') \<Rightarrow>
          (case drain_actionable_events env n rt' of
             None \<Rightarrow> None
           | Some (Inl e, rt'') \<Rightarrow> Some (Inl e, rt'')
           | Some (Inr edits, rt'') \<Rightarrow> Some (Inr (edit # edits), rt'')))"

definition stream_status :: "('e, 's) stream_runtime \<Rightarrow> stream_runtime_status" where
  "stream_status rt =
     \<lparr>ss_checkpoint_key = sr_checkpoint_key rt, ss_last_event_id = sr_last_event_id rt,
      ss_delivered_events = sr_delivered_events rt, ss_filtered_events = sr_filtered_events rt,
      ss_reconnect_attempts = sr_reconnect_attempts rt\<rparr>"

subsection \<open>The checkpoint survives\<close>

definition text_ok :: "string \<Rightarrow> bool" where
  "text_ok s \<longleftrightarrow> from_utf8 s = Inr s"

text \<open>Ids are Rust strings: in the states the source can be in, what it sends has UTF-8 ids.\<close>

definition ids_ok :: "'e event_source \<Rightarrow> ('e \<Rightarrow> bool) \<Rightarrow> bool" where
  "ids_ok source reach \<longleftrightarrow> (\<forall>st. reach st \<longrightarrow>
     reach (snd (es_next source st)) \<and> (\<forall>c. reach (snd (es_reconnect source c st))) \<and>
     (\<forall>e i. fst (es_next source st) = Inr (Some e) \<longrightarrow> sse_id e = Some i \<longrightarrow> text_ok i))"

text \<open>Memory and storage name the same event.\<close>

definition checkpoint_agrees :: "('e, 's) stream_env \<Rightarrow> ('e, 's) stream_runtime \<Rightarrow> bool" where
  "checkpoint_agrees env rt \<longleftrightarrow> load_checkpoint env rt = Inr (sr_last_event_id rt)"

datatype stream_op = DrainUpTo nat | Reconnect

fun stream_run :: "('e, 's) stream_env \<Rightarrow> stream_op list \<Rightarrow> ('e, 's) stream_runtime \<Rightarrow> ('e, 's) stream_runtime option" where
  "stream_run env [] rt = Some rt"
| "stream_run env (DrainUpTo n # ops) rt =
     (case drain_actionable_events env n rt of None \<Rightarrow> None | Some (_, rt') \<Rightarrow> stream_run env ops rt')"
| "stream_run env (Reconnect # ops) rt = stream_run env ops (snd (reconnect_from_checkpoint env rt))"

lemma load_checkpoint_fields:
  "sr_storage rt' = sr_storage rt \<Longrightarrow> sr_checkpoint_key rt' = sr_checkpoint_key rt \<Longrightarrow>
     load_checkpoint env rt' = load_checkpoint env rt"
  by (simp add: load_checkpoint_def)

lemmas next_actionable_induct = next_actionable_event.raw_induct [rotated, consumes 1, case_names step]

context checkpoint_storage begin

definition kept :: "('e, 's) stream_env \<Rightarrow> ('e \<Rightarrow> bool) \<Rightarrow> string \<Rightarrow> ('e, 's) stream_runtime \<Rightarrow> bool" where
  "kept env reach key rt \<longleftrightarrow> inv (sr_storage rt) \<and> checkpoint_agrees env rt \<and> sr_checkpoint_key rt = key \<and>
     reach (sr_event_source rt)"

lemma kept_cong:
  "sr_storage rt' = sr_storage rt \<Longrightarrow> sr_checkpoint_key rt' = sr_checkpoint_key rt \<Longrightarrow>
     sr_last_event_id rt' = sr_last_event_id rt \<Longrightarrow> sr_event_source rt' = sr_event_source rt \<Longrightarrow>
     kept env reach key rt' = kept env reach key rt"
  by (simp add: kept_def checkpoint_agrees_def load_checkpoint_def)

lemma store_kept:
  assumes "kept env reach key rt" "env_storage env = ops" "text_ok i"
  shows "kept env reach key (snd (store_checkpoint env i rt))"
proof (cases "st_set ops (sr_checkpoint_key rt) i (sr_storage rt)")
  case (Pair r s)
  have "inv (sr_storage rt)" using assms(1) by (simp add: kept_def)
  from set_law [OF this Pair] show ?thesis
    using assms Pair
    by (cases r) (auto simp: kept_def checkpoint_agrees_def load_checkpoint_def store_checkpoint_def
        decode_checkpoint_def text_ok_def)
qed

lemma checkpoint_event_kept:
  assumes "kept env reach key rt" "env_storage env = ops" "\<And>i. sse_id e = Some i \<Longrightarrow> text_ok i"
  shows "kept env reach key (snd (checkpoint_event env e rt))"
  using assms(1) store_kept [OF assms(1,2) assms(3)] by (simp add: checkpoint_event_def split: option.split)

lemma next_kept:
  assumes "next_actionable_event env rt = Some (r, rt')" "env_storage env = ops" "ids_ok (env_source env) reach"
    "kept env reach key rt"
  shows "kept env reach key rt'"
proof -
  have "case y of (r, rt') \<Rightarrow> env_storage env = ops \<longrightarrow> ids_ok (env_source env) reach \<longrightarrow> kept env reach key rt \<longrightarrow> kept env reach key rt'"
    if "next_actionable_event env rt = Some y" for env rt y
    using that
  proof (induction rule: next_actionable_induct)
    case (step rec env rt y)
    obtain pulled source where next_eq: "es_next (env_source env) (sr_event_source rt) = (pulled, source)" by fastforce
    let ?rt = "rt\<lparr>sr_event_source := source\<rparr>"
    have kept: "kept env reach key ?rt" if "ids_ok (env_source env) reach" "kept env reach key rt"
      using that next_eq by (auto simp: kept_def checkpoint_agrees_def load_checkpoint_def ids_ok_def dest: spec)
    show ?case
    proof (cases "\<exists>e ing. pulled = Inr (Some e) \<and> ingest (env_decode env) (sr_ingestor rt) (sse_data e) = Inr ing")
      case False
      with step(2) next_eq kept show ?thesis
        by (auto split: sum.splits option.splits)
    next
      case True
      then obtain e ing where e: "pulled = Inr (Some e)"
        "ingest (env_decode env) (sr_ingestor rt) (sse_data e) = Inr ing" by blast
      obtain stored rt1 where stored: "checkpoint_event env e ?rt = (stored, rt1)" by fastforce
      have stored_kept: "kept env reach key rt1" if "env_storage env = ops" "ids_ok (env_source env) reach" "kept env reach key rt"
        using checkpoint_event_kept [of env reach key ?rt e] that kept stored next_eq e
        by (auto simp: kept_def ids_ok_def dest!: spec [of _ "sr_event_source rt"])
      have counted: "kept env reach key (rt1\<lparr>sr_delivered_events := n\<rparr>) = kept env reach key rt1"
        "kept env reach key (rt1\<lparr>sr_filtered_events := n\<rparr>) = kept env reach key rt1" for n
        by (rule kept_cong; simp)+
      show ?thesis
        using step(1) [of env "rt1\<lparr>sr_filtered_events := sat_u64 (Suc (sr_filtered_events rt1))\<rparr>" y] step(2) next_eq e stored stored_kept counted
        by (auto split: sum.splits option.splits prod.splits)
    qed
  qed
  from this [OF assms(1)] assms(2-) show ?thesis by simp
qed

lemma drain_kept:
  "drain_actionable_events env n rt = Some (r, rt') \<Longrightarrow> env_storage env = ops \<Longrightarrow> ids_ok (env_source env) reach \<Longrightarrow>
     kept env reach key rt \<Longrightarrow> kept env reach key rt'"
proof (induction n arbitrary: rt r rt')
  case (Suc n)
  then obtain r1 rt1 where first: "next_actionable_event env rt = Some (r1, rt1)"
    by (auto split: option.splits)
  then have kept: "kept env reach key rt1"
    using Suc.prems by (intro next_kept [OF first])
  show ?case
  proof (cases "\<exists>edit. r1 = Inr (Some edit)")
    case True
    then obtain r2 where "drain_actionable_events env n rt1 = Some (r2, rt')"
      using Suc.prems(1) first by (auto split: option.splits sum.splits)
    then show ?thesis using Suc.IH Suc.prems(2,3) kept by blast
  next
    case False
    then have "rt' = rt1" using Suc.prems(1) first by (auto split: sum.splits option.splits)
    then show ?thesis using kept by simp
  qed
qed simp

lemma reconnect_kept:
  assumes "env_storage env = ops" "ids_ok (env_source env) reach" "kept env reach key rt"
  shows "kept env reach key (snd (reconnect_from_checkpoint env rt))"
proof -
  have "reach (snd (es_reconnect (env_source env) c (sr_event_source rt)))" for c
    using assms(2,3) by (simp add: ids_ok_def kept_def)
  then show ?thesis
    using assms by (auto simp: reconnect_from_checkpoint_def kept_def checkpoint_agrees_def load_checkpoint_def
        split: option.splits sum.splits prod.splits) (metis snd_conv)+
qed

lemma run_kept:
  "stream_run env sops rt = Some rt' \<Longrightarrow> env_storage env = ops \<Longrightarrow> ids_ok (env_source env) reach \<Longrightarrow>
     kept env reach key rt \<Longrightarrow> kept env reach key rt'"
proof (induction env sops rt rule: stream_run.induct)
  case (2 env n sops rt)
  then show ?case by (auto split: option.splits dest: drain_kept)
next
  case (3 env sops rt)
  then show ?case using reconnect_kept [of env reach key rt] by simp
qed simp

lemma restore_kept:
  assumes "restore_checkpoint env rt = (Inr (), rt')" "inv (sr_storage rt)" "reach (sr_event_source rt)"
  shows "kept env reach (sr_checkpoint_key rt) rt'"
  using assms by (auto simp: restore_checkpoint_def kept_def checkpoint_agrees_def load_checkpoint_def split: sum.splits)

end

text \<open>
  C17. A restart resumes where the runtime stopped: after any sequence of drains and reconnections of a
  runtime that restored its checkpoint from the file storage, and whatever writes of checkpoints failed
  on the way, a new runtime on the same files restores exactly the event id the old one had last
  recorded.
\<close>

theorem stream_restart_resumes:
  assumes "env_storage env = file_storage (\<lambda>_. None) undeletable faults" and "ids_ok (env_source env) reach" and "reach source"
    and "restore_checkpoint env (new_stream_runtime ing source store key) = (Inr (), rt0)"
    and "stream_run env ops rt0 = Some rt"
  shows "restore_checkpoint env (new_stream_runtime ing' source' (sr_storage rt) key) =
    (Inr (), (new_stream_runtime ing' source' (sr_storage rt) key)\<lparr>sr_last_event_id := sr_last_event_id rt\<rparr>)"
proof -
  have "disk.kept env reach key rt0"
    using disk.restore_kept [OF assms(4), of reach] assms(3) by (simp add: new_stream_runtime_def)
  from disk.run_kept [OF assms(5,1,2) this] have "load_checkpoint env rt = Inr (sr_last_event_id rt)"
    "sr_checkpoint_key rt = key"
    by (simp_all add: disk.kept_def checkpoint_agrees_def)
  then have "load_checkpoint env (new_stream_runtime ing' source' (sr_storage rt) key) = Inr (sr_last_event_id rt)"
    by (simp add: load_checkpoint_def new_stream_runtime_def)
  then show ?thesis by (simp add: restore_checkpoint_def)
qed


lemma replay_ids: "ids_ok replay_event_source (\<lambda>r. list_all (\<lambda>e. pred_option text_ok (sse_id e)) (rp_events r))"
  by (auto simp: ids_ok_def replay_event_source_def split: list.split)

definition sample_event_message :: "string \<Rightarrow> server_sent_event" where
  "sample_event_message i = \<lparr>sse_event_type = None, sse_id = Some i, sse_data = ''{}'', sse_retry_ms = None\<rparr>"

definition sample_env :: "(nat \<Rightarrow> write_fault) \<Rightarrow> (replay_state, file_state) stream_env" where
  "sample_env faults =
     \<lparr>env_source = replay_event_source, env_storage = file_storage (\<lambda>_. None) (\<lambda>_. None) faults,
      env_decode = (\<lambda>_. Inr (sample_announcement\<lparr>rce_wiki := ''dewiki''\<rparr>))\<rparr>"

text \<open>The second checkpoint fails to be written: the restarted runtime is at the first event.\<close>

theorem stream_restart_resumes_witness:
  "let new = (\<lambda>source files. new_stream_runtime (ingestor_from_config sample_wiki) source files ''k'');
       faults = (\<lambda>n. if n = 1 then RenameFault ''disk full'' else NoFault);
       start = new \<lparr>rp_events = [sample_event_message ''41'', sample_event_message ''42''], rp_last_reconnect_id = None\<rparr>
         \<lparr>fs_files = [], fs_sequence = 0\<rparr>;
       rt = the (stream_run (sample_env faults) [DrainUpTo 3, Reconnect] start)
   in snd (restore_checkpoint (sample_env faults) (new (sr_event_source rt) (sr_storage rt))) =
     (new (sr_event_source rt) (sr_storage rt))\<lparr>sr_last_event_id := Some ''41''\<rparr>"
proof -
  let ?env = "sample_env (\<lambda>n. if n = 1 then RenameFault ''disk full'' else NoFault)"
  let ?src = "\<lparr>rp_events = [sample_event_message ''41'', sample_event_message ''42''], rp_last_reconnect_id = None\<rparr>"
  let ?new = "\<lambda>source files. new_stream_runtime (ingestor_from_config sample_wiki) source files ''k''"
  let ?start = "?new ?src \<lparr>fs_files = [], fs_sequence = 0\<rparr>"
  let ?reach = "\<lambda>r. list_all (\<lambda>e. pred_option text_ok (sse_id e)) (rp_events r)"
  have disk_env: "env_storage ?env = file_storage (\<lambda>_. None) (\<lambda>_. None) (\<lambda>n. if n = 1 then RenameFault ''disk full'' else NoFault)"
    and source: "ids_ok (env_source ?env) ?reach"
    by (simp_all add: sample_env_def replay_ids)
  have "text_ok ''41''" "text_ok ''42''" unfolding text_ok_def by code_simp+
  then have reach: "?reach ?src" by (simp add: sample_event_message_def)
  have first: "restore_checkpoint ?env ?start = (Inr (), ?start)"
    by (simp add: restore_checkpoint_def load_checkpoint_def new_stream_runtime_def sample_env_def file_storage_def
        file_get_def decode_checkpoint_def)
  have "map_option sr_last_event_id (stream_run ?env [DrainUpTo 3, Reconnect] ?start) = Some (Some ''41'')"
    by (simp add: numeral_3_eq_3 next_actionable_event.simps sample_env_def replay_event_source_def new_stream_runtime_def
        ingest_def sample_announcement_def ingestor_from_config_def with_options_def sample_wiki_def sample_event_message_def
        checkpoint_event_def store_checkpoint_def file_storage_def file_set_def Let_def reconnect_from_checkpoint_def)
  then obtain rt where run: "stream_run ?env [DrainUpTo 3, Reconnect] ?start = Some rt" "sr_last_event_id rt = Some ''41''"
    by blast
  from stream_restart_resumes [OF disk_env source reach first run(1)] run show ?thesis
    by (simp add: Let_def)
qed

subsection \<open>Draining a healthy and a broken stream\<close>

text \<open>A runtime over a replayed stream and the memory storage.\<close>

definition replayed :: "(replay_state, (string, string) btree) stream_env \<Rightarrow>
    (replay_state, (string, string) btree) stream_runtime \<Rightarrow> bool" where
  "replayed env rt \<longleftrightarrow> env_source env = replay_event_source \<and> env_storage env = memory_storage \<and> bt_wf (sr_storage rt)"

definition ingested ::
  "('e, 's) stream_env \<Rightarrow> stream_ingestor \<Rightarrow> server_sent_event \<Rightarrow> stream_ingestor_error + edit_event option" where
  "ingested env ing e = ingest (env_decode env) ing (sse_data e)"

definition edit_of :: "('e, 's) stream_env \<Rightarrow> stream_ingestor \<Rightarrow> server_sent_event \<Rightarrow> edit_event option" where
  "edit_of env ing e = (case ingested env ing e of Inl _ \<Rightarrow> None | Inr edit \<Rightarrow> edit)"

definition note_id :: "server_sent_event \<Rightarrow> string option \<Rightarrow> string option" where
  "note_id e last_id = (case sse_id e of None \<Rightarrow> last_id | Some i \<Rightarrow> Some i)"

abbreviation replay_queue :: "(replay_state, 's) stream_runtime \<Rightarrow> server_sent_event list" where
  "replay_queue rt \<equiv> rp_events (sr_event_source rt)"

definition consumed_to ::
  "(replay_state, (string, string) btree) stream_env \<Rightarrow> server_sent_event list \<Rightarrow>
     (replay_state, (string, string) btree) stream_runtime \<Rightarrow> (replay_state, (string, string) btree) stream_runtime \<Rightarrow> bool" where
  "consumed_to env es rt rt' \<longleftrightarrow> replayed env rt' \<and> sr_ingestor rt' = sr_ingestor rt \<and>
     sr_checkpoint_key rt' = sr_checkpoint_key rt \<and> replay_queue rt = es @ replay_queue rt' \<and>
     sr_last_event_id rt' = fold note_id es (sr_last_event_id rt)"

lemma consumed_refl: "replayed env rt \<Longrightarrow> consumed_to env [] rt rt"
  by (simp add: consumed_to_def)

lemma consumed_trans: "consumed_to env es rt rt1 \<Longrightarrow> consumed_to env fs rt1 rt2 \<Longrightarrow> consumed_to env (es @ fs) rt rt2"
  by (auto simp: consumed_to_def)

lemma next_empty:
  "replayed env rt \<Longrightarrow> replay_queue rt = [] \<Longrightarrow> next_actionable_event env rt = Some (Inr None, rt)"
  by (simp add: next_actionable_event.simps replayed_def replay_event_source_def)

lemma next_broken:
  assumes "replayed env rt" "replay_queue rt = e # es" "ingested env (sr_ingestor rt) e = Inl err"
  shows "\<exists>rt'. next_actionable_event env rt = Some (Inl (SR_Ingestor err), rt') \<and>
    sr_storage rt' = sr_storage rt \<and> sr_last_event_id rt' = sr_last_event_id rt \<and>
    sr_delivered_events rt' = sr_delivered_events rt"
  using assms by (simp add: next_actionable_event.simps replayed_def replay_event_source_def ingested_def)

lemma next_step:
  assumes "replayed env rt" "replay_queue rt = e # es" "ingested env (sr_ingestor rt) e = Inr edit"
  obtains rt' where "consumed_to env [e] rt rt'" "replay_queue rt' = es"
    "next_actionable_event env rt = (case edit of
       Some ev \<Rightarrow> Some (Inr (Some ev), rt') | None \<Rightarrow> next_actionable_event env rt')"
    "edit = None \<or> sr_delivered_events rt' = sat_u64 (Suc (sr_delivered_events rt))"
    "sse_id e = None \<or> map_of (sr_storage rt') (sr_checkpoint_key rt) = sse_id e"
proof -
  let ?src = "(sr_event_source rt)\<lparr>rp_events := es\<rparr>"
  let ?rt1 = "rt\<lparr>sr_event_source := ?src\<rparr>"
  let ?rt2 = "(case sse_id e of None \<Rightarrow> ?rt1
    | Some i \<Rightarrow> ?rt1\<lparr>sr_storage := bt_insert (sr_checkpoint_key rt) i (sr_storage rt), sr_last_event_id := Some i\<rparr>)"
  have stored: "checkpoint_event env e ?rt1 = (Inr (), ?rt2)"
    using assms(1) by (simp add: checkpoint_event_def store_checkpoint_def replayed_def memory_storage_def split: option.split)
  have fields: "sr_delivered_events ?rt2 = sr_delivered_events rt" "sr_filtered_events ?rt2 = sr_filtered_events rt"
    by (simp_all split: option.split)
  show thesis
  proof (cases edit)
    case None
    let ?rt' = "?rt2\<lparr>sr_filtered_events := sat_u64 (Suc (sr_filtered_events ?rt2))\<rparr>"
    have "next_actionable_event env rt = next_actionable_event env ?rt'"
      using assms stored None by (subst next_actionable_event.simps)
        (simp add: replayed_def replay_event_source_def ingested_def)
    then show thesis
      using assms None by (intro that [of ?rt'])
        (auto simp: consumed_to_def replayed_def note_id_def split: option.splits)
  next
    case (Some ev)
    let ?rt' = "?rt2\<lparr>sr_delivered_events := sat_u64 (Suc (sr_delivered_events ?rt2))\<rparr>"
    have "next_actionable_event env rt = Some (Inr (Some ev), ?rt')"
      using assms stored Some by (subst next_actionable_event.simps)
        (simp add: replayed_def replay_event_source_def ingested_def)
    then show thesis
      using assms Some by (intro that [of ?rt'])
        (auto simp: consumed_to_def replayed_def note_id_def split: option.splits)
  qed
qed

lemma next_replayed:
  "replayed env rt \<Longrightarrow> list_all (\<lambda>e. \<not> isl (ingested env (sr_ingestor rt) e)) (replay_queue rt) \<Longrightarrow>
   \<exists>es rt'. consumed_to env es rt rt' \<and> next_actionable_event env rt = Some (Inr (case es of
        [] \<Rightarrow> None | _ \<Rightarrow> edit_of env (sr_ingestor rt) (last es)), rt') \<and>
     (case List.map_filter (edit_of env (sr_ingestor rt)) es of
        [] \<Rightarrow> replay_queue rt' = [] \<and> (es = [] \<or> edit_of env (sr_ingestor rt) (last es) = None)
      | [ev] \<Rightarrow> es \<noteq> [] \<and> edit_of env (sr_ingestor rt) (last es) = Some ev
      | _ \<Rightarrow> False)"
proof (induction "replay_queue rt" arbitrary: rt)
  case Nil
  then show ?case
    using next_empty [of env rt] consumed_refl by (intro exI [of _ "[]"] exI [of _ rt]) (simp add: List.map_filter_simps)
next
  case (Cons e es)
  then obtain edit where edit: "ingested env (sr_ingestor rt) e = Inr edit"
    by (metis list.set_intros(1) list_all_iff sum.collapse(2))
  obtain rt1 where rt1: "consumed_to env [e] rt rt1" "replay_queue rt1 = es"
      "next_actionable_event env rt = (case edit of
         Some ev \<Rightarrow> Some (Inr (Some ev), rt1) | None \<Rightarrow> next_actionable_event env rt1)"
    by (rule next_step [OF Cons.prems(1) Cons.hyps(2) [symmetric] edit])
  have ing: "sr_ingestor rt1 = sr_ingestor rt" "replayed env rt1" using rt1(1) by (simp_all add: consumed_to_def)
  have edit_e: "edit_of env (sr_ingestor rt) e = edit" using edit by (simp add: edit_of_def)
  show ?case
  proof (cases edit)
    case (Some ev)
    then show ?thesis
      using rt1 edit_e by (intro exI [of _ "[e]"] exI [of _ rt1]) (simp add: List.map_filter_simps)
  next
    case None
    have "list_all (\<lambda>e. \<not> isl (ingested env (sr_ingestor rt1) e)) (replay_queue rt1)"
      using Cons.prems(2) Cons.hyps(2) rt1(2) ing by (metis list.pred_inject(2))
    from Cons.hyps(1) [OF rt1(2) [symmetric] ing(2) this] obtain fs rt' where step:
        "consumed_to env fs rt1 rt'" "next_actionable_event env rt1 = Some (Inr (case fs of
          [] \<Rightarrow> None | _ \<Rightarrow> edit_of env (sr_ingestor rt) (last fs)), rt')"
        "case List.map_filter (edit_of env (sr_ingestor rt)) fs of
           [] \<Rightarrow> replay_queue rt' = [] \<and> (fs = [] \<or> edit_of env (sr_ingestor rt) (last fs) = None)
         | [ev] \<Rightarrow> fs \<noteq> [] \<and> edit_of env (sr_ingestor rt) (last fs) = Some ev
         | _ \<Rightarrow> False"
      unfolding ing(1) by blast
    have "consumed_to env (e # fs) rt rt'" using consumed_trans [OF rt1(1) step(1)] by simp
    then show ?thesis
      using step(2,3) rt1(3) None edit_e by (intro exI [of _ "e # fs"] exI [of _ rt'])
        (auto simp: List.map_filter_simps split: list.splits)
  qed
qed

text \<open>
  Draining terminates and is in order: on a replayed stream whose events all decode, a drain returns
  the edits of the events it consumed, in order and at most as many as asked for; it stops early only
  when the stream is used up, and the last recorded id is that of the last consumed event that had one.
\<close>

theorem drain_returns_in_order:
  assumes "replayed env rt" and "list_all (\<lambda>e. \<not> isl (ingested env (sr_ingestor rt) e)) (replay_queue rt)"
  shows "\<exists>es rt'. drain_actionable_events env limit rt =
      Some (Inr (List.map_filter (edit_of env (sr_ingestor rt)) es), rt') \<and>
    replay_queue rt = es @ replay_queue rt' \<and> sr_last_event_id rt' = fold note_id es (sr_last_event_id rt) \<and>
    length (List.map_filter (edit_of env (sr_ingestor rt)) es) \<le> limit \<and>
    (length (List.map_filter (edit_of env (sr_ingestor rt)) es) = limit \<or> replay_queue rt' = [])"
proof -
  have "\<exists>es rt'. drain_actionable_events env limit rt =
      Some (Inr (List.map_filter (edit_of env (sr_ingestor rt)) es), rt') \<and> consumed_to env es rt rt' \<and>
    length (List.map_filter (edit_of env (sr_ingestor rt)) es) \<le> limit \<and>
    (length (List.map_filter (edit_of env (sr_ingestor rt)) es) = limit \<or> replay_queue rt' = [])"
    using assms
  proof (induction limit arbitrary: rt)
    case 0
    then show ?case
      using consumed_refl by (intro exI [of _ "[]"] exI [of _ rt]) (simp add: List.map_filter_simps)
  next
    case (Suc n)
    let ?edits = "List.map_filter (edit_of env (sr_ingestor rt))"
    obtain es rt1 where first: "consumed_to env es rt rt1"
        "next_actionable_event env rt = Some (Inr (case es of [] \<Rightarrow> None | _ \<Rightarrow> edit_of env (sr_ingestor rt) (last es)), rt1)"
        "case ?edits es of
           [] \<Rightarrow> replay_queue rt1 = [] \<and> (es = [] \<or> edit_of env (sr_ingestor rt) (last es) = None)
         | [ev] \<Rightarrow> es \<noteq> [] \<and> edit_of env (sr_ingestor rt) (last es) = Some ev
         | _ \<Rightarrow> False"
      using next_replayed [OF Suc.prems] by blast
    show ?case
    proof (cases "?edits es")
      case Nil
      then have "drain_actionable_events env (Suc n) rt = Some (Inr [], rt1)" "replay_queue rt1 = []"
        using first(2,3) by (auto split: list.splits)
      then show ?thesis
        using first(1) Nil by (intro exI [of _ es] exI [of _ rt1]) simp
    next
      case (Cons ev more)
      then have ev: "?edits es = [ev]" "es \<noteq> []" "edit_of env (sr_ingestor rt) (last es) = Some ev"
        using first(3) by (auto split: list.splits)
      have ing: "sr_ingestor rt1 = sr_ingestor rt" "replayed env rt1" "replay_queue rt = es @ replay_queue rt1"
        using first(1) by (simp_all add: consumed_to_def)
      have "list_all (\<lambda>e. \<not> isl (ingested env (sr_ingestor rt1) e)) (replay_queue rt1)"
        using Suc.prems(2) ing by (simp add: list_all_iff)
      from Suc.IH [OF ing(2) this] obtain fs rt' where rest:
          "drain_actionable_events env n rt1 = Some (Inr (?edits fs), rt')" "consumed_to env fs rt1 rt'"
          "length (?edits fs) \<le> n" "length (?edits fs) = n \<or> replay_queue rt' = []"
        unfolding ing(1) by blast
      have "next_actionable_event env rt = Some (Inr (Some ev), rt1)"
        using first(2) ev by (cases es) auto
      moreover have "?edits (es @ fs) = ev # ?edits fs"
        using ev(1) by (simp add: List.map_filter_def)
      ultimately show ?thesis
        using rest consumed_trans [OF first(1) rest(2)] by (intro exI [of _ "es @ fs"] exI [of _ rt']) simp
    qed
  qed
  then show ?thesis by (auto simp: consumed_to_def)
qed

text \<open>
  A drain that fails loses edits: when an event with an id is followed by one that cannot be decoded,
  a drain that asks for both returns only the error, although the first edit has been checkpointed and
  counted as delivered; a reconnection from the checkpoint starts after it, so no caller ever sees it.
\<close>

theorem failed_drain_loses_edits:
  assumes "replayed env rt" and "replay_queue rt = e # broken # rest" and "sse_id e = Some i"
    and "ingested env (sr_ingestor rt) e = Inr (Some edit)" and "ingested env (sr_ingestor rt) broken = Inl err"
  shows "\<exists>rt'. drain_actionable_events env (Suc (Suc n)) rt = Some (Inl (SR_Ingestor err), rt') \<and>
    map_of (sr_storage rt') (sr_checkpoint_key rt) = Some i \<and> sr_last_event_id rt' = Some i \<and>
    sr_delivered_events rt' = sat_u64 (Suc (sr_delivered_events rt))"
proof -
  obtain rt1 where step: "consumed_to env [e] rt rt1" "replay_queue rt1 = broken # rest"
      "next_actionable_event env rt = (case Some edit of
         Some ev \<Rightarrow> Some (Inr (Some ev), rt1) | None \<Rightarrow> next_actionable_event env rt1)"
      "Some edit = None \<or> sr_delivered_events rt1 = sat_u64 (Suc (sr_delivered_events rt))"
      "sse_id e = None \<or> map_of (sr_storage rt1) (sr_checkpoint_key rt) = sse_id e"
    by (rule next_step [OF assms(1,2,4)])
  have rt1: "consumed_to env [e] rt rt1" "replay_queue rt1 = broken # rest"
      "next_actionable_event env rt = Some (Inr (Some edit), rt1)"
      "sr_delivered_events rt1 = sat_u64 (Suc (sr_delivered_events rt))"
      "map_of (sr_storage rt1) (sr_checkpoint_key rt) = Some i"
    using step assms(3) by simp_all
  then have "replayed env rt1" "sr_ingestor rt1 = sr_ingestor rt" "sr_last_event_id rt1 = Some i"
    using assms(3) by (auto simp: consumed_to_def note_id_def)
  moreover from this obtain rt' where "next_actionable_event env rt1 = Some (Inl (SR_Ingestor err), rt')"
      "sr_storage rt' = sr_storage rt1" "sr_last_event_id rt' = sr_last_event_id rt1"
      "sr_delivered_events rt' = sr_delivered_events rt1"
    using next_broken [OF _ rt1(2), of env err] assms(5) by auto
  ultimately show ?thesis
    using rt1 by (intro exI [of _ rt']) simp
qed

definition picky_env :: "(replay_state, (string, string) btree) stream_env" where
  "picky_env =
     \<lparr>env_source = replay_event_source, env_storage = memory_storage,
      env_decode = (\<lambda>s. if s = ''{}'' then Inr sample_announcement else Inl ''expected value'')\<rparr>"

definition sample_runtime :: "server_sent_event list \<Rightarrow> (replay_state, (string, string) btree) stream_runtime" where
  "sample_runtime es =
     new_stream_runtime (ingestor_from_config sample_wiki) \<lparr>rp_events = es, rp_last_reconnect_id = None\<rparr> [] ''k''"

lemma sample_runtime_simps [simp]:
  "replayed picky_env (sample_runtime es)" "replay_queue (sample_runtime es) = es"
  "sr_ingestor (sample_runtime es) = ingestor_from_config sample_wiki"
  "sr_checkpoint_key (sample_runtime es) = ''k''" "sr_last_event_id (sample_runtime es) = None"
  by (simp_all add: replayed_def picky_env_def sample_runtime_def new_stream_runtime_def)

lemma picky_good: "\<exists>ev. ingested picky_env (ingestor_from_config sample_wiki) (sample_event_message i) = Inr (Some ev)"
  unfolding ingested_def by (rule sample_ingest) (simp add: picky_env_def sample_event_message_def)

lemma picky_bad:
  "ingested picky_env (ingestor_from_config sample_wiki) ((sample_event_message i)\<lparr>sse_data := ''oops''\<rparr>) =
     Inl (JsonError ''expected value'')"
  by (simp add: ingested_def picky_env_def ingest_def sample_event_message_def)

theorem drain_returns_in_order_witness:
  "\<exists>edit rt'. drain_actionable_events picky_env 1
     (sample_runtime [sample_event_message ''41'', sample_event_message ''42'']) = Some (Inr [edit], rt')"
proof -
  let ?es = "[sample_event_message ''41'', sample_event_message ''42'']"
  obtain ev ev' where "ingested picky_env (ingestor_from_config sample_wiki) (sample_event_message ''41'') = Inr (Some ev)"
      "ingested picky_env (ingestor_from_config sample_wiki) (sample_event_message ''42'') = Inr (Some ev')"
    using picky_good by blast
  then have "list_all (\<lambda>e. \<not> isl (ingested picky_env (sr_ingestor (sample_runtime ?es)) e)) (replay_queue (sample_runtime ?es))"
    by simp
  from drain_returns_in_order [OF sample_runtime_simps(1) this, where limit = 1, unfolded sample_runtime_simps]
  obtain es rt' where drained:
      "drain_actionable_events picky_env 1 (sample_runtime ?es) =
        Some (Inr (List.map_filter (edit_of picky_env (ingestor_from_config sample_wiki)) es), rt')"
      "?es = es @ replay_queue rt'"
      "length (List.map_filter (edit_of picky_env (ingestor_from_config sample_wiki)) es) = 1 \<or> replay_queue rt' = []"
      "length (List.map_filter (edit_of picky_env (ingestor_from_config sample_wiki)) es) \<le> 1"
    by blast
  moreover have "length (List.map_filter (edit_of picky_env (ingestor_from_config sample_wiki)) ?es) = 2"
    using \<open>ingested picky_env _ (sample_event_message ''41'') = _\<close> \<open>ingested picky_env _ (sample_event_message ''42'') = _\<close>
    by (simp add: edit_of_def List.map_filter_simps)
  ultimately have "length (List.map_filter (edit_of picky_env (ingestor_from_config sample_wiki)) es) = 1"
    by auto
  then obtain edit where "List.map_filter (edit_of picky_env (ingestor_from_config sample_wiki)) es = [edit]"
    by (metis One_nat_def length_0_conv length_Suc_conv)
  with drained(1) show ?thesis by auto
qed

theorem failed_drain_loses_edits_witness:
  "\<exists>rt'. drain_actionable_events picky_env 2
     (sample_runtime [sample_event_message ''41'', (sample_event_message ''42'')\<lparr>sse_data := ''oops''\<rparr>]) =
       Some (Inl (SR_Ingestor (JsonError ''expected value'')), rt') \<and>
     map_of (sr_storage rt') ''k'' = Some ''41''"
proof -
  let ?bad = "(sample_event_message ''42'')\<lparr>sse_data := ''oops''\<rparr>"
  let ?rt = "sample_runtime [sample_event_message ''41'', ?bad]"
  obtain ev where ev: "ingested picky_env (sr_ingestor ?rt) (sample_event_message ''41'') = Inr (Some ev)"
    using picky_good by auto
  have bad: "ingested picky_env (sr_ingestor ?rt) ?bad = Inl (JsonError ''expected value'')"
    by (simp only: picky_bad sample_runtime_simps)
  have queue: "replay_queue ?rt = sample_event_message ''41'' # ?bad # []" and i: "sse_id (sample_event_message ''41'') = Some ''41''"
    by (simp_all add: sample_event_message_def)
  from failed_drain_loses_edits [OF sample_runtime_simps(1) queue i ev bad, of 0] show ?thesis
    by (auto simp: numeral_2_eq_2)
qed

end
