(* ===== verification/Backlog_Runtime.thy ===== *)
theory Backlog_Runtime
  imports Stream_Runtime
begin

section \<open>The backlog runtime\<close>

text \<open>
  \<open>crates/sp42-live/src/backlog_runtime.rs\<close>: pages through the recent changes of a wiki and records the
  continuation token of the API in a storage. A poll is given the HTTP client as the function that
  answers its request; it returns the batch or the error with the new state.
\<close>

datatype backlog_error = BL_RecentChanges recent_changes_error | BL_Storage storage_error

record 's backlog_env =
  bl_ops :: "'s storage"
  bl_decode :: "string \<Rightarrow> string + recent_changes_envelope"

record 's backlog_runtime =
  br_storage :: 's
  br_wiki_config :: wiki_config
  br_limit :: nat
  br_include_bots :: bool
  br_checkpoint_key :: string
  br_next_continue :: "string option"
  br_last_batch_size :: nat
  br_total_events :: nat
  br_poll_count :: nat

record backlog_status =
  bs_checkpoint_key :: string
  bs_next_continue :: "string option"
  bs_last_batch_size :: nat
  bs_total_events :: nat
  bs_poll_count :: nat

definition new_backlog :: "wiki_config \<Rightarrow> 's \<Rightarrow> nat \<Rightarrow> bool \<Rightarrow> string \<Rightarrow> 's backlog_runtime" where
  "new_backlog wiki store limit bots key =
     \<lparr>br_storage = store, br_wiki_config = wiki, br_limit = limit, br_include_bots = bots, br_checkpoint_key = key,
      br_next_continue = None, br_last_batch_size = 0, br_total_events = 0, br_poll_count = 0\<rparr>"

definition backlog_from_config :: "wiki_config \<Rightarrow> 's \<Rightarrow> nat \<Rightarrow> bool \<Rightarrow> 's backlog_runtime" where
  "backlog_from_config wiki store limit bots =
     new_backlog wiki store limit bots (''recentchanges.rccontinue.'' @ wc_wiki_id wiki)"

definition backlog_load ::
  "'s backlog_env \<Rightarrow> 's backlog_runtime \<Rightarrow> backlog_error + string option" where
  "backlog_load env rt =
     (case st_get (bl_ops env) (br_checkpoint_key rt) (br_storage rt) of
        Inl e \<Rightarrow> Inl (BL_Storage e)
      | Inr None \<Rightarrow> Inr None
      | Inr (Some bytes) \<Rightarrow>
          (case from_utf8 bytes of
             Inl e \<Rightarrow> Inl (BL_Storage (StorageOperation (''checkpoint data is not valid UTF-8: '' @ e)))
           | Inr token \<Rightarrow> map_sum BL_RecentChanges id (normalize_continue_token (Some token))))"

definition backlog_initialize ::
  "'s backlog_env \<Rightarrow> 's backlog_runtime \<Rightarrow> (backlog_error + unit) \<times> 's backlog_runtime" where
  "backlog_initialize env rt =
     (case backlog_load env rt of
        Inl e \<Rightarrow> (Inl e, rt)
      | Inr v \<Rightarrow> (Inr (), rt\<lparr>br_next_continue := v\<rparr>))"

definition backlog_query :: "'s backlog_runtime \<Rightarrow> recent_changes_query" where
  "backlog_query rt =
     \<lparr>rq_limit = br_limit rt, rq_rccontinue = br_next_continue rt, rq_include_bots = br_include_bots rt,
      rq_unpatrolled_only = False, rq_include_minor = True, rq_include_anonymous = True,
      rq_include_new_pages = True, rq_tag_filter = None, rq_namespace_override = None\<rparr>"

definition build_next_request :: "'s backlog_runtime \<Rightarrow> backlog_error + http_request" where
  "build_next_request rt =
     map_sum BL_RecentChanges id (build_recent_changes_request (br_wiki_config rt) (backlog_query rt))"

definition apply_batch ::
  "'s backlog_env \<Rightarrow> recent_changes_batch \<Rightarrow> 's backlog_runtime \<Rightarrow> (backlog_error + unit) \<times> 's backlog_runtime" where
  "apply_batch env batch rt =
     (case (case rb_next_continue batch of
              Some token \<Rightarrow> st_set (bl_ops env) (br_checkpoint_key rt) token (br_storage rt)
            | None \<Rightarrow> st_remove (bl_ops env) (br_checkpoint_key rt) (br_storage rt)) of
        (Inl e, s) \<Rightarrow> (Inl (BL_Storage e), rt\<lparr>br_storage := s\<rparr>)
      | (Inr _, s) \<Rightarrow>
          (Inr (), rt\<lparr>br_storage := s, br_last_batch_size := length (rb_events batch),
             br_total_events := sat_u64 (br_total_events rt + length (rb_events batch)),
             br_poll_count := sat_u64 (Suc (br_poll_count rt)), br_next_continue := rb_next_continue batch\<rparr>))"

definition backlog_poll ::
  "'s backlog_env \<Rightarrow> (http_request \<Rightarrow> http_client_error + http_response) \<Rightarrow> 's backlog_runtime \<Rightarrow>
     (backlog_error + recent_changes_batch) \<times> 's backlog_runtime" where
  "backlog_poll env client rt =
     (case execute_recent_changes (bl_decode env) client (br_wiki_config rt) (backlog_query rt) of
        Inl e \<Rightarrow> (Inl (BL_RecentChanges e), rt)
      | Inr batch \<Rightarrow>
          (case apply_batch env batch rt of
             (Inl e, rt') \<Rightarrow> (Inl e, rt')
           | (Inr _, rt') \<Rightarrow> (Inr batch, rt')))"

definition reset_checkpoint ::
  "'s backlog_env \<Rightarrow> 's backlog_runtime \<Rightarrow> (backlog_error + unit) \<times> 's backlog_runtime" where
  "reset_checkpoint env rt =
     (case st_remove (bl_ops env) (br_checkpoint_key rt) (br_storage rt) of
        (Inl e, s) \<Rightarrow> (Inl (BL_Storage e), rt\<lparr>br_storage := s\<rparr>)
      | (Inr _, s) \<Rightarrow> (Inr (), rt\<lparr>br_storage := s, br_next_continue := None\<rparr>))"

definition backlog_status_of :: "'s backlog_runtime \<Rightarrow> backlog_status" where
  "backlog_status_of rt =
     \<lparr>bs_checkpoint_key = br_checkpoint_key rt, bs_next_continue = br_next_continue rt,
      bs_last_batch_size = br_last_batch_size rt, bs_total_events = br_total_events rt,
      bs_poll_count = br_poll_count rt\<rparr>"

subsection \<open>The continuation survives\<close>

datatype backlog_op =
    Poll "http_request \<Rightarrow> http_client_error + http_response"
  | ResetCheckpoint

fun backlog_step :: "'s backlog_env \<Rightarrow> backlog_op \<Rightarrow> 's backlog_runtime \<Rightarrow> 's backlog_runtime" where
  "backlog_step env (Poll client) rt = snd (backlog_poll env client rt)"
| "backlog_step env ResetCheckpoint rt = snd (reset_checkpoint env rt)"

text \<open>The API answers text.\<close>

definition tokens_ok :: "(string \<Rightarrow> string + recent_changes_envelope) \<Rightarrow> bool" where
  "tokens_ok decode \<longleftrightarrow> (\<forall>body v t. decode body = Inr v \<longrightarrow> rcv_continue v = Some (Some t) \<longrightarrow> text_ok t)"

lemma executed_token:
  assumes "execute_recent_changes decode client config query = Inr batch" "tokens_ok decode"
    "rb_next_continue batch = Some t"
  shows "text_ok t \<and> str_trim t \<noteq> []"
  using assms
  by (auto simp: execute_recent_changes_def parse_recent_changes_response_def normalize_response_continue_def tokens_ok_def
      bind_eq_Some_conv split: sum.splits option.splits if_splits)

context checkpoint_storage begin

definition resumable :: "'s backlog_env \<Rightarrow> string \<Rightarrow> 's backlog_runtime \<Rightarrow> bool" where
  "resumable env key rt \<longleftrightarrow> inv (br_storage rt) \<and> br_checkpoint_key rt = key \<and>
     backlog_load env rt = Inr (br_next_continue rt)"

lemma apply_resumable:
  assumes "resumable env key rt" "bl_ops env = ops"
    "\<And>t. rb_next_continue batch = Some t \<Longrightarrow> text_ok t \<and> str_trim t \<noteq> []"
  shows "resumable env key (snd (apply_batch env batch rt))"
proof (cases "rb_next_continue batch")
  case None
  obtain r s where rs: "st_remove ops (br_checkpoint_key rt) (br_storage rt) = (r, s)" by fastforce
  with remove_law [of "br_storage rt" "br_checkpoint_key rt" r s] None assms(1,2) show ?thesis
    by (cases r) (auto simp: resumable_def apply_batch_def backlog_load_def)
next
  case (Some t)
  obtain r s where rs: "st_set ops (br_checkpoint_key rt) t (br_storage rt) = (r, s)" by fastforce
  with set_law [of "br_storage rt" "br_checkpoint_key rt" t r s] Some assms(1,2) assms(3) [OF Some] show ?thesis
    by (cases r) (auto simp: resumable_def apply_batch_def backlog_load_def text_ok_def normalize_continue_token_def)
qed

lemma step_resumable:
  assumes "resumable env key rt" "bl_ops env = ops" "tokens_ok (bl_decode env)"
  shows "resumable env key (backlog_step env op rt)"
proof (cases op)
  case (Poll client)
  show ?thesis
  proof (cases "execute_recent_changes (bl_decode env) client (br_wiki_config rt) (backlog_query rt)")
    case (Inl e)
    then show ?thesis using Poll assms(1) by (simp add: backlog_poll_def)
  next
    case (Inr batch)
    have "resumable env key (snd (apply_batch env batch rt))"
      using executed_token [OF Inr assms(3)] by (intro apply_resumable assms)
    then show ?thesis using Poll Inr
      by (cases "apply_batch env batch rt") (simp add: backlog_poll_def split: sum.split)
  qed
next
  case ResetCheckpoint
  obtain r s where rs: "st_remove ops (br_checkpoint_key rt) (br_storage rt) = (r, s)" by fastforce
  with remove_law [of "br_storage rt" "br_checkpoint_key rt" r s] ResetCheckpoint assms(1,2) show ?thesis
    by (cases r) (auto simp: resumable_def reset_checkpoint_def backlog_load_def)
qed

lemma run_resumable:
  "resumable env key rt \<Longrightarrow> bl_ops env = ops \<Longrightarrow> tokens_ok (bl_decode env) \<Longrightarrow>
     resumable env key (fold (backlog_step env) steps rt)"
proof (induction steps arbitrary: rt)
  case (Cons op steps)
  then show ?case by (simp add: step_resumable)
qed simp

lemma initialized_resumable:
  "backlog_initialize env rt = (Inr (), rt') \<Longrightarrow> inv (br_storage rt) \<Longrightarrow> resumable env (br_checkpoint_key rt) rt'"
  by (auto simp: backlog_initialize_def resumable_def backlog_load_def split: sum.splits)

end

text \<open>
  C19. The backlog resumes: after any sequence of polls and resets of a runtime initialised from the file
  storage, whatever the API answered and whichever writes failed, a new runtime on the same files
  initialises without error to the continuation token the old one was at.
\<close>

theorem backlog_restart_resumes:
  assumes "bl_ops env = file_storage (\<lambda>_. None) undeletable faults" and "tokens_ok (bl_decode env)"
    and "backlog_initialize env (new_backlog wiki store limit bots key) = (Inr (), rt0)"
    and "rt = fold (backlog_step env) steps rt0"
  shows "backlog_initialize env (new_backlog wiki (br_storage rt) limit bots key) =
    (Inr (), (new_backlog wiki (br_storage rt) limit bots key)\<lparr>br_next_continue := br_next_continue rt\<rparr>)"
proof -
  have "disk.resumable env key rt0"
    using disk.initialized_resumable [OF assms(3)] by (simp add: new_backlog_def)
  then have "disk.resumable env key rt"
    unfolding assms(4) using assms(1,2) by (intro disk.run_resumable)
  then have "backlog_load env (new_backlog wiki (br_storage rt) limit bots key) = Inr (br_next_continue rt)"
    by (auto simp: disk.resumable_def backlog_load_def new_backlog_def)
  then show ?thesis by (simp add: backlog_initialize_def)
qed

definition sample_backlog_env :: "file_state backlog_env" where
  "sample_backlog_env =
     \<lparr>bl_ops = file_storage (\<lambda>_. None) (\<lambda>_. None) (\<lambda>n. if n = 1 then WriteFault ''disk full'' ''2024'' else NoFault),
      bl_decode = (\<lambda>_. Inr \<lparr>rcv_continue = Some (Some ''20240101|7''), rcv_recentchanges = []\<rparr>)\<rparr>"

lemma text_ok_sample: "text_ok ''20240101|7''"
  by code_simp

definition answer_empty :: "http_request \<Rightarrow> http_client_error + http_response" where
  "answer_empty _ = Inr \<lparr>hs_status = 200, hs_headers = [], hs_body = ''{}''\<rparr>"

lemma sample_poll:
  assumes "br_limit rt = 50" "normalize_continue_token (br_next_continue rt) = Inr token"
  shows "execute_recent_changes (bl_decode sample_backlog_env) answer_empty wiki (backlog_query rt) =
    Inr \<lparr>rb_events = [], rb_next_continue = Some ''20240101|7''\<rparr>"
proof -
  have trimmed: "str_trim ''20240101|7'' \<noteq> []" by code_simp
  have "(200::nat) \<le> 200 \<and> (200::nat) < 300" by simp
  then show ?thesis
    using assms trimmed
    by (simp add: execute_recent_changes_def build_recent_changes_request_def backlog_query_def answer_empty_def
        parse_recent_changes_response_def sample_backlog_env_def normalize_response_continue_def)
qed

theorem backlog_restart_resumes_witness:
  "\<exists>rt. fst (backlog_poll sample_backlog_env answer_empty rt) = Inl (BL_Storage (StorageOperation ''disk full'')) \<and>
     backlog_initialize sample_backlog_env
       (new_backlog sample_wiki (br_storage (snd (backlog_poll sample_backlog_env answer_empty rt))) 50 False ''k'') =
     (Inr (), (new_backlog sample_wiki (br_storage (snd (backlog_poll sample_backlog_env answer_empty rt))) 50 False ''k'')
        \<lparr>br_next_continue := Some ''20240101|7''\<rparr>)"
proof -
  let ?env = sample_backlog_env
  let ?start = "new_backlog sample_wiki \<lparr>fs_files = [], fs_sequence = 0\<rparr> 50 False ''k''"
  let ?rt = "snd (backlog_poll ?env answer_empty ?start)"
  have ops: "bl_ops ?env = file_storage (\<lambda>_. None) (\<lambda>_. None)
      (\<lambda>n. if n = 1 then WriteFault ''disk full'' ''2024'' else NoFault)"
    by (simp add: sample_backlog_env_def)
  have start: "backlog_initialize ?env ?start = (Inr (), ?start)"
    by (simp add: backlog_initialize_def backlog_load_def ops file_storage_def file_get_def new_backlog_def)
  have trimmed: "normalize_continue_token (Some ''20240101|7'') = Inr (Some ''20240101|7'')" by code_simp
  have first: "execute_recent_changes (bl_decode ?env) answer_empty sample_wiki (backlog_query ?start) =
      Inr \<lparr>rb_events = [], rb_next_continue = Some ''20240101|7''\<rparr>"
    by (rule sample_poll [where token = None]) (simp_all add: new_backlog_def normalize_continue_token_def)
  have rt: "br_limit ?rt = 50" "br_next_continue ?rt = Some ''20240101|7''" "fs_sequence (br_storage ?rt) = 1"
      "br_wiki_config ?rt = sample_wiki"
    using first by (simp_all add: backlog_poll_def new_backlog_def apply_batch_def ops file_storage_def file_set_def
        Let_def)
  have second: "execute_recent_changes (bl_decode ?env) answer_empty sample_wiki (backlog_query ?rt) =
      Inr \<lparr>rb_events = [], rb_next_continue = Some ''20240101|7''\<rparr>"
    by (rule sample_poll) (simp_all only: rt trimmed)
  then have failed: "fst (backlog_poll ?env answer_empty ?rt) = Inl (BL_Storage (StorageOperation ''disk full''))"
      "br_next_continue (snd (backlog_poll ?env answer_empty ?rt)) = Some ''20240101|7''"
    using rt by (simp_all add: backlog_poll_def apply_batch_def ops file_storage_def file_set_def Let_def)
  have "snd (backlog_poll ?env answer_empty ?rt) = fold (backlog_step ?env) [Poll answer_empty, Poll answer_empty] ?start"
    by simp
  from backlog_restart_resumes [OF ops _ start this] failed show ?thesis
    by (intro exI [of _ ?rt]) (simp add: sample_backlog_env_def tokens_ok_def text_ok_sample)
qed

end
