(* ===== verification/User_Analyzer.thy ===== *)
theory User_Analyzer
  imports BTree_Map Platform_Types
begin

section \<open>The risk profile of a user and its cache\<close>

text \<open>
  \<open>crates/sp42-platform/src/user_analyzer.rs\<close>: the warning level and the number of warning templates
  on a talk page, and the bounded cache of profiles. The eviction loop of the cache makes no progress
  when the recency queue is empty, so it is a partial function: \<open>None\<close> is a loop that never ends.
\<close>

subsection \<open>Warnings on a talk page\<close>

definition final_patterns :: "string list" where
  "final_patterns = [''final'', ''dernier avertissement'', ''ultime avertissement'', ''4im'']"

definition level4_patterns :: "string list" where
  "level4_patterns = [''niveau 4'', ''level 4'', ''test4'', ''vandalism4'']"

definition level3_patterns :: "string list" where
  "level3_patterns = [''niveau 3'', ''level 3'', ''test3'', ''vandalism3'']"

definition level2_patterns :: "string list" where
  "level2_patterns = [''niveau 2'', ''level 2'', ''test2'', ''vandalism2'']"

definition level1_patterns :: "string list" where
  "level1_patterns = [''niveau 1'', ''level 1'', ''test1'', ''vandalism1'']"

definition vandalism_patterns :: "string list" where
  "vandalism_patterns = [''vandalisme'', ''vandalism'', ''uw-vandalism'', ''test4'', ''test3'']"

definition contains_any_pattern :: "string \<Rightarrow> string list \<Rightarrow> bool" where
  "contains_any_pattern haystack patterns = list_ex (str_contains haystack) patterns"

definition parse_warning_level :: "string \<Rightarrow> warning_level" where
  "parse_warning_level talk =
     (let normalized = to_ascii_lowercase talk
      in if contains_any_pattern normalized final_patterns then W_Final
         else if contains_any_pattern normalized level4_patterns then W_Level4
         else if contains_any_pattern normalized level3_patterns then W_Level3
         else if contains_any_pattern normalized level2_patterns then W_Level2
         else if contains_any_pattern normalized level1_patterns then W_Level1
         else W_None)"

definition is_warning_template :: "string \<Rightarrow> bool" where
  "is_warning_template body \<longleftrightarrow>
     str_contains body ''avertissement'' \<or> contains_any_pattern body final_patterns \<or>
     contains_any_pattern body level4_patterns \<or> contains_any_pattern body level3_patterns \<or>
     contains_any_pattern body level2_patterns \<or> contains_any_pattern body level1_patterns \<or>
     contains_any_pattern body vandalism_patterns"

function extract_template_bodies :: "string \<Rightarrow> string list" where
  "extract_template_bodies remaining =
     (case str_find ''{{'' remaining of
        None \<Rightarrow> []
      | Some start \<Rightarrow>
          (let after_start = drop (start + 2) remaining
           in (case str_find ''}}'' after_start of
                 None \<Rightarrow> []
               | Some stop \<Rightarrow> take stop after_start # extract_template_bodies (drop (stop + 2) after_start))))"
  by pat_completeness auto
termination
proof (relation "measure length", goal_cases)
  case (2 remaining start after_start stop)
  have "remaining \<noteq> []"
    using 2(1) by auto
  then show ?case by (simp add: 2(2))
qed simp

declare extract_template_bodies.simps [simp del]

definition count_warning_templates :: "string \<Rightarrow> nat" where
  "count_warning_templates talk =
     sat_u32 (length (filter is_warning_template (extract_template_bodies (to_ascii_lowercase talk))))"

definition build_user_risk_profile :: "string \<Rightarrow> user_risk_profile" where
  "build_user_risk_profile talk =
     \<lparr>ur_warning_level = parse_warning_level talk,
      ur_warning_count = count_warning_templates talk,
      ur_has_recent_vandalism_templates = contains_any_pattern (to_ascii_lowercase talk) vandalism_patterns\<rparr>"

subsection \<open>The cache\<close>

record user_risk_cache =
  rc_capacity :: nat
  rc_order :: "string list"
  rc_entries :: "(string, user_risk_profile) btree"

definition new_cache :: "nat \<Rightarrow> user_risk_cache" where
  "new_cache cap = \<lparr>rc_capacity = cap, rc_order = [], rc_entries = []\<rparr>"

definition touch :: "string \<Rightarrow> user_risk_cache \<Rightarrow> user_risk_cache" where
  "touch user c = c\<lparr>rc_order := filter (\<lambda>candidate. candidate \<noteq> user) (rc_order c) @ [user]\<rparr>"

definition cache_get :: "string \<Rightarrow> user_risk_cache \<Rightarrow> user_risk_profile option \<times> user_risk_cache" where
  "cache_get user c =
     (case map_of (rc_entries c) user of
        None \<Rightarrow> (None, c)
      | Some profile \<Rightarrow> (Some profile, touch user c))"

definition cache_len :: "user_risk_cache \<Rightarrow> nat" where
  "cache_len c = length (rc_entries c)"

partial_function (option) evict :: "user_risk_cache \<Rightarrow> user_risk_cache option" where
  "evict c =
     (if rc_capacity c < length (rc_entries c)
      then (case rc_order c of
              [] \<Rightarrow> evict c
            | evicted # rest \<Rightarrow> evict (c\<lparr>rc_order := rest, rc_entries := bt_remove evicted (rc_entries c)\<rparr>))
      else Some c)"

declare evict.simps [code]

definition cache_insert :: "string \<Rightarrow> user_risk_profile \<Rightarrow> user_risk_cache \<Rightarrow> user_risk_cache option" where
  "cache_insert user profile c =
     (if rc_capacity c = 0 then Some c
      else (let touched = touch user c
            in evict (touched\<lparr>rc_entries := bt_insert user profile (rc_entries touched)\<rparr>)))"

subsection \<open>Runs of the cache and of an abstract least-recently-used list\<close>

datatype cache_op = CacheGet string | CacheInsert string user_risk_profile

fun cache_run :: "cache_op list \<Rightarrow> user_risk_cache \<Rightarrow> (user_risk_profile option list \<times> user_risk_cache) option" where
  "cache_run [] c = Some ([], c)"
| "cache_run (CacheGet user # ops) c =
     (let (answer, c') = cache_get user c in map_option (map_prod (Cons answer) id) (cache_run ops c'))"
| "cache_run (CacheInsert user profile # ops) c =
     (case cache_insert user profile c of None \<Rightarrow> None | Some c' \<Rightarrow> cache_run ops c')"

text \<open>The specification: the entries from the least to the most recently used.\<close>

definition to_back :: "string \<Rightarrow> user_risk_profile \<Rightarrow> (string \<times> user_risk_profile) list \<Rightarrow> (string \<times> user_risk_profile) list" where
  "to_back user profile l = filter (\<lambda>(candidate, _). candidate \<noteq> user) l @ [(user, profile)]"

fun lru_run :: "nat \<Rightarrow> cache_op list \<Rightarrow> (string \<times> user_risk_profile) list \<Rightarrow>
    user_risk_profile option list \<times> (string \<times> user_risk_profile) list" where
  "lru_run cap [] l = ([], l)"
| "lru_run cap (CacheGet user # ops) l =
     (case map_of l user of
        None \<Rightarrow> map_prod (Cons None) id (lru_run cap ops l)
      | Some profile \<Rightarrow> map_prod (Cons (Some profile)) id (lru_run cap ops (to_back user profile l)))"
| "lru_run cap (CacheInsert user profile # ops) l =
     lru_run cap ops (last_n cap (to_back user profile l))"

definition cache_rep :: "nat \<Rightarrow> (string \<times> user_risk_profile) list \<Rightarrow> user_risk_cache \<Rightarrow> bool" where
  "cache_rep cap l c \<longleftrightarrow> rc_capacity c = cap \<and> rc_order c = map fst l \<and> distinct (map fst l) \<and>
     bt_wf (rc_entries c) \<and> map_of (rc_entries c) = map_of l"

lemma cache_rep_length: "cache_rep cap l c \<Longrightarrow> length (rc_entries c) = length l"
proof -
  assume rep: "cache_rep cap l c"
  then have "dom (map_of (rc_entries c)) = dom (map_of l)" by (simp add: cache_rep_def)
  then have "set (bt_keys (rc_entries c)) = set (map fst l)" by (simp add: dom_map_of_conv_image_fst)
  moreover have "distinct (bt_keys (rc_entries c))" "distinct (map fst l)"
    using rep by (simp_all add: cache_rep_def bt_wf_distinct)
  ultimately show ?thesis
    by (metis distinct_card length_map)
qed

lemma map_of_filter_key: "map_of (filter (\<lambda>(k, _). k \<noteq> u) l) = (map_of l)(u := None)"
  by (induction l) auto

lemma filter_keys: "map fst (filter (\<lambda>(k, _). k \<noteq> u) l) = filter (\<lambda>k. k \<noteq> u) (map fst l)"
  by (induction l) auto

lemma map_of_to_back: "map_of (to_back u p l) = (map_of l)(u \<mapsto> p)"
  by (rule ext) (simp add: to_back_def map_of_filter_key map_add_def split: option.splits)

lemma keys_to_back: "map fst (to_back u p l) = filter (\<lambda>k. k \<noteq> u) (map fst l) @ [u]"
  by (simp add: to_back_def filter_keys)

lemma to_back_rep:
  assumes "cache_rep cap l c" "map_of l u = Some p"
  shows "cache_rep cap (to_back u p l) (touch u c)"
  using assms by (auto simp: cache_rep_def touch_def map_of_to_back keys_to_back fun_upd_idem)

lemma evict_rep: "cache_rep cap l c \<Longrightarrow> \<exists>c'. evict c = Some c' \<and> cache_rep cap (last_n cap l) c'"
proof (induction l arbitrary: c)
  case Nil
  then show ?case
    using cache_rep_length [OF Nil] by (simp add: evict.simps)
next
  case (Cons x l)
  note len = cache_rep_length [OF Cons.prems]
  show ?case
  proof (cases "cap < length (x # l)")
    case False
    then show ?thesis
      using Cons.prems len by (simp add: evict.simps cache_rep_def last_n_def)
  next
    case True
    obtain u p where x: "x = (u, p)" by fastforce
    let ?c = "c\<lparr>rc_order := map fst l, rc_entries := bt_remove u (rc_entries c)\<rparr>"
    have "u \<notin> fst ` set l" using Cons.prems x by (simp add: cache_rep_def)
    then have "map_of l u = None" by (simp add: map_of_eq_None_iff)
    then have rep: "cache_rep cap l ?c"
      using Cons.prems x by (auto simp: cache_rep_def fun_upd_idem_iff)
    have "evict c = evict ?c"
      using True len Cons.prems x by (subst evict.simps) (simp add: cache_rep_def)
    moreover have "last_n cap (x # l) = last_n cap l"
      using True by (simp add: last_n_def Suc_diff_le)
    ultimately show ?thesis using Cons.IH [OF rep] by simp
  qed
qed

lemma insert_rep:
  assumes "cache_rep cap l c" "0 < cap"
  shows "\<exists>c'. cache_insert u p c = Some c' \<and> cache_rep cap (last_n cap (to_back u p l)) c'"
proof -
  let ?c = "(touch u c)\<lparr>rc_entries := bt_insert u p (rc_entries (touch u c))\<rparr>"
  have "cache_rep cap (to_back u p l) ?c"
    using assms by (auto simp: cache_rep_def touch_def map_of_to_back keys_to_back)
  then show ?thesis
    using evict_rep [of cap "to_back u p l" ?c] assms by (simp add: cache_insert_def Let_def cache_rep_def)
qed

lemma cache_run_rep:
  "cache_rep cap l c \<Longrightarrow> 0 < cap \<or> l = [] \<Longrightarrow>
     \<exists>c'. cache_run ops c = Some (fst (lru_run cap ops l), c') \<and> cache_rep cap (snd (lru_run cap ops l)) c'"
proof (induction cap ops l arbitrary: c rule: lru_run.induct)
  case (2 cap user ops l)
  show ?case
  proof (cases "map_of l user")
    case None
    then show ?thesis
      using 2(1) [OF None 2(3,4)] 2(3) by (auto simp: cache_get_def cache_rep_def)
  next
    case (Some p)
    then have "0 < cap" using 2(4) by auto
    then show ?thesis
      using 2(2) [OF Some to_back_rep [OF 2(3) Some]] Some 2(3) by (auto simp: cache_get_def cache_rep_def)
  qed
next
  case (3 cap user profile ops l)
  show ?case
  proof (cases "cap = 0")
    case True
    then have "cache_insert user profile c = Some c" "l = []" "last_n cap (to_back user profile l) = []"
      using 3(2,3) by (simp_all add: cache_insert_def cache_rep_def last_n_def)
    then show ?thesis using 3(1) [of c] 3(2) by simp
  next
    case False
    then obtain c' where "cache_insert user profile c = Some c'" "cache_rep cap (last_n cap (to_back user profile l)) c'"
      using insert_rep [OF 3(2)] by blast
    then show ?thesis using 3(1) [of c'] False by simp
  qed
qed auto

lemma lru_bounded: "length l \<le> cap \<Longrightarrow> length (snd (lru_run cap ops l)) \<le> cap"
proof (induction cap ops l rule: lru_run.induct)
  case (2 cap user ops l)
  have "length (to_back user p l) \<le> cap" if "map_of l user = Some p" for p
  proof -
    have "(user, p) \<in> set l" using that by (rule map_of_SomeD)
    then have "length (filter (\<lambda>(k, _). k \<noteq> user) l) < length l"
      by (intro length_filter_less [of "(user, p)"]) auto
    then show ?thesis using 2(3) by (simp add: to_back_def)
  qed
  then show ?case using 2 by (auto split: option.splits)
qed auto

text \<open>
  C21. The cache terminates and is a least-recently-used cache: every sequence of reads and insertions
  on a new cache, of capacity zero too, returns (the eviction loop always ends), gives the answers of
  the abstract list that moves what is used to the back and drops the oldest beyond the capacity, and
  ends with the same entries and order.
\<close>

theorem risk_cache_is_lru:
  "\<exists>c. cache_run ops (new_cache cap) = Some (fst (lru_run cap ops []), c) \<and>
     rc_order c = map fst (snd (lru_run cap ops [])) \<and>
     map_of (rc_entries c) = map_of (snd (lru_run cap ops [])) \<and> cache_len c \<le> cap"
proof -
  have "cache_rep cap [] (new_cache cap)" by (simp add: cache_rep_def new_cache_def)
  from cache_run_rep [OF this, of ops] obtain c
    where c: "cache_run ops (new_cache cap) = Some (fst (lru_run cap ops []), c)" "cache_rep cap (snd (lru_run cap ops [])) c"
    by auto
  moreover have "cache_len c \<le> cap"
    using cache_rep_length [OF c(2)] lru_bounded [of "[]" cap ops] by (simp add: cache_len_def)
  ultimately show ?thesis by (auto simp: cache_rep_def)
qed

end
