(* ===== verification/Book_Identifiers.thy ===== *)
theory Book_Identifiers
  imports Text_Tools
begin

section \<open>Book identifiers\<close>

text \<open>
  The positive book identifiers of \<open>crates/sp42-platform/src/wikitext_editor.rs\<close>, read from the parameters
  of a cite template: each is normalised and its shape checked before it can be used.
\<close>

datatype book_identifier = Isbn string | Oclc string | Lccn string | Olid string

subsection \<open>Characters\<close>

function without_whitespace :: "string \<Rightarrow> string" where
  "without_whitespace s =
     (if s = [] then []
      else if 0 < ws_len s then without_whitespace (drop (ws_len s) s)
      else take (char_len s) s @ without_whitespace (drop (char_len s) s))"
  by pat_completeness auto
termination
  by (relation "measure length") auto

declare without_whitespace.simps [simp del]

lemma without_whitespace_code [code]:
  "without_whitespace [] = []"
  "without_whitespace (c # s) =
     (if 0 < ws_len (c # s) then without_whitespace (drop (ws_len (c # s)) (c # s))
      else take (char_len (c # s)) (c # s) @ without_whitespace (drop (char_len (c # s)) (c # s)))"
  by (simp_all add: without_whitespace.simps [of "[]"] without_whitespace.simps [of "c # s"])

definition upper_byte :: "char \<Rightarrow> char" where
  "upper_byte c = (let n = (of_char c :: nat) in if 97 \<le> n \<and> n \<le> 122 then char_of (n - 32) else c)"

definition is_digit :: "char \<Rightarrow> bool" where
  "is_digit c = (let n = (of_char c :: nat) in 48 \<le> n \<and> n \<le> 57)"

definition all_digits :: "string \<Rightarrow> bool" where
  "all_digits s = list_all is_digit s"

subsection \<open>ISBN\<close>

definition isbn_value :: "char \<Rightarrow> nat" where
  "isbn_value b = (if b = CHR ''X'' then 10 else of_char b - 48)"

definition isbn10_sum :: "string \<Rightarrow> nat" where
  "isbn10_sum bytes = sum_list (map (\<lambda>(i, b). (10 - i) * isbn_value b) (enumerate 0 bytes))"

definition isbn13_sum :: "string \<Rightarrow> nat" where
  "isbn13_sum bytes = sum_list (map (\<lambda>(i, b). (of_char b - 48) * (if i mod 2 = 0 then 1 else 3)) (enumerate 0 bytes))"

definition isbn_valid :: "string \<Rightarrow> bool" where
  "isbn_valid bytes =
     (if length bytes = 10
      then all_digits (take 9 bytes) \<and> (is_digit (bytes ! 9) \<or> bytes ! 9 = CHR ''X'') \<and> isbn10_sum bytes mod 11 = 0
      else if length bytes = 13 then all_digits bytes \<and> isbn13_sum bytes mod 10 = 0
      else False)"

definition isbn :: "string \<Rightarrow> book_identifier option" where
  "isbn raw =
     (let compact = map upper_byte (filter (\<lambda>c. c \<noteq> CHR ''-'') (without_whitespace raw))
      in if isbn_valid compact then Some (Isbn compact) else None)"

subsection \<open>OCLC\<close>

definition strip_prefix :: "string \<Rightarrow> string \<Rightarrow> string option" where
  "strip_prefix p s = (if prefix p s then Some (drop (length p) s) else None)"

definition oclc :: "string \<Rightarrow> book_identifier option" where
  "oclc raw =
     (let lower = to_ascii_lowercase (str_trim raw);
          stripped = (case List.map_filter (\<lambda>p. strip_prefix p lower) [''ocm'', ''ocn'', ''on''] of
              [] \<Rightarrow> lower | s # _ \<Rightarrow> s);
          digits = str_trim stripped
      in if digits \<noteq> [] \<and> all_digits digits then Some (Oclc digits) else None)"

subsection \<open>LCCN\<close>

definition pad_serial :: "string \<Rightarrow> string" where
  "pad_serial serial = replicate (6 - length serial) (CHR ''0'') @ serial"

definition lccn :: "string \<Rightarrow> book_identifier option" where
  "lccn raw =
     (let compact = without_whitespace (to_ascii_lowercase raw);
          upto_slash = takeWhile (\<lambda>c. c \<noteq> CHR ''/'') compact
      in case (case str_split_once ''-'' upto_slash of
                 None \<Rightarrow> Some upto_slash
               | Some (pre, serial) \<Rightarrow>
                   if serial = [] \<or> length serial > 6 \<or> \<not> all_digits serial then None
                   else Some (pre @ pad_serial serial)) of
           None \<Rightarrow> None
         | Some v \<Rightarrow> if v \<noteq> [] \<and> list_all ascii_alphanumeric v then Some (Lccn v) else None)"

subsection \<open>Open Library\<close>

definition olid :: "string \<Rightarrow> book_identifier option" where
  "olid raw =
     (let trimmed = str_trim raw
      in if \<not> list_all (\<lambda>c. (of_char c :: nat) < 128) trimmed then None
         else let rest = (if length trimmed \<ge> 2 \<and> to_ascii_lowercase (take 2 trimmed) = ''ol'' then drop 2 trimmed else trimmed);
                  digits = take (length rest - 1) rest;
                  kind = map upper_byte (drop (length rest - 1) rest)
              in if (kind = ''M'' \<or> kind = ''W'') \<and> digits \<noteq> [] \<and> all_digits digits
                 then Some (Olid (''OL'' @ digits @ kind)) else None)"

definition book_identifier_text :: "book_identifier \<Rightarrow> string" where
  "book_identifier_text b =
     (case b of Isbn v \<Rightarrow> ''isbn:'' @ v | Oclc v \<Rightarrow> ''oclc:'' @ v | Lccn v \<Rightarrow> ''lccn:'' @ v | Olid v \<Rightarrow> ''olid:'' @ v)"

subsection \<open>The checksum\<close>

lemma enumerate_update:
  "i < length xs \<Longrightarrow> map f (enumerate 0 (xs[i := c])) = (map f (enumerate 0 xs))[i := f (i, c)]"
  by (rule nth_equalityI) (auto simp: nth_enumerate_eq nth_list_update)

lemma weighted_sum_update:
  fixes f :: "nat \<times> char \<Rightarrow> nat"
  assumes "i < length xs"
  shows "sum_list (map f (enumerate 0 (xs[i := c]))) + f (i, xs ! i) = sum_list (map f (enumerate 0 xs)) + f (i, c)"
proof -
  have "f (i, xs ! i) \<le> sum_list (map f (enumerate 0 xs))"
    using assms nth_mem [of i "map f (enumerate 0 xs)"] by (intro member_le_sum_list) (simp_all add: nth_enumerate_eq)
  then show ?thesis
    using assms by (simp add: enumerate_update sum_list_update nth_enumerate_eq)
qed

text \<open>A weight that has no factor in common with the modulus keeps different digits apart.\<close>

lemma weight11: "k \<in> {1 .. 10} \<Longrightarrow> (11 :: int) dvd int k * d \<Longrightarrow> 11 dvd d"
proof -
  assume k: "k \<in> {1 .. 10}" and d: "(11 :: int) dvd int k * d"
  from k have "k = 1 \<or> k = 2 \<or> k = 3 \<or> k = 4 \<or> k = 5 \<or> k = 6 \<or> k = 7 \<or> k = 8 \<or> k = 9 \<or> k = 10"
    unfolding atLeastAtMost_iff by presburger
  then show ?thesis using d by (elim disjE; clarsimp; presburger)
qed

lemma weight10: "k \<in> {1, 3} \<Longrightarrow> (10 :: int) dvd int k * d \<Longrightarrow> 10 dvd d"
  by (elim insertE; clarsimp; presburger)

lemma multiple_diff:
  fixes a b x y :: nat
  assumes "a mod m = 0" "b mod m = 0" "b + x = a + y"
  shows "int m dvd int y - int x"
proof -
  have "int y - int x = int b - int a" using assms(3) by linarith
  then show ?thesis using assms(1,2) by (simp add: mod_eq_0_iff_dvd)
qed

lemma small_multiple: "(m :: int) dvd d \<Longrightarrow> \<bar>d\<bar> < m \<Longrightarrow> d = 0"
  using dvd_imp_le_int [of d m] by linarith

definition isbn_char :: "char \<Rightarrow> bool" where
  "isbn_char c \<longleftrightarrow> is_digit c \<or> c = CHR ''X''"

lemma isbn_value_le: "isbn_char c \<Longrightarrow> isbn_value c \<le> 10"
  by (auto simp: isbn_char_def isbn_value_def is_digit_def Let_def)

lemma digit_inj: "is_digit c \<Longrightarrow> is_digit d \<Longrightarrow> (of_char c :: nat) - 48 = of_char d - 48 \<Longrightarrow> c = d"
proof -
  assume "is_digit c" "is_digit d" "(of_char c :: nat) - 48 = of_char d - 48"
  then have "(of_char c :: nat) = of_char d" unfolding is_digit_def Let_def by linarith
  then show ?thesis by simp
qed

lemma isbn_value_inj: "isbn_char c \<Longrightarrow> isbn_char d \<Longrightarrow> isbn_value c = isbn_value d \<Longrightarrow> c = d"
  using digit_inj by (auto simp: isbn_char_def isbn_value_def is_digit_def Let_def split: if_splits)

lemma valid10_chars:
  assumes "isbn_valid v" "length v = 10" "i < 10"
  shows "isbn_char (v ! i)" "isbn10_sum v mod 11 = 0"
proof -
  show "isbn10_sum v mod 11 = 0" using assms by (simp add: isbn_valid_def)
  show "isbn_char (v ! i)"
  proof (cases "i < 9")
    case True
    then have "v ! i = take 9 v ! i" "i < length (take 9 v)" using assms(2) by simp_all
    then show ?thesis using assms(1,2) by (simp add: isbn_valid_def all_digits_def list_all_length isbn_char_def)
  next
    case False
    then have "i = 9" using assms(3) by simp
    then show ?thesis using assms(1,2) by (auto simp: isbn_valid_def isbn_char_def)
  qed
qed

lemma valid13_chars:
  assumes "isbn_valid v" "length v = 13" "i < 13"
  shows "is_digit (v ! i)" "isbn13_sum v mod 10 = 0"
  using assms by (simp_all add: isbn_valid_def all_digits_def list_all_length)

lemma typo10:
  assumes "isbn_valid v" "length v = 10" "i < 10" "isbn_valid (v[i := c])"
  shows "c = v ! i"
proof -
  let ?f = "\<lambda>(i, b). (10 - i) * isbn_value b"
  have chars: "isbn_char (v ! i)" "isbn_char c"
    using valid10_chars [OF assms(1-3)] valid10_chars [OF assms(4), of i] assms(2,3) by simp_all
  have "isbn10_sum (v[i := c]) + (10 - i) * isbn_value (v ! i) = isbn10_sum v + (10 - i) * isbn_value c"
    using weighted_sum_update [of i v ?f c] assms(2,3) by (simp add: isbn10_sum_def)
  from multiple_diff [OF _ _ this, of 11] valid10_chars(2) [OF assms(1-3)] valid10_chars(2) [OF assms(4), of i] assms(2,3)
  have "(11 :: int) dvd int ((10 - i) * isbn_value c) - int ((10 - i) * isbn_value (v ! i))" by simp
  then have "(11 :: int) dvd int (10 - i) * (int (isbn_value c) - int (isbn_value (v ! i)))"
    by (simp add: right_diff_distrib)
  from weight11 [OF _ this] have "(11 :: int) dvd int (isbn_value c) - int (isbn_value (v ! i))"
    using assms(3) by simp
  from small_multiple [OF this] have "isbn_value c = isbn_value (v ! i)"
    using isbn_value_le [OF chars(1)] isbn_value_le [OF chars(2)] by simp
  then show ?thesis using isbn_value_inj chars by blast
qed

lemma typo13:
  assumes "isbn_valid v" "length v = 13" "i < 13" "isbn_valid (v[i := c])"
  shows "c = v ! i"
proof -
  let ?w = "\<lambda>i :: nat. if i mod 2 = 0 then 1 else 3 :: nat"
  let ?f = "\<lambda>(i, b). (of_char b - 48) * ?w i"
  have chars: "is_digit (v ! i)" "is_digit c"
    using valid13_chars [OF assms(1-3)] valid13_chars [OF assms(4), of i] assms(2,3) by simp_all
  have "isbn13_sum (v[i := c]) + (of_char (v ! i) - 48) * ?w i = isbn13_sum v + (of_char c - 48) * ?w i"
    using weighted_sum_update [of i v ?f c] assms(2,3) by (simp only: isbn13_sum_def split)
  from multiple_diff [OF _ _ this, of 10] valid13_chars(2) [OF assms(1-3)] valid13_chars(2) [OF assms(4), of i] assms(2,3)
  have "(10 :: int) dvd int ((of_char c - 48) * ?w i) - int ((of_char (v ! i) - 48) * ?w i)" by simp
  then have "(10 :: int) dvd int (?w i) * (int (of_char c - 48) - int (of_char (v ! i) - 48))"
    by (simp only: right_diff_distrib of_nat_mult mult.commute)
  from weight10 [OF _ this] have "(10 :: int) dvd int (of_char c - 48) - int (of_char (v ! i) - 48)" by simp
  moreover have "of_char c - 48 \<le> (9 :: nat)" "of_char (v ! i) - 48 \<le> (9 :: nat)"
    using chars unfolding is_digit_def Let_def by linarith+
  ultimately have "(of_char c :: nat) - 48 = of_char (v ! i) - 48"
    using small_multiple [of 10 "int (of_char c - 48) - int (of_char (v ! i) - 48)"] by linarith
  then show ?thesis using digit_inj chars by blast
qed

lemma swap10:
  assumes "isbn_valid v" "length v = 10" "i < j" "j < 10" "isbn_valid (v[i := v ! j, j := v ! i])"
  shows "v ! i = v ! j"
proof -
  let ?f = "\<lambda>(i, b). (10 - i) * isbn_value b" and ?a = "isbn_value (v ! i)" and ?b = "isbn_value (v ! j)"
  have chars: "isbn_char (v ! i)" "isbn_char (v ! j)"
    using valid10_chars [OF assms(1,2)] assms(3,4) by simp_all
  have "isbn10_sum (v[i := v ! j]) + (10 - i) * ?a = isbn10_sum v + (10 - i) * ?b"
    using weighted_sum_update [of i v ?f "v ! j"] assms(2-4) by (simp add: isbn10_sum_def)
  moreover have "isbn10_sum (v[i := v ! j, j := v ! i]) + (10 - j) * ?b = isbn10_sum (v[i := v ! j]) + (10 - j) * ?a"
    using weighted_sum_update [of j "v[i := v ! j]" ?f "v ! i"] assms(2-4) by (simp add: isbn10_sum_def)
  ultimately have "isbn10_sum (v[i := v ! j, j := v ! i]) + ((10 - i) * ?a + (10 - j) * ?b) =
      isbn10_sum v + ((10 - i) * ?b + (10 - j) * ?a)" by linarith
  from multiple_diff [OF _ _ this, of 11] valid10_chars(2) [OF assms(1,2)] valid10_chars(2) [OF assms(5)] assms(2-4)
  have "(11 :: int) dvd int ((10 - i) * ?b + (10 - j) * ?a) - int ((10 - i) * ?a + (10 - j) * ?b)" by simp
  also have "int ((10 - i) * ?b + (10 - j) * ?a) - int ((10 - i) * ?a + (10 - j) * ?b) = int (j - i) * (int ?b - int ?a)"
  proof -
    have "int (10 - i) = 10 - int i" "int (10 - j) = 10 - int j" "int (j - i) = int j - int i"
      using assms(3,4) by (simp_all add: of_nat_diff)
    then show ?thesis by (simp only: of_nat_add of_nat_mult) (simp add: algebra_simps)
  qed
  finally have "(11 :: int) dvd int (j - i) * (int ?b - int ?a)" .
  moreover have "j - i \<in> {1 .. 10}" using assms(3,4) by auto
  ultimately have "(11 :: int) dvd int ?b - int ?a" by (blast intro: weight11)
  then have "?a = ?b"
    using small_multiple [of 11 "int ?b - int ?a"] isbn_value_le [OF chars(1)] isbn_value_le [OF chars(2)] by linarith
  then show ?thesis using isbn_value_inj chars by blast
qed

subsection \<open>Normal forms\<close>















subsection \<open>Properties\<close>

text \<open>
  C39. Mistyped ISBNs are refused: no accepted ISBN becomes another accepted one by changing one of its
  digits, nor an accepted ISBN-10 by exchanging two of them.
\<close>

theorem isbn_catches_typos:
  assumes "isbn raw = Some (Isbn v)" and "i < length v"
  shows "(isbn raw' = Some (Isbn (v[i := c])) \<longrightarrow> v[i := c] = v) \<and>
    (length v = 10 \<and> j < length v \<and> isbn raw' = Some (Isbn (v[i := v ! j, j := v ! i])) \<longrightarrow> v ! i = v ! j)"
proof -
  have valid: "isbn_valid u" if "isbn r = Some (Isbn u)" for r u
    using that by (auto simp: isbn_def Let_def split: if_splits)
  have len: "length v = 10 \<or> length v = 13"
    using valid [OF assms(1)] by (auto simp: isbn_valid_def split: if_splits)
  have "v[i := c] = v" if "isbn raw' = Some (Isbn (v[i := c]))"
    using typo10 [OF valid [OF assms(1)] _ _ valid [OF that]] typo13 [OF valid [OF assms(1)] _ _ valid [OF that]] len assms(2)
    by auto
  moreover have "v ! i = v ! j"
    if "length v = 10" "j < length v" "isbn raw' = Some (Isbn (v[i := v ! j, j := v ! i]))"
  proof (cases i j rule: linorder_cases)
    case less
    then show ?thesis using swap10 [OF valid [OF assms(1)] that(1) less _ valid [OF that(3)]] that by simp
  next
    case greater
    have "isbn_valid (v[j := v ! i, i := v ! j])"
      using valid [OF that(3)] greater by (simp add: list_update_swap)
    then show ?thesis using swap10 [OF valid [OF assms(1)] that(1) greater] that assms(2) by simp
  qed simp
  ultimately show ?thesis by blast
qed

theorem isbn_catches_typos_witness:
  "isbn ''0-306-40615-2'' = Some (Isbn ''0306406152'') \<and> isbn ''0306406153'' \<noteq> Some (Isbn (''0306406152''[9 := CHR ''3''])) \<and>
   isbn ''0360406152'' \<noteq> Some (Isbn (''0306406152''[2 := CHR ''6'', 3 := CHR ''0'']))"
proof -
  have ok: "isbn ''0-306-40615-2'' = Some (Isbn ''0306406152'')" by code_simp
  from isbn_catches_typos [OF ok, of 9 "''0306406153''" "CHR ''3''" 0]
    isbn_catches_typos [OF ok, of 2 "''0360406152''" "CHR ''0''" 3] ok
  show ?thesis by simp
qed



end
