(* ===== verification/Json_Value.thy ===== *)
theory Json_Value
  imports BTree_Map
begin

section \<open>JSON values\<close>

text \<open>
  What the code reads of a \<open>serde_json::Value\<close>. The object is the library's ordered map: its keys
  increase (\<open>json_wf\<close> says so of a whole value). A number is its canonical decimal text, so that two
  numbers are equal when their texts are. Parsing is a parameter of whatever parses.
\<close>

datatype json =
    JNull
  | JBool bool
  | JNumber string
  | JString string
  | JArray "json list"
  | JObject "(string \<times> json) list"

definition as_str :: "json \<Rightarrow> string option" where
  "as_str v = (case v of JString s \<Rightarrow> Some s | _ \<Rightarrow> None)"

definition as_array :: "json \<Rightarrow> json list option" where
  "as_array v = (case v of JArray xs \<Rightarrow> Some xs | _ \<Rightarrow> None)"

definition as_object :: "json \<Rightarrow> (string, json) btree option" where
  "as_object v = (case v of JObject m \<Rightarrow> Some m | _ \<Rightarrow> None)"

definition as_u64 :: "json \<Rightarrow> nat option" where
  "as_u64 v =
     (case v of
        JNumber s \<Rightarrow>
          (if s = [] then None
           else case digits_value 0 s of None \<Rightarrow> None | Some n \<Rightarrow> if n \<le> u64_max then Some n else None)
      | _ \<Rightarrow> None)"

text \<open>\<open>Value::get\<close> with a key: nothing on values that are no objects.\<close>

definition jget :: "string \<Rightarrow> json \<Rightarrow> json option" where
  "jget key v = (case v of JObject m \<Rightarrow> map_of m key | _ \<Rightarrow> None)"

definition jget_str :: "string \<Rightarrow> json \<Rightarrow> string option" where
  "jget_str key v = Option.bind (jget key v) as_str"

fun json_wf :: "json \<Rightarrow> bool" where
  "json_wf (JArray xs) \<longleftrightarrow> list_all json_wf xs"
| "json_wf (JObject m) \<longleftrightarrow> bt_wf m \<and> list_all (\<lambda>(k, v). json_wf v) m"
| "json_wf v \<longleftrightarrow> True"

text \<open>
  Reading a value for a specification: what stands at the end of a path of keys, the elements of an
  array, and the texts of a list.
\<close>

fun json_at :: "string list \<Rightarrow> json \<Rightarrow> json option" where
  "json_at [] v = Some v"
| "json_at (k # ks) (JObject m) = (case map_of m k of None \<Rightarrow> None | Some w \<Rightarrow> json_at ks w)"
| "json_at (k # ks) _ = None"

fun json_elements :: "json option \<Rightarrow> json list" where
  "json_elements (Some (JArray xs)) = xs"
| "json_elements _ = []"

fun json_text :: "json option \<Rightarrow> string option" where
  "json_text (Some (JString s)) = Some s"
| "json_text _ = None"

lemma as_str_simps [simp]: "as_str (JString s) = Some s" "as_str v = Some s \<longleftrightarrow> v = JString s"
  by (auto simp: as_str_def split: json.splits)

lemma as_array_simps [simp]: "as_array (JArray xs) = Some xs" "as_array v = Some xs \<longleftrightarrow> v = JArray xs"
  by (auto simp: as_array_def split: json.splits)

lemma as_object_simps [simp]: "as_object (JObject m) = Some m" "as_object v = Some m \<longleftrightarrow> v = JObject m"
  by (auto simp: as_object_def split: json.splits)

lemma jget_object [simp]: "jget key (JObject m) = map_of m key"
  by (simp add: jget_def)

lemma json_at_Cons: "json_at (k # ks) v = Option.bind (jget k v) (json_at ks)"
  by (cases v) (auto simp: jget_def split: option.splits)

lemma json_at_single [simp]: "json_at [k] = jget k"
  by (rule ext) (simp add: json_at_Cons split: bind_splits)

lemma json_text_eq: "json_text v = Option.bind v as_str"
  by (cases v rule: json_text.cases) (simp_all add: as_str_def)

lemma json_at_text: "json_text (json_at [k] v) = jget_str k v"
  by (simp add: json_at_Cons json_text_eq jget_str_def)

lemma json_wf_get: "json_wf v \<Longrightarrow> jget key v = Some w \<Longrightarrow> json_wf w"
  by (auto simp: jget_def list_all_iff split: json.splits dest!: map_of_SomeD)

text \<open>
  A loop over the entries of an object that inserts what it can read of each into an ordered map.
\<close>

definition bt_collect :: "('k::linorder \<Rightarrow> 'v \<Rightarrow> 'w option) \<Rightarrow> ('k \<times> 'v) list \<Rightarrow> ('k, 'w) btree" where
  "bt_collect f entries =
     fold (\<lambda>(k, v) m. case f k v of None \<Rightarrow> m | Some w \<Rightarrow> bt_insert k w m) entries []"

lemma bt_collect_fold:
  assumes "bt_wf m" "distinct (map fst entries)"
  shows "bt_wf (fold (\<lambda>(k, v) m. case f k v of None \<Rightarrow> m | Some w \<Rightarrow> bt_insert k w m) entries m) \<and>
    map_of (fold (\<lambda>(k, v) m. case f k v of None \<Rightarrow> m | Some w \<Rightarrow> bt_insert k w m) entries m) k =
      (case Option.bind (map_of entries k) (f k) of None \<Rightarrow> map_of m k | Some w \<Rightarrow> Some w)"
  using assms
proof (induction entries arbitrary: m)
  case (Cons e entries)
  obtain key v where e: "e = (key, v)" by (cases e)
  have "key = k \<Longrightarrow> map_of entries k = None" using Cons.prems(2) by (auto simp: e map_of_eq_None_iff)
  moreover have "bt_wf (case f key v of None \<Rightarrow> m | Some w \<Rightarrow> bt_insert key w m)"
    using Cons.prems(1) by (auto split: option.splits)
  ultimately show ?case
    using Cons.IH [of "case f key v of None \<Rightarrow> m | Some w \<Rightarrow> bt_insert key w m"] Cons.prems
    by (auto simp: e split: option.splits)
qed simp

lemma bt_collect_wf [simp]: "bt_wf entries \<Longrightarrow> bt_wf (bt_collect f entries)"
  using bt_collect_fold [of "[]" entries f] by (simp add: bt_collect_def bt_wf_distinct)

lemma map_of_bt_collect: "bt_wf entries \<Longrightarrow> map_of (bt_collect f entries) k = Option.bind (map_of entries k) (f k)"
  using bt_collect_fold [of "[]" entries f k] by (auto simp: bt_collect_def bt_wf_distinct split: option.splits)

end
