(* ===== verification/Regex_Match.thy ===== *)
theory Regex_Match
  imports Text_Tools
begin

section \<open>Patterns\<close>

text \<open>
  The patterns the crates compile with \<open>Regex::new\<close> are data of this type, and \<open>ends\<close> is the match
  they rely on: leftmost-first, greedy loops longer first, lazy loops shorter first. A text is the list
  of its characters, each the bytes of its encoding. The Unicode tables of \<open>\w\<close> and \<open>\d\<close> beyond ASCII
  are the fields of \<open>rx_tables\<close>; \<open>\s\<close> is the code points of white space.
\<close>

record rx_tables =
  rx_word :: "string \<Rightarrow> bool"
  rx_digit :: "string \<Rightarrow> bool"
  rx_lower :: "string \<Rightarrow> string"

datatype rx =
    One "string \<Rightarrow> bool"
  | Eps
  | Assert "string option \<Rightarrow> string option \<Rightarrow> bool"
  | Seq rx rx
  | Alt rx rx
  | Star rx
  | Lazy rx
  | Upto nat rx

text \<open>
  \<open>ends r cs i\<close> lists the positions a match of \<open>r\<close> that starts at \<open>i\<close> may end at, in the order the
  engine prefers them. A loop stops at an iteration that consumes nothing, and the fuel is the number of
  characters left, which bounds the iterations that consume some.
\<close>

fun greedy :: "(nat \<Rightarrow> nat list) \<Rightarrow> nat \<Rightarrow> nat \<Rightarrow> nat list" where
  "greedy step 0 i = [i]"
| "greedy step (Suc n) i = concat (map (\<lambda>j. if i < j then greedy step n j else []) (step i)) @ [i]"

fun lazily :: "(nat \<Rightarrow> nat list) \<Rightarrow> nat \<Rightarrow> nat \<Rightarrow> nat list" where
  "lazily step 0 i = [i]"
| "lazily step (Suc n) i = i # concat (map (\<lambda>j. if i < j then lazily step n j else []) (step i))"

definition char_at :: "string list \<Rightarrow> nat \<Rightarrow> string option" where
  "char_at cs i = (if i < length cs then Some (cs ! i) else None)"

definition char_before :: "string list \<Rightarrow> nat \<Rightarrow> string option" where
  "char_before cs i = (if 0 < i \<and> i \<le> length cs then Some (cs ! (i - 1)) else None)"

fun ends :: "rx \<Rightarrow> string list \<Rightarrow> nat \<Rightarrow> nat list" where
  "ends (One p) cs i = (case char_at cs i of Some c \<Rightarrow> if p c then [Suc i] else [] | None \<Rightarrow> [])"
| "ends Eps cs i = [i]"
| "ends (Assert a) cs i = (if a (char_before cs i) (char_at cs i) then [i] else [])"
| "ends (Seq r s) cs i = concat (map (ends s cs) (ends r cs i))"
| "ends (Alt r s) cs i = ends r cs i @ ends s cs i"
| "ends (Star r) cs i = greedy (ends r cs) (length cs - i) i"
| "ends (Lazy r) cs i = lazily (ends r cs) (length cs - i) i"
| "ends (Upto n r) cs i = greedy (ends r cs) (if length cs - i < n then length cs - i else n) i"

fun first_match :: "(nat \<Rightarrow> 'a list) \<Rightarrow> nat list \<Rightarrow> (nat \<times> 'a) option" where
  "first_match f [] = None"
| "first_match f (i # is) = (case f i of [] \<Rightarrow> first_match f is | x # _ \<Rightarrow> Some (i, x))"

definition find_at :: "rx \<Rightarrow> string list \<Rightarrow> nat \<Rightarrow> (nat \<times> nat) option" where
  "find_at r cs i = first_match (ends r cs) [i..<Suc (length cs)]"

definition is_match :: "rx \<Rightarrow> string \<Rightarrow> bool" where
  "is_match r s = (find_at r (str_chars s) 0 \<noteq> None)"

text \<open>A pattern with one group: what stands before it, the group, and what stands after it.\<close>

definition group_at :: "rx \<Rightarrow> rx \<Rightarrow> rx \<Rightarrow> string list \<Rightarrow> nat \<Rightarrow> (nat \<times> nat \<times> nat \<times> nat) option" where
  "group_at p g q cs i =
     first_match (\<lambda>i. concat (map (\<lambda>j. concat (map (\<lambda>k. map (\<lambda>l. (j, k, l)) (ends q cs k)) (ends g cs j))) (ends p cs i)))
       [i..<Suc (length cs)]"

definition group_text :: "rx \<Rightarrow> rx \<Rightarrow> rx \<Rightarrow> string \<Rightarrow> string option" where
  "group_text p g q s =
     (let cs = str_chars s
      in map_option (\<lambda>(i, j, k, l). concat (take (k - j) (drop j cs))) (group_at p g q cs 0))"

text \<open>\<open>replace_all\<close>: each match in turn, from the end of the match before.\<close>

function replace_from :: "rx \<Rightarrow> (string list \<Rightarrow> string) \<Rightarrow> string list \<Rightarrow> nat \<Rightarrow> string list" where
  "replace_from r f cs i =
     (if length cs \<le> i then []
      else case ends r cs i of
             j # _ \<Rightarrow> if i < j then f (take (j - i) (drop i cs)) # replace_from r f cs j
                      else (cs ! i) # replace_from r f cs (Suc i)
           | [] \<Rightarrow> (cs ! i) # replace_from r f cs (Suc i))"
  by pat_completeness auto
termination
  by (relation "measure (\<lambda>(_, _, cs, i). length cs - i)") auto

declare replace_from.simps [simp del]

definition replace_all :: "rx \<Rightarrow> (string list \<Rightarrow> string) \<Rightarrow> string \<Rightarrow> string" where
  "replace_all r f s = concat (replace_from r f (str_chars s) 0)"

subsection \<open>Patterns the sources write\<close>

fun alts :: "rx list \<Rightarrow> rx" where
  "alts [r] = r"
| "alts (r # rs) = Alt r (alts rs)"
| "alts [] = Assert (\<lambda>_ _. False)"

fun seqs :: "rx list \<Rightarrow> rx" where
  "seqs [] = Eps"
| "seqs [r] = r"
| "seqs (r # rs) = Seq r (seqs rs)"

definition lit :: "string \<Rightarrow> rx" where
  "lit s = seqs (map (\<lambda>c. One (\<lambda>d. d = c)) (str_chars s))"

text \<open>Without case: ASCII letters also match the Kelvin sign and the long s, as Unicode folds them.\<close>

definition same_letter :: "char \<Rightarrow> string \<Rightarrow> bool" where
  "same_letter c d =
     (case d of
        [e] \<Rightarrow> lower_byte e = lower_byte c
      | _ \<Rightarrow> lower_byte c = CHR ''k'' \<and> d = [CHR 0xE2, CHR 0x84, CHR 0xAA] \<or>
             lower_byte c = CHR ''s'' \<and> d = [CHR 0xC5, CHR 0xBF])"

definition lit_ci :: "string \<Rightarrow> rx" where
  "lit_ci s = seqs (map (\<lambda>c. One (same_letter c)) s)"

definition opt :: "rx \<Rightarrow> rx" where "opt r = Alt r Eps"
definition plus :: "rx \<Rightarrow> rx" where "plus r = Seq r (Star r)"
definition any_rx :: rx where "any_rx = One (\<lambda>_. True)"
definition dot :: rx where "dot = One (\<lambda>c. c \<noteq> ''\<newline>'')"
definition ws :: rx where "ws = One ws_cp"
definition one_of :: "string \<Rightarrow> rx" where "one_of s = One (\<lambda>c. c \<in> set (str_chars s))"
definition none_of :: "string \<Rightarrow> rx" where "none_of s = One (\<lambda>c. c \<notin> set (str_chars s))"
definition from_to :: "nat \<Rightarrow> nat \<Rightarrow> rx" where
  "from_to a b = One (\<lambda>c. case c of [x] \<Rightarrow> a \<le> of_char x \<and> (of_char x :: nat) \<le> b | _ \<Rightarrow> False)"
definition at_start :: rx where "at_start = Assert (\<lambda>p n. p = None)"
definition at_end :: rx where "at_end = Assert (\<lambda>p n. n = None)"

fun exactly :: "nat \<Rightarrow> rx \<Rightarrow> rx" where
  "exactly 0 r = Eps"
| "exactly (Suc n) r = Seq r (exactly n r)"

definition between_times :: "nat \<Rightarrow> nat \<Rightarrow> rx \<Rightarrow> rx" where
  "between_times a b r = Seq (exactly a r) (Upto (b - a) r)"

definition word_char :: "rx_tables \<Rightarrow> string \<Rightarrow> bool" where
  "word_char tb c = (case c of [x] \<Rightarrow> ascii_alphanumeric x \<or> x = CHR ''_'' | _ \<Rightarrow> rx_word tb c)"

definition word_boundary :: "rx_tables \<Rightarrow> rx" where
  "word_boundary tb = Assert (\<lambda>p n.
     (case p of None \<Rightarrow> False | Some c \<Rightarrow> word_char tb c) \<noteq> (case n of None \<Rightarrow> False | Some c \<Rightarrow> word_char tb c))"

definition word :: "rx_tables \<Rightarrow> rx" where "word tb = One (word_char tb)"
definition digit :: "rx_tables \<Rightarrow> rx" where
  "digit tb = One (\<lambda>c. case c of [x] \<Rightarrow> (48 :: nat) \<le> of_char x \<and> (of_char x :: nat) \<le> 57 | _ \<Rightarrow> rx_digit tb c)"

subsection \<open>What a pattern matches\<close>

text \<open>The language of a pattern in its context, as a relation.\<close>

inductive matches :: "string list \<Rightarrow> rx \<Rightarrow> nat \<Rightarrow> nat \<Rightarrow> bool" for cs where
  one: "i < length cs \<Longrightarrow> p (cs ! i) \<Longrightarrow> matches cs (One p) i (Suc i)"
| eps: "matches cs Eps i i"
| assert: "a (char_before cs i) (char_at cs i) \<Longrightarrow> matches cs (Assert a) i i"
| seq: "matches cs r i j \<Longrightarrow> matches cs s j k \<Longrightarrow> matches cs (Seq r s) i k"
| altl: "matches cs r i j \<Longrightarrow> matches cs (Alt r s) i j"
| altr: "matches cs s i j \<Longrightarrow> matches cs (Alt r s) i j"
| star0: "matches cs (Star r) i i"
| star1: "matches cs r i j \<Longrightarrow> i < j \<Longrightarrow> matches cs (Star r) j k \<Longrightarrow> matches cs (Star r) i k"
| lazy0: "matches cs (Lazy r) i i"
| lazy1: "matches cs r i j \<Longrightarrow> i < j \<Longrightarrow> matches cs (Lazy r) j k \<Longrightarrow> matches cs (Lazy r) i k"
| upto0: "matches cs (Upto n r) i i"
| upto1: "matches cs r i j \<Longrightarrow> i < j \<Longrightarrow> matches cs (Upto n r) j k \<Longrightarrow> matches cs (Upto (Suc n) r) i k"

inductive_cases matches_oneE: "matches cs (One p) i j"
inductive_cases matches_epsE: "matches cs Eps i j"
inductive_cases matches_assertE: "matches cs (Assert a) i j"
inductive_cases matches_seqE: "matches cs (Seq r s) i j"
inductive_cases matches_altE: "matches cs (Alt r s) i j"

lemma matches_grow: "matches cs r i j \<Longrightarrow> i \<le> j \<and> (i \<le> length cs \<longrightarrow> j \<le> length cs)"
  by (induction rule: matches.induct) auto

lemma greedy_sound: "j \<in> set (greedy (ends r cs) n i) \<Longrightarrow>
    (\<And>i j. j \<in> set (ends r cs i) \<Longrightarrow> matches cs r i j) \<Longrightarrow> matches cs (Star r) i j"
  by (induction "ends r cs" n i rule: greedy.induct) (auto intro: star0 star1 split: if_splits)

lemma lazily_sound: "j \<in> set (lazily (ends r cs) n i) \<Longrightarrow>
    (\<And>i j. j \<in> set (ends r cs i) \<Longrightarrow> matches cs r i j) \<Longrightarrow> matches cs (Lazy r) i j"
  by (induction "ends r cs" n i rule: lazily.induct) (auto intro: lazy0 lazy1 split: if_splits)

lemma upto_sound: "j \<in> set (greedy (ends r cs) n i) \<Longrightarrow>
    (\<And>i j. j \<in> set (ends r cs i) \<Longrightarrow> matches cs r i j) \<Longrightarrow> matches cs (Upto n r) i j"
  by (induction "ends r cs" n i rule: greedy.induct) (auto intro: upto0 upto1 split: if_splits)

lemma upto_more: "matches cs (Upto n r) i j \<Longrightarrow> n \<le> m \<Longrightarrow> matches cs (Upto m r) i j"
proof (induction "Upto n r" i j arbitrary: n m rule: matches.induct)
  case (upto1 i j n k)
  then obtain p where "m = Suc p" "n \<le> p" by (cases m) auto
  then show ?case using upto1.hyps matches.upto1 by blast
qed (rule matches.upto0)

lemma ends_sound: "j \<in> set (ends r cs i) \<Longrightarrow> matches cs r i j"
proof (induction r arbitrary: i j)
  case (One p)
  then show ?case by (auto simp: char_at_def intro: matches.one split: if_splits)
next
  case Eps
  then show ?case by (simp add: matches.eps)
next
  case (Assert a)
  then show ?case by (auto intro: matches.assert split: if_splits)
next
  case (Seq r s)
  then obtain k where "k \<in> set (ends r cs i)" "j \<in> set (ends s cs k)" by auto
  then show ?case using Seq.IH matches.seq by blast
next
  case (Alt r s)
  then show ?case by (auto intro: matches.altl matches.altr)
next
  case (Star r)
  then show ?case by (auto intro: greedy_sound)
next
  case (Lazy r)
  then show ?case by (auto intro: lazily_sound)
next
  case (Upto n r)
  have "matches cs (Upto (if length cs - i < n then length cs - i else n) r) i j"
    using Upto by (intro upto_sound) auto
  then show ?case by (rule upto_more) simp
qed

lemma star_complete:
  assumes "matches cs (Star r) i k" "i \<le> length cs" "length cs - i \<le> n" "\<And>i j. matches cs r i j \<Longrightarrow> i \<le> length cs \<Longrightarrow> j \<in> set (ends r cs i)"
  shows "k \<in> set (greedy (ends r cs) n i)"
  using assms
proof (induction "Star r" i k arbitrary: n rule: matches.induct)
  case (star0 i)
  then show ?case by (cases n) auto
next
  case (star1 i j k)
  have lt: "i < j" by fact
  have j: "j \<le> length cs" "j \<in> set (ends r cs i)" using star1 matches_grow by blast+
  then obtain m where n: "n = Suc m" using lt star1.prems(2) by (cases n) auto
  have "k \<in> set (greedy (ends r cs) m j)" using star1.prems j lt n by (intro star1.hyps(5)) auto
  then show ?case using n j(2) lt by auto
qed

lemma lazy_complete:
  assumes "matches cs (Lazy r) i k" "i \<le> length cs" "length cs - i \<le> n" "\<And>i j. matches cs r i j \<Longrightarrow> i \<le> length cs \<Longrightarrow> j \<in> set (ends r cs i)"
  shows "k \<in> set (lazily (ends r cs) n i)"
  using assms
proof (induction "Lazy r" i k arbitrary: n rule: matches.induct)
  case (lazy0 i)
  then show ?case by (cases n) auto
next
  case (lazy1 i j k)
  have lt: "i < j" by fact
  have j: "j \<le> length cs" "j \<in> set (ends r cs i)" using lazy1 matches_grow by blast+
  then obtain m where n: "n = Suc m" using lt lazy1.prems(2) by (cases n) auto
  have "k \<in> set (lazily (ends r cs) m j)" using lazy1.prems j lt n by (intro lazy1.hyps(5)) auto
  then show ?case using n j(2) lt by auto
qed

lemma upto_complete:
  assumes "matches cs (Upto n r) i k" "i \<le> length cs" "min n (length cs - i) \<le> m" "\<And>i j. matches cs r i j \<Longrightarrow> i \<le> length cs \<Longrightarrow> j \<in> set (ends r cs i)"
  shows "k \<in> set (greedy (ends r cs) m i)"
  using assms
proof (induction "Upto n r" i k arbitrary: n m rule: matches.induct)
  case (upto0 i)
  then show ?case by (cases m) auto
next
  case (upto1 i j n k)
  have lt: "i < j" by fact
  have j: "j \<le> length cs" "j \<in> set (ends r cs i)" using upto1 matches_grow by blast+
  then obtain p where p: "m = Suc p" using lt upto1.prems(2) by (cases m) auto
  have "k \<in> set (greedy (ends r cs) p j)" using upto1.prems j lt p by (intro upto1.hyps(5)) auto
  then show ?case using p j(2) lt by auto
qed

lemma ends_complete: "matches cs r i j \<Longrightarrow> i \<le> length cs \<Longrightarrow> j \<in> set (ends r cs i)"
proof (induction r arbitrary: i j)
  case (One p)
  then show ?case by (auto simp: char_at_def elim: matches_oneE)
next
  case Eps
  then show ?case by (auto elim: matches_epsE)
next
  case (Assert a)
  then show ?case by (auto elim: matches_assertE)
next
  case (Seq r s)
  from Seq.prems(1) obtain k where k: "matches cs r i k" "matches cs s k j" by (auto elim: matches_seqE)
  then have "k \<le> length cs" using matches_grow Seq.prems(2) by blast
  then show ?case using Seq.IH(1) [OF k(1) Seq.prems(2)] Seq.IH(2) [OF k(2)] by auto
next
  case (Alt r s)
  then show ?case by (auto elim: matches_altE)
next
  case (Star r)
  then show ?case by (auto intro: star_complete)
next
  case (Lazy r)
  then show ?case by (auto intro: lazy_complete)
next
  case (Upto n r)
  then show ?case by (auto intro: upto_complete)
qed

text \<open>The search is complete: it finds the leftmost position a match starts at, whenever there is one.\<close>

lemma ends_matches: "i \<le> length cs \<Longrightarrow> j \<in> set (ends r cs i) \<longleftrightarrow> matches cs r i j"
  using ends_sound ends_complete by blast

lemma first_match_Some:
  "first_match f is = Some (i, x) \<Longrightarrow>
   \<exists>as bs. is = as @ i # bs \<and> (\<forall>a \<in> set as. f a = []) \<and> f i \<noteq> [] \<and> hd (f i) = x"
proof (induction "is")
  case (Cons a as)
  note prem = Cons.prems
  show ?case
  proof (cases "f a")
    case Nil
    with Cons obtain us vs where "as = us @ i # vs" "\<forall>a \<in> set us. f a = []" "f i \<noteq> []" "hd (f i) = x" by auto
    then show ?thesis using Nil by (intro exI [of _ "a # us"] exI [of _ vs]) auto
  next
    case (Cons b bs)
    with prem show ?thesis by (intro exI [of _ "[]"] exI [of _ as]) auto
  qed
qed simp

lemma first_match_None: "first_match f is = None \<longleftrightarrow> (\<forall>i \<in> set is. f i = [])"
  by (induction "is") (auto split: list.splits)

lemma is_match_iff: "is_match r s \<longleftrightarrow> (\<exists>i j. i \<le> length (str_chars s) \<and> matches (str_chars s) r i j)"
proof -
  have "is_match r s \<longleftrightarrow> (\<exists>i \<le> length (str_chars s). ends r (str_chars s) i \<noteq> [])"
    by (auto simp: is_match_def find_at_def first_match_None less_Suc_eq_le simp del: upt_Suc)
  also have "\<dots> \<longleftrightarrow> (\<exists>i \<le> length (str_chars s). \<exists>j. j \<in> set (ends r (str_chars s) i))"
    by (metis ex_in_conv set_empty)
  also have "\<dots> \<longleftrightarrow> (\<exists>i \<le> length (str_chars s). \<exists>j. matches (str_chars s) r i j)"
    by (intro ex_cong1 conj_cong refl ends_matches)
  finally show ?thesis by blast
qed

end
