(* ===== verification/Model_Parsing.thy ===== *)
theory Model_Parsing
  imports Json_Value Regex_Match Voting
begin

section \<open>Reading a model's answer\<close>

text \<open>
  \<open>crates/sp42-citation/src/citation/parsing.rs\<close>: a verdict and a candidate quote from the free text a
  model returns, a JSON object first, prose as the fallback; and the span of a repair turn. The JSON
  parser is the parameter \<open>from_str\<close>; \<open>json\<close> is the value type it returns, an object its members in key
  order.
\<close>

record parsed_verdict =
  pv_verdict :: verdict
  pv_quote :: "string option"

subsection \<open>Verdict texts\<close>

definition unavailable_rx :: "rx_tables \<Rightarrow> rx" where
  "unavailable_rx tb =
     Alt (seqs [word_boundary tb, alts [lit ''unavailable'', lit ''inaccessible''], word_boundary tb])
         (seqs [alts [seqs [lit ''could'', opt (lit '' ''), lit ''n'', opt dot, lit ''t''], lit ''cannot'',
                      seqs [lit ''can'', opt dot, lit ''t''], lit ''unable to'', lit ''failed to'', lit ''no''],
                lit '' '', alts [lit ''access'', lit ''retrieve'', lit ''reach'', lit ''load'', lit ''fetch'']])"

definition not_supported_rx :: "rx_tables \<Rightarrow> rx" where
  "not_supported_rx tb =
     alts [seqs [word_boundary tb, lit ''unsupported'', word_boundary tb],
           seqs [word_boundary tb, lit ''not supported'', word_boundary tb],
           Seq (word_boundary tb) (lit ''contradict''), Seq (word_boundary tb) (lit ''refut'')]"

definition partial_rx :: "rx_tables \<Rightarrow> rx" where
  "partial_rx tb =
     Alt (Seq (word_boundary tb) (lit ''partial'')) (seqs [word_boundary tb, lit ''partly'', word_boundary tb])"

definition supported_rx :: "rx_tables \<Rightarrow> rx" where
  "supported_rx tb =
     alts [seqs [word_boundary tb, lit ''supported'', word_boundary tb],
           seqs [word_boundary tb, lit ''supports'', word_boundary tb],
           Seq (word_boundary tb) (lit ''confirm'')]"

definition normalize_text :: "rx_tables \<Rightarrow> string \<Rightarrow> string" where
  "normalize_text tb raw = str_join '' '' (str_split_whitespace (str_replace ''_'' '' '' (rx_lower tb raw)))"

definition canonicalize_verdict :: "rx_tables \<Rightarrow> string \<Rightarrow> verdict option" where
  "canonicalize_verdict tb raw =
     (let t = normalize_text tb raw
      in if t = [] then None
         else if is_match (unavailable_rx tb) t then Some SourceUnavailable
         else if is_match (not_supported_rx tb) t then Some NotSupported
         else if is_match (partial_rx tb) t then Some Partial
         else if is_match (supported_rx tb) t then Some Supported
         else None)"

subsection \<open>Candidates\<close>

definition fence_before :: rx where
  "fence_before = seqs [lit ''```'', opt (lit_ci ''json''), Star ws]"

fun str_rfind_char :: "char \<Rightarrow> string \<Rightarrow> nat option" where
  "str_rfind_char d [] = None"
| "str_rfind_char d (c # s) =
     (case str_rfind_char d s of Some i \<Rightarrow> Some (Suc i) | None \<Rightarrow> if c = d then Some 0 else None)"

definition json_candidates :: "string \<Rightarrow> string list" where
  "json_candidates t =
     (case group_text fence_before (Lazy any_rx) (lit ''```'') t of Some g \<Rightarrow> [g] | None \<Rightarrow> []) @
     (case (str_find ''{'' t, str_rfind_char (CHR ''}'') t) of
        (Some first, Some l) \<Rightarrow> if first < l then [take (Suc l - first) (drop first t)] else []
      | _ \<Rightarrow> [])"

definition straight_and_curly :: "char \<Rightarrow> string" where
  "straight_and_curly last_byte = [CHR 0x22, CHR 0xE2, CHR 0x80, last_byte]"

definition first_quoted_span :: "string \<Rightarrow> string option" where
  "first_quoted_span t =
     (case group_text (one_of (straight_and_curly (CHR 0x9C)))
             (between_times 1 2000 (none_of (straight_and_curly (CHR 0x9D)))) (one_of (straight_and_curly (CHR 0x9D))) t of
        None \<Rightarrow> None
      | Some g \<Rightarrow> if str_trim g = [] then None else Some (str_trim g))"

subsection \<open>Responses\<close>

definition quote_of_object :: "(string \<times> json) list \<Rightarrow> string option" where
  "quote_of_object m =
     (case List.map_filter (\<lambda>key. Option.bind (map_of m key) as_str) [''quote'', ''supporting_quote'', ''evidence''] of
        [] \<Rightarrow> None
      | q # _ \<Rightarrow> if str_trim q = [] then None else Some (str_trim q))"

fun verdict_from :: "rx_tables \<Rightarrow> (string \<Rightarrow> json option) \<Rightarrow> string list \<Rightarrow> parsed_verdict option" where
  "verdict_from tb from_str [] = None"
| "verdict_from tb from_str (candidate # cs) =
     (case from_str candidate of
        Some (JObject m) \<Rightarrow>
          (case map_of m ''verdict'' of
             None \<Rightarrow> verdict_from tb from_str cs
           | Some value \<Rightarrow>
               (case canonicalize_verdict tb (case as_str value of None \<Rightarrow> [] | Some s \<Rightarrow> s) of
                  None \<Rightarrow> verdict_from tb from_str cs
                | Some v \<Rightarrow> Some \<lparr>pv_verdict = v, pv_quote = quote_of_object m\<rparr>))
      | _ \<Rightarrow> verdict_from tb from_str cs)"

definition parse_verdict_response :: "rx_tables \<Rightarrow> (string \<Rightarrow> json option) \<Rightarrow> string \<Rightarrow> parsed_verdict option" where
  "parse_verdict_response tb from_str t =
     (case verdict_from tb from_str (json_candidates t) of
        Some v \<Rightarrow> Some v
      | None \<Rightarrow> map_option (\<lambda>v. \<lparr>pv_verdict = v, pv_quote = first_quoted_span t\<rparr>) (canonicalize_verdict tb t))"

definition trim_end_dots :: "string \<Rightarrow> string" where
  "trim_end_dots s = List.rev (dropWhile (\<lambda>c. c = CHR ''.'' \<or> c = CHR ''!'') (List.rev s))"

definition is_no_span :: "string \<Rightarrow> bool" where
  "is_no_span t \<longleftrightarrow>
     (let bare = str_trim (trim_end_dots (str_trim t))
      in to_ascii_lowercase bare = ''no_span'' \<or> to_ascii_lowercase bare = ''no span'')"

definition repair_span :: "string \<Rightarrow> string option" where
  "repair_span raw = (let t = str_trim raw in if t = [] \<or> is_no_span t then None else Some t)"

fun span_from :: "(string \<Rightarrow> json option) \<Rightarrow> string list \<Rightarrow> string option option" where
  "span_from from_str [] = None"
| "span_from from_str (candidate # cs) =
     (case from_str candidate of
        Some (JObject m) \<Rightarrow>
          (case Option.bind (map_of m ''quote'') as_str of
             None \<Rightarrow> span_from from_str cs
           | Some q \<Rightarrow> Some (repair_span q))
      | _ \<Rightarrow> span_from from_str cs)"

definition parse_repair_response :: "(string \<Rightarrow> json option) \<Rightarrow> string \<Rightarrow> string option" where
  "parse_repair_response from_str t =
     (case span_from from_str (json_candidates t) of
        Some r \<Rightarrow> r
      | None \<Rightarrow> if is_no_span t then None else Option.bind (first_quoted_span t) repair_span)"

subsection \<open>Words in a text\<close>

lemma str_chars_Nil [simp]: "str_chars [] = []"
  by (simp add: str_chars.simps [of "[]"])

lemma str_chars_Cons: "str_chars (c # s) = (c # takeWhile is_continuation s) # str_chars (dropWhile is_continuation s)"
  by (subst str_chars.simps)
    (simp add: char_len_Cons takeWhile_eq_take [symmetric] dropWhile_eq_drop [symmetric])

definition starts_char :: "string \<Rightarrow> bool" where
  "starts_char s = (case s of [] \<Rightarrow> True | c # _ \<Rightarrow> \<not> is_continuation c)"

lemma continuation_prefix:
  "starts_char v \<Longrightarrow> takeWhile is_continuation (u @ v) = takeWhile is_continuation u"
  "starts_char v \<Longrightarrow> dropWhile is_continuation (u @ v) = dropWhile is_continuation u @ v"
  by (induction u) (auto simp: starts_char_def split: list.splits)

lemma str_chars_append: "starts_char v \<Longrightarrow> str_chars (u @ v) = str_chars u @ str_chars v"
proof (induction u rule: length_induct)
  case (1 u)
  show ?case
  proof (cases u)
    case (Cons c s)
    have "length (dropWhile is_continuation s) < length u"
      using Cons length_dropWhile_le [of is_continuation s] by simp
    then show ?thesis using 1 Cons by (simp add: str_chars_Cons continuation_prefix)
  qed simp
qed

lemma str_chars_ascii: "list_all (\<lambda>c. \<not> is_continuation c) s \<Longrightarrow> str_chars s = map (\<lambda>c. [c]) s"
  by (induction s) (auto simp: str_chars_Cons takeWhile_eq_Nil_iff dropWhile_eq_self_iff list_all_iff neq_Nil_conv)

lemma matches_seqs_ones:
  "i + length ds \<le> length cs \<Longrightarrow> list_all2 (\<lambda>p d. p d) ps ds \<Longrightarrow> take (length ds) (drop i cs) = ds \<Longrightarrow>
   matches cs (seqs (map One ps)) i (i + length ds)"
proof (induction ps arbitrary: i ds)
  case Nil
  then show ?case by (simp add: matches.eps)
next
  case (Cons p ps)
  then obtain d es where ds: "ds = d # es" "p d" "list_all2 (\<lambda>p d. p d) ps es" by (auto simp: list_all2_Cons1)
  have i: "i < length cs" "cs ! i = d" "take (length es) (drop (Suc i) cs) = es"
    using Cons.prems(1,3) ds(1) by (auto simp: Cons_nth_drop_Suc [symmetric])
  have one: "matches cs (One p) i (Suc i)" using i(1,2) ds(2) by (intro matches.one) simp_all
  show ?case
  proof (cases ps)
    case Nil
    then show ?thesis using one ds by simp
  next
    case (Cons q qs)
    have "matches cs (seqs (map One ps)) (Suc i) (Suc i + length es)"
      using Cons.IH [of "Suc i" es] Cons.prems(1) ds i(3) by simp
    with one have "matches cs (Seq (One p) (seqs (map One ps))) i (Suc i + length es)" by (rule matches.seq)
    then show ?thesis using Cons ds(1) by simp
  qed
qed

lemma lit_matches:
  assumes "list_all (\<lambda>c. \<not> is_continuation c) w" "cs = as @ str_chars w @ bs"
  shows "matches cs (lit w) (length as) (length as + length w)"
proof -
  have w: "str_chars w = map (\<lambda>c. [c]) w" using assms(1) by (rule str_chars_ascii)
  have "matches cs (seqs (map One (map (\<lambda>c d. d = c) (str_chars w)))) (length as) (length as + length (str_chars w))"
    by (rule matches_seqs_ones) (simp_all add: assms(2) list_all2_map1 list_all2_same)
  then show ?thesis by (simp add: lit_def w comp_def)
qed

definition ends_in_word :: "rx_tables \<Rightarrow> string \<Rightarrow> bool" where
  "ends_in_word tb u \<longleftrightarrow> str_chars u \<noteq> [] \<and> word_char tb (List.last (str_chars u))"

definition starts_in_word :: "rx_tables \<Rightarrow> string \<Rightarrow> bool" where
  "starts_in_word tb v \<longleftrightarrow> str_chars v \<noteq> [] \<and> word_char tb (hd (str_chars v))"

lemma boundary_at:
  assumes "cs = as @ str_chars w @ bs" "str_chars w \<noteq> []"
    "as \<noteq> [] \<Longrightarrow> \<not> word_char tb (List.last as)" "word_char tb (hd (str_chars w))"
  shows "matches cs (word_boundary tb) (length as) (length as)"
proof -
  have "char_at cs (length as) = Some (hd (str_chars w))" using assms(1,2) by (simp add: char_at_def nth_append hd_conv_nth)
  moreover have "as \<noteq> [] \<Longrightarrow> char_before cs (length as) = Some (List.last as)"
    using assms(1) by (auto simp: char_before_def nth_append last_conv_nth)
  moreover have "as = [] \<Longrightarrow> char_before cs (length as) = None" by (simp add: char_before_def)
  ultimately show ?thesis
    unfolding word_boundary_def using assms(3,4) by (cases "as = []") (auto intro!: matches.assert)
qed

lemma boundary_after:
  assumes "cs = as @ str_chars w @ bs" "str_chars w \<noteq> []"
    "bs \<noteq> [] \<Longrightarrow> \<not> word_char tb (hd bs)" "word_char tb (List.last (str_chars w))" "k = length as + length (str_chars w)"
  shows "matches cs (word_boundary tb) k k"
proof -
  have "bs \<noteq> [] \<Longrightarrow> char_at cs k = Some (hd bs)" using assms(1,5) by (simp add: char_at_def nth_append hd_conv_nth)
  moreover have "bs = [] \<Longrightarrow> char_at cs k = None" using assms(1,5) by (simp add: char_at_def)
  moreover have "char_before cs k = Some (List.last (str_chars w))"
  proof -
    obtain c cs' where snoc: "str_chars w = cs' @ [c]" using assms(2) by (metis append_butlast_last_id)
    then show ?thesis using assms(1,5) by (simp add: char_before_def nth_append)
  qed
  ultimately show ?thesis
    unfolding word_boundary_def using assms(3,4) by (cases "bs = []") (auto intro!: matches.assert)
qed

lemma word_found:
  assumes "t = u @ w @ v" "starts_char v" "\<not> ends_in_word tb u" "\<not> starts_in_word tb v"
    "list_all (\<lambda>c. \<not> is_continuation c) w" "w \<noteq> []" "word_char tb [hd w]" "word_char tb [List.last w]"
  shows "is_match (seqs [word_boundary tb, lit w, word_boundary tb]) t"
proof -
  have w: "str_chars w = map (\<lambda>c. [c]) w" using assms(5) by (rule str_chars_ascii)
  have cs: "str_chars t = str_chars u @ str_chars w @ str_chars v"
  proof -
    have "starts_char (w @ v)" using assms(5,6) by (cases w) (simp_all add: starts_char_def)
    then show ?thesis using assms(1,2) by (simp add: str_chars_append)
  qed
  have "matches (str_chars t) (word_boundary tb) (length (str_chars u)) (length (str_chars u))"
    using assms(3,6,7) by (intro boundary_at [OF cs]) (auto simp: w ends_in_word_def hd_map)
  moreover have "matches (str_chars t) (lit w) (length (str_chars u)) (length (str_chars u) + length w)"
    using assms(5) cs by (rule lit_matches)
  moreover have "matches (str_chars t) (word_boundary tb) (length (str_chars u) + length w) (length (str_chars u) + length w)"
    using assms(4,6,8) by (intro boundary_after [OF cs]) (auto simp: w starts_in_word_def last_map)
  ultimately have "matches (str_chars t) (seqs [word_boundary tb, lit w, word_boundary tb]) (length (str_chars u)) (length (str_chars u) + length w)"
    by (auto intro: matches.seq)
  then show ?thesis using cs unfolding is_match_iff by (intro exI conjI) auto
qed

lemma is_match_altl: "is_match r t \<Longrightarrow> is_match (Alt r s) t"
  unfolding is_match_iff using matches.altl by blast

lemma is_match_altr: "is_match s t \<Longrightarrow> is_match (Alt r s) t"
  unfolding is_match_iff using matches.altr by blast

lemma not_supported_found:
  assumes "t = u @ w @ v" "w = ''not supported'' \<or> w = ''unsupported''" "starts_char v" "\<not> ends_in_word tb u" "\<not> starts_in_word tb v"
  shows "is_match (not_supported_rx tb) t"
proof -
  have "list_all (\<lambda>c. \<not> is_continuation c) w" "w \<noteq> []" "word_char tb [hd w]" "word_char tb [List.last w]"
    using assms(2) by (auto simp: is_continuation_def word_char_def ascii_alphanumeric_def)
  note found = word_found [OF assms(1,3,4,5) this]
  show ?thesis
    using assms(2) found by (auto simp: not_supported_rx_def intro: is_match_altl is_match_altr)
qed

definition ascii_classes :: rx_tables where
  "ascii_classes = \<lparr>rx_word = (\<lambda>_. False), rx_digit = (\<lambda>_. False), rx_lower = to_ascii_lowercase\<rparr>"

lemma negations_read:
  "canonicalize_verdict ascii_classes ''Not fully supported.'' = Some Supported"
  "canonicalize_verdict ascii_classes ''not CONFIRMED'' = Some Supported"
  by code_simp+

text \<open>
  What the canonical verdict hears: a text that says "not supported" or "unsupported" as words of their
  own, in any case, with underscores or any white space between the words, is never read as support. But
  the negation is only heard when it stands right before the word: "Not fully supported" and "not
  confirmed" are read as \<open>Supported\<close>.
\<close>

theorem not_supported_is_heard:
  "(normalize_text tb raw = u @ w @ v \<and> (w = ''not supported'' \<or> w = ''unsupported'') \<and> starts_char v \<and>
      \<not> ends_in_word tb u \<and> \<not> starts_in_word tb v \<longrightarrow>
      canonicalize_verdict tb raw = Some NotSupported \<or> canonicalize_verdict tb raw = Some SourceUnavailable) \<and>
   canonicalize_verdict ascii_classes ''Not fully supported.'' = Some Supported \<and>
   canonicalize_verdict ascii_classes ''not CONFIRMED'' = Some Supported"
  using not_supported_found [of "normalize_text tb raw" u w v tb] negations_read
  by (auto simp: canonicalize_verdict_def Let_def)

theorem not_supported_is_heard_witness:
  "canonicalize_verdict ascii_classes ''The claim is NOT_Supported, really'' \<in> {Some NotSupported, Some SourceUnavailable}"
proof -
  have "normalize_text ascii_classes ''The claim is NOT_Supported, really'' = ''the claim is '' @ ''not supported'' @ '', really''"
    by code_simp
  moreover have "\<not> ends_in_word ascii_classes ''the claim is ''" "\<not> starts_in_word ascii_classes '', really''" "starts_char '', really''"
    by code_simp+
  ultimately show ?thesis
    using not_supported_is_heard [of ascii_classes "''The claim is NOT_Supported, really''" "''the claim is ''" "''not supported''" "'', really''"]
    by auto
qed

end
