(* ===== verification/Citation_Urls.thy ===== *)
theory Citation_Urls
  imports Model_Parsing
begin

section \<open>Citation and article URLs\<close>

text \<open>
  \<open>crates/sp42-citation/src/citation/urls.rs\<close>: the guard on wiki codes, the article URL, the revision of an
  \<open>ETag\<close>, archive detection and the choice of the URL to fetch. The Wayback rewrite is in the theory on
  fetching. What \<open>Url::parse\<close> says of a text is the parameter \<open>url_of\<close>: scheme, host, path and query pairs.
\<close>

record parsed_url =
  pu_scheme :: string
  pu_host :: "string option"
  pu_path :: string
  pu_query :: "(string \<times> string) list"

record resolved_url =
  ru_url :: string
  ru_is_archive :: bool

record page_target =
  pt_title :: string
  pt_rev_id :: nat

datatype citation_verification_error =
    CV_InvalidRequest string
  | CV_SourceUnavailableError string
  | CV_InvalidResponse string
  | CV_Json string

subsection \<open>Patterns\<close>

definition lower_rx :: rx where
  "lower_rx = from_to 97 122"

definition wiki_code_rx :: rx where
  "wiki_code_rx =
     Alt (seqs [at_start, Seq (between_times 2 3 lower_rx) (opt (Seq (lit ''-'') (between_times 2 8 lower_rx))), at_end])
         (seqs [at_start, alts [lit ''simple'', lit ''test'', lit ''test2'', lit ''beta'', lit ''commons'', lit ''meta'',
                                lit ''species'', lit ''incubator''], at_end])"

definition is_valid_wiki_code :: "string \<Rightarrow> bool" where
  "is_valid_wiki_code wiki = is_match wiki_code_rx wiki"

definition archive_host_suffix_rx :: rx where
  "archive_host_suffix_rx =
     seqs [Alt at_start (lit ''.''),
       alts [lit_ci ''web.archive.org'', lit_ci ''webcitation.org'',
             Seq (lit_ci ''archive.'') (alts [lit_ci ''today'', lit_ci ''ph'', lit_ci ''is'', lit_ci ''li''])],
       at_end]"

subsection \<open>Encoding\<close>

definition hex_char :: "nat \<Rightarrow> char" where
  "hex_char n = ''0123456789ABCDEF'' ! n"

definition unreserved :: "char \<Rightarrow> bool" where
  "unreserved c \<longleftrightarrow> ascii_alphanumeric c \<or> c \<in> set [CHR ''-'', CHR ''_'', CHR ''.'', CHR ''!'', CHR ''~'', CHR ''*'', CHR 0x27, CHR ''('', CHR '')'']"

definition encode_uri_component :: "string \<Rightarrow> string" where
  "encode_uri_component input =
     concat (map (\<lambda>c. if unreserved c then [c]
                      else [CHR ''%'', hex_char (of_char c div 16), hex_char (of_char c mod 16)]) input)"

subsection \<open>Operations\<close>

definition build_article_html_url ::
  "(string \<Rightarrow> string) \<Rightarrow> string \<Rightarrow> string \<Rightarrow> nat option \<Rightarrow> citation_verification_error + string" where
  "build_article_html_url debug wiki title revision =
     (if \<not> is_valid_wiki_code wiki then Inl (CV_InvalidRequest (''invalid wiki code '' @ debug wiki))
      else let base = ''https://'' @ wiki @ ''.wikipedia.org/api/rest_v1/page/html/'' @ encode_uri_component title
           in Inr (case revision of Some r \<Rightarrow> base @ ''/'' @ show_nat r | None \<Rightarrow> base))"

text \<open>\<open>str::parse::<u64>\<close> on digits: the group may hold digits beyond ASCII, which do not parse.\<close>

definition parse_u64_digits :: "string \<Rightarrow> nat option" where
  "parse_u64_digits ds =
     (if ds \<noteq> [] \<and> list_all (\<lambda>c. (48 :: nat) \<le> of_char c \<and> (of_char c :: nat) \<le> 57) ds
      then let n = fold (\<lambda>c n. 10 * n + (of_char c - 48)) ds 0 in if n \<le> u64_max then Some n else None
      else None)"

definition parse_revision_from_etag :: "rx_tables \<Rightarrow> string \<Rightarrow> nat option" where
  "parse_revision_from_etag tb etag =
     Option.bind (group_text (lit [CHR 0x22]) (Seq (exactly 2 (digit tb)) (Star (digit tb))) (one_of [CHR ''/'', CHR 0x22]) etag)
       parse_u64_digits"

definition is_archive_url :: "rx_tables \<Rightarrow> (string \<Rightarrow> parsed_url option) \<Rightarrow> string \<Rightarrow> bool" where
  "is_archive_url tb url_of url =
     (case url_of url of
        None \<Rightarrow> False
      | Some parsed \<Rightarrow>
          (case pu_host parsed of
             None \<Rightarrow> False
           | Some h \<Rightarrow>
               (let host = rx_lower tb h
                in if is_match archive_host_suffix_rx host then True
                   else (host = ''archive.org'' \<or> suffix ''.archive.org'' host) \<and> prefix ''/web/'' (pu_path parsed))))"

definition resolve_citation_url :: "rx_tables \<Rightarrow> (string \<Rightarrow> parsed_url option) \<Rightarrow> string list \<Rightarrow> resolved_url option" where
  "resolve_citation_url tb url_of source_urls =
     (case List.find (\<lambda>u. \<not> is_archive_url tb url_of u) source_urls of
        Some live \<Rightarrow> Some \<lparr>ru_url = live, ru_is_archive = False\<rparr>
      | None \<Rightarrow> (case source_urls of [] \<Rightarrow> None | archive # _ \<Rightarrow> Some \<lparr>ru_url = archive, ru_is_archive = True\<rparr>))"

fun query_target :: "(string \<times> string) list \<Rightarrow> string option \<Rightarrow> nat \<Rightarrow> string option \<times> nat" where
  "query_target [] title rev_id = (title, rev_id)"
| "query_target ((key, v) # qs) title rev_id =
     (if key = ''title'' then query_target qs (Some v) rev_id
      else if key = ''oldid''
      then query_target qs title (case parse_u64_digits (if prefix ''+'' v then drop 1 v else v) of Some n \<Rightarrow> n | None \<Rightarrow> 0)
      else query_target qs title rev_id)"

definition parse_page_target :: "(string \<Rightarrow> parsed_url option) \<Rightarrow> (string \<Rightarrow> string) \<Rightarrow> string \<Rightarrow> page_target" where
  "parse_page_target url_of percent_decode input =
     (let trimmed = str_trim input; normalize_title = (\<lambda>raw. normalize_title_spacing (percent_decode raw));
          bare = \<lparr>pt_title = normalize_title_spacing trimmed, pt_rev_id = 0\<rparr>
      in case url_of trimmed of
           None \<Rightarrow> bare
         | Some url \<Rightarrow>
             if pu_scheme url \<noteq> ''http'' \<and> pu_scheme url \<noteq> ''https'' then bare
             else if prefix ''/wiki/'' (pu_path url) \<and> drop 6 (pu_path url) \<noteq> []
             then \<lparr>pt_title = normalize_title (drop 6 (pu_path url)), pt_rev_id = 0\<rparr>
             else case query_target (pu_query url) None 0 of
                    (Some title, rev_id) \<Rightarrow>
                      if title \<noteq> [] then \<lparr>pt_title = normalize_title title, pt_rev_id = rev_id\<rparr> else bare
                  | (None, _) \<Rightarrow> bare)"

subsection \<open>Properties\<close>

lemma matches_lit_chars: "matches cs (lit w) i j \<Longrightarrow> i \<le> length cs \<Longrightarrow> j = i + length (str_chars w) \<and> take (length (str_chars w)) (drop i cs) = str_chars w"
proof -
  have "matches cs (seqs (map (\<lambda>c. One (\<lambda>d. d = c)) ws)) i j \<Longrightarrow> i \<le> length cs \<Longrightarrow> j = i + length ws \<and> take (length ws) (drop i cs) = ws" for ws i
  proof (induction ws arbitrary: i)
    case Nil
    then show ?case by (auto elim: matches_epsE)
  next
    case (Cons w ws)
    show ?case
    proof (cases ws)
      case Nil
      then show ?thesis using Cons.prems by (auto elim!: matches_oneE simp: Cons_nth_drop_Suc [symmetric])
    next
      case (Cons v vs)
      then obtain k where k: "matches cs (One (\<lambda>d. d = w)) i k" "matches cs (seqs (map (\<lambda>c. One (\<lambda>d. d = c)) ws)) k j"
        using Cons.prems by (auto elim: matches_seqE)
      then have "k = Suc i" "i < length cs" "cs ! i = w" by (auto elim: matches_oneE)
      then show ?thesis using Cons.IH [OF k(2)] by (auto simp: Cons_nth_drop_Suc [symmetric])
    qed
  qed
  then show "matches cs (lit w) i j \<Longrightarrow> i \<le> length cs \<Longrightarrow> j = i + length (str_chars w) \<and> take (length (str_chars w)) (drop i cs) = str_chars w"
    by (simp add: lit_def)
qed

text \<open>Every character a pattern consumes is one some part of it accepts.\<close>

fun accepts_only :: "(string \<Rightarrow> bool) \<Rightarrow> rx \<Rightarrow> bool" where
  "accepts_only p (One q) \<longleftrightarrow> (\<forall>c. q c \<longrightarrow> p c)"
| "accepts_only p Eps \<longleftrightarrow> True"
| "accepts_only p (Assert a) \<longleftrightarrow> True"
| "accepts_only p (Seq r s) \<longleftrightarrow> accepts_only p r \<and> accepts_only p s"
| "accepts_only p (Alt r s) \<longleftrightarrow> accepts_only p r \<and> accepts_only p s"
| "accepts_only p (Star r) \<longleftrightarrow> accepts_only p r"
| "accepts_only p (Lazy r) \<longleftrightarrow> accepts_only p r"
| "accepts_only p (Upto n r) \<longleftrightarrow> accepts_only p r"

lemma accepts_only_matches:
  "matches cs r i j \<Longrightarrow> accepts_only p r \<Longrightarrow> i \<le> k \<Longrightarrow> k < j \<Longrightarrow> p (cs ! k)"
proof (induction arbitrary: k rule: matches.induct)
  case (one i q)
  have "k = i" using one.prems by simp
  then show ?case using one.hyps one.prems(1) by simp
next
  case (seq r i j s l)
  then show ?case by (cases "k < j") simp_all
next
  case (star1 r i j l)
  then show ?case by (cases "k < j") simp_all
next
  case (lazy1 r i j l)
  then show ?case by (cases "k < j") simp_all
next
  case (upto1 r i j n l)
  then show ?case by (cases "k < j") simp_all
qed simp_all

lemma accepts_only_seqs: "list_all (accepts_only p) rs \<Longrightarrow> accepts_only p (seqs rs)"
  by (induction rs rule: seqs.induct) auto

lemma accepts_only_lit: "list_all p (str_chars w) \<Longrightarrow> accepts_only p (lit w)"
  unfolding lit_def by (rule accepts_only_seqs) (auto simp: list_all_iff)

lemma accepts_only_exactly: "accepts_only p r \<Longrightarrow> accepts_only p (exactly n r)"
  by (induction n) auto

text \<open>An anchored pattern matches the whole text or not at all.\<close>

lemma anchored_matches:
  assumes "is_match (Seq at_start (Seq r at_end)) s"
  shows "matches (str_chars s) r 0 (length (str_chars s))"
proof -
  let ?cs = "str_chars s"
  obtain i j where ij: "i \<le> length ?cs" "matches ?cs (Seq at_start (Seq r at_end)) i j" using assms by (auto simp: is_match_iff)
  then obtain k l where k: "matches ?cs at_start i k" "matches ?cs r k l" "matches ?cs at_end l j" by (auto elim!: matches_seqE)
  then have "k = i" "char_before ?cs i = None" by (auto simp: at_start_def elim: matches_assertE)
  then have "i = 0" using ij(1) by (auto simp: char_before_def split: if_splits)
  have "l = j" "char_at ?cs j = None" using k(3) by (auto simp: at_end_def elim: matches_assertE)
  moreover have "j \<le> length ?cs" using matches_grow [OF ij(2)] ij(1) by simp
  ultimately have "l = length ?cs" by (auto simp: char_at_def split: if_splits)
  then show ?thesis using k(2) \<open>k = i\<close> \<open>i = 0\<close> by simp
qed

definition wiki_char :: "char \<Rightarrow> bool" where
  "wiki_char c \<longleftrightarrow> (let n = (of_char c :: nat) in 97 \<le> n \<and> n \<le> 122) \<or> c = CHR ''-'' \<or> c = CHR ''2''"

lemma is_match_AltE: "is_match (Alt r s) t \<Longrightarrow> is_match r t \<or> is_match s t"
  unfolding is_match_iff by (auto elim!: matches_altE)

lemma singles_concat: "\<forall>c \<in> set xs. \<exists>x. c = [x] \<and> p x \<Longrightarrow> list_all p (concat xs)"
  by (induction xs) auto

lemma wiki_code_chars:
  assumes "is_valid_wiki_code wiki"
  shows "list_all wiki_char wiki \<and> wiki \<noteq> []"
proof -
  let ?p = "\<lambda>c. \<exists>x. c = [x] \<and> wiki_char x"
  let ?r = "Seq (between_times 2 3 lower_rx) (opt (Seq (lit ''-'') (between_times 2 8 lower_rx)))"
  let ?names = "[''simple'', ''test'', ''test2'', ''beta'', ''commons'', ''meta'', ''species'', ''incubator'']"
  have lower: "accepts_only ?p lower_rx"
    by (auto simp: lower_rx_def from_to_def wiki_char_def split: list.splits)
  have "accepts_only ?p (lit w)" if "w \<in> set ?names \<or> w = ''-''" for w
    using that by (intro accepts_only_lit) (auto simp: str_chars_ascii is_continuation_def wiki_char_def)
  then have only: "accepts_only ?p ?r" "accepts_only ?p (alts (map lit ?names))"
    using lower by (auto simp: between_times_def opt_def accepts_only_exactly)
  have nonempty: "wiki \<noteq> []"
  proof
    assume "wiki = []"
    moreover have "\<not> is_valid_wiki_code []" by code_simp
    ultimately show False using assms by simp
  qed
  then have len: "str_chars wiki \<noteq> []" by (cases wiki) (simp_all add: str_chars_Cons)
  have "is_match (Seq at_start (Seq ?r at_end)) wiki \<or> is_match (Seq at_start (Seq (alts (map lit ?names)) at_end)) wiki"
    using assms is_match_AltE unfolding is_valid_wiki_code_def wiki_code_rx_def seqs.simps list.map by blast
  then have "\<exists>r. accepts_only ?p r \<and> matches (str_chars wiki) r 0 (length (str_chars wiki))"
    using anchored_matches only by blast
  then have chars: "\<forall>c \<in> set (str_chars wiki). ?p c"
    using accepts_only_matches [of "str_chars wiki" _ 0 "length (str_chars wiki)" ?p] by (auto simp: in_set_conv_nth)
  then show ?thesis using singles_concat [of "str_chars wiki" wiki_char] nonempty by simp
qed

lemma encoded_chars:
  "c \<in> set (encode_uri_component s) \<Longrightarrow> unreserved c \<or> c = CHR ''%''"
proof -
  have "unreserved (hex_char n)" if "n < 16" for n
  proof -
    have "list_all (\<lambda>n. unreserved (hex_char n)) [0..<16]" by code_simp
    then show ?thesis using that by (simp add: list_all_iff)
  qed
  moreover have "(of_char d :: nat) div 16 < 16" "(of_char d :: nat) mod 16 < 16" for d
  proof -
    show "(of_char d :: nat) div 16 < 16" by (rule less_mult_imp_div_less) simp
    show "(of_char d :: nat) mod 16 < 16" by simp
  qed
  ultimately show "c \<in> set (encode_uri_component s) \<Longrightarrow> unreserved c \<or> c = CHR ''%''"
    by (auto simp: encode_uri_component_def split: if_splits)
qed

lemma encoded_safe: "unreserved c \<or> c = CHR ''%'' \<Longrightarrow> c \<notin> set ''/?#@:''"
  by (auto simp: unreserved_def ascii_alphanumeric_def Let_def)

text \<open>
  An article URL stays on Wikipedia: a URL that is built for a wiki code has the scheme \<open>https\<close> and the
  host \<open>code.wikipedia.org\<close>, the code being lower-case letters, hyphens and the digit 2, whatever the user
  typed; and the title in it holds no slash, question mark, number sign or at sign, so it is one segment
  of the path. Any other code is refused.
\<close>

theorem article_url_stays_on_wikipedia:
  "(build_article_html_url debug wiki title revision = Inr url \<longrightarrow>
     wiki \<noteq> [] \<and> list_all wiki_char wiki \<and>
     (\<exists>tail. url = ''https://'' @ wiki @ ''.wikipedia.org/api/rest_v1/page/html/'' @ encode_uri_component title @ tail \<and>
        (tail = [] \<or> (\<exists>r. revision = Some r \<and> tail = ''/'' @ show_nat r))) \<and>
     (\<forall>c \<in> set (encode_uri_component title). c \<notin> set ''/?#@:'')) \<and>
   (build_article_html_url debug wiki title revision = Inl e \<longrightarrow> e = CV_InvalidRequest (''invalid wiki code '' @ debug wiki))"
proof (cases "is_valid_wiki_code wiki")
  case True
  have "\<forall>c \<in> set (encode_uri_component title). c \<notin> set ''/?#@:''" using encoded_chars encoded_safe by blast
  then show ?thesis
    using True wiki_code_chars [OF True]
    by (cases revision) (auto simp: build_article_html_url_def Let_def intro: exI [of _ "''/'' @ show_nat (the revision)"])
next
  case False
  then show ?thesis by (auto simp: build_article_html_url_def)
qed

theorem article_url_stays_on_wikipedia_witness:
  "list_all wiki_char ''pt-br''"
proof -
  have "build_article_html_url id ''pt-br'' ''A/B?'' (Some 7) = Inr ''https://pt-br.wikipedia.org/api/rest_v1/page/html/A%2FB%3F/7''"
    by code_simp
  then show ?thesis using article_url_stays_on_wikipedia [of id "''pt-br''" "''A/B?''" "Some 7"] by blast
qed

end
