(* ===== verification/Citation_Prompts.thy ===== *)
theory Citation_Prompts
  imports Citation_Urls Ports
begin

section \<open>What a model is told\<close>

text \<open>
  The messages, requests and fingerprints of \<open>crates/sp42-types/src/model.rs\<close>, the prompts of
  \<open>crates/sp42-citation/src/citation/prompts.rs\<close> and the metadata sidecar of \<open>citoid.rs\<close>. The two system
  instructions are data files the code includes, arguments here; the float knobs of the sampling
  parameters are a type \<open>'p\<close> with a fingerprint. The JSON parser is \<open>from_str\<close>.
\<close>

subsection \<open>The model edge\<close>

datatype chat_role = System | User | Assistant

record chat_message =
  cm_role :: chat_role
  cm_content :: string

definition system_message :: "string \<Rightarrow> chat_message" where
  "system_message content = \<lparr>cm_role = System, cm_content = content\<rparr>"

definition user_message :: "string \<Rightarrow> chat_message" where
  "user_message content = \<lparr>cm_role = User, cm_content = content\<rparr>"

record model_ref =
  mr_provider :: string
  mr_model :: string
  mr_version :: string

record model_invocation =
  mi_model :: model_ref
  mi_quant :: "string option"
  mi_params :: "(string \<times> string) list"
  mi_prompt_hash :: string

record 'p model_completion_request =
  mq_model :: model_ref
  mq_messages :: "chat_message list"
  mq_params :: 'p

record model_completion =
  mc_text :: string
  mc_served_model :: "string option"

datatype model_client_error = ModelTransport string | ModelInvalidResponse string | ModelStatePoisoned string

fun model_client_error_text :: "model_client_error \<Rightarrow> string" where
  "model_client_error_text (ModelTransport m) = ''model transport failed: '' @ m"
| "model_client_error_text (ModelInvalidResponse m) = ''model response was invalid: '' @ m"
| "model_client_error_text (ModelStatePoisoned r) = ''stub state is poisoned: '' @ r"

text \<open>The stub client of the tests: a queue of answers, each call taking the first.\<close>

definition stub_complete ::
  "(model_client_error + model_completion) list \<Rightarrow>
   (model_client_error + model_completion) \<times> (model_client_error + model_completion) list" where
  "stub_complete responses =
     (case responses of
        [] \<Rightarrow> (Inl (ModelInvalidResponse ''stub client has no queued response''), [])
      | r # rs \<Rightarrow> (r, rs))"

subsection \<open>The metadata sidecar\<close>

record citoid_metadata =
  ci_publication :: "string option"
  ci_published :: "string option"
  ci_author :: "string option"
  ci_title :: "string option"
  ci_url :: string

definition citoid_endpoint :: string where
  "citoid_endpoint = ''https://en.wikipedia.org/api/rest_v1/data/citation/mediawiki-basefields/''"

definition build_citoid_request :: "string \<Rightarrow> http_request" where
  "build_citoid_request source_url =
     \<lparr>hr_method = Get, hr_url = citoid_endpoint @ encode_uri_component source_url, hr_query = [], hr_headers = [], hr_body = []\<rparr>"

definition parse_citoid_response :: "(string \<Rightarrow> json option) \<Rightarrow> string \<Rightarrow> (string \<times> json) list option" where
  "parse_citoid_response from_str body =
     (case from_str body of Some (JArray (JObject m # _)) \<Rightarrow> Some m | _ \<Rightarrow> None)"

definition as_string :: "json \<Rightarrow> string option" where
  "as_string v = (case as_str v of None \<Rightarrow> None | Some s \<Rightarrow> if str_trim s = [] then None else Some s)"

definition author_name :: "json \<Rightarrow> string" where
  "author_name entry =
     (case entry of
        JArray parts \<Rightarrow> str_join '' '' (filter (\<lambda>s. s \<noteq> []) (List.map_filter as_str parts))
      | JString s \<Rightarrow> s
      | _ \<Rightarrow> [])"

definition format_authors :: "json \<Rightarrow> string option" where
  "format_authors value =
     (case value of
        JArray entries \<Rightarrow>
          (let names = filter (\<lambda>n. n \<noteq> []) (map author_name entries)
           in if names = [] then None else Some (str_join '', '' names))
      | _ \<Rightarrow> None)"

definition build_citoid_header :: "(string \<times> json) list \<Rightarrow> string \<Rightarrow> citoid_metadata option" where
  "build_citoid_header raw source_url =
     (let field = (\<lambda>f key. Option.bind (map_of raw key) f);
          publication = or_else (field as_string ''publicationTitle'') (field as_string ''websiteTitle'');
          published = field as_string ''date'';
          author = or_else (field format_authors ''author'') (field format_authors ''creators'');
          title = field as_string ''title''
      in if publication = None \<and> published = None \<and> author = None \<and> title = None then None
         else Some \<lparr>ci_publication = publication, ci_published = published, ci_author = author, ci_title = title,
                ci_url = source_url\<rparr>)"

subsection \<open>Prompts\<close>

record claim_context =
  cx_article_title :: string
  cx_preceding_sentences :: "string list"

definition context_is_empty :: "claim_context \<Rightarrow> bool" where
  "context_is_empty c \<longleftrightarrow> str_trim (cx_article_title c) = [] \<and> list_all (\<lambda>s. str_trim s = []) (cx_preceding_sentences c)"

definition lf :: string where "lf = [CHR 0x0A]"
definition em_dash :: string where "em_dash = [CHR 0xE2, CHR 0x80, CHR 0x94]"
definition dquote :: string where "dquote = [CHR 0x22]"
definition fence3 :: string where "fence3 = [CHR 0x22, CHR 0x22, CHR 0x22]"

definition metadata_section :: "citoid_metadata \<Rightarrow> string" where
  "metadata_section meta =
     (let line = (\<lambda>name value. case value of None \<Rightarrow> [] | Some v \<Rightarrow> [''- '' @ name @ '': '' @ v]);
          ls = line ''publication'' (ci_publication meta) @ line ''published'' (ci_published meta) @
               line ''author'' (ci_author meta) @ line ''title'' (ci_title meta)
      in if ls = [] then []
         else ''SOURCE METADATA (bibliographic context only '' @ em_dash @
              '' DO NOT quote from here; your supporting quote MUST come verbatim from the SOURCE text below):'' @ lf @
              str_join lf ls @ lf @ lf)"

definition context_section :: "claim_context \<Rightarrow> string" where
  "context_section c =
     (if context_is_empty c then []
      else let preceding = filter (\<lambda>s. str_trim s \<noteq> []) (cx_preceding_sentences c);
               ls = (if str_trim (cx_article_title c) = [] then [] else [''- article: '' @ cx_article_title c]) @
                    (if preceding = [] then [] else ''- preceding text:'' # map (\<lambda>s. ''    '' @ s) preceding)
           in ''CLAIM CONTEXT '' @ em_dash @
              '' BACKGROUND ONLY. Use this solely to resolve references and pronouns in the CLAIM (what its names, dates, and '' @
              dquote @ ''it'' @ dquote @ ''/'' @ dquote @ ''he'' @ dquote @ ''/'' @ dquote @ ''there'' @ dquote @
              '' refer to). It is NOT part of the claim and NOT a source. Do NOT verify it, DO NOT quote from it '' @
              ''(your supporting quote MUST come verbatim from the SOURCE text below), and do NOT let it widen the claim '' @
              ''or make you hedge. Judge the CLAIM against the SOURCE exactly as if the claim were already self-contained:'' @ lf @
              str_join lf ls @ lf @ lf)"

definition build_verify_prompt ::
  "string \<Rightarrow> string \<Rightarrow> string \<Rightarrow> string \<Rightarrow> citoid_metadata option \<Rightarrow> claim_context option \<Rightarrow> chat_message list" where
  "build_verify_prompt system claim source_text source_url meta context =
     [system_message system,
      user_message (''CLAIM:'' @ lf @ claim @ lf @ lf @
        (case context of None \<Rightarrow> [] | Some c \<Rightarrow> context_section c) @
        (case meta of None \<Rightarrow> [] | Some m \<Rightarrow> metadata_section m) @
        ''SOURCE ('' @ source_url @ ''):'' @ lf @ fence3 @ lf @ source_text @ lf @ fence3 @ lf @ lf @
        ''Respond with the JSON object described in the instructions.'')]"

definition build_repair_prompt :: "string \<Rightarrow> string \<Rightarrow> string \<Rightarrow> string \<Rightarrow> string \<Rightarrow> chat_message list" where
  "build_repair_prompt repair_system claim source_text source_url failed_quote =
     [system_message repair_system,
      user_message (''CLAIM:'' @ lf @ claim @ lf @ lf @ ''PREVIOUS QUOTE (did not match the source verbatim):'' @ lf @
        fence3 @ lf @ failed_quote @ lf @ fence3 @ lf @ lf @
        ''SOURCE ('' @ source_url @ ''):'' @ lf @ fence3 @ lf @ source_text @ lf @ fence3 @ lf @ lf @
        ''Respond with the JSON object described in the instructions.'')]"

lemma empty_context_is_no_context:
  "context_is_empty c \<Longrightarrow> build_verify_prompt system claim t url m (Some c) = build_verify_prompt system claim t url m None"
  by (simp add: build_verify_prompt_def context_section_def)

end
