(* ===== verification/Body_Classifier.thy ===== *)
theory Body_Classifier
  imports Model_Parsing
begin

section \<open>Is a fetched body usable?\<close>

text \<open>
  \<open>crates/sp42-citation/src/citation/body_classifier.rs\<close>: the detectors that keep a body that is no
  article away from the models, in their order, first match first. The host of a URL and the JSON parser
  are the parameters \<open>host_of\<close> and \<open>from_str\<close>.
\<close>

definition signature_len :: nat where "signature_len = 500"
definition short_body_floor :: nat where "short_body_floor = 300"
definition chrome_length_cap :: nat where "chrome_length_cap = 600"
definition challenge_window_len :: nat where "challenge_window_len = 1500"
definition prose_sentence_floor :: nat where "prose_sentence_floor = 5"

datatype body_usability_reason =
    BU_Ok
  | JsonLdLeak
  | CssLeak
  | AntiBotChallenge
  | WaybackRedirectNotice
  | WaybackChrome
  | AmazonStub
  | ShortBody
  | PdfBody
  | ViewerShell
  | NavChromePaywall

fun reason_as_str :: "body_usability_reason \<Rightarrow> string" where
  "reason_as_str BU_Ok = ''ok''"
| "reason_as_str JsonLdLeak = ''json_ld_leak''"
| "reason_as_str CssLeak = ''css_leak''"
| "reason_as_str AntiBotChallenge = ''anti_bot_challenge''"
| "reason_as_str WaybackRedirectNotice = ''wayback_redirect_notice''"
| "reason_as_str WaybackChrome = ''wayback_chrome''"
| "reason_as_str AmazonStub = ''amazon_stub''"
| "reason_as_str ShortBody = ''short_body''"
| "reason_as_str PdfBody = ''pdf_body''"
| "reason_as_str ViewerShell = ''viewer_shell''"
| "reason_as_str NavChromePaywall = ''nav_chrome_paywall''"

record body_usability =
  bu_usable :: bool
  bu_reason :: body_usability_reason

definition unusable :: "body_usability_reason \<Rightarrow> body_usability" where
  "unusable reason = \<lparr>bu_usable = False, bu_reason = reason\<rparr>"

subsection \<open>Patterns\<close>

definition json_ld_prefix_rx :: rx where
  "json_ld_prefix_rx = seqs [at_start, Star ws, one_of ''{['']"

definition json_ld_keyword_rx :: rx where
  "json_ld_keyword_rx =
     seqs [lit [CHR 0x22, CHR ''@''], alts [lit ''context'', lit ''type'', lit ''graph''], lit [CHR 0x22], Star ws, lit '':'']"

definition css_rule_like_rx :: "rx_tables \<Rightarrow> rx" where
  "css_rule_like_rx tb =
     seqs [at_start, plus (alts [ws, one_of ''.#@'', word tb, lit ''-'']), lit ''{'',
       exactly 10 (none_of ''{}''), Star (none_of ''{}'')]"

definition anti_bot_rx :: rx where
  "anti_bot_rx =
     alts [seqs [lit_ci ''Making sure you'', Alt (lit [CHR 0x27]) (lit ''&#39;''), lit_ci ''re not a bot''],
           lit_ci ''Anubis uses a Proof-of-Work'', lit_ci ''Just a moment...'', lit_ci ''Verifying you are human'',
           lit_ci ''Please enable JavaScript and cookies'', lit_ci ''Checking your browser before accessing'']"

definition wayback_redirect_rx :: "rx_tables \<Rightarrow> rx" where
  "wayback_redirect_rx tb = seqs [lit ''Got an HTTP '', exactly 3 (digit tb), lit '' response at crawl time'']"

definition wayback_banner_rx :: rx where
  "wayback_banner_rx = seqs [at_start, lit ''The Wayback Machine - http'', opt (lit ''s''), lit ''://'']"

definition wayback_captures_rx :: "rx_tables \<Rightarrow> rx" where
  "wayback_captures_rx tb =
     seqs [between_times 1 9 (digit tb), lit '' captures'', between_times 1 5 ws, between_times 1 2 (digit tb),
       lit '' '', between_times 1 30 (word tb), lit '' '', exactly 4 (digit tb)]"

definition wayback_collected_rx :: "rx_tables \<Rightarrow> rx" where
  "wayback_collected_rx tb = seqs [word_boundary tb, lit ''COLLECTED BY'', plus ws, lit ''Collection:'']"

definition amazon_stub_rx :: "rx_tables \<Rightarrow> rx" where
  "amazon_stub_rx tb =
     seqs [lit_ci ''Conditions of Use'', opt (lit_ci '' & Sale''), Upto 20 ws, lit_ci ''Privacy Notice'', Upto 20 ws,
       lit [CHR 0xC2, CHR 0xA9], Upto 20 ws, exactly 4 (digit tb), lit ''-'', exactly 4 (digit tb), opt (lit '',''),
       Upto 20 ws, lit_ci ''Amazon.com'']"

definition quote_mark_rx :: rx where
  "quote_mark_rx = one_of [CHR 0x22, CHR 0x27]"

definition ld_json_open_rx :: rx where
  "ld_json_open_rx =
     seqs [lit_ci ''<script'', Star (none_of ''>''), lit_ci ''type='', quote_mark_rx, lit_ci ''application/ld+json'',
       quote_mark_rx, Star (none_of ''>''), lit ''>'']"

definition content_tier_gated_rx :: rx where
  "content_tier_gated_rx =
     seqs [lit_ci ''property='', quote_mark_rx, lit_ci ''article:content_tier'', quote_mark_rx, plus ws, lit_ci ''content='',
       quote_mark_rx, Alt (lit_ci ''locked'') (lit_ci ''metered''), quote_mark_rx]"

definition paywall_phrase_rx :: rx where
  "paywall_phrase_rx =
     alts [Seq (lit_ci ''subscribe to '') (Alt (lit_ci ''read'') (lit_ci ''continue'')), lit_ci ''sign in to continue'',
           lit_ci ''create a free account'', Seq (lit_ci ''register to '') (Alt (lit_ci ''read'') (lit_ci ''continue'')),
           lit_ci ''to continue reading'', seqs [lit_ci ''subscriber'', opt (lit_ci ''s''), lit_ci '' only''],
           seqs [lit_ci ''this '', Alt (lit_ci ''article'') (lit_ci ''content''), lit_ci '' is for subscribers'']]"

definition consent_marker_rx :: rx where
  "consent_marker_rx =
     alts [lit_ci ''accept all cookies'', lit_ci ''manage cookies'',
           Seq (lit_ci ''cookie '') (alts [lit_ci ''policy'', lit_ci ''consent'', lit_ci ''preferences'', lit_ci ''settings'']),
           lit_ci ''we value your privacy'']"

definition sentence_end_rx :: rx where
  "sentence_end_rx =
     (let letter = Alt (from_to 65 90) (from_to 97 122)
      in seqs [exactly 3 letter, Star letter, one_of ''.!?'', Alt ws at_end])"

definition paywall_vendor_hosts :: "string list" where
  "paywall_vendor_hosts =
     [''piano.io'', ''tinypass.com'', ''npttech.com'', ''poool.fr'', ''poool.tech'', ''zephr.com'',
      ''arcpublishing.com'', ''pelcro.com'', ''evolok.com'', ''wallkit.net'']"

definition special_case_domains :: "string list list" where
  "special_case_domains = [[''books'', ''google'']]"

definition is_special_case_host :: "(string \<Rightarrow> string option) \<Rightarrow> string \<Rightarrow> bool" where
  "is_special_case_host host_of source_url =
     (case host_of source_url of
        None \<Rightarrow> False
      | Some host \<Rightarrow>
          (let labels = str_split ''.'' (to_ascii_lowercase host)
           in labels \<noteq> [] \<and> list_ex (\<lambda>domain. suffix domain (butlast labels)) special_case_domains))"

definition head_chars :: "string \<Rightarrow> nat \<Rightarrow> string" where
  "head_chars t n = concat (take n (str_chars t))"

subsection \<open>Paywalls\<close>

fun value_marks_paywalled :: "json \<Rightarrow> bool" where
  "value_marks_paywalled (JObject m) \<longleftrightarrow>
     (case map_of m ''isAccessibleForFree'' of
        None \<Rightarrow> False
      | Some v \<Rightarrow> v = JBool False \<or> (case as_str v of None \<Rightarrow> False | Some s \<Rightarrow> to_ascii_lowercase s = ''false'')) \<or>
     list_ex (\<lambda>(k, v). value_marks_paywalled v) m"
| "value_marks_paywalled (JArray items) \<longleftrightarrow> list_ex value_marks_paywalled items"
| "value_marks_paywalled v \<longleftrightarrow> False"

text \<open>\<open>captures_iter\<close>: the group of each match in turn.\<close>

function groups_from :: "rx \<Rightarrow> rx \<Rightarrow> rx \<Rightarrow> string list \<Rightarrow> nat \<Rightarrow> string list" where
  "groups_from p g q cs i =
     (case group_at p g q cs i of
        None \<Rightarrow> []
      | Some (_, j, k, l) \<Rightarrow>
          concat (take (k - j) (drop j cs)) # (if i < l \<and> l \<le> length cs then groups_from p g q cs l else []))"
  by pat_completeness auto
termination
  by (relation "measure (\<lambda>(_, _, _, cs, i). length cs - i)") auto

declare groups_from.simps [simp del]

definition json_ld_marks_paywalled :: "(string \<Rightarrow> json option) \<Rightarrow> string \<Rightarrow> bool" where
  "json_ld_marks_paywalled from_str raw_html =
     list_ex (\<lambda>block. case from_str (str_trim block) of None \<Rightarrow> False | Some v \<Rightarrow> value_marks_paywalled v)
       (groups_from ld_json_open_rx (Lazy any_rx) (lit_ci ''</script>'') (str_chars raw_html) 0)"

text \<open>\<open>find_iter().count()\<close>.\<close>

function count_from :: "rx \<Rightarrow> string list \<Rightarrow> nat \<Rightarrow> nat" where
  "count_from r cs i =
     (case find_at r cs i of
        None \<Rightarrow> 0
      | Some (_, j) \<Rightarrow> Suc (if i < j \<and> j \<le> length cs then count_from r cs j else 0))"
  by pat_completeness auto
termination
  by (relation "measure (\<lambda>(_, cs, i). length cs - i)") auto

declare count_from.simps [simp del]

subsection \<open>The classification\<close>

definition classify_body_usability :: "rx_tables \<Rightarrow> string option \<Rightarrow> body_usability" where
  "classify_body_usability tb body =
     (case body of
        None \<Rightarrow> unusable ShortBody
      | Some body \<Rightarrow>
          (let trimmed = str_trim body; len = char_count trimmed; signature = head_chars trimmed signature_len;
               challenge_window = head_chars trimmed challenge_window_len
           in if is_match json_ld_prefix_rx signature \<and> is_match json_ld_keyword_rx signature then unusable JsonLdLeak
              else if is_match (css_rule_like_rx tb) signature \<and>
                      length (filter (\<lambda>c. c \<in> set ''{};:'') signature) * 20 > char_count signature then unusable CssLeak
              else if is_match anti_bot_rx challenge_window then unusable AntiBotChallenge
              else if is_match (wayback_redirect_rx tb) challenge_window then unusable WaybackRedirectNotice
              else if len < chrome_length_cap \<and>
                      (is_match wayback_banner_rx signature \<or> is_match (wayback_captures_rx tb) signature \<or>
                       is_match (wayback_collected_rx tb) signature) then unusable WaybackChrome
              else if is_match (amazon_stub_rx tb) trimmed then unusable AmazonStub
              else if len < short_body_floor then unusable ShortBody
              else \<lparr>bu_usable = True, bu_reason = BU_Ok\<rparr>))"

definition has_pdf_magic :: "string option \<Rightarrow> bool" where
  "has_pdf_magic s = (case s of None \<Rightarrow> False | Some t \<Rightarrow> prefix ''%PDF-'' (str_trim_start t))"

definition classify_source_usability ::
  "rx_tables \<Rightarrow> (string \<Rightarrow> string option) \<Rightarrow> (string \<Rightarrow> json option) \<Rightarrow> string \<Rightarrow> string \<Rightarrow> string option \<Rightarrow> string option \<Rightarrow>
   body_usability" where
  "classify_source_usability tb host_of from_str source_url content_type raw_html body =
     (if str_contains (to_ascii_lowercase content_type) ''application/pdf'' \<or> has_pdf_magic raw_html \<or> has_pdf_magic body
      then unusable PdfBody
      else if is_special_case_host host_of source_url then unusable ViewerShell
      else let trimmed = (case body of None \<Rightarrow> [] | Some t \<Rightarrow> str_trim t);
               raw = (case raw_html of None \<Rightarrow> [] | Some t \<Rightarrow> t);
               hard_marker = json_ld_marks_paywalled from_str raw \<or> is_match content_tier_gated_rx raw \<or>
                 list_ex (str_contains raw) paywall_vendor_hosts;
               soft_marker = is_match paywall_phrase_rx trimmed;
               consent_wall = is_match consent_marker_rx raw \<or> is_match consent_marker_rx trimmed
           in if (hard_marker \<or> soft_marker \<and> \<not> consent_wall) \<and>
                 count_from sentence_end_rx (str_chars trimmed) 0 < prose_sentence_floor then unusable NavChromePaywall
              else classify_body_usability tb body)"

end
