(* ===== verification/Source_Fetch.thy ===== *)
theory Source_Fetch
  imports Model_Parsing Stream_Runtime
begin

section \<open>The text of a fetched source\<close>

text \<open>
  \<open>crates/sp42-citation/src/citation/source_fetch.rs\<close> and the Wayback rewrite of \<open>urls.rs\<close>: how the body of
  a response becomes the text quotes are located in. HTML is recognised by content type or by markup, its
  comments, declarations, scripts, styles and tags are removed by one pattern after another, its
  character references decoded and its white space collapsed; a Wayback banner is cut off.
\<close>

definition min_prefix :: nat where "min_prefix = 200"
definition min_remainder :: nat where "min_remainder = 500"

subsection \<open>Patterns\<close>

definition wayback_preamble_rx :: rx where
  "wayback_preamble_rx = Seq (lit ''The Wayback Machine - https://web.archive.org/'') (plus (One (\<lambda>c. \<not> ws_cp c)))"

definition html_doc_prefix_rx :: rx where
  "html_doc_prefix_rx =
     seqs [at_start, Star ws, lit ''<'', alts [lit_ci ''!doctype'', lit_ci ''html'', lit_ci ''head'', lit_ci ''body'', lit_ci ''?xml'']]"

definition html_close_tag_rx :: rx where
  "html_close_tag_rx =
     seqs [lit ''</'',
       alts [lit_ci ''p'', lit_ci ''div'', lit_ci ''span'', lit_ci ''a'', lit_ci ''body'', lit_ci ''html'',
             lit_ci ''table'', lit_ci ''tr'', lit_ci ''td'', lit_ci ''li'', lit_ci ''ul'', lit_ci ''ol'',
             Seq (lit_ci ''h'') (from_to 49 54), lit_ci ''article'', lit_ci ''section''],
       lit ''>'']"

definition comment_rx :: rx where
  "comment_rx = seqs [lit ''<!--'', Lazy any_rx, lit ''-->'']"

definition unterminated_comment_rx :: rx where
  "unterminated_comment_rx = seqs [lit ''<!--'', Star any_rx, at_end]"

definition declaration_rx :: rx where
  "declaration_rx = seqs [lit ''<!'', Star (none_of ''>''), lit ''>'']"

definition element_rx :: "rx_tables \<Rightarrow> string \<Rightarrow> rx" where
  "element_rx tb name = seqs [lit_ci (''<'' @ name), word_boundary tb, Lazy any_rx, lit_ci (''</'' @ name @ ''>'')]"

definition block_tag_rx :: "rx_tables \<Rightarrow> rx" where
  "block_tag_rx tb =
     seqs [lit ''<'', opt (lit ''/''),
       alts [lit_ci ''p'', lit_ci ''div'', lit_ci ''br'', lit_ci ''hr'', lit_ci ''li'', lit_ci ''ul'',
             lit_ci ''ol'', lit_ci ''tr'', lit_ci ''td'', lit_ci ''th'', Seq (lit_ci ''h'') (from_to 49 54),
             lit_ci ''section'', lit_ci ''article'', lit_ci ''header'', lit_ci ''footer'', lit_ci ''table'',
             lit_ci ''blockquote'', lit_ci ''pre'', lit_ci ''figure'', lit_ci ''figcaption'',
             lit_ci ''aside'', lit_ci ''nav'', lit_ci ''main'', lit_ci ''dd'', lit_ci ''dt'',
             lit_ci ''dl''],
       word_boundary tb, Star (none_of ''>''), lit ''>'']"

definition any_tag_rx :: rx where
  "any_tag_rx = seqs [lit ''<'', plus (none_of ''>''), lit ''>'']"

definition hex_digit_rx :: rx where
  "hex_digit_rx = alts [from_to 48 57, from_to 97 102, from_to 65 70]"

definition letter_rx :: rx where
  "letter_rx = Alt (from_to 97 122) (from_to 65 90)"

definition entity_rx :: rx where
  "entity_rx =
     seqs [lit ''&'',
       alts [seqs [lit ''#'', one_of ''xX'', plus hex_digit_rx], Seq (lit ''#'') (plus (from_to 48 57)),
             Seq letter_rx (plus (Alt letter_rx (from_to 48 57)))],
       lit '';'']"

definition whitespace_rx :: rx where
  "whitespace_rx = plus ws"

subsection \<open>Character references\<close>

text \<open>\<open>char::from_u32\<close>, and the UTF-8 encoding of a character.\<close>

definition utf8_encode :: "nat \<Rightarrow> string" where
  "utf8_encode n =
     map char_of
       (if n < 0x80 then [n]
        else if n < 0x800 then [0xC0 + n div 0x40, 0x80 + n mod 0x40]
        else if n < 0x10000 then [0xE0 + n div 0x1000, 0x80 + n div 0x40 mod 0x40, 0x80 + n mod 0x40]
        else [0xF0 + n div 0x40000, 0x80 + n div 0x1000 mod 0x40, 0x80 + n div 0x40 mod 0x40, 0x80 + n mod 0x40])"

definition char_from_u32 :: "nat \<Rightarrow> string option" where
  "char_from_u32 n =
     (if n < 0xD800 \<or> 0xE000 \<le> n \<and> n < 0x110000 then Some (utf8_encode n) else None)"

definition hex_digit_value :: "char \<Rightarrow> nat" where
  "hex_digit_value c = (let n = of_char c in if n \<le> 57 then n - 48 else if n \<le> 70 then n - 55 else n - 87)"

definition parse_u32 :: "nat \<Rightarrow> string \<Rightarrow> nat option" where
  "parse_u32 radix ds =
     (let n = fold (\<lambda>c n. radix * n + hex_digit_value c) ds 0 in if n \<le> u32_max then Some n else None)"

definition named_entities :: "(string \<times> nat) list" where
  "named_entities =
    [(''amp'', 0x26), (''lt'', 0x3C), (''gt'', 0x3E), (''quot'', 0x22), (''apos'', 0x5C),
     (''nbsp'', 0xA0), (''mdash'', 0x2014), (''ndash'', 0x2013), (''hellip'', 0x2026),
     (''lsquo'', 0x2018), (''rsquo'', 0x2019), (''ldquo'', 0x201C), (''rdquo'', 0x201D),
     (''laquo'', 0xAB), (''raquo'', 0xBB), (''middot'', 0xB7), (''deg'', 0xB0), (''copy'', 0xA9),
     (''reg'', 0xAE), (''trade'', 0x2122), (''euro'', 0x20AC), (''pound'', 0xA3), (''cent'', 0xA2),
     (''sect'', 0xA7), (''para'', 0xB6), (''times'', 0xD7), (''divide'', 0xF7), (''frac12'', 0xBD),
     (''frac14'', 0xBC), (''frac34'', 0xBE), (''agrave'', 0xE0), (''aacute'', 0xE1), (''acirc'', 0xE2),
     (''atilde'', 0xE3), (''auml'', 0xE4), (''aring'', 0xE5), (''ccedil'', 0xE7), (''egrave'', 0xE8),
     (''eacute'', 0xE9), (''ecirc'', 0xEA), (''euml'', 0xEB), (''igrave'', 0xEC), (''iacute'', 0xED),
     (''icirc'', 0xEE), (''iuml'', 0xEF), (''ntilde'', 0xF1), (''ograve'', 0xF2), (''oacute'', 0xF3),
     (''ocirc'', 0xF4), (''otilde'', 0xF5), (''ouml'', 0xF6), (''oslash'', 0xF8), (''ugrave'', 0xF9),
     (''uacute'', 0xFA), (''ucirc'', 0xFB), (''uuml'', 0xFC), (''yacute'', 0xFD), (''szlig'', 0xDF),
     (''Agrave'', 0xC0), (''Aacute'', 0xC1), (''Eacute'', 0xC9), (''Egrave'', 0xC8), (''Ccedil'', 0xC7),
     (''Ntilde'', 0xD1), (''Ouml'', 0xD6), (''Uuml'', 0xDC)]"

definition decode_one :: "string \<Rightarrow> string" where
  "decode_one inner =
     (case (if prefix ''#x'' inner \<or> prefix ''#X'' inner then Option.bind (parse_u32 16 (drop 2 inner)) char_from_u32
            else if prefix ''#'' inner then Option.bind (parse_u32 10 (drop 1 inner)) char_from_u32
            else map_option utf8_encode (map_of named_entities inner)) of
        Some c \<Rightarrow> c
      | None \<Rightarrow> ''&'' @ inner @ '';'')"

definition decode_entities :: "string \<Rightarrow> string" where
  "decode_entities s = replace_all entity_rx (\<lambda>m. decode_one (concat (butlast (tl m)))) s"

subsection \<open>Extraction\<close>

definition looks_like_html :: "rx_tables \<Rightarrow> string \<Rightarrow> string \<Rightarrow> bool" where
  "looks_like_html tb content_type body =
     (let content_type = rx_lower tb content_type
      in if str_contains content_type ''html'' \<or> str_contains content_type ''xml'' then True
         else if content_type \<noteq> [] then False
         else is_match html_doc_prefix_rx body \<or> is_match html_close_tag_rx body)"

definition spaced :: "string list \<Rightarrow> string" where
  "spaced m = '' ''"

definition strip_markup :: "rx_tables \<Rightarrow> string \<Rightarrow> string" where
  "strip_markup tb html =
     (let t = replace_all unterminated_comment_rx spaced html;
          t = replace_all declaration_rx spaced t;
          t = replace_all (element_rx tb ''script'') spaced t;
          t = replace_all (element_rx tb ''style'') spaced t;
          t = replace_all (element_rx tb ''noscript'') spaced t;
          t = replace_all (block_tag_rx tb) spaced t
      in replace_all any_tag_rx (\<lambda>_. []) t)"

definition html_to_text :: "rx_tables \<Rightarrow> string \<Rightarrow> string" where
  "html_to_text tb html =
     str_trim (replace_all whitespace_rx spaced
       (decode_entities (strip_markup tb (replace_all comment_rx spaced html))))"

definition recover_wayback_body :: "string \<Rightarrow> string" where
  "recover_wayback_body t =
     (let cs = str_chars t
      in case find_at wayback_preamble_rx cs 0 of
           None \<Rightarrow> t
         | Some (start, cut_at) \<Rightarrow>
             if char_count (concat (take cut_at cs)) < min_prefix then t
             else let remainder = str_trim (concat (drop cut_at cs))
                  in if char_count remainder < min_remainder then t else remainder)"

definition wayback_prefix_rx :: "rx_tables \<Rightarrow> rx" where
  "wayback_prefix_rx tb =
     seqs [lit ''http'', opt (lit ''s''), lit ''://web.archive.org/web/'', exactly 14 (digit tb)]"

definition rewrite_wayback_url :: "rx_tables \<Rightarrow> string \<Rightarrow> string" where
  "rewrite_wayback_url tb url =
     (let cs = str_chars url
      in case ends (Seq (wayback_prefix_rx tb) (lit ''/'')) cs 0 of
           [] \<Rightarrow> url
         | e # _ \<Rightarrow> concat (take (e - 1) cs) @ ''id_/'' @ concat (drop e cs))"

text \<open>\<open>String::from_utf8_lossy\<close>: each invalid part becomes one replacement character.\<close>

function from_utf8_lossy :: "string \<Rightarrow> string" where
  "from_utf8_lossy bs =
     (if bs = [] then []
      else case utf8_step (map of_char bs) of
             Inl None \<Rightarrow> [CHR 0xEF, CHR 0xBF, CHR 0xBD]
           | Inl (Some n) \<Rightarrow> if n = 0 then [] else [CHR 0xEF, CHR 0xBF, CHR 0xBD] @ from_utf8_lossy (drop n bs)
           | Inr w \<Rightarrow> if w = 0 then [] else take w bs @ from_utf8_lossy (drop w bs))"
  by pat_completeness auto
termination
  by (relation "measure length") auto

declare from_utf8_lossy.simps [simp del]

subsection \<open>Matches of literals\<close>

lemma ends_seqs_ones:
  "ends (seqs (map One ps)) cs i =
     (if list_all2 (\<lambda>p c. p c) ps (take (length ps) (drop i cs)) then [i + length ps] else [])"
proof (induction ps arbitrary: i)
  case Nil
  then show ?case by simp
next
  case (Cons p ps)
  have one: "ends (One p) cs i = (if i < length cs \<and> p (cs ! i) then [Suc i] else [])"
    by (simp add: char_at_def)
  have split: "list_all2 (\<lambda>p c. p c) (p # ps) (take (length (p # ps)) (drop i cs)) \<longleftrightarrow>
      i < length cs \<and> p (cs ! i) \<and> list_all2 (\<lambda>p c. p c) ps (take (length ps) (drop (Suc i) cs))"
  proof (cases "i < length cs")
    case True
    then have "drop i cs = cs ! i # drop (Suc i) cs" by (simp add: Cons_nth_drop_Suc)
    then show ?thesis using True by simp
  qed simp
  show ?case
  proof (cases ps)
    case Nil
    then show ?thesis using one split by simp
  next
    case (Cons q qs)
    then have "ends (seqs (map One (p # ps))) cs i = ends (Seq (One p) (seqs (map One ps))) cs i" by simp
    also have "\<dots> = (if i < length cs \<and> p (cs ! i) then ends (seqs (map One ps)) cs (Suc i) else [])"
      by (simp only: ends.simps(4) one) auto
    finally show ?thesis unfolding split Cons.IH by simp
  qed
qed

lemma ends_lit: "ends (lit w) cs i = (if take (length (str_chars w)) (drop i cs) = str_chars w then [i + length (str_chars w)] else [])"
proof -
  have "list_all2 (\<lambda>p c. p c) (map (\<lambda>c d. d = c) ws) xs \<longleftrightarrow> xs = ws" for ws xs :: "string list"
    by (induction ws arbitrary: xs) (auto simp: list_all2_Cons1)
  then show ?thesis using ends_seqs_ones [of "map (\<lambda>c d. d = c) (str_chars w)" cs i] by (simp add: lit_def comp_def)
qed

lemma ends_lazy_any: "i \<le> length cs \<Longrightarrow> ends (Lazy any_rx) cs i = [i..<Suc (length cs)]"
proof -
  have "lazily (ends any_rx cs) n i = [i..<Suc (length cs)]" if "n = length cs - i" "i \<le> length cs" for n i
    using that
  proof (induction n arbitrary: i)
    case 0
    then show ?case by simp
  next
    case (Suc n)
    then have "i < length cs" by simp
    moreover have "ends any_rx cs i = [Suc i]" using Suc by (simp add: any_rx_def char_at_def)
    moreover have "lazily (ends any_rx cs) n (Suc i) = [Suc i..<Suc (length cs)]" using Suc by (intro Suc.IH) simp_all
    ultimately show ?case by (simp add: upt_conv_Cons del: upt_Suc)
  qed
  then show "i \<le> length cs \<Longrightarrow> ends (Lazy any_rx) cs i = [i..<Suc (length cs)]" by (simp del: upt_Suc)
qed

subsection \<open>Patterns that do not look behind\<close>

fun no_assert :: "rx \<Rightarrow> bool" where
  "no_assert (One p) \<longleftrightarrow> True"
| "no_assert Eps \<longleftrightarrow> True"
| "no_assert (Assert a) \<longleftrightarrow> False"
| "no_assert (Seq r s) \<longleftrightarrow> no_assert r \<and> no_assert s"
| "no_assert (Alt r s) \<longleftrightarrow> no_assert r \<and> no_assert s"
| "no_assert (Star r) \<longleftrightarrow> no_assert r"
| "no_assert (Lazy r) \<longleftrightarrow> no_assert r"
| "no_assert (Upto n r) \<longleftrightarrow> no_assert r"

lemma greedy_shift:
  "(\<And>i. f (k + i) = map ((+) k) (g i)) \<Longrightarrow> greedy f n (k + i) = map ((+) k) (greedy g n i)"
proof (induction n arbitrary: i)
  case (Suc n)
  have "concat (map (\<lambda>j. if k + i < j then greedy f n j else []) (map ((+) k) js)) =
      map ((+) k) (concat (map (\<lambda>j. if i < j then greedy g n j else []) js))" for js
    using Suc.IH [OF Suc.prems] by (induction js) auto
  then show ?case using Suc.prems by (simp del: map_map)
qed simp

lemma lazily_shift:
  "(\<And>i. f (k + i) = map ((+) k) (g i)) \<Longrightarrow> lazily f n (k + i) = map ((+) k) (lazily g n i)"
proof (induction n arbitrary: i)
  case (Suc n)
  have "concat (map (\<lambda>j. if k + i < j then lazily f n j else []) (map ((+) k) js)) =
      map ((+) k) (concat (map (\<lambda>j. if i < j then lazily g n j else []) js))" for js
    using Suc.IH [OF Suc.prems] by (induction js) auto
  then show ?case using Suc.prems by (simp del: map_map)
qed simp

lemma ends_shift: "no_assert r \<Longrightarrow> ends r (as @ cs) (length as + i) = map ((+) (length as)) (ends r cs i)"
proof (induction r arbitrary: i)
  case (One p)
  then show ?case by (simp add: char_at_def nth_append)
next
  case (Seq r s)
  have "concat (map (ends s (as @ cs)) (map ((+) (length as)) js)) = map ((+) (length as)) (concat (map (ends s cs) js))" for js
    using Seq by (induction js) auto
  then show ?case using Seq by (simp del: map_map)
next
  case (Star r)
  then show ?case by (simp add: greedy_shift)
next
  case (Lazy r)
  then show ?case by (simp add: lazily_shift)
next
  case (Upto n r)
  then show ?case by (simp add: greedy_shift)
qed auto

lemma replace_shift:
  assumes "no_assert r"
  shows "replace_from r f (as @ cs) (length as + i) = replace_from r f cs i"
proof (induction "length cs - i" arbitrary: i rule: less_induct)
  case less
  show ?case
  proof (cases "length cs \<le> i")
    case True
    then show ?thesis by (simp add: replace_from.simps [of r f cs i] replace_from.simps [of r f "as @ cs" "length as + i"])
  next
    case False
    have IH: "replace_from r f (as @ cs) (length as + j) = replace_from r f cs j" if "i < j" for j
      using that False by (intro less) simp
    show ?thesis
    proof (cases "ends r cs i")
      case Nil
      then show ?thesis using False IH [of "Suc i"] ends_shift [OF assms, of as cs i]
        by (simp add: replace_from.simps [of r f cs i] replace_from.simps [of r f "as @ cs" "length as + i"] nth_append)
    next
      case (Cons j js)
      then show ?thesis using False IH [of "Suc i"] IH [of j] ends_shift [OF assms, of as cs i]
        by (simp add: replace_from.simps [of r f cs i] replace_from.simps [of r f "as @ cs" "length as + i"] nth_append)
    qed
  qed
qed

lemma replace_skip:
  "k \<le> length cs \<Longrightarrow> (\<And>i. i < k \<Longrightarrow> ends r cs i = []) \<Longrightarrow> i \<le> k \<Longrightarrow>
   replace_from r f cs i = take (k - i) (drop i cs) @ replace_from r f cs k"
proof (induction "k - i" arbitrary: i)
  case (Suc n)
  then have "i < k" by simp
  then have "replace_from r f cs i = cs ! i # replace_from r f cs (Suc i)"
    using Suc.prems by (subst replace_from.simps) simp
  moreover have "replace_from r f cs (Suc i) = take (k - Suc i) (drop (Suc i) cs) @ replace_from r f cs k"
    using Suc by (intro Suc.hyps(1)) simp_all
  moreover have "take (k - i) (drop i cs) = cs ! i # take (k - Suc i) (drop (Suc i) cs)"
    using \<open>i < k\<close> Suc.prems(1) by (metis Cons_nth_drop_Suc Suc_diff_Suc order_less_le_trans take_Suc_Cons)
  ultimately show ?case by simp
qed simp

subsection \<open>Comments\<close>

lemma ascii_single: "list_all (\<lambda>c. \<not> is_continuation c) w \<Longrightarrow> length (str_chars w) = length w"
  by (simp add: str_chars_ascii)

lemma sublist_concat: "sublist (concat xs) (concat (as @ xs @ bs))"
  by (auto simp: sublist_def)

lemma marks: "str_chars ''<!--'' = [''<'', ''!'', ''-'', ''-'']" "str_chars ''-->'' = [''-'', ''-'', ''>'']"
  by (simp_all add: str_chars_ascii is_continuation_def)

lemma mark_lengths [simp]: "length (str_chars ''<!--'') = 4" "length (str_chars ''-->'') = 3"
  by (simp_all add: marks)

lemma no_assert_seqs: "list_all no_assert rs \<Longrightarrow> no_assert (seqs rs)"
  by (induction rs rule: seqs.induct) auto

lemma no_assert_lit [simp]: "no_assert (lit w)"
  unfolding lit_def by (rule no_assert_seqs) (simp add: list_all_iff)

lemma comment_rx_eq: "comment_rx = Seq (lit ''<!--'') (Seq (Lazy any_rx) (lit ''-->''))"
  by (simp add: comment_rx_def)

lemma ends_lit_then:
  "ends (Seq (lit w) r) cs i = (if take (length (str_chars w)) (drop i cs) = str_chars w then ends r cs (i + length (str_chars w)) else [])"
  by (simp add: ends_lit)

text \<open>An opening mark can neither stand in a text without one nor straddle its end.\<close>

lemma no_open_before:
  assumes "\<not> sublist ''<!--'' (concat as)" "i < length as"
  shows "take 4 (drop i (as @ str_chars ''<!--'' @ xs)) \<noteq> str_chars ''<!--''"
proof
  assume found: "take 4 (drop i (as @ str_chars ''<!--'' @ xs)) = str_chars ''<!--''"
  show False
  proof (cases "i + 4 \<le> length as")
    case True
    then have "take 4 (drop i as) = str_chars ''<!--''" using found by simp
    then have "sublist (concat (str_chars ''<!--'')) (concat as)"
      using sublist_concat [of "take 4 (drop i as)" "take i as" "drop (i + 4) as"]
      by (metis append_take_drop_id drop_drop add.commute)
    then show False using assms(1) by simp
  next
    case False
    define k where "k = length as - i"
    have k: "0 < k" "k < 4" "length as = i + k" using False assms(2) by (auto simp: k_def)
    have "(take 4 (drop i (as @ str_chars ''<!--'' @ xs))) ! k = ''<''" using k by (simp add: nth_append marks)
    moreover have "str_chars ''<!--'' ! k \<noteq> ''<''" using k(1,2) by (auto simp: marks numeral_eq_Suc less_Suc_eq)
    ultimately show False unfolding found by simp
  qed
qed

lemma no_close_before:
  assumes "\<not> sublist ''-->'' (concat cs)" "i < length cs"
  shows "take 3 (drop i (cs @ str_chars ''-->'' @ xs)) \<noteq> str_chars ''-->''"
proof
  assume found: "take 3 (drop i (cs @ str_chars ''-->'' @ xs)) = str_chars ''-->''"
  show False
  proof (cases "i + 3 \<le> length cs")
    case True
    then have "take 3 (drop i cs) = str_chars ''-->''" using found by simp
    then have "sublist (concat (str_chars ''-->'')) (concat cs)"
      using sublist_concat [of "take 3 (drop i cs)" "take i cs" "drop (i + 3) cs"]
      by (metis append_take_drop_id drop_drop add.commute)
    then show False using assms(1) by simp
  next
    case False
    then have "(take 3 (drop i (cs @ str_chars ''-->'' @ xs))) ! 2 = ''-''"
      using assms(2) by (auto simp: nth_append nth_Cons' marks)
    then show False unfolding found by (simp add: marks)
  qed
qed

lemma comment_end:
  assumes "\<not> sublist ''-->'' (concat cs)" "k \<le> length cs"
  shows "concat (map (ends (lit ''-->'') (cs @ str_chars ''-->'' @ xs)) [k..<Suc (length (cs @ str_chars ''-->'' @ xs))]) =
    (length cs + 3) # concat (map (ends (lit ''-->'') (cs @ str_chars ''-->'' @ xs)) [Suc (length cs)..<Suc (length (cs @ str_chars ''-->'' @ xs))])"
proof -
  let ?t = "cs @ str_chars ''-->'' @ xs" and ?n = "Suc (length (cs @ str_chars ''-->'' @ xs))"
  have "[k..<?n] = [k..<length cs] @ length cs # [Suc (length cs)..<?n]"
  proof -
    have "k \<le> length cs" "length cs \<le> ?n" using assms(2) by simp_all
    then have "[k..<?n] = [k..<length cs] @ [length cs..<?n]" by (metis le_Suc_ex upt_add_eq_append)
    then show ?thesis by (simp add: upt_conv_Cons del: upt_Suc)
  qed
  moreover have "ends (lit ''-->'') ?t i = []" if "i \<in> set [k..<length cs]" for i
    using no_close_before [OF assms(1), of i xs] that by (simp add: ends_lit)
  then have "concat (map (ends (lit ''-->'') ?t) [k..<length cs]) = []" by (simp only: concat_eq_Nil_conv) auto
  moreover have "ends (lit ''-->'') ?t (length cs) = [length cs + 3]" by (simp add: ends_lit)
  ultimately show ?thesis by simp
qed

lemma comment_match:
  assumes "\<not> sublist ''-->'' (concat cs)"
  shows "\<exists>js. ends comment_rx (str_chars ''<!--'' @ cs @ str_chars ''-->'' @ xs) 0 = (4 + length cs + 3) # js"
proof -
  let ?u = "cs @ str_chars ''-->'' @ xs" and ?o = "str_chars ''<!--''"
  have "ends comment_rx (?o @ ?u) 0 = ends (Seq (Lazy any_rx) (lit ''-->'')) (?o @ ?u) (length ?o + 0)"
    by (simp only: comment_rx_eq ends_lit_then) simp
  also have "\<dots> = map ((+) (length ?o)) (ends (Seq (Lazy any_rx) (lit ''-->'')) ?u 0)"
    by (rule ends_shift) (simp add: any_rx_def)
  also have "ends (Seq (Lazy any_rx) (lit ''-->'')) ?u 0 = concat (map (ends (lit ''-->'') ?u) [0..<Suc (length ?u)])"
    by (simp only: ends.simps(4) ends_lazy_any [of 0 ?u])
  finally show ?thesis unfolding comment_end [OF assms le0] by simp
qed

lemma comment_replaced:
  assumes "\<not> sublist ''<!--'' a" "\<not> sublist ''-->'' c" "starts_char c" "starts_char b"
  shows "replace_all comment_rx spaced (a @ ''<!--'' @ c @ ''-->'' @ b) = a @ '' '' @ replace_all comment_rx spaced b"
proof -
  let ?A = "str_chars a" and ?C = "str_chars c" and ?B = "str_chars b"
  let ?t = "?A @ str_chars ''<!--'' @ ?C @ str_chars ''-->'' @ ?B"
  have na: "no_assert comment_rx" by (simp add: comment_rx_eq any_rx_def)
  have "str_chars (c @ ''-->'' @ b) = ?C @ str_chars ''-->'' @ ?B"
    using assms(4) str_chars_append [of b "''-->''"] str_chars_append [of "''-->'' @ b" c] by (simp add: starts_char_def is_continuation_def)
  moreover have "starts_char (c @ ''-->'' @ b)" using assms(3) by (cases c) (simp_all add: starts_char_def is_continuation_def)
  ultimately have chars: "str_chars (a @ ''<!--'' @ c @ ''-->'' @ b) = ?t"
    using str_chars_append [of "c @ ''-->'' @ b" "''<!--''"] str_chars_append [of "''<!--'' @ c @ ''-->'' @ b" a]
    by (simp add: starts_char_def is_continuation_def)
  have none: "ends comment_rx ?t i = []" if "i < length ?A" for i
  proof -
    have "take 4 (drop i ?t) \<noteq> str_chars ''<!--''" using no_open_before [of ?A i] assms(1) that by simp
    then show ?thesis by (simp only: comment_rx_eq ends_lit_then mark_lengths if_False)
  qed
  let ?u = "str_chars ''<!--'' @ ?C @ str_chars ''-->'' @ ?B" and ?m = "str_chars ''<!--'' @ ?C @ str_chars ''-->''"
  have "replace_from comment_rx spaced ?t 0 = ?A @ replace_from comment_rx spaced ?t (length ?A)"
    using replace_skip [of "length ?A" ?t comment_rx 0 spaced] none by simp
  also have "replace_from comment_rx spaced ?t (length ?A) = replace_from comment_rx spaced ?u 0"
    using replace_shift [OF na, of spaced ?A ?u 0] by simp
  also have "replace_from comment_rx spaced ?u 0 = '' '' # replace_from comment_rx spaced ?u (length ?m)"
  proof -
    obtain js where "ends comment_rx ?u 0 = (4 + length ?C + 3) # js" using comment_match [of ?C ?B] assms(2) by auto
    then show ?thesis by (subst replace_from.simps) (simp add: spaced_def add.commute add.left_commute)
  qed
  also have "replace_from comment_rx spaced ?u (length ?m) = replace_from comment_rx spaced ?B 0"
    using replace_shift [OF na, of spaced ?m ?B 0] by simp
  finally show ?thesis unfolding replace_all_def chars by simp
qed

text \<open>
  What a page hides in a comment is never grounded: the text extracted from a page whose first comment
  is \<open>c\<close> is the one extracted from the page with any other comment, or an empty one, in its place.
\<close>

theorem comments_are_never_grounded:
  assumes "\<not> sublist ''<!--'' a" "starts_char b"
    "\<not> sublist ''-->'' c" "starts_char c" "\<not> sublist ''-->'' d" "starts_char d"
  shows "html_to_text tb (a @ ''<!--'' @ c @ ''-->'' @ b) = html_to_text tb (a @ ''<!--'' @ d @ ''-->'' @ b)"
  using comment_replaced [OF assms(1,3,4,2)] comment_replaced [OF assms(1,5,6,2)] by (simp add: html_to_text_def)

theorem comments_are_never_grounded_witness:
  "html_to_text ascii_classes (''<p>Paris '' @ ''<!--'' @ '' signed 1919 '' @ ''-->'' @ ''fell.</p>'') =
   html_to_text ascii_classes (''<p>Paris '' @ ''<!--'' @ [] @ ''-->'' @ ''fell.</p>'')"
proof -
  have "\<not> sublist ''<!--'' ''<p>Paris ''" "\<not> sublist ''-->'' '' signed 1919 ''" "\<not> sublist ''-->'' []"
    by (simp_all flip: str_find_sublist add: prefix_def)
  then show ?thesis
    by (intro comments_are_never_grounded) (simp_all add: starts_char_def is_continuation_def)
qed

lemma extraction_examples:
  "html_to_text ascii_classes ''<p>A &amp; B</p>'' = ''A & B''"
  "rewrite_wayback_url ascii_classes ''http://web.archive.org/web/20200101000000/x'' = ''http://web.archive.org/web/20200101000000id_/x''"
  by code_simp+

end
