(* ===== verification/Locate_Quote.thy ===== *)
theory Locate_Quote
  imports Text_Tools
begin

section \<open>Locating a quote in its source\<close>

text \<open>
  \<open>crates/sp42-citation/src/citation/locate_quote.rs\<close>: whether a passage a model quotes is present in the
  source that was fetched, verbatim up to transcription artefacts, elided with ellipses, or, as a last
  resort, by a guarded fuzzy match. Unicode normalisation, case mapping and character classes beyond
  ASCII are the fields of \<open>unicode\<close>; white space, quotes, dashes and zero-width characters are the
  code's own tables. The pattern of the ellipsis, a regular expression, is the function \<open>ellipsis_len\<close>.
\<close>

record unicode =
  uc_nfc :: "string \<Rightarrow> string"
  uc_lower :: "string \<Rightarrow> string"
  uc_combining :: "string \<Rightarrow> bool"
  uc_alphanumeric :: "string \<Rightarrow> bool"

definition char_lower :: "unicode \<Rightarrow> string \<Rightarrow> string" where
  "char_lower uc c = (case c of [b] \<Rightarrow> [lower_byte b] | _ \<Rightarrow> uc_lower uc c)"

definition min_fragment_chars :: nat where
  "min_fragment_chars = 8"

definition max_fragment_span_chars :: nat where
  "max_fragment_span_chars = 1500"

subsection \<open>Folding\<close>

definition e280 :: "nat \<Rightarrow> string" where
  "e280 n = [CHR 0xE2, CHR 0x80, char_of n]"

definition substitute :: "string \<Rightarrow> string" where
  "substitute c =
     (if c \<in> set (map e280 [0x98, 0x99, 0x9A, 0x9B, 0xB2]) then [CHR 0x27]
      else if c \<in> set (map e280 [0x9C, 0x9D, 0x9E, 0x9F, 0xB3]) then [CHR 0x22]
      else if c \<in> set (map e280 [0x90, 0x91, 0x92, 0x93, 0x94, 0x95]) \<or> c = [CHR 0xE2, CHR 0x88, CHR 0x92] then ''-''
      else c)"

definition is_zero_width :: "string \<Rightarrow> bool" where
  "is_zero_width c \<longleftrightarrow> c \<in> set (map e280 [0x8B, 0x8C, 0x8D]) \<or> c = [CHR 0xEF, CHR 0xBB, CHR 0xBF]"

fun fold_quote :: "unicode \<Rightarrow> bool \<Rightarrow> string list \<Rightarrow> string" where
  "fold_quote uc prev_space [] = []"
| "fold_quote uc prev_space (c # cs) =
     (if is_zero_width c then fold_quote uc prev_space cs
      else if ws_cp c then (if prev_space then [] else '' '') @ fold_quote uc True cs
      else char_lower uc (substitute c) @ fold_quote uc False cs)"

definition normalize_for_match :: "unicode \<Rightarrow> string \<Rightarrow> string" where
  "normalize_for_match uc t = str_trim (fold_quote uc False (str_chars (uc_nfc uc t)))"

text \<open>The source side yields each character with the byte offset of the unit it came from.\<close>

definition flush_unit :: "unicode \<Rightarrow> string \<Rightarrow> nat \<Rightarrow> (string \<times> nat) list" where
  "flush_unit uc unit unit_start =
     (if unit = [] then []
      else concat (map (\<lambda>c. map (\<lambda>l. (l, unit_start)) (str_chars (char_lower uc c))) (str_chars (uc_nfc uc unit))))"

fun fold_source :: "unicode \<Rightarrow> bool \<Rightarrow> string \<Rightarrow> nat \<Rightarrow> nat \<Rightarrow> string list \<Rightarrow> (string \<times> nat) list" where
  "fold_source uc prev_space unit unit_start offset [] = flush_unit uc unit unit_start"
| "fold_source uc prev_space unit unit_start offset (c # cs) =
     (let after = offset + length c
      in if is_zero_width c then fold_source uc prev_space unit unit_start after cs
         else if ws_cp c
         then flush_unit uc unit unit_start @ (if prev_space then [] else [('' '', offset)]) @
              fold_source uc True [] unit_start after cs
         else if unit \<noteq> [] \<and> length c > 1 \<and> uc_combining uc c
         then fold_source uc False (unit @ substitute c) unit_start after cs
         else flush_unit uc unit unit_start @ fold_source uc False (substitute c) offset after cs)"

definition normalize_with_map :: "unicode \<Rightarrow> string \<Rightarrow> string \<times> nat list" where
  "normalize_with_map uc source =
     (let pairs = fold_source uc False [] 0 0 (str_chars source)
      in (concat (map fst pairs), map snd pairs))"

text \<open>Slices are bounds checked: each end is in range and at the start of a character.\<close>

definition is_char_boundary :: "string \<Rightarrow> nat \<Rightarrow> bool" where
  "is_char_boundary s i \<longleftrightarrow> i = 0 \<or> i = length s \<or> i < length s \<and> \<not> is_continuation (s ! i)"

definition byte_slice :: "string \<Rightarrow> nat \<Rightarrow> nat \<Rightarrow> string option" where
  "byte_slice s i j =
     (if i \<le> j \<and> j \<le> length s \<and> is_char_boundary s i \<and> is_char_boundary s j then Some (take (j - i) (drop i s)) else None)"

definition nth_opt :: "'a list \<Rightarrow> nat \<Rightarrow> 'a option" where
  "nth_opt xs i = (if i < length xs then Some (xs ! i) else None)"

subsection \<open>Ellipses\<close>

definition dots_utf8 :: string where
  "dots_utf8 = [CHR 0xE2, CHR 0x80, CHR 0xA6]"

definition skip_ws :: "string \<Rightarrow> string" where
  "skip_ws s = str_trim_start s"

definition skip_prefix :: "string \<Rightarrow> string \<Rightarrow> string" where
  "skip_prefix p s = (if prefix p s then drop (length p) s else s)"

definition ellipsis_len :: "string \<Rightarrow> nat" where
  "ellipsis_len s =
     (if prefix ''...'' s then 3
      else if prefix dots_utf8 s then 3
      else if prefix ''['' s
      then (let r = skip_ws (dropWhile (\<lambda>c. c = CHR ''.'') (skip_ws (skip_prefix dots_utf8 (skip_ws (tl s)))))
            in if prefix '']'' r then length s - length r + 1 else 0)
      else 0)"

function ellipsis_split :: "string \<Rightarrow> string \<Rightarrow> string list" where
  "ellipsis_split acc [] = [rev acc]"
| "ellipsis_split acc (c # s) =
     (if 0 < ellipsis_len (c # s) then rev acc # ellipsis_split [] (drop (ellipsis_len (c # s)) (c # s))
      else ellipsis_split (c # acc) s)"
  by pat_completeness auto
termination
  by (relation "measure (length \<circ> snd)") auto

fun fragments_from ::
  "string \<Rightarrow> nat \<Rightarrow> nat option \<Rightarrow> nat \<Rightarrow> string list \<Rightarrow> (nat option \<times> nat) option" where
  "fragments_from source search_from first_char last_end_char [] = Some (first_char, last_end_char)"
| "fragments_from source search_from first_char last_end_char (fragment # fs) =
     (case str_find fragment (drop search_from source) of
        None \<Rightarrow> None
      | Some relative \<Rightarrow>
          (let byte_index = search_from + relative; start_char = char_count (take byte_index source)
           in fragments_from source (byte_index + length fragment)
                (Some (case first_char of None \<Rightarrow> start_char | Some f \<Rightarrow> f)) (start_char + char_count fragment) fs))"

definition quote_fragments :: "unicode \<Rightarrow> string \<Rightarrow> string list" where
  "quote_fragments uc quote =
     filter (\<lambda>f. char_count f \<ge> min_fragment_chars) (map (normalize_for_match uc) (ellipsis_split [] quote))"

definition locate_multi_fragment :: "unicode \<Rightarrow> string \<Rightarrow> string \<Rightarrow> nat list \<Rightarrow> nat option" where
  "locate_multi_fragment uc quote normalized_source offset_map =
     (let fragments = quote_fragments uc quote
      in if length fragments < 2 then None
         else case fragments_from normalized_source 0 None 0 fragments of
                Some (Some first, last_end_char) \<Rightarrow>
                  if last_end_char - first > max_fragment_span_chars then None else nth_opt offset_map first
              | _ \<Rightarrow> None)"

definition locate_quote :: "unicode \<Rightarrow> string \<Rightarrow> string \<Rightarrow> nat option" where
  "locate_quote uc quote source =
     (let trimmed = str_trim quote
      in if trimmed = [] then None
         else case str_find trimmed source of
                Some byte_index \<Rightarrow> Some byte_index
              | None \<Rightarrow>
                  (let normalized_quote = normalize_for_match uc trimmed
                   in if normalized_quote = [] then None
                      else let (normalized_source, offset_map) = normalize_with_map uc source
                           in case str_find normalized_quote normalized_source of
                                Some byte_index \<Rightarrow> nth_opt offset_map (char_count (take byte_index normalized_source))
                              | None \<Rightarrow> locate_multi_fragment uc trimmed normalized_source offset_map))"

subsection \<open>Tokens\<close>

definition min_fuzzy_tokens :: nat where "min_fuzzy_tokens = 5"
definition fuzzy_threshold_num :: nat where "fuzzy_threshold_num = 17"
definition fuzzy_threshold_den :: nat where "fuzzy_threshold_den = 20"
definition max_fuzzy_windows :: nat where "max_fuzzy_windows = 50"

record source_token =
  tk_cleaned :: string
  tk_start_char :: nat
  tk_end_char :: nat

record fuzzy_locate =
  fz_offset :: nat
  fz_span :: string
  fz_matched_tokens :: nat
  fz_quote_tokens :: nat

definition clean_token :: "unicode \<Rightarrow> string \<Rightarrow> string" where
  "clean_token uc token =
     (let punct = (\<lambda>c. \<not> is_alphanumeric (uc_alphanumeric uc) c)
      in concat (rev (dropWhile punct (rev (dropWhile punct (str_chars token))))))"

fun tokens_of :: "unicode \<Rightarrow> nat \<Rightarrow> nat option \<Rightarrow> string \<Rightarrow> string list \<Rightarrow> source_token list" where
  "tokens_of uc char_index start current [] =
     (case start of
        None \<Rightarrow> []
      | Some s \<Rightarrow> [\<lparr>tk_cleaned = clean_token uc current, tk_start_char = s, tk_end_char = char_index\<rparr>])"
| "tokens_of uc char_index start current (c # cs) =
     (if c = '' ''
      then (case start of
              None \<Rightarrow> []
            | Some s \<Rightarrow> [\<lparr>tk_cleaned = clean_token uc current, tk_start_char = s, tk_end_char = char_index\<rparr>]) @
           tokens_of uc (char_index + 1) None [] cs
      else tokens_of uc (char_index + 1) (Some (case start of None \<Rightarrow> char_index | Some s \<Rightarrow> s)) (current @ c) cs)"

definition tokenize_source :: "unicode \<Rightarrow> string \<Rightarrow> source_token list" where
  "tokenize_source uc normalized_source =
     filter (\<lambda>t. tk_cleaned t \<noteq> []) (tokens_of uc 0 None [] (str_chars normalized_source))"

definition quote_tokens_of :: "unicode \<Rightarrow> string \<Rightarrow> string list" where
  "quote_tokens_of uc quote =
     filter (\<lambda>t. t \<noteq> []) (map (clean_token uc) (str_split '' '' (normalize_for_match uc (str_trim quote))))"

definition digit_bearing :: "string \<Rightarrow> bool" where
  "digit_bearing token = list_ex (\<lambda>c. (let n = (of_char c :: nat) in 48 \<le> n \<and> n \<le> 57)) token"

definition anchor_tokens :: "string list \<Rightarrow> string list" where
  "anchor_tokens quote_tokens =
     take 3 (sort_key (\<lambda>t. - int (char_count t)) (filter (\<lambda>t. char_count t \<ge> 5 \<or> digit_bearing t) quote_tokens))"

subsection \<open>Longest common subsequence\<close>

fun lcs_row :: "string \<Rightarrow> nat list \<Rightarrow> string list \<Rightarrow> nat \<Rightarrow> nat list" where
  "lcs_row q (d # u # upper) (w # ws) left =
     (let v = (if q = w then d + 1 else max u left) in v # lcs_row q (u # upper) ws v)"
| "lcs_row q _ _ left = []"

fun lcs_rows :: "string list \<Rightarrow> string list \<Rightarrow> nat list \<Rightarrow> nat list list" where
  "lcs_rows [] ws upper = [upper]"
| "lcs_rows (q # qs) ws upper = upper # lcs_rows qs ws (0 # lcs_row q upper ws 0)"

definition lcs_table :: "string list \<Rightarrow> string list \<Rightarrow> nat list list" where
  "lcs_table qs ws = lcs_rows qs ws (replicate (length ws + 1) 0)"

function lcs_back ::
  "nat list list \<Rightarrow> string list \<Rightarrow> string list \<Rightarrow> nat \<Rightarrow> nat \<Rightarrow> nat option \<times> nat option \<Rightarrow> nat option \<times> nat option" where
  "lcs_back table qs ws row col found =
     (if row = 0 \<or> col = 0 then found
      else if qs ! (row - 1) = ws ! (col - 1) \<and> table ! row ! col = table ! (row - 1) ! (col - 1) + 1
      then lcs_back table qs ws (row - 1) (col - 1)
             (Some (col - 1), (case snd found of None \<Rightarrow> Some (col - 1) | Some l \<Rightarrow> Some l))
      else if table ! (row - 1) ! col \<ge> table ! row ! (col - 1) then lcs_back table qs ws (row - 1) col found
      else lcs_back table qs ws row (col - 1) found)"
  by pat_completeness auto
termination
  by (relation "measure (\<lambda>(_, _, _, row, col, _). row + col)") auto

declare lcs_back.simps [simp del]

definition lcs_match :: "string list \<Rightarrow> string list \<Rightarrow> (nat \<times> nat \<times> nat) option" where
  "lcs_match qs ws =
     (let table = lcs_table qs ws; matched = table ! length qs ! length ws
      in if matched = 0 then None
         else case lcs_back table qs ws (length qs) (length ws) (None, None) of
                (Some f, Some l) \<Rightarrow> Some (matched, f, l)
              | _ \<Rightarrow> None)"

subsection \<open>Fuzzy location\<close>

fun best_window ::
  "string list \<Rightarrow> string list \<Rightarrow> string list \<Rightarrow> nat \<Rightarrow> nat \<Rightarrow> (nat \<times> nat \<times> nat) option \<Rightarrow> nat list \<Rightarrow> (nat \<times> nat \<times> nat) option" where
  "best_window anchors quote_tokens toks radius windows best [] = best"
| "best_window anchors quote_tokens toks radius windows best (index # is) =
     (if toks ! index \<notin> set anchors then best_window anchors quote_tokens toks radius windows best is
      else if windows + 1 > max_fuzzy_windows then best
      else let window_start = index - radius; window_end = min (index + radius + 1) (length toks);
               best' = (case lcs_match quote_tokens (take (window_end - window_start) (drop window_start toks)) of
                   None \<Rightarrow> best
                 | Some (matched, first, l) \<Rightarrow>
                     if (case best of None \<Rightarrow> True | Some (best_matched, _) \<Rightarrow> matched > best_matched)
                     then Some (matched, window_start + first, window_start + l) else best)
           in best_window anchors quote_tokens toks radius (windows + 1) best' is)"

text \<open>
  The inner option of the result is the code's answer; the outer \<open>None\<close> is the panic of a slice
  \<open>source[start..end]\<close> whose bounds cross, leave the source or split a character.
\<close>

definition locate_quote_fuzzy :: "unicode \<Rightarrow> string \<Rightarrow> string \<Rightarrow> fuzzy_locate option option" where
  "locate_quote_fuzzy uc quote source =
     (let quote_tokens = quote_tokens_of uc quote
      in if length quote_tokens < min_fuzzy_tokens then Some None
         else let (normalized_source, offset_map) = normalize_with_map uc source;
                  source_tokens = tokenize_source uc normalized_source;
                  load_bearing = filter digit_bearing quote_tokens;
                  anchors = anchor_tokens quote_tokens;
                  toks = map tk_cleaned source_tokens
              in if source_tokens = [] \<or> anchors = [] then Some None
                 else case best_window anchors quote_tokens toks (length quote_tokens + 2) 0 None [0..<length source_tokens] of
                        None \<Rightarrow> Some None
                      | Some (matched, first_token, last_token) \<Rightarrow>
                          if matched * fuzzy_threshold_den < length quote_tokens * fuzzy_threshold_num then Some None
                          else if \<not> list_all (\<lambda>needed. needed \<in> set (take (last_token + 1 - first_token) (drop first_token toks))) load_bearing
                          then Some None
                          else case nth_opt offset_map (tk_start_char (source_tokens ! first_token)) of
                                 None \<Rightarrow> Some None
                               | Some start_byte \<Rightarrow>
                                   (let end_byte = (case nth_opt offset_map (tk_end_char (source_tokens ! last_token)) of
                                        None \<Rightarrow> length source | Some e \<Rightarrow> e)
                                    in map_option (\<lambda>span. Some \<lparr>fz_offset = start_byte, fz_span = str_trim_end span,
                                         fz_matched_tokens = sat_u32 matched,
                                         fz_quote_tokens = sat_u32 (length quote_tokens)\<rparr>)
                                         (byte_slice source start_byte end_byte)))"

subsection \<open>The table is the reference recursion\<close>

fun lcs :: "'a list \<Rightarrow> 'a list \<Rightarrow> nat" where
  "lcs (a # as) (b # bs) = (if a = b then Suc (lcs as bs) else max (lcs as (b # bs)) (lcs (a # as) bs))"
| "lcs _ _ = 0"

lemma lcs_upper: "subseq zs as \<Longrightarrow> subseq zs bs \<Longrightarrow> length zs \<le> lcs as bs"
proof (induction as bs arbitrary: zs rule: lcs.induct)
  case (1 a as b bs)
  show ?case
  proof (cases zs)
    case (Cons z us)
    show ?thesis
    proof (cases "a = b")
      case True
      have "length us \<le> lcs as bs"
        using 1(4,5) True "1.IH"(1) [OF True] Cons by (metis subseq_Cons2_neq subseq_Cons' subseq_Cons2_iff)
      then show ?thesis using True Cons by simp
    next
      case False
      then show ?thesis
      proof (cases "z = a")
        case True
        then have "subseq zs bs" using 1(5) Cons False by (metis subseq_Cons2_neq)
        then have "length zs \<le> lcs (a # as) bs" using "1.IH"(3) [OF False] 1(4) by blast
        then show ?thesis using False by simp
      next
        case za: False
        then have "subseq zs as" using 1(4) Cons by (metis subseq_Cons2_neq)
        then have "length zs \<le> lcs as (b # bs)" using "1.IH"(2) [OF False] 1(5) by blast
        then show ?thesis using False by simp
      qed
    qed
  qed simp
qed (auto simp: list_emb_Nil2)

definition lcs_at :: "string list \<Rightarrow> string list \<Rightarrow> nat \<Rightarrow> nat \<Rightarrow> nat" where
  "lcs_at qs ws i j = lcs (rev (take i qs)) (rev (take j ws))"

lemma lcs_at_zero [simp]: "lcs_at qs ws 0 j = 0" "lcs_at qs ws i 0 = 0"
  by (simp_all add: lcs_at_def)

lemma lcs_at_step:
  assumes "i < length qs" "j < length ws"
  shows "lcs_at qs ws (Suc i) (Suc j) =
    (if qs ! i = ws ! j then lcs_at qs ws i j + 1 else max (lcs_at qs ws i (Suc j)) (lcs_at qs ws (Suc i) j))"
  using assms by (simp add: lcs_at_def take_Suc_conv_app_nth)

lemma lcs_row_is:
  assumes "\<And>j. j < length ws \<Longrightarrow> g (Suc j) = (if q = ws ! j then f j + 1 else max (f (Suc j)) (g j))" "k \<le> length ws"
  shows "lcs_row q (map f [k..<Suc (length ws)]) (drop k ws) (g k) = map g [Suc k..<Suc (length ws)]"
  using assms(2)
proof (induction "length ws - k" arbitrary: k)
  case 0
  then show ?case by simp
next
  case (Suc n)
  then have k: "k < length ws" by simp
  have "[k..<Suc (length ws)] = k # Suc k # [Suc (Suc k)..<Suc (length ws)]" "[Suc k..<Suc (length ws)] = Suc k # [Suc (Suc k)..<Suc (length ws)]"
    using k by (simp_all add: upt_conv_Cons del: upt_Suc)
  moreover have "drop k ws = ws ! k # drop (Suc k) ws" using k by (simp add: Cons_nth_drop_Suc)
  moreover have "lcs_row q (map f [Suc k..<Suc (length ws)]) (drop (Suc k) ws) (g (Suc k)) = map g [Suc (Suc k)..<Suc (length ws)]"
    using Suc k by (intro Suc.hyps(1)) simp_all
  ultimately show ?case
    using assms(1) [OF k] by (simp add: Let_def del: upt_Suc)
qed

lemma lcs_rows_are:
  assumes "i \<le> length qs"
  shows "lcs_rows (drop i qs) ws (map (lcs_at qs ws i) [0..<Suc (length ws)]) =
    map (\<lambda>i. map (lcs_at qs ws i) [0..<Suc (length ws)]) [i..<Suc (length qs)]"
  using assms
proof (induction "length qs - i" arbitrary: i)
  case 0
  then show ?case by simp
next
  case (Suc n)
  then have i: "i < length qs" by simp
  have "0 # lcs_row (qs ! i) (map (lcs_at qs ws i) [0..<Suc (length ws)]) ws 0 = map (lcs_at qs ws (Suc i)) [0..<Suc (length ws)]"
    using lcs_row_is [of ws "lcs_at qs ws (Suc i)" "qs ! i" "lcs_at qs ws i" 0] lcs_at_step [OF i]
    by (simp add: upt_conv_Cons del: upt_Suc)
  moreover have "lcs_rows (drop (Suc i) qs) ws (map (lcs_at qs ws (Suc i)) [0..<Suc (length ws)]) =
      map (\<lambda>i. map (lcs_at qs ws i) [0..<Suc (length ws)]) [Suc i..<Suc (length qs)]"
    using Suc i by (intro Suc.hyps(1)) simp_all
  moreover have "drop i qs = qs ! i # drop (Suc i) qs" "[i..<Suc (length qs)] = i # [Suc i..<Suc (length qs)]"
    using i by (simp_all add: Cons_nth_drop_Suc upt_conv_Cons del: upt_Suc)
  ultimately show ?case by (simp del: upt_Suc)
qed

lemma lcs_table_nth: "i \<le> length qs \<Longrightarrow> j \<le> length ws \<Longrightarrow> lcs_table qs ws ! i ! j = lcs_at qs ws i j"
proof -
  assume ij: "i \<le> length qs" "j \<le> length ws"
  have "lcs_at qs ws 0 = (\<lambda>_. 0)" by (rule ext) simp
  then have "replicate (length ws + 1) 0 = map (lcs_at qs ws 0) [0..<Suc (length ws)]"
    by (simp add: map_replicate_const del: upt_Suc)
  then have "lcs_table qs ws = map (\<lambda>i. map (lcs_at qs ws i) [0..<Suc (length ws)]) [0..<Suc (length qs)]"
    using lcs_rows_are [of 0 qs ws] by (simp add: lcs_table_def del: upt_Suc)
  then show ?thesis using ij by (simp del: upt_Suc)
qed

subsection \<open>The way back\<close>

definition between :: "nat \<Rightarrow> nat \<Rightarrow> 'a list \<Rightarrow> 'a list" where
  "between f l xs = take (l + 1 - f) (drop f xs)"

lemma between_snoc: "f \<le> l \<Longrightarrow> l < n \<Longrightarrow> n < length xs \<Longrightarrow> subseq zs (between f l xs) \<Longrightarrow> subseq (zs @ [xs ! n]) (between f n xs)"
proof -
  assume a: "f \<le> l" "l < n" "n < length xs" "subseq zs (between f l xs)"
  have "between f n xs = take (n - f) (drop f xs) @ [xs ! n]"
    using a by (simp add: between_def Suc_diff_le take_Suc_conv_app_nth)
  moreover have "subseq (between f l xs) (take (n - f) (drop f xs))"
    using a by (simp add: between_def) (metis diff_le_mono prefix_imp_subseq Suc_leI take_is_prefix min.absorb1 take_take)
  with a(4) have "subseq zs (take (n - f) (drop f xs))" by (rule subseq_order.trans)
  ultimately show ?thesis by (simp add: list_emb_append_mono)
qed

lemma between_one: "n < length xs \<Longrightarrow> between n n xs = [xs ! n]"
  by (simp add: between_def take_Suc_conv_app_nth)

lemma lcs_back_finds:
  assumes "row \<le> length qs" "col \<le> length ws" "lcs_back (lcs_table qs ws) qs ws row col (f, l) = (f', l')"
  shows "if lcs_at qs ws row col = 0 then f' = f \<and> l' = l
    else \<exists>c0 c1 zs. f' = Some c0 \<and> l' = Some (case l of None \<Rightarrow> c1 | Some x \<Rightarrow> x) \<and> c0 \<le> c1 \<and> c1 < col \<and>
      length zs = lcs_at qs ws row col \<and> subseq zs (take row qs) \<and> subseq zs (between c0 c1 ws)"
  using assms
proof (induction "row + col" arbitrary: row col f l rule: less_induct)
  case less
  show ?case
  proof (cases "row = 0 \<or> col = 0")
    case True
    then show ?thesis using less.prems(3) by (subst (asm) lcs_back.simps) auto
  next
    case False
    then obtain i j where ij: "row = Suc i" "col = Suc j" by (metis not0_implies_Suc)
    then have lt: "i < length qs" "j < length ws" using less.prems by simp_all
    have tab: "lcs_table qs ws ! i ! j = lcs_at qs ws i j" "lcs_table qs ws ! row ! col = lcs_at qs ws row col"
        "lcs_table qs ws ! i ! col = lcs_at qs ws i col" "lcs_table qs ws ! row ! j = lcs_at qs ws row j"
      using ij less.prems(1,2) by (simp_all add: lcs_table_nth)
    note step = lcs_at_step [OF lt, folded ij]
    show ?thesis
    proof (cases "qs ! i = ws ! j")
      case True
      then have val: "lcs_at qs ws row col = lcs_at qs ws i j + 1" using step by simp
      have "lcs_back (lcs_table qs ws) qs ws i j (Some j, Some (case l of None \<Rightarrow> j | Some x \<Rightarrow> x)) = (f', l')"
        using less.prems(3) False True tab ij val by (subst (asm) lcs_back.simps) (auto split: option.splits)
      note IH = less.hyps [OF _ _ _ this]
      have small: "i + j < row + col" "i \<le> length qs" "j \<le> length ws" using ij lt by simp_all
      have take: "take row qs = take i qs @ [qs ! i]" using ij lt by (simp add: take_Suc_conv_app_nth)
      show ?thesis
      proof (cases "lcs_at qs ws i j = 0")
        case zero: True
        then show ?thesis
          using IH [OF small] val True ij lt take
          by simp (intro exI [of _ j] conjI exI [of _ "[ws ! j]"], simp_all add: between_one subseq_drop_many)
      next
        case nonzero: False
        with IH [OF small] obtain c0 c1 zs where zs: "f' = Some c0" "l' = Some (case l of None \<Rightarrow> j | Some x \<Rightarrow> x)" "c0 \<le> c1" "c1 < j"
            "length zs = lcs_at qs ws i j" "subseq zs (take i qs)" "subseq zs (between c0 c1 ws)" by auto
        have "subseq (zs @ [ws ! j]) (between c0 j ws)" using between_snoc [OF zs(3,4) lt(2) zs(7)] .
        moreover have "subseq (zs @ [ws ! j]) (take row qs)"
          unfolding take True [symmetric] using zs(6) by (intro list_emb_append_mono) simp_all
        ultimately show ?thesis
          using zs val ij by (simp) (intro exI [of _ j] conjI exI [of _ "zs @ [ws ! j]"], simp_all)
      qed
    next
      case differ: False
      then have val: "lcs_at qs ws row col = max (lcs_at qs ws i col) (lcs_at qs ws row j)" using step by simp
      show ?thesis
      proof (cases "lcs_at qs ws i col \<ge> lcs_at qs ws row j")
        case True
        have "lcs_back (lcs_table qs ws) qs ws i col (f, l) = (f', l')"
          using less.prems(3) False differ tab ij True by (subst (asm) lcs_back.simps) auto
        from less.hyps [OF _ _ less.prems(2) this] ij lt
        have IH: "if lcs_at qs ws i col = 0 then f' = f \<and> l' = l
          else \<exists>c0 c1 zs. f' = Some c0 \<and> l' = Some (case l of None \<Rightarrow> c1 | Some x \<Rightarrow> x) \<and> c0 \<le> c1 \<and> c1 < col \<and>
            length zs = lcs_at qs ws i col \<and> subseq zs (take i qs) \<and> subseq zs (between c0 c1 ws)" by simp
        have "subseq (take i qs) (take row qs)"
          using ij by (intro prefix_imp_subseq) (metis le_SucI order_refl prefix_order.order_refl take_is_prefix take_take min.absorb1)
        then show ?thesis using IH val True by (auto simp: max_absorb1 split: if_splits) (metis subseq_order.trans)
      next
        case left: False
        have "lcs_back (lcs_table qs ws) qs ws row j (f, l) = (f', l')"
          using less.prems(3) False differ tab ij left by (subst (asm) lcs_back.simps) auto
        from less.hyps [OF _ less.prems(1) _ this] ij lt
        have IH: "if lcs_at qs ws row j = 0 then f' = f \<and> l' = l
          else \<exists>c0 c1 zs. f' = Some c0 \<and> l' = Some (case l of None \<Rightarrow> c1 | Some x \<Rightarrow> x) \<and> c0 \<le> c1 \<and> c1 < j \<and>
            length zs = lcs_at qs ws row j \<and> subseq zs (take row qs) \<and> subseq zs (between c0 c1 ws)" by simp
        show ?thesis using IH val left ij by (auto simp: max_absorb2 split: if_splits) (metis less_SucI)
      qed
    qed
  qed
qed

lemma lcs_zero_iff: "lcs as bs = 0 \<longleftrightarrow> set as \<inter> set bs = {}"
  by (induction as bs rule: lcs.induct) auto

lemma subseq_reversed: "subseq zs xs \<Longrightarrow> subseq (rev zs) (rev xs)"
  by (induction rule: list_emb.induct) (simp_all add: list_emb_append_mono subseq_rev_drop_many)

lemma subseq_rev_iff: "subseq (rev zs) (rev xs) \<longleftrightarrow> subseq zs xs"
  using subseq_reversed [of zs xs] subseq_reversed [of "rev zs" "rev xs"] by auto

lemma lcs_match_span:
  assumes "lcs_match qs ws = Some (matched, f, l)"
  shows "0 < matched \<and> f \<le> l \<and> l < length ws \<and>
    (\<exists>zs. length zs = matched \<and> subseq zs qs \<and> subseq zs (between f l ws)) \<and>
    (\<forall>zs. subseq zs qs \<and> subseq zs ws \<longrightarrow> length zs \<le> matched)"
proof -
  have nth: "lcs_table qs ws ! length qs ! length ws = lcs_at qs ws (length qs) (length ws)"
    by (simp add: lcs_table_nth)
  then have matched: "matched = lcs_at qs ws (length qs) (length ws)" "matched \<noteq> 0"
      "lcs_back (lcs_table qs ws) qs ws (length qs) (length ws) (None, None) = (Some f, Some l)"
    using assms by (auto simp: lcs_match_def Let_def split: if_splits option.splits prod.splits)
  have "\<forall>zs. subseq zs qs \<and> subseq zs ws \<longrightarrow> length zs \<le> matched"
    using lcs_upper [of "rev zs" "rev qs" "rev ws" for zs] matched(1) by (auto simp: lcs_at_def subseq_rev_iff)
  with lcs_back_finds [OF _ _ matched(3)] matched(1,2) show ?thesis by auto
qed

lemma lcs_match_None: "lcs_match qs ws = None \<longleftrightarrow> set qs \<inter> set ws = {}"
proof -
  have nth: "lcs_table qs ws ! length qs ! length ws = lcs_at qs ws (length qs) (length ws)"
    by (simp add: lcs_table_nth)
  obtain f l where "lcs_back (lcs_table qs ws) qs ws (length qs) (length ws) (None, None) = (f, l)" by fastforce
  note walked = this
  have "lcs_at qs ws (length qs) (length ws) = 0 \<longleftrightarrow> set qs \<inter> set ws = {}"
    by (simp add: lcs_at_def lcs_zero_iff)
  then show ?thesis
    using lcs_back_finds [OF _ _ walked] walked nth by (auto simp: lcs_match_def Let_def split: if_splits)
qed

text \<open>
  C27. The longest common subsequence: the table of the fuzzy match finds nothing exactly when quote and
  window share no token; otherwise the count it returns is the length of a longest common subsequence,
  and the span it returns holds one, in order.
\<close>

theorem lcs_match_longest:
  "(lcs_match qs ws = None \<longleftrightarrow> set qs \<inter> set ws = {}) \<and>
   (\<forall>matched f l. lcs_match qs ws = Some (matched, f, l) \<longrightarrow>
      f \<le> l \<and> l < length ws \<and>
      (\<exists>zs. length zs = matched \<and> subseq zs qs \<and> subseq zs (between f l ws)) \<and>
      (\<forall>zs. subseq zs qs \<and> subseq zs ws \<longrightarrow> length zs \<le> matched))"
  using lcs_match_None lcs_match_span by blast

subsection \<open>The offset map\<close>

lemma flush_offsets: "p \<in> set (flush_unit uc unit unit_start) \<Longrightarrow> snd p = unit_start \<and> unit \<noteq> []"
  by (auto simp: flush_unit_def split: if_splits)

lemma flush_sorted: "sorted (map snd (flush_unit uc unit unit_start))"
  by (rule sorted_wrt_map [THEN iffD2], rule sorted_wrt_iff_nth_less [THEN iffD2]) (metis flush_offsets nth_mem order_less_trans order_refl)

text \<open>Offsets within a range, in order.\<close>

definition offsets_in :: "nat \<Rightarrow> nat \<Rightarrow> (string \<times> nat) list \<Rightarrow> bool" where
  "offsets_in lo hi ps \<longleftrightarrow> sorted (map snd ps) \<and> (\<forall>p \<in> set ps. lo \<le> snd p \<and> snd p \<le> hi)"

lemma offsets_in_append: "offsets_in lo mid ps \<Longrightarrow> offsets_in mid hi qs \<Longrightarrow> lo \<le> mid \<Longrightarrow> mid \<le> hi \<Longrightarrow> offsets_in lo hi (ps @ qs)"
  unfolding offsets_in_def by (fastforce simp: sorted_append)

lemma offsets_in_mono: "offsets_in lo hi ps \<Longrightarrow> lo' \<le> lo \<Longrightarrow> hi \<le> hi' \<Longrightarrow> offsets_in lo' hi' ps"
  unfolding offsets_in_def by (meson order_trans)

lemma offsets_in_nil [simp]: "offsets_in lo hi []"
  by (simp add: offsets_in_def)

lemma offsets_in_one [simp]: "offsets_in lo hi [p] \<longleftrightarrow> lo \<le> snd p \<and> snd p \<le> hi"
  by (simp add: offsets_in_def)

lemma flush_unit_offsets: "unit = [] \<or> unit_start \<le> hi \<Longrightarrow> offsets_in (if unit = [] then hi else unit_start) hi (flush_unit uc unit unit_start)"
  using flush_sorted [of uc unit unit_start] by (auto simp: offsets_in_def flush_unit_def split: if_splits)

lemma fold_source_offsets:
  assumes "unit = [] \<or> unit_start \<le> offset"
  shows "offsets_in (if unit = [] then offset else unit_start) (offset + length (concat cs)) (fold_source uc prev unit unit_start offset cs)"
  using assms
proof (induction uc prev unit unit_start offset cs rule: fold_source.induct)
  case (1 uc prev unit unit_start offset)
  then show ?case using flush_unit_offsets by simp
next
  case (2 uc prev unit unit_start offset c cs)
  let ?after = "offset + length c" and ?hi = "offset + length (concat (c # cs))" and ?lo = "if unit = [] then offset else unit_start"
  have hi: "?after + length (concat cs) = ?hi" by simp
  have flushed: "offsets_in ?lo offset (flush_unit uc unit unit_start)" using flush_unit_offsets "2.prems" by blast
  have lo: "?lo \<le> offset" using "2.prems" by auto
  show ?case
  proof (cases "is_zero_width c")
    case True
    have "offsets_in (if unit = [] then ?after else unit_start) ?hi (fold_source uc prev unit unit_start ?after cs)"
      unfolding hi [symmetric] using "2.prems" by (intro "2.IH"(1) [OF refl True]) auto
    then show ?thesis using True by (auto simp: Let_def elim: offsets_in_mono)
  next
    case zw: False
    show ?thesis
    proof (cases "ws_cp c")
      case True
      have "offsets_in ?after ?hi (fold_source uc True [] unit_start ?after cs)"
        using "2.IH"(2) [OF refl zw True] hi by simp
      then have "offsets_in offset ?hi ((if prev then [] else [('' '', offset)]) @ fold_source uc True [] unit_start ?after cs)"
        by (intro offsets_in_append [of _ ?after]) auto
      from offsets_in_append [OF flushed this lo]
      have "offsets_in ?lo ?hi (flush_unit uc unit unit_start @ (if prev then [] else [('' '', offset)]) @ fold_source uc True [] unit_start ?after cs)"
        by simp
      then show ?thesis using zw True by (simp add: Let_def)
    next
      case ws: False
      show ?thesis
      proof (cases "unit \<noteq> [] \<and> length c > 1 \<and> uc_combining uc c")
        case True
        have "offsets_in unit_start ?hi (fold_source uc False (unit @ substitute c) unit_start ?after cs)"
          using "2.IH"(3) [OF refl zw ws True] hi "2.prems" True by simp
        then show ?thesis using True zw ws by (simp add: Let_def)
      next
        case False
        have "offsets_in offset ?hi (fold_source uc False (substitute c) offset ?after cs)"
          using "2.IH"(4) [OF refl zw ws False] hi by (auto elim: offsets_in_mono split: if_splits)
        with flushed lo have "offsets_in ?lo ?hi (flush_unit uc unit unit_start @ fold_source uc False (substitute c) offset ?after cs)"
          by (intro offsets_in_append [of _ offset]) auto
        moreover have "fold_source uc prev unit unit_start offset (c # cs) =
            flush_unit uc unit unit_start @ fold_source uc False (substitute c) offset ?after cs"
          using zw ws False by (auto simp: Let_def)
        ultimately show ?thesis by metis
      qed
    qed
  qed
qed

lemma chars_take_boundary: "is_char_boundary s (length (concat (take k (str_chars s))))"
proof (induction s arbitrary: k rule: str_chars.induct)
  case (1 s)
  show ?case
  proof (cases "s = [] \<or> k = 0")
    case True
    then show ?thesis by (auto simp: is_char_boundary_def str_chars.simps [of "[]"])
  next
    case False
    then obtain m where k: "k = Suc m" and s: "s \<noteq> []" by (cases k) auto
    define n where "n = char_len s"
    have n: "0 < n" "n \<le> length s" using s by (simp_all add: n_def char_len_le)
    define i where "i = length (concat (take m (str_chars (drop n s))))"
    have rest: "is_char_boundary (drop n s) i"
      using "1.IH" [OF s] by (simp add: n_def i_def)
    have "length (concat (take k (str_chars s))) = n + i"
      using n s k by (subst str_chars.simps) (simp add: n_def [symmetric] i_def)
    moreover have "\<not> is_continuation (s ! n)" if "n < length s"
    proof -
      from s obtain c r where cr: "s = c # r" by (cases s) auto
      then show ?thesis using that nth_length_takeWhile [of is_continuation r] by (simp add: n_def char_len_Cons)
    qed
    ultimately show ?thesis using rest n by (auto simp: is_char_boundary_def)
  qed
qed

text \<open>Every offset of the map is the start of a character of the source.\<close>

lemma fold_source_starts:
  "snd ` set (fold_source uc prev unit unit_start offset cs) \<subseteq>
   (if unit = [] then {} else {unit_start}) \<union> (\<lambda>k. offset + length (concat (take k cs))) ` UNIV"
proof (induction uc prev unit unit_start offset cs rule: fold_source.induct)
  case (1 uc prev unit unit_start offset)
  then show ?case using flush_offsets by fastforce
next
  case (2 uc prev unit unit_start offset c cs)
  define S where "S = range (\<lambda>k. offset + length (concat (take k (c # cs))))"
  have later: "(\<lambda>k. offset + length c + length (concat (take k cs))) ` UNIV \<subseteq> S"
  proof
    fix x assume "x \<in> (\<lambda>k. offset + length c + length (concat (take k cs))) ` UNIV"
    then obtain k where "x = offset + length c + length (concat (take k cs))" by blast
    then have "x = offset + length (concat (take (Suc k) (c # cs)))" by simp
    then show "x \<in> S" unfolding S_def by (metis rangeI)
  qed
  have here: "offset \<in> S" unfolding S_def by (rule image_eqI [of _ _ 0]) simp_all
  have flushed: "snd ` set (flush_unit uc unit unit_start) \<subseteq> (if unit = [] then {} else {unit_start})"
    using flush_offsets by fastforce
  have "snd ` set (fold_source uc prev unit unit_start offset (c # cs)) \<subseteq> (if unit = [] then {} else {unit_start}) \<union> S"
  proof (cases "is_zero_width c")
    case True
    have "snd ` set (fold_source uc prev unit unit_start (offset + length c) cs) \<subseteq> (if unit = [] then {} else {unit_start}) \<union> S"
      using "2.IH"(1) [OF refl True] by (rule order_trans) (intro Un_mono order_refl later)
    then show ?thesis using True by (simp add: Let_def)
  next
    case zw: False
    show ?thesis
    proof (cases "ws_cp c")
      case True
      have "snd ` set (fold_source uc True [] unit_start (offset + length c) cs) \<subseteq> S"
        using "2.IH"(2) [OF refl zw True] later by auto
      moreover have "fold_source uc prev unit unit_start offset (c # cs) = flush_unit uc unit unit_start @
          (if prev then [] else [('' '', offset)]) @ fold_source uc True [] unit_start (offset + length c) cs"
        using zw True by (simp add: Let_def)
      moreover have "snd ` set (if prev then [] else [('' '', offset)]) \<subseteq> S" using here by simp
      ultimately show ?thesis using flushed by (simp only: set_append image_Un) blast
    next
      case ws: False
      show ?thesis
      proof (cases "unit \<noteq> [] \<and> length c > 1 \<and> uc_combining uc c")
        case True
        have "snd ` set (fold_source uc False (unit @ substitute c) unit_start (offset + length c) cs) \<subseteq> {unit_start} \<union> S"
          using "2.IH"(3) [OF refl zw ws True] later True by auto
        then show ?thesis using zw ws True by (simp add: Let_def)
      next
        case False
        have "snd ` set (fold_source uc False (substitute c) offset (offset + length c) cs) \<subseteq> S"
          using "2.IH"(4) [OF refl zw ws False] later here by (auto split: if_splits)
        moreover have "fold_source uc prev unit unit_start offset (c # cs) =
            flush_unit uc unit unit_start @ fold_source uc False (substitute c) offset (offset + length c) cs"
          using zw ws False by (auto simp: Let_def)
        ultimately show ?thesis using flushed by (simp only: set_append image_Un) blast
      qed
    qed
  qed
  then show ?case by (simp only: S_def)
qed

lemma normalized_map:
  assumes "normalize_with_map uc source = (t, ofs)"
  shows "sorted ofs" "i \<in> set ofs \<Longrightarrow> i \<le> length source \<and> is_char_boundary source i"
proof -
  let ?ps = "fold_source uc False [] 0 0 (str_chars source)"
  have ofs: "ofs = map snd ?ps" using assms by (auto simp: normalize_with_map_def Let_def)
  have "offsets_in 0 (length source) ?ps" using fold_source_offsets [where unit = "[]" and unit_start = 0 and offset = 0 and uc = uc and prev = False and cs = "str_chars source"] by simp
  then have sorted: "sorted ofs" and le: "\<And>i. i \<in> set ofs \<Longrightarrow> i \<le> length source"
    by (auto simp: ofs offsets_in_def)
  then show "sorted ofs" by simp
  assume i: "i \<in> set ofs"
  then obtain k where "i = length (concat (take k (str_chars source)))"
    using fold_source_starts [where unit = "[]" and unit_start = 0 and offset = 0 and uc = uc and prev = False and cs = "str_chars source"] by (auto simp: ofs)
  then show "i \<le> length source \<and> is_char_boundary source i"
    using le [OF i] chars_take_boundary by simp
qed

subsection \<open>The tokens of the source\<close>

lemma tokens_of_order:
  assumes "case start of None \<Rightarrow> True | Some s \<Rightarrow> s \<le> char_index"
  shows "sorted_wrt (\<lambda>a b. tk_end_char a \<le> tk_start_char b) (tokens_of uc char_index start current cs) \<and>
    (\<forall>t \<in> set (tokens_of uc char_index start current cs).
       (case start of None \<Rightarrow> char_index | Some s \<Rightarrow> s) \<le> tk_start_char t \<and> tk_start_char t \<le> tk_end_char t)"
  using assms
proof (induction uc char_index start current cs rule: tokens_of.induct)
  case (2 uc char_index start current c cs)
  show ?case
  proof (cases "c = '' ''")
    case True
    then show ?thesis using "2.IH"(1) [OF True] "2.prems" by (fastforce split: option.splits)
  next
    case False
    then show ?thesis using "2.IH"(2) [OF False] "2.prems" by (auto split: option.splits)
  qed
qed (auto split: option.splits)

lemma source_tokens_order:
  assumes "i \<le> j" "j < length (tokenize_source uc t)"
  shows "tk_start_char (tokenize_source uc t ! i) \<le> tk_end_char (tokenize_source uc t ! j)"
proof -
  let ?ts = "tokenize_source uc t"
  have "sorted_wrt (\<lambda>a b. tk_end_char a \<le> tk_start_char b) ?ts" "\<forall>t \<in> set ?ts. tk_start_char t \<le> tk_end_char t"
    using tokens_of_order [where start = None and char_index = 0 and uc = uc and current = "[]" and cs = "str_chars t"] by (auto simp: tokenize_source_def sorted_wrt_filter)
  then have within: "tk_start_char (?ts ! i) \<le> tk_end_char (?ts ! i)" "tk_start_char (?ts ! j) \<le> tk_end_char (?ts ! j)"
    and step: "i < j \<longrightarrow> tk_end_char (?ts ! i) \<le> tk_start_char (?ts ! j)"
    using assms by (simp_all add: sorted_wrt_iff_nth_less)
  show ?thesis
  proof (cases "i = j")
    case True
    then show ?thesis using within(1) by simp
  next
    case False
    then show ?thesis using step within assms(1) by simp
  qed
qed

subsection \<open>The fuzzy match is guarded\<close>

definition matched_in :: "string list \<Rightarrow> string list \<Rightarrow> nat \<Rightarrow> nat \<Rightarrow> nat \<Rightarrow> bool" where
  "matched_in qs toks matched f l \<longleftrightarrow> f \<le> l \<and> l < length toks \<and>
     (\<exists>zs. length zs = matched \<and> subseq zs qs \<and> subseq zs (between f l toks))"

lemma between_window:
  "l < length (take n (drop k xs)) \<Longrightarrow> between f l (take n (drop k xs)) = between (k + f) (k + l) xs"
proof -
  assume "l < length (take n (drop k xs))"
  then have "min (Suc l - f) (n - f) = Suc l - f" by auto
  then show ?thesis by (simp add: between_def drop_take add.commute)
qed

lemma window_matched:
  assumes "lcs_match qs (take n (drop k toks)) = Some (matched, f, l)"
  shows "matched_in qs toks matched (k + f) (k + l)"
proof -
  let ?w = "take n (drop k toks)"
  obtain zs where zs: "f \<le> l" "l < length ?w" "length zs = matched" "subseq zs qs" "subseq zs (between f l ?w)"
    using lcs_match_span [OF assms] by blast
  then have "subseq zs (between (k + f) (k + l) toks)" by (metis between_window)
  then show ?thesis using zs unfolding matched_in_def by auto
qed

lemma best_window_matched:
  assumes "\<And>m f l. best = Some (m, f, l) \<Longrightarrow> matched_in qs toks m f l"
    "best_window anchors qs toks radius windows best is = Some (m, f, l)"
  shows "matched_in qs toks m f l"
  using assms
proof (induction anchors qs toks radius windows best "is" rule: best_window.induct)
  case (2 anchors qs toks radius windows best index "is")
  let ?w = "take (min (index + radius + 1) (length toks) - (index - radius)) (drop (index - radius) toks)"
  show ?case
  proof (cases "toks ! index \<notin> set anchors \<or> windows + 1 > max_fuzzy_windows")
    case True
    then show ?thesis using "2.IH"(1) "2.prems" by (auto split: if_splits)
  next
    case False
    define best' where "best' = (case lcs_match qs ?w of None \<Rightarrow> best
      | Some (matched, first, l) \<Rightarrow> if (case best of None \<Rightarrow> True | Some (best_matched, _) \<Rightarrow> matched > best_matched)
          then Some (matched, (index - radius) + first, (index - radius) + l) else best)"
    have "matched_in qs toks m f l" if "best' = Some (m, f, l)" for m f l
      using that "2.prems"(1) window_matched [of qs _ "index - radius" toks]
      by (auto simp: best'_def split: option.splits if_splits prod.splits)
    moreover have "best_window anchors qs toks radius (windows + 1) best' is = Some (m, f, l)"
      using "2.prems"(2) False by (simp add: Let_def best'_def)
    ultimately show ?thesis
      using "2.IH"(2) [OF _ _ refl refl, of best'] False by (auto simp: best'_def)
  qed
qed simp

lemma sliced: "byte_slice s i j = Some t \<Longrightarrow> s = take i s @ t @ drop j s \<and> length (take i s) = i"
proof -
  assume "byte_slice s i j = Some t"
  then have ij: "i \<le> j" "j \<le> length s" and t: "t = take (j - i) (drop i s)" by (auto simp: byte_slice_def split: if_splits)
  have "take i s @ take (j - i) (drop i s) = take j s" using ij by (metis le_add_diff_inverse take_add)
  then show ?thesis using ij t by (metis append.assoc append_take_drop_id length_take min.absorb2 order_trans)
qed

lemma fuzzy_slice:
  assumes "normalize_with_map uc source = (t, ofs)" "i \<le> j" "j < length (tokenize_source uc t)"
    "nth_opt ofs (tk_start_char (tokenize_source uc t ! i)) = Some start"
  shows "\<exists>span. byte_slice source start (case nth_opt ofs (tk_end_char (tokenize_source uc t ! j)) of None \<Rightarrow> length source | Some e \<Rightarrow> e) = Some span"
proof -
  let ?s = "tk_start_char (tokenize_source uc t ! i)" and ?e = "tk_end_char (tokenize_source uc t ! j)"
  have s: "?s < length ofs" "start = ofs ! ?s" using assms(4) by (auto simp: nth_opt_def split: if_splits)
  then have start: "start \<le> length source" "is_char_boundary source start" using normalized_map(2) [OF assms(1)] by simp_all
  show ?thesis
  proof (cases "?e < length ofs")
    case True
    then have "ofs ! ?e \<le> length source" "is_char_boundary source (ofs ! ?e)" using normalized_map(2) [OF assms(1)] by simp_all
    moreover have "start \<le> ofs ! ?e"
      using s True sorted_nth_mono [OF normalized_map(1) [OF assms(1)] source_tokens_order [OF assms(2,3)] True] by simp
    ultimately show ?thesis using True start by (simp add: byte_slice_def nth_opt_def)
  next
    case False
    then show ?thesis using start by (simp add: byte_slice_def nth_opt_def is_char_boundary_def [of source "length source"])
  qed
qed

definition guarded_match :: "unicode \<Rightarrow> string \<Rightarrow> string \<Rightarrow> fuzzy_locate \<Rightarrow> bool" where
  "guarded_match uc quote source z \<longleftrightarrow>
     (let qs = quote_tokens_of uc quote; toks = map tk_cleaned (tokenize_source uc (fst (normalize_with_map uc source)))
      in min_fuzzy_tokens \<le> length qs \<and>
         (\<exists>m f l. matched_in qs toks m f l \<and> 17 * length qs \<le> 20 * m \<and>
            fz_matched_tokens z = sat_u32 m \<and> fz_quote_tokens z = sat_u32 (length qs) \<and>
            (\<forall>t \<in> set qs. digit_bearing t \<longrightarrow> t \<in> set (between f l toks))) \<and>
         (\<exists>before rest. source = before @ fz_span z @ rest \<and> length before = fz_offset z))"

lemma fuzzy_result:
  "\<exists>r. locate_quote_fuzzy uc quote source = Some r \<and> (\<forall>z. r = Some z \<longrightarrow> guarded_match uc quote source z)"
proof -
  obtain t ofs where norm: "normalize_with_map uc source = (t, ofs)" by fastforce
  let ?qs = "quote_tokens_of uc quote" and ?ts = "tokenize_source uc t"
  let ?toks = "map tk_cleaned ?ts" and ?anchors = "anchor_tokens (quote_tokens_of uc quote)"
  define best where "best = best_window ?anchors ?qs ?toks (length ?qs + 2) 0 None [0..<length ?ts]"
  note unfold = locate_quote_fuzzy_def norm Let_def prod.case best_def [symmetric]
  consider (none) "locate_quote_fuzzy uc quote source = Some None"
    | (some) m f l start where "\<not> length ?qs < min_fuzzy_tokens" "best = Some (m, f, l)"
        "\<not> m * fuzzy_threshold_den < length ?qs * fuzzy_threshold_num"
        "list_all (\<lambda>needed. needed \<in> set (take (l + 1 - f) (drop f ?toks))) (filter digit_bearing ?qs)"
        "nth_opt ofs (tk_start_char (?ts ! f)) = Some start" "\<not> (?ts = [] \<or> ?anchors = [])"
  proof (cases "length ?qs < min_fuzzy_tokens \<or> ?ts = [] \<or> ?anchors = [] \<or> best = None")
    case True
    then have "locate_quote_fuzzy uc quote source = Some None" unfolding unfold by auto
    then show ?thesis by (rule none)
  next
    case False
    then obtain m f l where best: "best = Some (m, f, l)" by (cases best) auto
    show ?thesis
    proof (cases "m * fuzzy_threshold_den < length ?qs * fuzzy_threshold_num \<or>
        \<not> list_all (\<lambda>needed. needed \<in> set (take (l + 1 - f) (drop f ?toks))) (filter digit_bearing ?qs) \<or>
        nth_opt ofs (tk_start_char (?ts ! f)) = None")
      case True
      then have "locate_quote_fuzzy uc quote source = Some None" unfolding unfold using False best by auto
      then show ?thesis by (rule none)
    next
      case ok: False
      then show ?thesis using some [of m f l] best False by blast
    qed
  qed
  then show ?thesis
  proof cases
    case none
    then show ?thesis by blast
  next
    case some
    have matched: "matched_in ?qs ?toks m f l"
      using some(2) unfolding best_def by (rule best_window_matched [rotated]) simp
    let ?stop = "case nth_opt ofs (tk_end_char (?ts ! l)) of None \<Rightarrow> length source | Some e \<Rightarrow> e"
    obtain span where span: "byte_slice source start ?stop = Some span"
      using fuzzy_slice [OF norm _ _ some(5), of l] matched by (auto simp: matched_in_def)
    let ?z = "\<lparr>fz_offset = start, fz_span = str_trim_end span, fz_matched_tokens = sat_u32 m, fz_quote_tokens = sat_u32 (length ?qs)\<rparr>"
    have "locate_quote_fuzzy uc quote source = Some (Some ?z)"
      unfolding unfold using some span by simp
    note returned = this
    obtain u where "span = str_trim_end span @ u" using trim_end_prefix [of span] by (auto simp: prefix_def)
    with sliced [OF span] have "source = take start source @ fz_span ?z @ (u @ drop ?stop source) \<and> length (take start source) = fz_offset ?z"
      by (metis append.assoc fuzzy_locate.select_convs(1,2))
    then have "\<exists>before rest. source = before @ fz_span ?z @ rest \<and> length before = fz_offset ?z" by blast
    moreover have "\<exists>m f l. matched_in ?qs ?toks m f l \<and> 17 * length ?qs \<le> 20 * m \<and>
        fz_matched_tokens ?z = sat_u32 m \<and> fz_quote_tokens ?z = sat_u32 (length ?qs) \<and>
        (\<forall>t \<in> set ?qs. digit_bearing t \<longrightarrow> t \<in> set (between f l ?toks))"
      using matched some(3,4)
      by (intro exI [of _ m] exI [of _ f] exI [of _ l]) (auto simp: between_def list_all_iff fuzzy_threshold_den_def fuzzy_threshold_num_def)
    ultimately have "guarded_match uc quote source ?z"
      using some(1) unfolding guarded_match_def Let_def norm fst_conv by auto
    then show ?thesis using returned by blast
  qed
qed

text \<open>Fragments in document order, without overlap.\<close>

fun in_order :: "string list \<Rightarrow> string \<Rightarrow> bool" where
  "in_order [] t \<longleftrightarrow> True"
| "in_order (f # fs) t \<longleftrightarrow> (\<exists>u v. t = u @ f @ v \<and> in_order fs v)"

lemma in_order_later: "in_order fs t \<Longrightarrow> in_order fs (u @ t)"
  by (cases fs) (auto, metis append.assoc)

lemma fragments_found:
  assumes "fragments_from t from first_char last_end fs = Some (f, l)" "fs \<noteq> []" "from \<le> length t"
  shows "\<exists>u w v. t = u @ w @ v \<and> from \<le> length u \<and> in_order fs w \<and>
    f = Some (case first_char of None \<Rightarrow> char_count u | Some x \<Rightarrow> x) \<and> l = char_count u + char_count w"
  using assms
proof (induction fs arbitrary: "from" first_char last_end)
  case (Cons g gs)
  from Cons.prems(1) obtain r where r: "str_find g (drop from t) = Some r"
    and rest: "fragments_from t (from + r + length g)
      (Some (case first_char of None \<Rightarrow> char_count (take (from + r) t) | Some x \<Rightarrow> x)) (char_count (take (from + r) t) + char_count g) gs = Some (f, l)"
    by (auto simp: Let_def split: option.splits)
  let ?b = "from + r"
  have fits: "?b + length g \<le> length t" and g: "take (length g) (drop ?b t) = g"
    using str_find_Some [OF r] Cons.prems(3) by (auto simp: drop_drop add.commute)
  define A where "A = take ?b t"
  obtain R where t: "t = A @ g @ R" unfolding A_def by (metis append_take_drop_id g)
  have len: "length A = ?b" using fits by (simp add: A_def)
  note rest = rest [folded A_def]
  show ?case
  proof (cases "gs = []")
    case True
    have "in_order (g # gs) g" using True by (auto intro!: exI [of _ "[]"])
    moreover have "f = Some (case first_char of None \<Rightarrow> char_count A | Some x \<Rightarrow> x)" "l = char_count A + char_count g"
      using rest True by simp_all
    ultimately show ?thesis using t len le_add1 by metis
  next
    case False
    from Cons.IH [OF rest False fits] obtain u w v where uwv: "t = u @ w @ v" "?b + length g \<le> length u" "in_order gs w"
      "f = Some (case first_char of None \<Rightarrow> char_count A | Some x \<Rightarrow> x)" "l = char_count u + char_count w" by auto
    have "take (length (A @ g)) t = take (length (A @ g)) u" using uwv(1,2) len by simp
    then have "A @ g = take (length (A @ g)) u" using t by (metis append.assoc append_eq_conv_conj)
    then obtain h where u: "u = A @ g @ h" by (metis append.assoc append_take_drop_id)
    have "in_order (g # gs) (g @ h @ w)" using in_order_later [OF uwv(3), of h] by (auto intro: exI [of _ "[]"])
    moreover have "t = A @ (g @ h @ w) @ v" using uwv(1) u by simp
    moreover have "l = char_count A + char_count (g @ h @ w)" using uwv(5) u by simp
    moreover have "from \<le> length A" using len by simp
    ultimately show ?thesis using uwv(4) by metis
  qed
qed simp

lemma nth_opt_Some: "nth_opt xs i = Some x \<Longrightarrow> x \<in> set xs"
  by (auto simp: nth_opt_def split: if_splits)

text \<open>What a located quote means: verbatim, verbatim up to the folding, or elided and in order.\<close>

definition verbatim :: "unicode \<Rightarrow> string \<Rightarrow> string \<Rightarrow> nat \<Rightarrow> bool" where
  "verbatim uc q source offset \<longleftrightarrow>
     (let (t, ofs) = normalize_with_map uc source; nq = normalize_for_match uc q
      in nq \<noteq> [] \<and> (\<exists>u v. t = u @ nq @ v \<and> nth_opt ofs (char_count u) = Some offset))"

definition elided :: "unicode \<Rightarrow> string \<Rightarrow> string \<Rightarrow> nat \<Rightarrow> bool" where
  "elided uc q source offset \<longleftrightarrow>
     (let (t, ofs) = normalize_with_map uc source; fs = quote_fragments uc q
      in 2 \<le> length fs \<and> (\<forall>f \<in> set fs. 8 \<le> char_count f) \<and>
         (\<exists>u w v. t = u @ w @ v \<and> in_order fs w \<and> char_count w \<le> 1500 \<and> nth_opt ofs (char_count u) = Some offset))"

lemma multi_fragment_elided:
  assumes "normalize_with_map uc source = (t, ofs)" "locate_multi_fragment uc q t ofs = Some offset"
  shows "elided uc q source offset"
proof -
  let ?fs = "quote_fragments uc q"
  from assms(2) obtain first l where found: "2 \<le> length ?fs" "fragments_from t 0 None 0 ?fs = Some (Some first, l)"
    "l - first \<le> max_fragment_span_chars" "nth_opt ofs first = Some offset"
    by (auto simp: locate_multi_fragment_def Let_def split: if_splits option.splits)
  then have "?fs \<noteq> []" by auto
  from fragments_found [OF found(2) this] obtain u w v where
    "t = u @ w @ v" "in_order ?fs w" "first = char_count u" "l = char_count u + char_count w" by auto
  then have "t = u @ w @ v \<and> in_order ?fs w \<and> char_count w \<le> 1500 \<and> nth_opt ofs (char_count u) = Some offset"
    using found by (simp add: max_fragment_span_chars_def)
  moreover have "\<forall>f \<in> set ?fs. 8 \<le> char_count f" by (auto simp: quote_fragments_def min_fragment_chars_def)
  ultimately show ?thesis using found(1) unfolding elided_def assms(1) prod.case Let_def by blast
qed

lemma located_quote_present:
  "(sublist (str_trim quote) source \<and> str_trim quote \<noteq> [] \<longrightarrow> locate_quote uc quote source \<noteq> None) \<and>
   (locate_quote uc quote source = Some offset \<longrightarrow>
      offset \<le> length source \<and> str_trim quote \<noteq> [] \<and>
      (prefix (str_trim quote) (drop offset source) \<or>
       is_char_boundary source offset \<and>
       (verbatim uc (str_trim quote) source offset \<or> elided uc (str_trim quote) source offset)))"
proof (intro conjI impI)
  let ?q = "str_trim quote"
  assume "sublist ?q source \<and> ?q \<noteq> []"
  then show "locate_quote uc quote source \<noteq> None"
    using str_find_sublist [of ?q source] by (auto simp: locate_quote_def Let_def)
next
  let ?q = "str_trim quote" and ?nq = "normalize_for_match uc (str_trim quote)"
  obtain t ofs where norm: "normalize_with_map uc source = (t, ofs)" by fastforce
  assume located: "locate_quote uc quote source = Some offset"
  then show "?q \<noteq> []" by (auto simp: locate_quote_def Let_def)
  have "prefix ?q (drop offset source) \<and> offset \<le> length source \<or>
    offset \<in> set ofs \<and> (verbatim uc ?q source offset \<or> elided uc ?q source offset)"
  proof (cases "str_find ?q source")
    case (Some i)
    then show ?thesis
      using located str_find_Some [OF Some] take_is_prefix [of "length ?q" "drop i source"]
      by (auto simp: locate_quote_def Let_def split: if_splits)
  next
    case None
    show ?thesis
    proof (cases "str_find ?nq t")
      case (Some i)
      then have "nth_opt ofs (char_count (take i t)) = Some offset" "?nq \<noteq> []"
        using located None norm by (auto simp: locate_quote_def Let_def split: if_splits)
      moreover have "t = take i t @ ?nq @ drop (length ?nq + i) t"
        using str_find_Some [OF Some] by (metis append_take_drop_id drop_drop)
      ultimately show ?thesis using norm nth_opt_Some unfolding verbatim_def by fastforce
    next
      case no: None
      then have multi: "locate_multi_fragment uc ?q t ofs = Some offset"
        using located None norm by (auto simp: locate_quote_def Let_def split: if_splits)
      then have "offset \<in> set ofs"
        by (auto simp: locate_multi_fragment_def Let_def dest: nth_opt_Some split: if_splits option.splits)
      then show ?thesis using multi_fragment_elided [OF norm multi] by simp
    qed
  qed
  then show "offset \<le> length source" "prefix ?q (drop offset source) \<or> is_char_boundary source offset \<and>
      (verbatim uc ?q source offset \<or> elided uc ?q source offset)"
    using normalized_map(2) [OF norm] by auto
qed

text \<open>
  C26. Quotes are not fabricated: when a quote is located, it is not blank, the offset is the start of a
  character of the source, and the trimmed quote stands there verbatim, or its folding stands in the
  folding of the source at a place that maps to the offset, or it is elided into two or more fragments
  of at least eight characters each that stand there in order, without overlap, within 1500
  characters. A quote that stands in the source verbatim is located.
\<close>

theorem located_quote_is_there:
  "(sublist (str_trim quote) source \<and> str_trim quote \<noteq> [] \<longrightarrow> locate_quote uc quote source \<noteq> None) \<and>
   (locate_quote uc quote source = Some offset \<longrightarrow>
      offset \<le> length source \<and> str_trim quote \<noteq> [] \<and>
      (prefix (str_trim quote) (drop offset source) \<or>
       is_char_boundary source offset \<and>
       (verbatim uc (str_trim quote) source offset \<or> elided uc (str_trim quote) source offset)))"
  by (rule located_quote_present)

lemma str_chars_code [code]:
  "str_chars [] = []"
  "str_chars (c # s) = (let n = char_len (c # s) in take n (c # s) # str_chars (drop n (c # s)))"
  by (simp_all add: str_chars.simps [of "[]"] str_chars.simps [of "c # s"] Let_def)

lemma lcs_back_code [code]:
  "lcs_back table qs ws 0 col found = found"
  "lcs_back table qs ws (Suc row) 0 found = found"
  "lcs_back table qs ws (Suc row) (Suc col) found =
     (if qs ! row = ws ! col \<and> table ! Suc row ! Suc col = table ! row ! col + 1
      then lcs_back table qs ws row col (Some col, (case snd found of None \<Rightarrow> Some col | Some l \<Rightarrow> Some l))
      else if table ! row ! Suc col \<ge> table ! Suc row ! col then lcs_back table qs ws row (Suc col) found
      else lcs_back table qs ws (Suc row) col found)"
  by (simp_all add: lcs_back.simps [of table qs ws 0] lcs_back.simps [of table qs ws "Suc row" 0] lcs_back.simps [of table qs ws "Suc row" "Suc col"] split: option.split)

lemma sat_u32_code [code]: "sat_u32 n = (if n < 1000 then n else min n u32_max)"
  by (simp add: sat_u32_def min.commute)

lemma substitute_code [code]:
  "substitute c =
     (if length c < 3 then c
      else if c \<in> set (map e280 [0x98, 0x99, 0x9A, 0x9B, 0xB2]) then [CHR 0x27]
      else if c \<in> set (map e280 [0x9C, 0x9D, 0x9E, 0x9F, 0xB3]) then [CHR 0x22]
      else if c \<in> set (map e280 [0x90, 0x91, 0x92, 0x93, 0x94, 0x95]) \<or> c = [CHR 0xE2, CHR 0x88, CHR 0x92] then ''-''
      else c)"
  by (auto simp: substitute_def e280_def)

lemma is_zero_width_code [code]:
  "is_zero_width c = (if length c < 3 then False
     else c \<in> set (map e280 [0x8B, 0x8C, 0x8D]) \<or> c = [CHR 0xEF, CHR 0xBB, CHR 0xBF])"
  by (auto simp: is_zero_width_def e280_def)

definition ascii_tables :: unicode where
  "ascii_tables = \<lparr>uc_nfc = (\<lambda>s. s), uc_lower = (\<lambda>s. s), uc_combining = (\<lambda>_. False), uc_alphanumeric = (\<lambda>_. False)\<rparr>"

lemma located_examples:
  "locate_quote ascii_tables '' won the  Prize '' ''He WON the Prize.'' = Some 3"
  "locate_quote ascii_tables ''the scruffy park ... [...] was then reopened'' ''Yes, the scruffy park of old was then reopened.'' = Some 5"
  "locate_quote ascii_tables ''was then reopened ... the scruffy park'' ''Yes, the scruffy park of old was then reopened.'' = None"
  by code_simp+

theorem located_quote_is_there_witness:
  "elided ascii_tables ''the scruffy park ... [...] was then reopened'' ''Yes, the scruffy park of old was then reopened.'' 5 \<or>
   verbatim ascii_tables ''the scruffy park ... [...] was then reopened'' ''Yes, the scruffy park of old was then reopened.'' 5"
proof -
  have trim: "str_trim ''the scruffy park ... [...] was then reopened'' = ''the scruffy park ... [...] was then reopened''"
    by code_simp
  have apart: "\<not> prefix ''the scruffy park ... [...] was then reopened'' (drop 5 ''Yes, the scruffy park of old was then reopened.'')"
    by code_simp
  show ?thesis
    using located_quote_is_there [of "''the scruffy park ... [...] was then reopened''" "''Yes, the scruffy park of old was then reopened.''"
        ascii_tables 5] trim apart located_examples(2) by auto
qed

text \<open>
  The fuzzy match is guarded and returns the source's own words: it never panics on a slice, whatever
  the quote and the source; and when it matches, the quote has at least five tokens, at least 85 in 100
  of them stand in the span in the same order, every token with a digit stands in the span exactly, the
  counts are those measured, and the span is the text of the source at the offset.
\<close>

theorem fuzzy_guarded:
  "\<exists>r. locate_quote_fuzzy uc quote source = Some r \<and>
     (\<forall>z. r = Some z \<longrightarrow> guarded_match uc quote source z)"
  by (rule fuzzy_result)

lemma fuzzy_examples:
  "locate_quote_fuzzy ascii_tables ''the Acme group opened 12 new plants there'' ''In May, the Acme group opened 12 plants there (again).'' =
     Some (Some \<lparr>fz_offset = 8, fz_span = ''the Acme group opened 12 plants there'', fz_matched_tokens = 7, fz_quote_tokens = 8\<rparr>)"
  by code_simp

theorem fuzzy_guarded_witness:
  "guarded_match ascii_tables ''the Acme group opened 12 new plants there'' ''In May, the Acme group opened 12 plants there (again).''
     \<lparr>fz_offset = 8, fz_span = ''the Acme group opened 12 plants there'', fz_matched_tokens = 7, fz_quote_tokens = 8\<rparr>"
  using fuzzy_guarded [of ascii_tables "''the Acme group opened 12 new plants there''" "''In May, the Acme group opened 12 plants there (again).''"]
    fuzzy_examples by auto

theorem lcs_match_longest_witness:
  "\<exists>m f l. lcs_match [''a'', ''b'', ''c''] [''x'', ''a'', ''c'', ''y''] = Some (m, f, l) \<and> f \<le> l \<and> l < 4"
proof -
  have "lcs_match [''a'', ''b'', ''c''] [''x'', ''a'', ''c'', ''y''] = Some (2, 1, 2)" by code_simp
  then show ?thesis using lcs_match_longest [of "[''a'', ''b'', ''c'']" "[''x'', ''a'', ''c'', ''y'']"] by auto
qed

end
