(* ===== verification/Citation_Verify.thy ===== *)
theory Citation_Verify
  imports Citation_Prompts Body_Classifier Source_Fetch Locate_Quote
begin

section \<open>Verifying a citation\<close>

text \<open>
  \<open>crates/sp42-citation/src/citation/verify.rs\<close> with \<open>concurrency.rs\<close>: the source is fetched once, an
  unusable body ends the run, every model of the panel judges the claim, votes whose quote does not
  locate get one repair turn, the panel votes, and the quote of a vote of the winning class is located in
  the fetched text. The clients are functions: a model call is answered by the number it has in the run
  (the panel in order, then the repairs in order) and its request, so two calls with one request may be
  answered differently; \<open>map_with_concurrency\<close> returns results in input order, whatever the limit. A run
  also yields the requests it sent to models. Panics of the fuzzy match, the outer \<open>None\<close> of
  \<open>locate_quote_fuzzy\<close>, are shown not to occur.
\<close>

definition verify_schema_version :: nat where "verify_schema_version = 1"

record citation_verification_request =
  cr_wiki_id :: string
  cr_rev_id :: nat
  cr_title :: string
  cr_claim :: string
  cr_source_url :: string

record located_passage =
  lp_quote :: string
  lp_offset :: nat

record source_provenance =
  sp_url :: string
  sp_content_hash :: string
  sp_fetched_at :: int
  sp_http_status :: "nat option"

datatype grounding_assertion =
    LocatedQuote string string nat
  | SourceFetched string

datatype grounding_status = Located | LocatedFuzzy | Unlocated | NotApplicable

record book_scan_provenance =
  bs_ocaid :: string
  bs_scanned_page :: "nat option"
  bs_cited_page :: "string option"
  bs_note :: "string option"

datatype source_unavailable_reason = Unreachable | Unusable

fun unavailable_as_str :: "source_unavailable_reason \<Rightarrow> string" where
  "unavailable_as_str Unreachable = ''unreachable''"
| "unavailable_as_str Unusable = ''unusable''"

text \<open>The kind of a finding has one value and is left out.\<close>

record citation_finding =
  cf_verdict :: citation_verdict
  cf_grounding_status :: grounding_status
  cf_source_unavailable_reason :: "source_unavailable_reason option"
  cf_unusable_reason :: "body_usability_reason option"
  cf_agreement :: panel_agreement
  cf_passage :: "located_passage option"
  cf_provenance :: source_provenance
  cf_source_excerpt :: "string option"
  cf_metadata :: "citoid_metadata option"
  cf_grounding :: grounding_assertion
  cf_use_site_ordinal :: nat
  cf_ref_id :: string
  cf_claim :: string
  cf_preceding_context :: "string list"
  cf_archive_of :: "string option"
  cf_is_bare_url_ref :: bool
  cf_book_scan :: "book_scan_provenance option"
  cf_schema_version :: nat

record repair_attempt =
  ra_invocation :: model_invocation
  ra_quote :: "string option"

record model_verdict =
  mv_invocation :: model_invocation
  mv_parsed :: parsed_verdict
  mv_repair :: "repair_attempt option"

record model_vote =
  vt_invocation :: model_invocation
  vt_verdict :: citation_verdict
  vt_located_passage :: "located_passage option"
  vt_claimed_quote :: "string option"
  vt_repaired_quote :: "string option"
  vt_repair_invocation :: "model_invocation option"

record verification_outcome =
  vo_finding :: citation_finding
  vo_votes :: "model_vote list"

record verify_model_inputs =
  vi_claim :: string
  vi_source_text :: string
  vi_source_url :: string
  vi_metadata :: "citoid_metadata option"
  vi_context :: "claim_context option"

record fetched_source =
  fs_text :: string
  fs_status :: nat
  fs_content_type :: string
  fs_raw_html :: "string option"
  fs_book_snippet :: bool

record 'p verify_options =
  op_include_metadata :: bool
  op_concurrency :: nat
  op_params :: 'p
  op_repair_turn :: bool
  op_prefetched :: "fetched_source option"
  op_metadata_sidecar :: "citoid_metadata option"

text \<open>The libraries and the data files the run relies on.\<close>

record 'p verify_env =
  ve_classes :: rx_tables
  ve_unicode :: unicode
  ve_url_of :: "string \<Rightarrow> parsed_url option"
  ve_debug :: "string \<Rightarrow> string"
  ve_from_str :: "string \<Rightarrow> json option"
  ve_sha256_hex :: "string \<Rightarrow> string"
  ve_to_vec :: "chat_message list \<Rightarrow> string + string"
  ve_fingerprint :: "'p \<Rightarrow> (string \<times> string) list"
  ve_system :: string
  ve_repair_system :: string

type_synonym 'p model_client = "nat \<Rightarrow> 'p model_completion_request \<Rightarrow> model_client_error + model_completion"
type_synonym http_client = "http_request \<Rightarrow> http_client_error + http_response"

subsection \<open>One model\<close>

definition build_verify_completion_request ::
  "'p verify_env \<Rightarrow> model_ref \<Rightarrow> 'p \<Rightarrow> verify_model_inputs \<Rightarrow>
   citation_verification_error + ('p model_completion_request \<times> model_invocation)" where
  "build_verify_completion_request env model params inputs =
     (if str_trim (vi_claim inputs) = [] then Inl (CV_InvalidRequest ''claim is empty'')
      else if str_trim (vi_source_text inputs) = [] then Inl (CV_InvalidRequest ''source text is empty'')
      else let messages = build_verify_prompt (ve_system env) (vi_claim inputs) (vi_source_text inputs) (vi_source_url inputs)
                 (vi_metadata inputs) (vi_context inputs)
           in case ve_to_vec env messages of
                Inl e \<Rightarrow> Inl (CV_Json e)
              | Inr bytes \<Rightarrow> Inr
                  (\<lparr>mq_model = model, mq_messages = messages, mq_params = params\<rparr>,
                   \<lparr>mi_model = model, mi_quant = None, mi_params = ve_fingerprint env params,
                    mi_prompt_hash = ve_sha256_hex env bytes\<rparr>))"

definition source_unavailable_model_vote ::
  "'p verify_env \<Rightarrow> model_ref \<Rightarrow> 'p \<Rightarrow> verify_model_inputs \<Rightarrow> citation_verification_error + model_verdict" where
  "source_unavailable_model_vote env model params inputs =
     (case build_verify_completion_request env model params inputs of
        Inl e \<Rightarrow> Inl e
      | Inr (_, invocation) \<Rightarrow> Inr
          \<lparr>mv_invocation = invocation, mv_parsed = \<lparr>pv_verdict = SourceUnavailable, pv_quote = None\<rparr>, mv_repair = None\<rparr>)"

definition execute_citation_verify ::
  "'p verify_env \<Rightarrow> ('p model_completion_request \<Rightarrow> model_client_error + model_completion) \<Rightarrow> model_ref \<Rightarrow> 'p \<Rightarrow>
   verify_model_inputs \<Rightarrow> (citation_verification_error + model_verdict) \<times> 'p model_completion_request list" where
  "execute_citation_verify env ask model params inputs =
     (case build_verify_completion_request env model params inputs of
        Inl e \<Rightarrow> (Inl e, [])
      | Inr (request, invocation) \<Rightarrow>
          ((case ask request of
              Inl e \<Rightarrow> Inl (CV_InvalidResponse (model_client_error_text e))
            | Inr completion \<Rightarrow> Inr
                \<lparr>mv_invocation = invocation,
                 mv_parsed = (case parse_verdict_response (ve_classes env) (ve_from_str env) (mc_text completion) of
                     None \<Rightarrow> \<lparr>pv_verdict = NotSupported, pv_quote = None\<rparr>
                   | Some v \<Rightarrow> v),
                 mv_repair = None\<rparr>), [request]))"

definition execute_citation_repair ::
  "'p verify_env \<Rightarrow> ('p model_completion_request \<Rightarrow> model_client_error + model_completion) \<Rightarrow> model_ref \<Rightarrow> 'p \<Rightarrow>
   verify_model_inputs \<Rightarrow> string \<Rightarrow> (citation_verification_error + repair_attempt) \<times> 'p model_completion_request list" where
  "execute_citation_repair env ask model params inputs failed_quote =
     (let messages = build_repair_prompt (ve_repair_system env) (vi_claim inputs) (vi_source_text inputs) (vi_source_url inputs) failed_quote;
          request = \<lparr>mq_model = model, mq_messages = messages, mq_params = params\<rparr>
      in case ve_to_vec env messages of
           Inl e \<Rightarrow> (Inl (CV_Json e), [])
         | Inr bytes \<Rightarrow>
             ((case ask request of
                 Inl e \<Rightarrow> Inl (CV_InvalidResponse (model_client_error_text e))
               | Inr completion \<Rightarrow> Inr
                   \<lparr>ra_invocation = \<lparr>mi_model = model, mi_quant = None, mi_params = ve_fingerprint env params,
                      mi_prompt_hash = ve_sha256_hex env bytes\<rparr>,
                    ra_quote = parse_repair_response (ve_from_str env) (mc_text completion)\<rparr>), [request]))"

subsection \<open>Grounding\<close>

definition repaired_quote :: "model_verdict \<Rightarrow> string option" where
  "repaired_quote vote = Option.bind (mv_repair vote) ra_quote"

definition locate_vote_quote :: "unicode \<Rightarrow> model_verdict \<Rightarrow> string \<Rightarrow> (string \<times> nat) option" where
  "locate_vote_quote uc vote source_text =
     (let locate = (\<lambda>quote. map_option (\<lambda>offset. (quote, offset)) (locate_quote uc quote source_text))
      in or_else (Option.bind (pv_quote (mv_parsed vote)) locate) (Option.bind (repaired_quote vote) locate))"

definition fuzzy_hit :: "unicode \<Rightarrow> string \<Rightarrow> string \<Rightarrow> fuzzy_locate option" where
  "fuzzy_hit uc quote source = (case locate_quote_fuzzy uc quote source of Some r \<Rightarrow> r | None \<Rightarrow> None)"

definition fuzzy_locate_vote_quote :: "unicode \<Rightarrow> model_verdict \<Rightarrow> string \<Rightarrow> fuzzy_locate option" where
  "fuzzy_locate_vote_quote uc vote source_text =
     (let locate = (\<lambda>quote. fuzzy_hit uc quote source_text)
      in or_else (Option.bind (pv_quote (mv_parsed vote)) locate) (Option.bind (repaired_quote vote) locate))"

definition derive_source_unavailable_reason ::
  "citation_verdict \<Rightarrow> source_provenance \<Rightarrow> source_unavailable_reason option" where
  "derive_source_unavailable_reason verdict provenance =
     (if verdict \<noteq> CV_SourceUnavailable then None
      else case sp_http_status provenance of
             Some status \<Rightarrow> if 200 \<le> status \<and> status \<le> 299 then Some Unusable else Some Unreachable
           | None \<Rightarrow> Some Unreachable)"

definition no_quote_finding ::
  "citation_verdict \<Rightarrow> grounding_status \<Rightarrow> panel_agreement \<Rightarrow> source_provenance \<Rightarrow> nat \<Rightarrow> citation_finding" where
  "no_quote_finding verdict status agreement provenance use_site_ordinal =
     \<lparr>cf_verdict = verdict, cf_grounding_status = status,
      cf_source_unavailable_reason = derive_source_unavailable_reason verdict provenance, cf_unusable_reason = None,
      cf_agreement = agreement, cf_passage = None, cf_provenance = provenance, cf_source_excerpt = None, cf_metadata = None,
      cf_grounding = SourceFetched (sp_content_hash provenance), cf_use_site_ordinal = use_site_ordinal, cf_ref_id = [],
      cf_claim = [], cf_preceding_context = [], cf_archive_of = None, cf_is_bare_url_ref = False, cf_book_scan = None,
      cf_schema_version = verify_schema_version\<rparr>"

definition winning_passage :: "unicode \<Rightarrow> string \<Rightarrow> model_verdict list \<Rightarrow> (string \<times> nat \<times> grounding_status) option" where
  "winning_passage uc source_text winners =
     or_else
       (find_map (\<lambda>c. map_option (\<lambda>(quote, offset). (quote, offset, Located)) (locate_vote_quote uc c source_text)) winners)
       (find_map (\<lambda>c. map_option (\<lambda>hit. (fz_span hit, fz_offset hit, LocatedFuzzy)) (fuzzy_locate_vote_quote uc c source_text)) winners)"

definition assemble_citation_finding ::
  "unicode \<Rightarrow> string \<Rightarrow> source_provenance \<Rightarrow> model_verdict list \<Rightarrow> nat \<Rightarrow> citation_finding" where
  "assemble_citation_finding uc source_text provenance votes use_site_ordinal =
     (case n_class_vote (map (\<lambda>v. pv_verdict (mv_parsed v)) votes) of
        None \<Rightarrow> no_quote_finding CV_SourceUnavailable NotApplicable \<lparr>panel_size = 0, winner_votes = 0\<rparr> provenance use_site_ordinal
      | Some vote \<Rightarrow>
          if is_support_class (ncv_winner vote)
          then (let winners = filter (\<lambda>c. pv_verdict (mv_parsed c) = ncv_winner vote) votes;
                    verdict = citation_verdict_of (ncv_winner vote);
                    located = winning_passage uc source_text winners
                in case located of
                     Some (quote, offset, status) \<Rightarrow>
                       (no_quote_finding verdict status (ncv_agreement vote) provenance use_site_ordinal)
                         \<lparr>cf_passage := Some \<lparr>lp_quote = quote, lp_offset = offset\<rparr>,
                          cf_grounding := LocatedQuote quote (sp_content_hash provenance) offset\<rparr>
                   | None \<Rightarrow> no_quote_finding verdict Unlocated (ncv_agreement vote) provenance use_site_ordinal)
          else no_quote_finding (citation_verdict_of (ncv_winner vote)) NotApplicable (ncv_agreement vote) provenance use_site_ordinal)"

definition is_groundable_support :: "citation_finding \<Rightarrow> bool" where
  "is_groundable_support finding \<longleftrightarrow>
     cf_grounding_status finding = Located \<and>
     (case cf_verdict finding of Judged SL_Supported \<Rightarrow> True | Judged SL_Partial \<Rightarrow> True | _ \<Rightarrow> False)"

definition build_model_votes :: "unicode \<Rightarrow> model_verdict list \<Rightarrow> string \<Rightarrow> model_vote list" where
  "build_model_votes uc votes source_text =
     map (\<lambda>vote. \<lparr>vt_invocation = mv_invocation vote, vt_verdict = citation_verdict_of (pv_verdict (mv_parsed vote)),
        vt_located_passage = (if is_support_class (pv_verdict (mv_parsed vote))
          then map_option (\<lambda>(quote, offset). \<lparr>lp_quote = quote, lp_offset = offset\<rparr>) (locate_vote_quote uc vote source_text)
          else None),
        vt_claimed_quote = pv_quote (mv_parsed vote), vt_repaired_quote = repaired_quote vote,
        vt_repair_invocation = map_option ra_invocation (mv_repair vote)\<rparr>) votes"

subsection \<open>The excerpt\<close>

definition source_excerpt_max_chars :: nat where "source_excerpt_max_chars = 700"

fun chars_before :: "nat \<Rightarrow> nat \<Rightarrow> string list \<Rightarrow> nat" where
  "chars_before byte offset [] = 0"
| "chars_before byte offset (c # cs) = (if byte < offset then Suc (chars_before (byte + length c) offset cs) else 0)"

definition build_source_excerpt :: "string \<Rightarrow> located_passage option \<Rightarrow> string option" where
  "build_source_excerpt source_text passage =
     (if str_trim source_text = [] then None
      else let cs = str_chars source_text; total = length cs
           in if total \<le> source_excerpt_max_chars then Some (str_trim source_text)
              else let center = (case passage of None \<Rightarrow> 0 | Some p \<Rightarrow> chars_before 0 (lp_offset p) cs);
                       stop = min ((center - source_excerpt_max_chars div 2) + source_excerpt_max_chars) total;
                       start = stop - source_excerpt_max_chars
                   in Some ((if 0 < start then dots_utf8 @ '' '' else []) @
                            str_trim (concat (take (stop - start) (drop start cs))) @
                            (if stop < total then '' '' @ dots_utf8 else [])))"

subsection \<open>Outcomes without a model\<close>

definition unusable_source_outcome :: "body_usability_reason \<Rightarrow> source_provenance \<Rightarrow> nat \<Rightarrow> verification_outcome" where
  "unusable_source_outcome reason provenance use_site_ordinal =
     (let finding = no_quote_finding CV_SourceUnavailable NotApplicable \<lparr>panel_size = 0, winner_votes = 0\<rparr> provenance use_site_ordinal
      in \<lparr>vo_finding = (if cf_source_unavailable_reason finding = Some Unusable
            then finding\<lparr>cf_unusable_reason := Some reason\<rparr> else finding), vo_votes = []\<rparr>)"

definition book_scan_unavailable_outcome :: "source_provenance \<Rightarrow> nat \<Rightarrow> verification_outcome" where
  "book_scan_unavailable_outcome provenance use_site_ordinal =
     \<lparr>vo_finding = no_quote_finding CV_SourceUnavailable NotApplicable \<lparr>panel_size = 0, winner_votes = 0\<rparr> provenance use_site_ordinal,
      vo_votes = []\<rparr>"

definition book_searched_not_supported_outcome :: "source_provenance \<Rightarrow> nat \<Rightarrow> verification_outcome" where
  "book_searched_not_supported_outcome provenance use_site_ordinal =
     \<lparr>vo_finding = no_quote_finding (Judged SL_NotSupported) NotApplicable \<lparr>panel_size = 0, winner_votes = 0\<rparr> provenance use_site_ordinal,
      vo_votes = []\<rparr>"

subsection \<open>Fetching\<close>

definition header_get :: "string \<Rightarrow> (string \<times> string) list \<Rightarrow> string option" where
  "header_get name headers = map_of headers name"

definition get_request :: "string \<Rightarrow> http_request" where
  "get_request url = \<lparr>hr_method = Get, hr_url = url, hr_query = [], hr_headers = [], hr_body = []\<rparr>"

definition fetch_source :: "'p verify_env \<Rightarrow> http_client \<Rightarrow> string \<Rightarrow> citation_verification_error + fetched_source" where
  "fetch_source env execute source_url =
     (let fetch_url = rewrite_wayback_url (ve_classes env) source_url
      in if ve_url_of env fetch_url = None then Inl (CV_InvalidRequest (''invalid source url '' @ ve_debug env source_url))
         else case execute (get_request fetch_url) of
                Inl e \<Rightarrow> Inl (CV_InvalidResponse (http_client_error_text e))
              | Inr response \<Rightarrow>
                  if \<not> (200 \<le> hs_status response \<and> hs_status response < 400)
                  then Inr \<lparr>fs_text = [], fs_status = hs_status response, fs_content_type = [], fs_raw_html = None, fs_book_snippet = False\<rparr>
                  else let content_type = (case header_get ''content-type'' (hs_headers response) of None \<Rightarrow> [] | Some c \<Rightarrow> c);
                           body = from_utf8_lossy (hs_body response);
                           is_html = looks_like_html (ve_classes env) content_type body;
                           extracted = (if is_html then html_to_text (ve_classes env) body else body)
                       in Inr \<lparr>fs_text = recover_wayback_body extracted, fs_status = hs_status response, fs_content_type = content_type,
                            fs_raw_html = (if is_html then Some body else None), fs_book_snippet = False\<rparr>)"

definition fetch_metadata :: "'p verify_env \<Rightarrow> http_client \<Rightarrow> string \<Rightarrow> citoid_metadata option" where
  "fetch_metadata env execute source_url =
     (case execute (build_citoid_request source_url) of
        Inl e \<Rightarrow> None
      | Inr response \<Rightarrow>
          if \<not> (200 \<le> hs_status response \<and> hs_status response < 300) then None
          else Option.bind (parse_citoid_response (ve_from_str env) (hs_body response)) (\<lambda>raw. build_citoid_header raw source_url))"

subsection \<open>The repair turn\<close>

definition pending_repairs :: "unicode \<Rightarrow> string \<Rightarrow> model_verdict list \<Rightarrow> (nat \<times> model_ref \<times> string) list" where
  "pending_repairs uc source_text votes =
     List.map_filter (\<lambda>(index, vote).
       if \<not> is_support_class (pv_verdict (mv_parsed vote)) then None
       else case pv_quote (mv_parsed vote) of
              None \<Rightarrow> None
            | Some quote \<Rightarrow> if locate_quote uc quote source_text \<noteq> None then None else Some (index, mi_model (mv_invocation vote), quote))
       (zip [0..<length votes] votes)"

definition run_repair_turn ::
  "'p verify_env \<Rightarrow> 'p model_client \<Rightarrow> nat \<Rightarrow> 'p \<Rightarrow> verify_model_inputs \<Rightarrow> string \<Rightarrow> model_verdict list \<Rightarrow>
   model_verdict list \<times> 'p model_completion_request list" where
  "run_repair_turn env ask first_call params inputs source_text votes =
     (let pending = pending_repairs (ve_unicode env) source_text votes;
          repairs = map (\<lambda>(k, index, model, failed_quote).
            (index, execute_citation_repair env (ask (first_call + k)) model params inputs failed_quote))
            (zip [0..<length pending] pending)
      in (fold (\<lambda>(index, attempt, _) vs. case attempt of
            Inl e \<Rightarrow> vs
          | Inr a \<Rightarrow> vs[index := (vs ! index)\<lparr>mv_repair := Some a\<rparr>]) repairs votes,
          concat (map (\<lambda>(_, _, requests). requests) repairs)))"

subsection \<open>The run\<close>

definition panel_vote ::
  "'p verify_env \<Rightarrow> ('p model_completion_request \<Rightarrow> model_client_error + model_completion) \<Rightarrow> 'p \<Rightarrow> verify_model_inputs \<Rightarrow>
   model_ref \<Rightarrow> (citation_verification_error + model_verdict) \<times> 'p model_completion_request list" where
  "panel_vote env ask params inputs model =
     (case execute_citation_verify env ask model params inputs of
        (Inl (CV_InvalidResponse m), requests) \<Rightarrow> (source_unavailable_model_vote env model params inputs, requests)
      | answer \<Rightarrow> answer)"

fun collect_results :: "('e + 'a) list \<Rightarrow> 'e + 'a list" where
  "collect_results [] = Inr []"
| "collect_results (Inl e # rs) = Inl e"
| "collect_results (Inr x # rs) = map_sum id ((#) x) (collect_results rs)"

definition usability_of :: "'p verify_env \<Rightarrow> string \<Rightarrow> fetched_source \<Rightarrow> body_usability" where
  "usability_of env source_url fetched =
     (let body = (if fs_text fetched = [] then None else Some (fs_text fetched));
          usability = classify_source_usability (ve_classes env) (\<lambda>u. Option.bind (ve_url_of env u) pu_host) (ve_from_str env) source_url
            (fs_content_type fetched) (fs_raw_html fetched) body
      in if fs_book_snippet fetched \<and> body \<noteq> None \<and> bu_reason usability = ShortBody
         then \<lparr>bu_usable = True, bu_reason = BU_Ok\<rparr> else usability)"

definition panel_results ::
  "'p verify_env \<Rightarrow> 'p model_client \<Rightarrow> 'p \<Rightarrow> verify_model_inputs \<Rightarrow> model_ref list \<Rightarrow>
   ((citation_verification_error + model_verdict) \<times> 'p model_completion_request list) list" where
  "panel_results env ask params inputs panel =
     map (\<lambda>(k, model). panel_vote env (ask k) params inputs model) (zip [0..<length panel] panel)"

definition judged ::
  "'p verify_env \<Rightarrow> string \<Rightarrow> source_provenance \<Rightarrow> nat \<Rightarrow> model_verdict list \<Rightarrow> verification_outcome" where
  "judged env source_text provenance use_site_ordinal votes =
     (let finding = assemble_citation_finding (ve_unicode env) source_text provenance votes use_site_ordinal
      in \<lparr>vo_finding = finding\<lparr>cf_source_excerpt := build_source_excerpt source_text (cf_passage finding)\<rparr>,
          vo_votes = build_model_votes (ve_unicode env) votes source_text\<rparr>)"

definition verify_citation_use_site ::
  "'p verify_env \<Rightarrow> http_client \<Rightarrow> 'p model_client \<Rightarrow> int \<Rightarrow> model_ref list \<Rightarrow> citation_verification_request \<Rightarrow>
   claim_context option \<Rightarrow> nat \<Rightarrow> 'p verify_options \<Rightarrow>
   (citation_verification_error + verification_outcome) \<times> 'p model_completion_request list" where
  "verify_citation_use_site env execute ask now_ms panel request context use_site_ordinal options =
     (if panel = [] then (Inl (CV_InvalidRequest ''model panel is empty''), [])
      else case (case op_prefetched options of Some source \<Rightarrow> Inr source | None \<Rightarrow> fetch_source env execute (cr_source_url request)) of
             Inl e \<Rightarrow> (Inl e, [])
           | Inr fetched \<Rightarrow>
               (let provenance = \<lparr>sp_url = cr_source_url request, sp_content_hash = ve_sha256_hex env (fs_text fetched),
                      sp_fetched_at = now_ms, sp_http_status = Some (fs_status fetched)\<rparr>;
                    usability = usability_of env (cr_source_url request) fetched
                in if \<not> bu_usable usability
                   then (Inr (unusable_source_outcome (bu_reason usability) provenance use_site_ordinal), [])
                   else let meta = (case op_metadata_sidecar options of
                                Some sidecar \<Rightarrow> Some sidecar
                              | None \<Rightarrow> if op_include_metadata options then fetch_metadata env execute (cr_source_url request) else None);
                            inputs = \<lparr>vi_claim = cr_claim request, vi_source_text = fs_text fetched, vi_source_url = cr_source_url request,
                              vi_metadata = meta, vi_context = context\<rparr>;
                            results = panel_results env ask (op_params options) inputs panel;
                            asked = concat (map snd results)
                        in case collect_results (map fst results) of
                             Inl e \<Rightarrow> (Inl e, asked)
                           | Inr verdicts \<Rightarrow>
                               if op_repair_turn options
                               then (let (votes, repairs) = run_repair_turn env ask (length panel) (op_params options) inputs (fs_text fetched) verdicts
                                     in (Inr (judged env (fs_text fetched) provenance use_site_ordinal votes), asked @ repairs))
                               else (Inr (judged env (fs_text fetched) provenance use_site_ordinal verdicts), asked)))"

subsection \<open>Votes\<close>

lemma located_vote:
  "locate_vote_quote uc vote t = Some (q, offset) \<Longrightarrow>
   (pv_quote (mv_parsed vote) = Some q \<or> repaired_quote vote = Some q) \<and> locate_quote uc q t = Some offset"
  by (auto simp: locate_vote_quote_def Let_def or_else_Some bind_eq_Some_conv)

lemma no_quote_simps [simp]:
  "cf_verdict (no_quote_finding v s a p n) = v" "cf_grounding_status (no_quote_finding v s a p n) = s"
  "cf_agreement (no_quote_finding v s a p n) = a" "cf_passage (no_quote_finding v s a p n) = None"
  "cf_source_unavailable_reason (no_quote_finding v s a p n) = derive_source_unavailable_reason v p"
  by (simp_all add: no_quote_finding_def)

text \<open>The verdict and the agreement of a finding are the vote of the panel, whatever locates.\<close>

lemma assembled_verdict:
  "n_class_vote (map (\<lambda>v. pv_verdict (mv_parsed v)) votes) = Some r \<Longrightarrow>
   cf_verdict (assemble_citation_finding uc t p votes n) = citation_verdict_of (ncv_winner r) \<and>
   cf_agreement (assemble_citation_finding uc t p votes n) = ncv_agreement r"
  by (auto simp: assemble_citation_finding_def Let_def split: option.splits)

lemma assembled_none:
  "n_class_vote (map (\<lambda>v. pv_verdict (mv_parsed v)) votes) = None \<Longrightarrow>
   assemble_citation_finding uc t p votes n = no_quote_finding CV_SourceUnavailable NotApplicable \<lparr>panel_size = 0, winner_votes = 0\<rparr> p n"
  by (simp add: assemble_citation_finding_def)

lemma winning_located:
  assumes "winning_passage uc t winners = Some (q, offset, Located)"
  shows "\<exists>vote \<in> set winners. locate_vote_quote uc vote t = Some (q, offset)"
proof -
  have "find_map (\<lambda>c. map_option (\<lambda>(quote, offset). (quote, offset, Located)) (locate_vote_quote uc c t)) winners = Some (q, offset, Located)"
    using assms by (auto simp: winning_passage_def or_else_Some dest!: find_map_Some)
  then show ?thesis by (auto dest!: find_map_Some)
qed

lemma assembled_located:
  assumes "cf_grounding_status (assemble_citation_finding uc t p votes n) = Located"
  shows "\<exists>r vote q offset. n_class_vote (map (\<lambda>v. pv_verdict (mv_parsed v)) votes) = Some r \<and> is_support_class (ncv_winner r) \<and>
    vote \<in> set votes \<and> pv_verdict (mv_parsed vote) = ncv_winner r \<and> locate_vote_quote uc vote t = Some (q, offset) \<and>
    cf_passage (assemble_citation_finding uc t p votes n) = Some \<lparr>lp_quote = q, lp_offset = offset\<rparr> \<and>
    cf_grounding (assemble_citation_finding uc t p votes n) = LocatedQuote q (sp_content_hash p) offset"
proof (cases "n_class_vote (map (\<lambda>v. pv_verdict (mv_parsed v)) votes)")
  case None
  then show ?thesis using assms by (simp add: assembled_none)
next
  case (Some r)
  let ?winners = "filter (\<lambda>c. pv_verdict (mv_parsed c) = ncv_winner r) votes"
  from Some assms obtain q offset where found: "is_support_class (ncv_winner r)"
      "winning_passage uc t ?winners = Some (q, offset, Located)"
    by (auto simp: assemble_citation_finding_def Let_def split: option.splits if_splits)
  obtain vote where "vote \<in> set ?winners" "locate_vote_quote uc vote t = Some (q, offset)"
    using winning_located [OF found(2)] by blast
  then show ?thesis
    using Some found by (intro exI [of _ r] exI [of _ vote] exI [of _ q] exI [of _ offset]) (simp add: assemble_citation_finding_def)
qed

lemma assembled_groundable:
  assumes "n_class_vote (map (\<lambda>v. pv_verdict (mv_parsed v)) votes) = Some r" "is_support_class (ncv_winner r)"
    "vote \<in> set votes" "pv_verdict (mv_parsed vote) = ncv_winner r" "locate_vote_quote uc vote t \<noteq> None"
  shows "is_groundable_support (assemble_citation_finding uc t p votes n)"
proof -
  let ?winners = "filter (\<lambda>c. pv_verdict (mv_parsed c) = ncv_winner r) votes"
  let ?find = "find_map (\<lambda>c. map_option (\<lambda>(quote, offset). (quote, offset, Located)) (locate_vote_quote uc c t)) ?winners"
  have "?find \<noteq> None" using assms(3,4,5) by (auto simp: find_map_None)
  then obtain q offset s where found: "?find = Some (q, offset, s)" by auto
  then have "s = Located" by (auto dest!: find_map_Some)
  then have "winning_passage uc t ?winners = Some (q, offset, Located)" using found by (simp add: winning_passage_def)
  then show ?thesis using assms(1,2)
    by (cases "ncv_winner r") (simp_all add: assemble_citation_finding_def is_groundable_support_def is_support_class_def)
qed

subsection \<open>The panel\<close>

lemma built_request:
  "build_verify_completion_request env model params inputs = Inr (request, invocation) \<Longrightarrow>
   mq_model request = model \<and> mi_model invocation = model"
  by (auto simp: build_verify_completion_request_def Let_def split: if_splits sum.splits)

lemma executed:
  "execute_citation_verify env ask model params inputs = (r, requests) \<Longrightarrow>
   length requests \<le> 1 \<and> (\<forall>q \<in> set requests. mq_model q = model) \<and>
   (\<forall>v. r = Inr v \<longrightarrow> mi_model (mv_invocation v) = model \<and> mv_repair v = None)"
  by (auto simp: execute_citation_verify_def dest!: built_request split: sum.splits)

lemma panel_voted:
  assumes "panel_vote env ask params inputs model = (r, requests)"
  shows "length requests \<le> 1 \<and> (\<forall>q \<in> set requests. mq_model q = model) \<and>
    (\<forall>v. r = Inr v \<longrightarrow> mi_model (mv_invocation v) = model \<and> mv_repair v = None)"
proof -
  obtain r' requests' where ex: "execute_citation_verify env ask model params inputs = (r', requests')" by fastforce
  have "(r, requests) = (case r' of Inl (CV_InvalidResponse m) \<Rightarrow> (source_unavailable_model_vote env model params inputs, requests') | _ \<Rightarrow> (r', requests'))"
    using assms by (auto simp: panel_vote_def ex split: sum.splits citation_verification_error.splits)
  then show ?thesis
    using executed [OF ex]
    by (auto simp: source_unavailable_model_vote_def dest!: built_request split: sum.splits citation_verification_error.splits prod.splits)
qed

lemma collected: "collect_results rs = Inr xs \<Longrightarrow> rs = map Inr xs"
proof (induction rs arbitrary: xs rule: collect_results.induct)
  case (3 x rs)
  then show ?case by (cases "collect_results rs") auto
qed auto

lemma panel_results_eq:
  "panel_results env ask params inputs panel = map (\<lambda>k. panel_vote env (ask k) params inputs (panel ! k)) [0..<length panel]"
  by (rule nth_equalityI) (simp_all add: panel_results_def)

text \<open>At most one question each, to the member the call is for: the models asked, in the order of the calls.\<close>

lemma one_question_each:
  "\<forall>x \<in> set xs. length (f x) \<le> 1 \<and> (\<forall>q \<in> set (f x). mq_model q = g x) \<Longrightarrow>
   subseq (map mq_model (concat (map f xs))) (map g xs)"
proof (induction xs)
  case (Cons x xs)
  then have "subseq (map mq_model (concat (map f xs))) (map g xs)" by simp
  moreover have "f x = [] \<or> (\<exists>q. f x = [q] \<and> mq_model q = g x)"
    using Cons.prems by (cases "f x") auto
  ultimately show ?case by auto
qed simp

lemma panel_requests:
  "subseq (map mq_model (concat (map snd (panel_results env ask params inputs panel)))) panel"
proof -
  have "length (snd (panel_vote env (ask k) params inputs (panel ! k))) \<le> 1 \<and>
      (\<forall>q \<in> set (snd (panel_vote env (ask k) params inputs (panel ! k))). mq_model q = panel ! k)" for k
    using panel_voted [of env "ask k" params inputs "panel ! k"] by (metis surjective_pairing)
  then have "subseq (map mq_model (concat (map (\<lambda>k. snd (panel_vote env (ask k) params inputs (panel ! k))) [0..<length panel])))
      (map (\<lambda>k. panel ! k) [0..<length panel])"
    by (intro one_question_each) blast
  then show ?thesis by (simp add: panel_results_eq comp_def map_nth)
qed

lemma panel_verdicts:
  assumes "collect_results (map fst (panel_results env ask params inputs panel)) = Inr verdicts"
  shows "map (\<lambda>v. mi_model (mv_invocation v)) verdicts = panel \<and> (\<forall>v \<in> set verdicts. mv_repair v = None)"
proof -
  have votes: "map (\<lambda>k. fst (panel_vote env (ask k) params inputs (panel ! k))) [0..<length panel] = map Inr verdicts"
    using collected [OF assms] by (simp add: panel_results_eq comp_def)
  then have len: "length verdicts = length panel" using map_eq_imp_length_eq by force
  have each: "mi_model (mv_invocation (verdicts ! k)) = panel ! k \<and> mv_repair (verdicts ! k) = None" if "k < length panel" for k
  proof -
    have "fst (panel_vote env (ask k) params inputs (panel ! k)) = Inr (verdicts ! k)"
      using arg_cong [OF votes, of "\<lambda>l. l ! k"] that len by simp
    then show ?thesis using panel_voted [of env "ask k" params inputs "panel ! k"] by (metis surjective_pairing)
  qed
  then show ?thesis using len by (auto simp: in_set_conv_nth intro: nth_equalityI)
qed

subsection \<open>Repairs\<close>

definition core :: "model_verdict \<Rightarrow> model_invocation \<times> parsed_verdict" where
  "core v = (mv_invocation v, mv_parsed v)"

lemma core_update: "map core (vs[i := (vs ! i)\<lparr>mv_repair := r\<rparr>]) = map core vs"
  by (cases "i < length vs") (simp_all add: map_update core_def list_update_same_conv list_update_beyond)

lemma repairs_keep_core:
  "map core (fold (\<lambda>(index, attempt, _) vs. case attempt of Inl e \<Rightarrow> vs | Inr a \<Rightarrow> vs[index := (vs ! index)\<lparr>mv_repair := Some a\<rparr>]) rs vs) =
   map core vs"
  by (induction rs arbitrary: vs) (auto simp: core_update split: sum.splits)

lemma repaired_core: "map core (fst (run_repair_turn env ask k params inputs t votes)) = map core votes"
  by (simp add: run_repair_turn_def Let_def repairs_keep_core)

lemma core_verdicts:
  assumes "map core vs = map core us"
  shows "map (\<lambda>v. pv_verdict (mv_parsed v)) vs = map (\<lambda>v. pv_verdict (mv_parsed v)) us"
  using arg_cong [OF assms, of "map (\<lambda>c. pv_verdict (snd c))"] by (simp add: core_def comp_def)

lemma pending_sound:
  "(i, m, q) \<in> set (pending_repairs uc t votes) \<Longrightarrow>
   i < length votes \<and> m = mi_model (mv_invocation (votes ! i)) \<and> pv_quote (mv_parsed (votes ! i)) = Some q \<and>
   is_support_class (pv_verdict (mv_parsed (votes ! i))) \<and> locate_quote uc q t = None"
  by (auto simp: pending_repairs_def map_filter_def set_zip split: if_splits option.splits)

lemma repair_executed:
  "length (snd (execute_citation_repair env ask model params inputs q)) \<le> 1 \<and>
   (\<forall>r \<in> set (snd (execute_citation_repair env ask model params inputs q)). mq_model r = model)"
  by (auto simp: execute_citation_repair_def Let_def split: sum.splits)

lemma repair_ran:
  "execute_citation_repair env ask model params inputs q = (Inr a, qs) \<Longrightarrow> mi_model (ra_invocation a) = model"
  by (auto simp: execute_citation_repair_def Let_def split: sum.splits)

lemma map_filter_subseq:
  "(\<And>x y. f x = Some y \<Longrightarrow> h y = g x) \<Longrightarrow> subseq (map h (List.map_filter f xs)) (map g xs)"
  by (induction xs) (auto simp: map_filter_simps split: option.split)

lemma pending_models:
  "subseq (map (\<lambda>(i, m, q). m) (pending_repairs uc t votes)) (map (\<lambda>v. mi_model (mv_invocation v)) votes)"
proof -
  have "subseq (map (\<lambda>(i, m, q). m) (pending_repairs uc t votes))
      (map (\<lambda>(i, v). mi_model (mv_invocation v)) (zip [0..<length votes] votes))"
    unfolding pending_repairs_def by (rule map_filter_subseq) (auto split: if_splits option.splits)
  also have "map (\<lambda>(i, v). mi_model (mv_invocation v)) (zip [0..<length votes] votes) =
      map (\<lambda>v. mi_model (mv_invocation v)) votes"
    by (rule nth_equalityI) simp_all
  finally show ?thesis .
qed

lemma repair_requests:
  "subseq (map mq_model (snd (run_repair_turn env ask k params inputs t votes))) (map (\<lambda>v. mi_model (mv_invocation v)) votes)"
proof -
  let ?pending = "pending_repairs (ve_unicode env) t votes"
  let ?call = "\<lambda>(j, index, model, failed_quote). snd (execute_citation_repair env (ask (k + j)) model params inputs failed_quote)"
  have eq: "snd (run_repair_turn env ask k params inputs t votes) = concat (map ?call (zip [0..<length ?pending] ?pending))"
    by (auto simp: run_repair_turn_def Let_def comp_def split_def intro!: arg_cong [of _ _ concat])
  have "subseq (map mq_model (concat (map ?call (zip [0..<length ?pending] ?pending))))
      (map (\<lambda>(j, i, m, q). m) (zip [0..<length ?pending] ?pending))"
    using repair_executed by (intro one_question_each) fastforce
  also have "map (\<lambda>(j, i, m, q). m) (zip [0..<length ?pending] ?pending) = map (\<lambda>(i, m, q). m) ?pending"
    by (rule nth_equalityI) (simp_all add: case_prod_unfold)
  finally show ?thesis unfolding eq using pending_models subseq_order.trans by blast
qed

text \<open>A repair is recorded in the vote of the member that was asked for it.\<close>

definition own_repair :: "model_verdict \<Rightarrow> bool" where
  "own_repair v \<longleftrightarrow>
     (case mv_repair v of None \<Rightarrow> True | Some a \<Rightarrow> mi_model (ra_invocation a) = mi_model (mv_invocation v))"

lemma repairs_own:
  assumes "list_all own_repair vs"
    and "\<forall>(i, attempt, _) \<in> set rs. \<forall>a. attempt = Inr a \<longrightarrow> mi_model (ra_invocation a) = mi_model (mv_invocation (vs ! i))"
  shows "list_all own_repair (fold (\<lambda>(index, attempt, _) vs. case attempt of Inl e \<Rightarrow> vs
    | Inr a \<Rightarrow> vs[index := (vs ! index)\<lparr>mv_repair := Some a\<rparr>]) rs vs)"
  using assms
proof (induction rs arbitrary: vs)
  case (Cons r rs)
  obtain i attempt qs where r: "r = (i, attempt, qs)" by (metis prod_cases3)
  show ?case
  proof (cases attempt)
    case (Inl e)
    then show ?thesis using Cons by (simp add: r)
  next
    case (Inr a)
    let ?vs = "vs[i := (vs ! i)\<lparr>mv_repair := Some a\<rparr>]"
    have same: "mv_invocation (?vs ! j) = mv_invocation (vs ! j)" for j
      by (cases "i < length vs") (simp_all add: nth_list_update list_update_beyond)
    have "list_all own_repair ?vs"
      unfolding list_all_length
    proof (intro allI impI)
      fix n assume "n < length ?vs"
      then show "own_repair (?vs ! n)"
        using Cons.prems by (cases "n = i") (simp_all add: list_all_length own_repair_def r Inr)
    qed
    then have "list_all own_repair (fold (\<lambda>(index, attempt, _) vs. case attempt of Inl e \<Rightarrow> vs
        | Inr a \<Rightarrow> vs[index := (vs ! index)\<lparr>mv_repair := Some a\<rparr>]) rs ?vs)"
      using Cons.prems(2) by (intro Cons.IH) (auto simp: same)
    then show ?thesis by (simp add: r Inr)
  qed
qed simp

lemma turn_own:
  assumes "list_all own_repair votes"
  shows "list_all own_repair (fst (run_repair_turn env ask k params inputs t votes))"
  unfolding run_repair_turn_def Let_def fst_conv
  using assms
  by (intro repairs_own) (auto dest!: set_zip_rightD pending_sound repair_ran)

subsection \<open>What a repair changes\<close>

lemma vote_recorded:
  "v \<in> set votes \<Longrightarrow> \<exists>vote \<in> set (build_model_votes uc votes t). vt_verdict vote = citation_verdict_of (pv_verdict (mv_parsed v)) \<and>
     vt_claimed_quote vote = pv_quote (mv_parsed v) \<and> vt_repaired_quote vote = repaired_quote v"
  unfolding build_model_votes_def set_map by (rule bexI [OF _ imageI]) simp_all

lemma core_vote:
  assumes "map core vs = map core us"
  shows "map (\<lambda>v. (vt_invocation v, vt_verdict v, vt_claimed_quote v)) (build_model_votes uc vs t) =
    map (\<lambda>v. (vt_invocation v, vt_verdict v, vt_claimed_quote v)) (build_model_votes uc us t)"
  using arg_cong [OF assms, of "map (\<lambda>c. (fst c, citation_verdict_of (pv_verdict (snd c)), pv_quote (snd c)))"]
  by (simp add: core_def comp_def build_model_votes_def)

lemma core_assembled:
  assumes "map core vs = map core us"
  shows "cf_verdict (assemble_citation_finding uc t p vs n) = cf_verdict (assemble_citation_finding uc t p us n) \<and>
    cf_agreement (assemble_citation_finding uc t p vs n) = cf_agreement (assemble_citation_finding uc t p us n)"
proof -
  note same = core_verdicts [OF assms]
  show ?thesis
  proof (cases "n_class_vote (map (\<lambda>v. pv_verdict (mv_parsed v)) us)")
    case None
    then show ?thesis using same by (simp add: assembled_none)
  next
    case (Some r)
    then show ?thesis using same assembled_verdict [of vs r] assembled_verdict [of us r] by simp
  qed
qed

text \<open>A vote that was not repaired locates with any repair if it located without.\<close>

lemma core_groundable:
  assumes same: "map core vs = map core us" and plain: "\<forall>v \<in> set us. mv_repair v = None"
    and ground: "is_groundable_support (assemble_citation_finding uc t p us n)"
  shows "is_groundable_support (assemble_citation_finding uc t p vs n)"
proof -
  from ground have "cf_grounding_status (assemble_citation_finding uc t p us n) = Located"
    by (simp add: is_groundable_support_def)
  from assembled_located [OF this] obtain r vote q offset where
    vote: "n_class_vote (map (\<lambda>v. pv_verdict (mv_parsed v)) us) = Some r" "is_support_class (ncv_winner r)" "vote \<in> set us"
      "pv_verdict (mv_parsed vote) = ncv_winner r" "locate_vote_quote uc vote t = Some (q, offset)" by blast
  have "core vote \<in> set (map core vs)" using vote(3) same by (metis imageI list.set_map)
  then obtain v where v: "v \<in> set vs" "core v = core vote" by auto
  then have parsed: "mv_parsed v = mv_parsed vote" by (simp add: core_def)
  have "locate_vote_quote uc v t \<noteq> None"
    using vote(3,5) plain located_vote [OF vote(5)] unfolding locate_vote_quote_def Let_def parsed
    by (auto simp: repaired_quote_def or_else_Some)
  then show ?thesis
    using assembled_groundable [of vs r v uc t p n] vote(1,2,4) v(1) parsed core_verdicts [OF same] by simp
qed

lemma judged_simps [simp]:
  "vo_votes (judged env t p n votes) = build_model_votes (ve_unicode env) votes t"
  "cf_verdict (vo_finding (judged env t p n votes)) = cf_verdict (assemble_citation_finding (ve_unicode env) t p votes n)"
  "cf_agreement (vo_finding (judged env t p n votes)) = cf_agreement (assemble_citation_finding (ve_unicode env) t p votes n)"
  "cf_passage (vo_finding (judged env t p n votes)) = cf_passage (assemble_citation_finding (ve_unicode env) t p votes n)"
  "cf_grounding (vo_finding (judged env t p n votes)) = cf_grounding (assemble_citation_finding (ve_unicode env) t p votes n)"
  "cf_grounding_status (vo_finding (judged env t p n votes)) = cf_grounding_status (assemble_citation_finding (ve_unicode env) t p votes n)"
  by (simp_all add: judged_def Let_def)

lemma judged_groundable:
  "is_groundable_support (vo_finding (judged env t p n votes)) \<longleftrightarrow> is_groundable_support (assemble_citation_finding (ve_unicode env) t p votes n)"
  by (simp add: is_groundable_support_def)

subsection \<open>The run, case by case\<close>

definition fetched_for :: "'p verify_env \<Rightarrow> http_client \<Rightarrow> citation_verification_request \<Rightarrow> 'p verify_options \<Rightarrow>
    citation_verification_error + fetched_source" where
  "fetched_for env execute request options =
     (case op_prefetched options of Some source \<Rightarrow> Inr source | None \<Rightarrow> fetch_source env execute (cr_source_url request))"

definition provenance_of :: "'p verify_env \<Rightarrow> int \<Rightarrow> citation_verification_request \<Rightarrow> fetched_source \<Rightarrow> source_provenance" where
  "provenance_of env now_ms request fetched =
     \<lparr>sp_url = cr_source_url request, sp_content_hash = ve_sha256_hex env (fs_text fetched), sp_fetched_at = now_ms,
      sp_http_status = Some (fs_status fetched)\<rparr>"

definition inputs_for :: "'p verify_env \<Rightarrow> http_client \<Rightarrow> citation_verification_request \<Rightarrow> claim_context option \<Rightarrow> 'p verify_options \<Rightarrow>
    fetched_source \<Rightarrow> verify_model_inputs" where
  "inputs_for env execute request context options fetched =
     \<lparr>vi_claim = cr_claim request, vi_source_text = fs_text fetched, vi_source_url = cr_source_url request,
      vi_metadata = (case op_metadata_sidecar options of Some sidecar \<Rightarrow> Some sidecar
        | None \<Rightarrow> if op_include_metadata options then fetch_metadata env execute (cr_source_url request) else None),
      vi_context = context\<rparr>"

lemma verify_unfold:
  "verify_citation_use_site env execute ask now_ms panel request context n options =
     (if panel = [] then (Inl (CV_InvalidRequest ''model panel is empty''), [])
      else case fetched_for env execute request options of
             Inl e \<Rightarrow> (Inl e, [])
           | Inr fetched \<Rightarrow>
               if \<not> bu_usable (usability_of env (cr_source_url request) fetched)
               then (Inr (unusable_source_outcome (bu_reason (usability_of env (cr_source_url request) fetched))
                       (provenance_of env now_ms request fetched) n), [])
               else let inputs = inputs_for env execute request context options fetched;
                        results = panel_results env ask (op_params options) inputs panel; asked = concat (map snd results)
                    in case collect_results (map fst results) of
                         Inl e \<Rightarrow> (Inl e, asked)
                       | Inr verdicts \<Rightarrow>
                           if op_repair_turn options
                           then let turn = run_repair_turn env ask (length panel) (op_params options) inputs (fs_text fetched) verdicts
                                in (Inr (judged env (fs_text fetched) (provenance_of env now_ms request fetched) n (fst turn)), asked @ snd turn)
                           else (Inr (judged env (fs_text fetched) (provenance_of env now_ms request fetched) n verdicts), asked))"
  unfolding verify_citation_use_site_def fetched_for_def provenance_of_def inputs_for_def Let_def split_def by (rule refl)

lemma turn_options [simp]:
  "fetched_for env execute request (options\<lparr>op_repair_turn := b\<rparr>) = fetched_for env execute request options"
  "inputs_for env execute request context (options\<lparr>op_repair_turn := b\<rparr>) fetched = inputs_for env execute request context options fetched"
  by (simp_all add: fetched_for_def inputs_for_def)

text \<open>A run fails before any call, stops at the body, fails in the panel, or judges.\<close>

lemma run_cases:
  assumes "verify_citation_use_site env execute ask now_ms panel request context n options = (result, asked)"
  obtains
    (early) e where "result = Inl e" "asked = []"
  | (body) fetched where "panel \<noteq> []" "fetched_for env execute request options = Inr fetched"
      "\<not> bu_usable (usability_of env (cr_source_url request) fetched)" "asked = []"
      "result = Inr (unusable_source_outcome (bu_reason (usability_of env (cr_source_url request) fetched))
         (provenance_of env now_ms request fetched) n)"
  | (failed) fetched e inputs where "fetched_for env execute request options = Inr fetched"
      "bu_usable (usability_of env (cr_source_url request) fetched)" "result = Inl e" "asked = concat (map snd (panel_results env ask (op_params options) inputs panel))"
  | (judged) fetched inputs verdicts votes repairs where
      "fetched_for env execute request options = Inr fetched" "bu_usable (usability_of env (cr_source_url request) fetched)"
      "collect_results (map fst (panel_results env ask (op_params options) inputs panel)) = Inr verdicts"
      "(votes, repairs) = (if op_repair_turn options
         then run_repair_turn env ask (length panel) (op_params options) inputs (fs_text fetched) verdicts else (verdicts, []))"
      "result = Inr (judged env (fs_text fetched) (provenance_of env now_ms request fetched) n votes)"
      "asked = concat (map snd (panel_results env ask (op_params options) inputs panel)) @ repairs"
proof (cases "panel = []")
  case True
  then show ?thesis using assms by (intro early) (auto simp: verify_unfold)
next
  case nonempty: False
  show ?thesis
  proof (cases "fetched_for env execute request options")
    case (Inl e)
    then show ?thesis using assms nonempty by (intro early [of e]) (auto simp: verify_unfold)
  next
    case fetched: (Inr fetched)
    show ?thesis
    proof (cases "bu_usable (usability_of env (cr_source_url request) fetched)")
      case False
      then show ?thesis using assms nonempty fetched by (intro body [of fetched]) (auto simp: verify_unfold)
    next
      case usable: True
      let ?inputs = "inputs_for env execute request context options fetched"
      show ?thesis
      proof (cases "collect_results (map fst (panel_results env ask (op_params options) ?inputs panel))")
        case (Inl e)
        then show ?thesis using assms nonempty usable fetched
          by (intro failed [of fetched e ?inputs]) (simp_all add: verify_unfold Let_def)
      next
        case (Inr verdicts)
        let ?turn = "run_repair_turn env ask (length panel) (op_params options) ?inputs (fs_text fetched) verdicts"
        show ?thesis
          using assms nonempty usable fetched Inr
            judged [of fetched ?inputs verdicts "if op_repair_turn options then fst ?turn else verdicts" "if op_repair_turn options then snd ?turn else []"]
          by (cases "op_repair_turn options") (simp_all add: verify_unfold Let_def)
      qed
    qed
  qed
qed

subsection \<open>Properties\<close>

text \<open>
  C3. A groundable support is quoted: when a run ends with a finding an autonomous path may act on, a model
  of the panel whose vote is the verdict of the finding claimed the quote (or gave it in its repair), that
  quote is not blank, it stands in the text that was fetched (verbatim, verbatim up to the folding, or
  elided), at the offset the finding shows, and the grounding names the hash of that text.
\<close>

theorem groundable_support_is_quoted:
  assumes "verify_citation_use_site env execute ask now_ms panel request context n options = (Inr out, asked)"
    "is_groundable_support (vo_finding out)"
  shows "\<exists>fetched vote q offset. fetched_for env execute request options = Inr fetched \<and>
    vote \<in> set (vo_votes out) \<and> vt_verdict vote = cf_verdict (vo_finding out) \<and>
    (vt_claimed_quote vote = Some q \<or> vt_repaired_quote vote = Some q) \<and>
    cf_passage (vo_finding out) = Some \<lparr>lp_quote = q, lp_offset = offset\<rparr> \<and>
    cf_grounding (vo_finding out) = LocatedQuote q (ve_sha256_hex env (fs_text fetched)) offset \<and>
    str_trim q \<noteq> [] \<and> offset \<le> length (fs_text fetched) \<and>
    (prefix (str_trim q) (drop offset (fs_text fetched)) \<or>
     verbatim (ve_unicode env) (str_trim q) (fs_text fetched) offset \<or>
     elided (ve_unicode env) (str_trim q) (fs_text fetched) offset)"
  using assms(1)
proof (cases rule: run_cases)
  case (body fetched)
  then show ?thesis using assms(2)
    by (auto simp: unusable_source_outcome_def Let_def is_groundable_support_def split: if_splits)
next
  case (judged fetched inputs verdicts votes repairs)
  let ?t = "fs_text fetched" and ?p = "provenance_of env now_ms request fetched"
  have out: "out = Citation_Verify.judged env ?t ?p n votes" using judged(5) by simp
  then have "cf_grounding_status (assemble_citation_finding (ve_unicode env) ?t ?p votes n) = Located"
    using assms(2) by (simp add: is_groundable_support_def)
  from assembled_located [OF this] obtain r v q offset where
    found: "n_class_vote (map (\<lambda>v. pv_verdict (mv_parsed v)) votes) = Some r" "v \<in> set votes" "pv_verdict (mv_parsed v) = ncv_winner r"
      "locate_vote_quote (ve_unicode env) v ?t = Some (q, offset)"
      "cf_passage (vo_finding out) = Some \<lparr>lp_quote = q, lp_offset = offset\<rparr>"
      "cf_grounding (vo_finding out) = LocatedQuote q (sp_content_hash ?p) offset" by (auto simp: out)
  obtain vote where vote: "vote \<in> set (vo_votes out)" "vt_verdict vote = citation_verdict_of (ncv_winner r)"
      "vt_claimed_quote vote = pv_quote (mv_parsed v)" "vt_repaired_quote vote = repaired_quote v"
    using vote_recorded [OF found(2), of "ve_unicode env" ?t] found(3) by (auto simp: out)
  have "cf_verdict (vo_finding out) = citation_verdict_of (ncv_winner r)" using assembled_verdict [OF found(1)] by (simp add: out)
  then show ?thesis
    using judged(1) vote found(5,6) located_vote [OF found(4)] located_quote_present [of q ?t "ve_unicode env" offset]
    by (intro exI [of _ fetched] exI [of _ vote] exI [of _ q] exI [of _ offset]) (auto simp: provenance_of_def)
qed simp_all

text \<open>
  C24. The repair turn fixes transcription only: with and without it, a run fails with the same error or ends
  with the same verdict, the same agreement and the same votes with the quotes they claimed; it asks
  the same questions first; and a finding that is groundable without it is groundable with it.
\<close>

theorem repair_never_changes_a_verdict:
  assumes "verify_citation_use_site env execute ask now_ms panel request context n (options\<lparr>op_repair_turn := True\<rparr>) = (r, asked)"
    "verify_citation_use_site env execute ask now_ms panel request context n (options\<lparr>op_repair_turn := False\<rparr>) = (r', asked')"
  shows "prefix asked' asked \<and>
    (case (r, r') of
       (Inr out, Inr out') \<Rightarrow>
         cf_verdict (vo_finding out) = cf_verdict (vo_finding out') \<and> cf_agreement (vo_finding out) = cf_agreement (vo_finding out') \<and>
         map (\<lambda>v. (vt_invocation v, vt_verdict v, vt_claimed_quote v)) (vo_votes out) =
         map (\<lambda>v. (vt_invocation v, vt_verdict v, vt_claimed_quote v)) (vo_votes out') \<and>
         (is_groundable_support (vo_finding out') \<longrightarrow> is_groundable_support (vo_finding out))
     | (Inl e, Inl e') \<Rightarrow> e = e'
     | _ \<Rightarrow> False)"
proof (cases "panel = []")
  case True
  then show ?thesis using assms by (auto simp: verify_unfold)
next
  case nonempty: False
  show ?thesis
  proof (cases "fetched_for env execute request options")
    case (Inl e)
    then show ?thesis using assms nonempty by (auto simp: verify_unfold)
  next
    case fetched: (Inr fetched)
    show ?thesis
    proof (cases "bu_usable (usability_of env (cr_source_url request) fetched)")
      case False
      then show ?thesis using assms nonempty fetched by (auto simp: verify_unfold)
    next
      case usable: True
      let ?inputs = "inputs_for env execute request context options fetched"
      let ?results = "panel_results env ask (op_params options) ?inputs panel"
      show ?thesis
      proof (cases "collect_results (map fst ?results)")
        case (Inl e)
        then show ?thesis using assms nonempty usable fetched by (auto simp: verify_unfold Let_def)
      next
        case (Inr verdicts)
        let ?turn = "run_repair_turn env ask (length panel) (op_params options) ?inputs (fs_text fetched) verdicts"
        let ?judged = "judged env (fs_text fetched) (provenance_of env now_ms request fetched) n"
        have "r = Inr (?judged (fst ?turn))" "asked = concat (map snd ?results) @ snd ?turn"
          "r' = Inr (?judged verdicts)" "asked' = concat (map snd ?results)"
          using assms nonempty usable fetched Inr by (simp_all add: verify_unfold Let_def)
        moreover have core: "map core (fst ?turn) = map core verdicts" by (rule repaired_core)
        moreover have "is_groundable_support (vo_finding (?judged (fst ?turn)))" if "is_groundable_support (vo_finding (?judged verdicts))"
          using that core_groundable [OF core] panel_verdicts [OF Inr] by (simp add: judged_groundable)
        ultimately show ?thesis
          using core_assembled [OF core, of "ve_unicode env" "fs_text fetched" "provenance_of env now_ms request fetched" n]
            core_vote [OF core, of "ve_unicode env" "fs_text fetched"] by simp
      qed
    qed
  qed
qed

text \<open>
  C25. Models are only asked about a usable body, and no model is lost: the questions of a run are those of
  the vote, at most one for each member of the panel and in its order, followed by those of the repair
  turn, again at most one for each member and in its order; when the fetched body is unusable there is
  none; and a run that ends well either stopped at the body, with no vote, or has one vote of every member
  of the panel, in the order of the panel, failed calls included, with a repair recorded only in the vote
  of the member that gave it.
\<close>

theorem panel_is_preserved:
  assumes "verify_citation_use_site env execute ask now_ms panel request context n options = (r, asked)"
  shows "(\<exists>vote repair. asked = vote @ repair \<and> subseq (map mq_model vote) panel \<and> subseq (map mq_model repair) panel) \<and>
    (\<forall>fetched. fetched_for env execute request options = Inr fetched \<and>
       \<not> bu_usable (usability_of env (cr_source_url request) fetched) \<longrightarrow> asked = []) \<and>
    (\<forall>out. r = Inr out \<longrightarrow>
       vo_votes out = [] \<and> cf_verdict (vo_finding out) = CV_SourceUnavailable \<and> asked = [] \<or>
       map (\<lambda>v. mi_model (vt_invocation v)) (vo_votes out) = panel \<and>
       (\<forall>v \<in> set (vo_votes out). case vt_repair_invocation v of None \<Rightarrow> True
          | Some repair \<Rightarrow> mi_model repair = mi_model (vt_invocation v)))"
  using assms
proof (cases rule: run_cases)
  case (body fetched)
  then show ?thesis by (simp add: unusable_source_outcome_def Let_def)
next
  case (failed fetched e inputs)
  then show ?thesis using panel_requests [of env ask "op_params options" inputs panel]
    by (auto intro: exI [of _ "[]"])
next
  case (judged fetched inputs verdicts votes repairs)
  note members = panel_verdicts [OF judged(3)]
  then have own: "list_all own_repair verdicts" by (simp add: own_repair_def list_all_iff)
  have turned: "map core votes = map core verdicts \<and> subseq (map mq_model repairs) panel \<and> list_all own_repair votes"
  proof (cases "op_repair_turn options")
    case True
    then have "(votes, repairs) = run_repair_turn env ask (length panel) (op_params options) inputs (fs_text fetched) verdicts"
      using judged(4) by simp
    then show ?thesis
      using repair_requests [of env ask "length panel" "op_params options" inputs "fs_text fetched" verdicts]
        repaired_core [of env ask "length panel" "op_params options" inputs "fs_text fetched" verdicts]
        turn_own [OF own, of env ask "length panel" "op_params options" inputs "fs_text fetched"] members
      by (metis fst_conv snd_conv)
  next
    case False
    then show ?thesis using judged(4) own by simp
  qed
  have "map (\<lambda>v. mi_model (mv_invocation v)) votes = panel"
    using arg_cong [OF conjunct1 [OF turned], of "map (\<lambda>c. mi_model (fst c))"] members by (simp add: core_def comp_def)
  then have "map (\<lambda>v. mi_model (vt_invocation v)) (vo_votes (Citation_Verify.judged env (fs_text fetched) (provenance_of env now_ms request fetched) n votes)) = panel"
    by (simp add: build_model_votes_def comp_def)
  moreover have "\<forall>v \<in> set (vo_votes (Citation_Verify.judged env (fs_text fetched) (provenance_of env now_ms request fetched) n votes)).
      case vt_repair_invocation v of None \<Rightarrow> True | Some repair \<Rightarrow> mi_model repair = mi_model (vt_invocation v)"
    using turned by (auto simp: build_model_votes_def own_repair_def list_all_iff split: option.splits)
  moreover have "\<exists>vote repair. asked = vote @ repair \<and> subseq (map mq_model vote) panel \<and> subseq (map mq_model repair) panel"
    unfolding judged(6) using turned panel_requests [of env ask "op_params options" inputs panel] by blast
  ultimately show ?thesis
    using judged(1,2,5) by simp
qed auto

subsection \<open>A run\<close>

text \<open>The one member of the panel supports the claim, with a quote of a short scan whose space it doubled.\<close>

definition example_env :: "unit verify_env" where
  "example_env =
     \<lparr>ve_classes = ascii_classes, ve_unicode = ascii_tables,
      ve_url_of = (\<lambda>u. Some \<lparr>pu_scheme = ''https'', pu_host = Some ''a.b'', pu_path = u, pu_query = []\<rparr>), ve_debug = (\<lambda>s. s),
      ve_from_str = (\<lambda>s. if s = ''{}'' then Some (JObject [(''quote'', JString ''a  war''), (''verdict'', JString ''supported'')]) else None),
      ve_sha256_hex = (\<lambda>s. ''h''), ve_to_vec = (\<lambda>m. Inr ''b''), ve_fingerprint = (\<lambda>p. []), ve_system = ''S'', ve_repair_system = ''R''\<rparr>"

definition example_source :: fetched_source where
  "example_source = \<lparr>fs_text = ''a war'', fs_status = 200, fs_content_type = [], fs_raw_html = None, fs_book_snippet = True\<rparr>"

definition example_options :: "unit verify_options" where
  "example_options = \<lparr>op_include_metadata = False, op_concurrency = 3, op_params = (), op_repair_turn = True,
     op_prefetched = Some example_source, op_metadata_sidecar = None\<rparr>"

definition example_request :: citation_verification_request where
  "example_request = \<lparr>cr_wiki_id = ''w'', cr_rev_id = 1, cr_title = ''T'', cr_claim = ''War'', cr_source_url = ''u''\<rparr>"

definition example_panel :: "model_ref list" where
  "example_panel = [\<lparr>mr_provider = ''p'', mr_model = ''m'', mr_version = ''1''\<rparr>]"

definition example_ask :: "unit model_client" where
  "example_ask k q = (if k = 0 then Inr \<lparr>mc_text = ''{}'', mc_served_model = None\<rparr> else Inl (ModelTransport ''x''))"

definition no_network :: http_client where "no_network q = Inl (HttpTransport ''x'')"

definition example_run :: "bool \<Rightarrow> (citation_verification_error + verification_outcome) \<times> unit model_completion_request list" where
  "example_run b = verify_citation_use_site example_env no_network example_ask 0 example_panel example_request None 0
       (example_options\<lparr>op_repair_turn := b\<rparr>)"

lemma example_usable: "bu_usable (usability_of example_env ''u'' example_source)"
  by code_simp


definition example_results where
  "example_results = panel_results example_env example_ask ()
     (inputs_for example_env no_network example_request None example_options example_source) example_panel"

definition example_verdicts :: "model_verdict list" where
  "example_verdicts = (case collect_results (map fst example_results) of Inr vs \<Rightarrow> vs | Inl _ \<Rightarrow> [])"

definition example_votes :: "bool \<Rightarrow> model_verdict list" where
  "example_votes b =
     (if b then fst (run_repair_turn example_env example_ask 1 () 
          (inputs_for example_env no_network example_request None example_options example_source) ''a war'' example_verdicts)
      else example_verdicts)"

definition example_outcome :: "bool \<Rightarrow> verification_outcome" where
  "example_outcome b = judged example_env ''a war'' (provenance_of example_env 0 example_request example_source) 0 (example_votes b)"

lemma example_collected: "collect_results (map fst example_results) = Inr example_verdicts"
proof -
  have "\<not> isl (collect_results (map fst example_results))" by code_simp
  then show ?thesis by (auto simp: example_verdicts_def split: sum.splits)
qed

lemma example_fetched: "fetched_for example_env no_network example_request example_options = Inr example_source"
  by (simp add: fetched_for_def example_options_def)

lemma example_run_eq: "fst (example_run b) = Inr (example_outcome b)"
proof -
  have usable: "bu_usable (usability_of example_env (cr_source_url example_request) example_source)"
    using example_usable by (simp add: example_request_def)
  have "op_params example_options = ()" "fs_text example_source = ''a war''" "length example_panel = 1" "example_panel \<noteq> []"
    by (simp_all add: example_options_def example_source_def example_panel_def)
  then show ?thesis
    using usable example_collected
    by (simp add: example_run_def verify_unfold example_fetched Let_def example_outcome_def example_votes_def
        example_results_def [symmetric])
qed

lemma example_grounded: "is_groundable_support (vo_finding (example_outcome b))"
proof -
  have "is_groundable_support (vo_finding (example_outcome True))" by code_simp
  moreover have "is_groundable_support (vo_finding (example_outcome False))" by code_simp
  ultimately show ?thesis by (cases b) simp_all
qed

lemma example_runs:
  "verify_citation_use_site example_env no_network example_ask 0 example_panel example_request None 0
     (example_options\<lparr>op_repair_turn := b\<rparr>) = (Inr (example_outcome b), snd (example_run b))"
  using example_run_eq [of b] by (metis example_run_def prod.collapse)

theorem groundable_support_is_quoted_witness:
  "\<exists>q offset. cf_passage (vo_finding (example_outcome True)) = Some \<lparr>lp_quote = q, lp_offset = offset\<rparr> \<and>
     str_trim q \<noteq> [] \<and> offset \<le> length ''a war''"
proof -
  have "fetched_for example_env no_network example_request (example_options\<lparr>op_repair_turn := True\<rparr>) = Inr example_source"
    by (simp add: example_fetched)
  then show ?thesis
    using groundable_support_is_quoted [OF example_runs [of True] example_grounded] by (auto simp: example_source_def)
qed

theorem repair_never_changes_a_verdict_witness:
  "prefix (snd (example_run False)) (snd (example_run True)) \<and>
   cf_verdict (vo_finding (example_outcome True)) = cf_verdict (vo_finding (example_outcome False))"
  using repair_never_changes_a_verdict [OF example_runs [of True] example_runs [of False]] by simp

theorem panel_is_preserved_witness:
  "(\<exists>vote repair. snd (example_run True) = vote @ repair \<and> subseq (map mq_model vote) example_panel \<and>
      subseq (map mq_model repair) example_panel) \<and>
   map (\<lambda>v. mi_model (vt_invocation v)) (vo_votes (example_outcome True)) = example_panel"
proof -
  have "cf_verdict (vo_finding (example_outcome True)) \<noteq> CV_SourceUnavailable"
    using example_grounded [of True] by (auto simp: is_groundable_support_def)
  then show ?thesis
    using panel_is_preserved [OF example_runs [of True]] by blast
qed

end
