(* ===== verification/Diff_Types.thy ===== *)
theory Diff_Types
  imports Text_Tools Platform_Types
begin

section \<open>Structured diffs\<close>

text \<open>
  \<open>crates/sp42-platform/src/diff_engine.rs\<close>: the types of a structured diff, its segments with their line
  numbers and statistics, and the texts it is reconstructed to. The changes come from the \<open>similar\<close>
  crate; a list of them is a parameter of every function here.
\<close>

datatype diff_mode = LinesMode | CharsMode

record diff_line_span =
  dl_start_line :: nat
  dl_line_count :: nat

datatype diff_segment_kind = SegEqual | SegInsert | SegDelete

record inline_span =
  is_kind :: diff_segment_kind
  is_text :: string

record diff_segment =
  dg_kind :: diff_segment_kind
  dg_text :: string
  dg_before :: "diff_line_span option"
  dg_after :: "diff_line_span option"
  dg_inline_highlights :: "inline_span list"

datatype diff_hunk_kind = Modification | Addition | Removal

datatype diff_move_role = MoveSource | MoveTarget

datatype diff_marker = MarkReferences | MarkCategory | MarkInterwiki | MarkTemplate | MarkMedia | MarkHeading

record diff_section_context =
  sx_before :: "string option"
  sx_after :: "string option"

record diff_hunk =
  dh_kind :: diff_hunk_kind
  dh_before :: "diff_line_span option"
  dh_after :: "diff_line_span option"
  dh_section :: diff_section_context
  dh_markers :: "diff_marker list"
  dh_notes :: "string list"
  dh_move_group :: "nat option"
  dh_move_role :: "diff_move_role option"
  dh_segments :: "diff_segment list"

record diff_stats =
  dt_equal_segments :: nat
  dt_insert_segments :: nat
  dt_delete_segments :: nat
  dt_equal_char_count :: nat
  dt_inserted_char_count :: nat
  dt_deleted_char_count :: nat

record structured_diff =
  sd_mode :: diff_mode
  sd_segments :: "diff_segment list"
  sd_hunks :: "diff_hunk list"
  sd_stats :: diff_stats

definition has_changes :: "diff_stats \<Rightarrow> bool" where
  "has_changes stats \<longleftrightarrow> dt_insert_segments stats > 0 \<or> dt_delete_segments stats > 0"

text \<open>A change of the \<open>similar\<close> crate: its tag and its text.\<close>

type_synonym change = "diff_segment_kind \<times> string"

subsection \<open>Segments\<close>

definition line_span :: "nat \<Rightarrow> nat \<Rightarrow> diff_line_span option" where
  "line_span start n = (if n > 0 then Some \<lparr>dl_start_line = start, dl_line_count = n\<rparr> else None)"

definition count_text_lines :: "string \<Rightarrow> nat" where
  "count_text_lines text =
     (if text = [] then 0
      else let newline_count = count_list text (CHR 0x0A)
           in if suffix [CHR 0x0A] text then newline_count else newline_count + 1)"

definition empty_stats :: diff_stats where
  "empty_stats =
     \<lparr>dt_equal_segments = 0, dt_insert_segments = 0, dt_delete_segments = 0,
      dt_equal_char_count = 0, dt_inserted_char_count = 0, dt_deleted_char_count = 0\<rparr>"

definition count_change :: "change \<Rightarrow> diff_stats \<Rightarrow> diff_stats" where
  "count_change c stats =
     (let n = char_count (snd c)
      in case fst c of
           SegEqual \<Rightarrow> stats\<lparr>dt_equal_segments := dt_equal_segments stats + 1,
                          dt_equal_char_count := dt_equal_char_count stats + n\<rparr>
         | SegInsert \<Rightarrow> stats\<lparr>dt_insert_segments := dt_insert_segments stats + 1,
                          dt_inserted_char_count := dt_inserted_char_count stats + n\<rparr>
         | SegDelete \<Rightarrow> stats\<lparr>dt_delete_segments := dt_delete_segments stats + 1,
                          dt_deleted_char_count := dt_deleted_char_count stats + n\<rparr>)"

definition segment_lines :: "diff_mode \<Rightarrow> string \<Rightarrow> nat" where
  "segment_lines mode text = (case mode of LinesMode \<Rightarrow> count_text_lines text | CharsMode \<Rightarrow> 0)"

fun number_segments :: "diff_mode \<Rightarrow> nat \<Rightarrow> nat \<Rightarrow> change list \<Rightarrow> diff_segment list" where
  "number_segments mode before_line after_line [] = []"
| "number_segments mode before_line after_line ((kind, text) # cs) =
     (let n = segment_lines mode text;
          (before, after) =
            (case mode of
               CharsMode \<Rightarrow> (None, None)
             | LinesMode \<Rightarrow>
                 (case kind of
                    SegEqual \<Rightarrow> (line_span before_line n, line_span after_line n)
                  | SegDelete \<Rightarrow> (line_span before_line n, None)
                  | SegInsert \<Rightarrow> (None, line_span after_line n)))
      in \<lparr>dg_kind = kind, dg_text = text, dg_before = before, dg_after = after, dg_inline_highlights = []\<rparr> #
         number_segments mode (if kind = SegInsert then before_line else before_line + n)
           (if kind = SegDelete then after_line else after_line + n) cs)"

definition collect_segments :: "diff_mode \<Rightarrow> change list \<Rightarrow> structured_diff" where
  "collect_segments mode changes =
     \<lparr>sd_mode = mode, sd_segments = number_segments mode 1 1 changes, sd_hunks = [],
      sd_stats = fold count_change changes empty_stats\<rparr>"

definition normalize_reconstructed_text :: "diff_mode \<Rightarrow> string \<Rightarrow> string" where
  "normalize_reconstructed_text mode text =
     (case mode of LinesMode \<Rightarrow> text | CharsMode \<Rightarrow> str_replace [CHR 0x0A] [] text)"

definition before_text :: "structured_diff \<Rightarrow> string" where
  "before_text d =
     normalize_reconstructed_text (sd_mode d)
       (concat (map dg_text (filter (\<lambda>g. dg_kind g \<noteq> SegInsert) (sd_segments d))))"

definition after_text :: "structured_diff \<Rightarrow> string" where
  "after_text d =
     normalize_reconstructed_text (sd_mode d)
       (concat (map dg_text (filter (\<lambda>g. dg_kind g \<noteq> SegDelete) (sd_segments d))))"

definition diff_chars :: "(string \<Rightarrow> string \<Rightarrow> change list) \<Rightarrow> string \<Rightarrow> string \<Rightarrow> structured_diff" where
  "diff_chars char_diff before after = collect_segments CharsMode (char_diff before after)"

subsection \<open>What a list of changes says\<close>

text \<open>
  The documented behaviour of the crate: the changes other than insertions are the old text, those
  other than deletions the new one.
\<close>

definition old_side :: "change list \<Rightarrow> string" where
  "old_side cs = concat (map snd (filter (\<lambda>c. fst c \<noteq> SegInsert) cs))"

definition new_side :: "change list \<Rightarrow> string" where
  "new_side cs = concat (map snd (filter (\<lambda>c. fst c \<noteq> SegDelete) cs))"

definition diffs_texts :: "(string \<Rightarrow> string \<Rightarrow> change list) \<Rightarrow> bool" where
  "diffs_texts differ \<longleftrightarrow> (\<forall>a b. old_side (differ a b) = a \<and> new_side (differ a b) = b)"

lemma number_segments_text:
  "map (\<lambda>g. (dg_kind g, dg_text g)) (number_segments mode m n cs) = cs"
  by (induction mode m n cs rule: number_segments.induct)
    (auto simp: Let_def split: diff_mode.split diff_segment_kind.split)

lemma number_segments_filter:
  "map dg_text (filter (\<lambda>g. P (dg_kind g)) (number_segments mode m n cs)) = map snd (filter (\<lambda>c. P (fst c)) cs)"
proof -
  have "map snd (filter (\<lambda>c. P (fst c)) cs) =
      map snd (filter (\<lambda>c. P (fst c)) (map (\<lambda>g. (dg_kind g, dg_text g)) (number_segments mode m n cs)))"
    by (simp only: number_segments_text)
  then show ?thesis by (simp add: filter_map comp_def)
qed

text \<open>Where a segment of a line diff stands: after the lines of the segments before it on that side.\<close>

definition line_after :: "diff_segment_kind \<Rightarrow> change list \<Rightarrow> nat" where
  "line_after other cs = Suc (sum_list (map (count_text_lines \<circ> snd) (filter (\<lambda>c. fst c \<noteq> other) cs)))"

lemma number_segments_nth:
  assumes "i < length cs"
  shows "number_segments LinesMode m n cs ! i =
    \<lparr>dg_kind = fst (cs ! i), dg_text = snd (cs ! i),
     dg_before = (if fst (cs ! i) = SegInsert then None
                  else line_span (m + (line_after SegInsert (take i cs) - 1)) (count_text_lines (snd (cs ! i)))),
     dg_after = (if fst (cs ! i) = SegDelete then None
                 else line_span (n + (line_after SegDelete (take i cs) - 1)) (count_text_lines (snd (cs ! i)))),
     dg_inline_highlights = []\<rparr>"
  using assms
proof (induction "LinesMode" m n cs arbitrary: i rule: number_segments.induct)
  case (2 m n kind t cs)
  then show ?case
    by (cases i) (auto simp: line_after_def Let_def segment_lines_def add.assoc split: diff_segment_kind.splits)
qed simp

lemma length_number_segments [simp]: "length (number_segments mode m n cs) = length cs"
  by (metis length_map number_segments_text)

end
