(* ===== verification/Diff_Inline.thy ===== *)
theory Diff_Inline
  imports Diff_Types "HOL-Library.Product_Lexorder" "HOL-Library.Multiset"
begin

section \<open>Inline highlights\<close>

text \<open>
  The part of \<open>crates/sp42-platform/src/diff_engine.rs\<close> that marks what changed inside a deleted line and
  the line inserted for it: phrases that occur exactly once on both sides are anchored to each other,
  longest first, and what lies between anchors is the change. Offsets are byte offsets. The order in
  which the hash map of phrases is walked is the parameter \<open>order\<close>; the word diff of the \<open>similar\<close> crate
  and the Unicode tables are parameters too.
\<close>

record inline_anchor_token =
  it_normalized :: string
  it_start :: nat
  it_end :: nat

record diff_env =
  de_uni :: "string \<Rightarrow> bool"
  de_order :: "string list \<Rightarrow> string list"
  de_line_diff :: "string \<Rightarrow> string \<Rightarrow> change list"
  de_word_diff :: "string \<Rightarrow> string \<Rightarrow> change list"

subsection \<open>Tokens\<close>

function balanced_loop :: "string \<Rightarrow> string \<Rightarrow> nat \<Rightarrow> nat \<Rightarrow> string \<Rightarrow> nat option" where
  "balanced_loop opener closer depth cursor rest =
     (if rest = [] then None
      else if opener \<noteq> [] \<and> prefix opener rest
        then balanced_loop opener closer (depth + 1) (cursor + length opener) (drop (length opener) rest)
      else if closer \<noteq> [] \<and> prefix closer rest
        then (if depth - 1 = 0 then Some (cursor + length closer)
              else balanced_loop opener closer (depth - 1) (cursor + length closer) (drop (length closer) rest))
      else balanced_loop opener closer depth (cursor + char_len rest) (drop (char_len rest) rest))"
  by pat_completeness auto
termination
  by (relation "measure (\<lambda>(_, _, _, _, rest). length rest)") auto

declare balanced_loop.simps [simp del]

definition consume_balanced_construct :: "string \<Rightarrow> string \<Rightarrow> string \<Rightarrow> nat option" where
  "consume_balanced_construct input opener closer =
     (if \<not> prefix opener input then None else balanced_loop opener closer 0 0 input)"

definition consume_ref_construct :: "string \<Rightarrow> nat option" where
  "consume_ref_construct input =
     (let lowered = to_ascii_lowercase input
      in if \<not> prefix ''<ref'' lowered then None
         else (case str_find ''/>'' lowered of
                 Some i \<Rightarrow> Some (i + 2)
               | None \<Rightarrow> map_option (\<lambda>i. i + length ''</ref>'') (str_find ''</ref>'' lowered)))"

definition joins_word :: "(string \<Rightarrow> bool) \<Rightarrow> string \<Rightarrow> bool" where
  "joins_word uni c \<longleftrightarrow> is_alphanumeric uni c \<or>
     c \<in> {[CHR 0x27], [CHR 0xE2, CHR 0x80, CHR 0x99], ''-'', ''_''}"

function word_len :: "(string \<Rightarrow> bool) \<Rightarrow> string \<Rightarrow> nat" where
  "word_len uni s =
     (if s \<noteq> [] \<and> joins_word uni (take (char_len s) s) then char_len s + word_len uni (drop (char_len s) s) else 0)"
  by pat_completeness auto
termination
  by (relation "measure (length \<circ> snd)") auto

declare word_len.simps [simp del]

text \<open>The length of the token a text starts with.\<close>

definition anchor_len :: "(string \<Rightarrow> bool) \<Rightarrow> string \<Rightarrow> nat option" where
  "anchor_len uni rest =
     (case consume_balanced_construct rest ''[['' '']]'' of
        Some n \<Rightarrow> Some n
      | None \<Rightarrow>
          (case consume_balanced_construct rest ''{{'' ''}}'' of
             Some n \<Rightarrow> Some n
           | None \<Rightarrow>
               (case consume_ref_construct rest of
                  Some n \<Rightarrow> Some n
                | None \<Rightarrow>
                    (if is_alphanumeric uni (take (char_len rest) rest)
                     then Some (char_len rest + word_len uni (drop (char_len rest) rest))
                     else None))))"

function tokens_from :: "(string \<Rightarrow> bool) \<Rightarrow> nat \<Rightarrow> string \<Rightarrow> inline_anchor_token list" where
  "tokens_from uni cursor rest =
     (if rest = [] then []
      else (case anchor_len uni rest of
              Some n \<Rightarrow>
                \<lparr>it_normalized = to_ascii_lowercase (take n rest), it_start = cursor, it_end = cursor + n\<rparr> #
                (if n = 0 then [] else tokens_from uni (cursor + n) (drop n rest))
            | None \<Rightarrow> tokens_from uni (cursor + char_len rest) (drop (char_len rest) rest)))"
  by pat_completeness auto
termination
  by (relation "measure (\<lambda>(_, _, rest). length rest)") auto

declare tokens_from.simps [simp del]

definition tokenize_inline_anchors :: "(string \<Rightarrow> bool) \<Rightarrow> string \<Rightarrow> inline_anchor_token list" where
  "tokenize_inline_anchors uni text = tokens_from uni 0 text"

subsection \<open>Anchors\<close>

type_synonym inline_ngram_hit = "nat \<times> nat \<times> nat"
type_synonym inline_range = "nat \<times> nat"

definition collect_inline_ngrams :: "inline_anchor_token list \<Rightarrow> nat \<Rightarrow> (string \<times> inline_ngram_hit) list" where
  "collect_inline_ngrams tokens n =
     map (\<lambda>i. (str_join [unit_separator] (map it_normalized (take n (drop i tokens))),
               (i, it_start (tokens ! i), it_end (tokens ! (i + n - 1)))))
       [0..<length tokens + 1 - n]"

text \<open>The hits of every phrase of at most \<open>m\<close> tokens, longest first.\<close>

definition ngram_occurrences :: "inline_anchor_token list \<Rightarrow> nat \<Rightarrow> (string \<times> inline_ngram_hit) list" where
  "ngram_occurrences tokens m = concat (map (collect_inline_ngrams tokens) (rev [1..<m + 1]))"

definition hits_of :: "(string \<times> inline_ngram_hit) list \<Rightarrow> string \<Rightarrow> inline_ngram_hit list" where
  "hits_of occs phrase = map snd (filter (\<lambda>o'. fst o' = phrase) occs)"

record inline_anchor_candidate =
  ic_token_count :: nat
  ic_char_count :: nat
  ic_before :: inline_ngram_hit
  ic_after :: inline_ngram_hit

definition anchor_candidate ::
  "(string \<Rightarrow> bool) \<Rightarrow> (string \<times> inline_ngram_hit) list \<Rightarrow> (string \<times> inline_ngram_hit) list \<Rightarrow> string \<Rightarrow>
     inline_anchor_candidate option" where
  "anchor_candidate uni before_occs after_occs phrase =
     (case (hits_of before_occs phrase, hits_of after_occs phrase) of
        ([b], [a]) \<Rightarrow>
          (let token_count = count_list phrase unit_separator + 1;
               characters = filter (\<lambda>c. c \<noteq> unit_separator) phrase;
               char_count' = char_count characters;
               has_markup = str_contains phrase ''[['' \<or> str_contains phrase ''{{'' \<or> str_contains phrase ''<ref''
           in if token_count = 1 \<and> char_count' < 4 \<and> \<not> has_markup then None
              else if token_count = 1 \<and> char_count' < 8 \<and> list_all (is_alphanumeric uni) (str_chars phrase) then None
              else Some \<lparr>ic_token_count = token_count, ic_char_count = char_count', ic_before = b, ic_after = a\<rparr>)
      | _ \<Rightarrow> None)"

definition candidate_key :: "inline_anchor_candidate \<Rightarrow> int \<times> int \<times> nat \<times> nat" where
  "candidate_key c = (- int (ic_token_count c), - int (ic_char_count c), fst (ic_before c), fst (ic_after c))"

definition range_is_used :: "bool list \<Rightarrow> nat \<Rightarrow> nat \<Rightarrow> bool" where
  "range_is_used used i j = list_ex id (take (j - i) (drop i used))"

definition mark_used :: "nat \<Rightarrow> nat \<Rightarrow> bool list \<Rightarrow> bool list" where
  "mark_used i j used = take i used @ map (\<lambda>_. True) (take (j - i) (drop i used)) @ drop j used"

fun choose_anchors ::
  "bool list \<Rightarrow> bool list \<Rightarrow> inline_anchor_candidate list \<Rightarrow> inline_range list \<times> inline_range list" where
  "choose_anchors before_used after_used [] = ([], [])"
| "choose_anchors before_used after_used (c # cs) =
     (let (bi, b1, b2) = ic_before c; (ai, a1, a2) = ic_after c
      in if range_is_used before_used b1 b2 \<or> range_is_used after_used a1 a2
         then choose_anchors before_used after_used cs
         else (let (brs, ars) = choose_anchors (mark_used b1 b2 before_used) (mark_used a1 a2 after_used) cs
               in ((b1, b2) # brs, (a1, a2) # ars)))"

fun merge_loop :: "inline_range \<Rightarrow> inline_range list \<Rightarrow> inline_range list" where
  "merge_loop prev [] = [prev]"
| "merge_loop prev ((i, j) # rs) =
     (if i \<le> snd prev then merge_loop (fst prev, max (snd prev) j) rs else prev # merge_loop (i, j) rs)"

definition merge_touching_ranges :: "inline_range list \<Rightarrow> inline_range list" where
  "merge_touching_ranges ranges = (case sort ranges of [] \<Rightarrow> [] | r # rs \<Rightarrow> merge_loop r rs)"

definition anchor_candidates ::
  "diff_env \<Rightarrow> inline_anchor_token list \<Rightarrow> inline_anchor_token list \<Rightarrow> inline_anchor_candidate list" where
  "anchor_candidates env before_tokens after_tokens =
     (let m = min (min (length before_tokens) (length after_tokens)) 8;
          before_occs = ngram_occurrences before_tokens m;
          after_occs = ngram_occurrences after_tokens m
      in sort_key candidate_key
           (List.map_filter (anchor_candidate (de_uni env) before_occs after_occs)
             (de_order env (remdups (map fst before_occs)))))"

definition collect_equal_anchor_ranges ::
  "diff_env \<Rightarrow> string \<Rightarrow> inline_anchor_token list \<Rightarrow> string \<Rightarrow> inline_anchor_token list \<Rightarrow>
     inline_range list \<times> inline_range list" where
  "collect_equal_anchor_ranges env before before_tokens after after_tokens =
     (let (brs, ars) = choose_anchors (replicate (length before) False) (replicate (length after) False)
            (anchor_candidates env before_tokens after_tokens)
      in (merge_touching_ranges (sort brs), merge_touching_ranges (sort ars)))"

subsection \<open>Spans\<close>

definition text_slice :: "nat \<Rightarrow> nat \<Rightarrow> 'a list \<Rightarrow> 'a list" where
  "text_slice i j xs = take (j - i) (drop i xs)"

definition change_span :: "string \<Rightarrow> nat \<Rightarrow> nat \<Rightarrow> diff_segment_kind \<Rightarrow> inline_span list" where
  "change_span text i j kind =
     (if i \<ge> j then []
      else let chunk = text_slice i j text;
               leading = length chunk - length (str_trim_start chunk);
               trailing = length chunk - length (str_trim_end chunk);
               change_start = i + leading;
               change_end = j - trailing
           in (if leading > 0 then [\<lparr>is_kind = SegEqual, is_text = text_slice i change_start text\<rparr>] else []) @
              (if change_end > change_start then [\<lparr>is_kind = kind, is_text = text_slice change_start change_end text\<rparr>] else []) @
              (if trailing > 0 then [\<lparr>is_kind = SegEqual, is_text = text_slice change_end j text\<rparr>] else []))"

fun spans_from :: "string \<Rightarrow> nat \<Rightarrow> inline_range list \<Rightarrow> diff_segment_kind \<Rightarrow> inline_span list" where
  "spans_from text cursor [] kind =
     (if cursor < length text then change_span text cursor (length text) kind else [])"
| "spans_from text cursor ((i, j) # rs) kind =
     (if i > cursor then change_span text cursor i kind else []) @
     (if j > i then [\<lparr>is_kind = SegEqual, is_text = text_slice i j text\<rparr>] else []) @
     spans_from text j rs kind"

definition build_inline_spans_from_equal_ranges ::
  "string \<Rightarrow> inline_range list \<Rightarrow> diff_segment_kind \<Rightarrow> inline_span list" where
  "build_inline_spans_from_equal_ranges text ranges kind =
     (let spans = spans_from text 0 ranges kind
      in if spans = [] then [\<lparr>is_kind = kind, is_text = text\<rparr>] else spans)"

definition spans_of_changes :: "change list \<Rightarrow> inline_span list" where
  "spans_of_changes cs = map (\<lambda>(k, t). \<lparr>is_kind = k, is_text = t\<rparr>) cs"

definition compute_inline_highlight_pair_word_diff ::
  "diff_env \<Rightarrow> string \<Rightarrow> string \<Rightarrow> inline_span list \<times> inline_span list" where
  "compute_inline_highlight_pair_word_diff env before after =
     (let cs = de_word_diff env before after
      in (spans_of_changes (filter (\<lambda>c. fst c \<noteq> SegInsert) cs),
          spans_of_changes (filter (\<lambda>c. fst c \<noteq> SegDelete) cs)))"

definition compute_inline_highlight_pair ::
  "diff_env \<Rightarrow> string \<Rightarrow> string \<Rightarrow> inline_span list \<times> inline_span list" where
  "compute_inline_highlight_pair env before after =
     (let (brs, ars) = collect_equal_anchor_ranges env before (tokenize_inline_anchors (de_uni env) before)
            after (tokenize_inline_anchors (de_uni env) after)
      in if brs = [] \<and> ars = [] then compute_inline_highlight_pair_word_diff env before after
         else (build_inline_spans_from_equal_ranges before brs SegDelete,
               build_inline_spans_from_equal_ranges after ars SegInsert))"

fun compute_inline_highlights :: "diff_env \<Rightarrow> diff_segment list \<Rightarrow> diff_segment list" where
  "compute_inline_highlights env (d # i # rest) =
     (if dg_kind d = SegDelete \<and> dg_kind i = SegInsert
      then (let (del_spans, ins_spans) = compute_inline_highlight_pair env (dg_text d) (dg_text i)
            in d\<lparr>dg_inline_highlights := del_spans\<rparr> # i\<lparr>dg_inline_highlights := ins_spans\<rparr> #
               compute_inline_highlights env rest)
      else d # compute_inline_highlights env (i # rest))"
| "compute_inline_highlights env segs = segs"

subsection \<open>Where tokens and anchors lie\<close>

text \<open>Ranges of a text of length \<open>n\<close>: not empty, inside, and apart from each other.\<close>

definition inside :: "nat \<Rightarrow> inline_range \<Rightarrow> bool" where
  "inside n r \<longleftrightarrow> fst r < snd r \<and> snd r \<le> n"

definition apart :: "inline_range \<Rightarrow> inline_range \<Rightarrow> bool" where
  "apart r r' \<longleftrightarrow> snd r \<le> fst r' \<or> snd r' \<le> fst r"

definition ordered_ranges :: "nat \<Rightarrow> nat \<Rightarrow> inline_range list \<Rightarrow> bool" where
  "ordered_ranges c n rs \<longleftrightarrow> list_all (inside n) rs \<and> list_all (\<lambda>r. c \<le> fst r) rs \<and> sorted_wrt (\<lambda>r r'. snd r \<le> fst r') rs"

definition hit_range :: "inline_ngram_hit \<Rightarrow> inline_range" where
  "hit_range h = snd h"

lemma balanced_loop_bound:
  "closer \<noteq> [] \<Longrightarrow> balanced_loop opener closer depth cursor rest = Some n \<Longrightarrow> cursor < n \<and> n \<le> cursor + length rest"
proof (induction opener closer depth cursor rest rule: balanced_loop.induct)
  case (1 opener closer depth cursor rest)
  note step = "1.prems"(2) [unfolded balanced_loop.simps [of opener closer depth cursor rest]]
  show ?case
  proof (cases "rest = [] \<or> opener \<noteq> [] \<and> prefix opener rest \<or> \<not> prefix closer rest")
    case True
    then show ?thesis
      using step 1 char_len_le [of rest] prefix_length_le [of opener rest]
      by (auto split: if_splits)
  next
    case False
    then have "length closer \<le> length rest" by (auto dest: prefix_length_le)
    then show ?thesis using step False 1 by (auto split: if_splits)
  qed
qed

lemma str_find_bound: "str_find pat s = Some i \<Longrightarrow> i + length pat \<le> length s"
  using str_find_Some by blast

lemma word_len_le: "word_len uni s \<le> length s"
proof (induction uni s rule: word_len.induct)
  case (1 uni s)
  then show ?case
    using char_len_le [of s] by (subst word_len.simps) (simp, linarith)
qed

lemma anchor_len_bound:
  assumes "rest \<noteq> []" "anchor_len uni rest = Some n"
  shows "0 < n \<and> n \<le> length rest"
proof -
  have "consume_balanced_construct rest opener closer = Some m \<Longrightarrow> closer \<noteq> [] \<Longrightarrow> 0 < m \<and> m \<le> length rest" for opener closer m
    by (auto simp: consume_balanced_construct_def split: if_splits dest: balanced_loop_bound)
  moreover have "consume_ref_construct rest = Some m \<Longrightarrow> 0 < m \<and> m \<le> length rest" for m
    by (auto simp: consume_ref_construct_def Let_def to_ascii_lowercase_def split: if_splits option.splits dest!: str_find_bound)
  moreover have "0 < char_len rest" "char_len rest + word_len uni (drop (char_len rest) rest) \<le> length rest"
    using assms(1) word_len_le [of uni "drop (char_len rest) rest"] char_len_le [of rest] by auto
  ultimately show ?thesis
    using assms(2) by (auto simp: anchor_len_def split: option.splits if_splits)
qed

abbreviation token_range :: "inline_anchor_token \<Rightarrow> inline_range" where
  "token_range t \<equiv> (it_start t, it_end t)"

lemma ordered_later: "ordered_ranges d n rs \<Longrightarrow> c \<le> d \<Longrightarrow> ordered_ranges c n rs"
  by (auto simp: ordered_ranges_def list_all_iff)

lemma tokens_ordered: "ordered_ranges cursor (cursor + length rest) (map token_range (tokens_from uni cursor rest))"
proof (induction uni cursor rest rule: tokens_from.induct)
  case (1 uni cursor rest)
  show ?case
  proof (cases "rest = []")
    case False
    show ?thesis
    proof (cases "anchor_len uni rest")
      case None
      then show ?thesis
        using "1.IH"(1) [OF False None] False char_len_le [of rest]
        by (subst tokens_from.simps) (auto elim!: ordered_later)
    next
      case (Some n)
      note n = anchor_len_bound [OF False Some]
      have "ordered_ranges (cursor + n) (cursor + length rest) (map token_range (tokens_from uni (cursor + n) (drop n rest)))"
        using "1.IH"(2) [OF False Some] n by simp
      then show ?thesis
        using Some False n by (subst tokens_from.simps) (auto simp: ordered_ranges_def inside_def list_all_iff)
    qed
  qed (subst tokens_from.simps, simp add: ordered_ranges_def)
qed

lemma ordered_nth:
  assumes "ordered_ranges c n rs" "i \<le> j" "j < length rs"
  shows "fst (rs ! i) < snd (rs ! j) \<and> snd (rs ! j) \<le> n"
proof (cases "i = j")
  case False
  then have "snd (rs ! i) \<le> fst (rs ! j)"
    using assms by (auto simp: ordered_ranges_def sorted_wrt_iff_nth_less)
  moreover have "inside n (rs ! i)" "inside n (rs ! j)"
    using assms by (auto simp: ordered_ranges_def list_all_length)
  ultimately show ?thesis by (auto simp: inside_def)
qed (use assms in \<open>auto simp: ordered_ranges_def list_all_length inside_def\<close>)

lemma ngram_set:
  "(phrase, h) \<in> set (ngram_occurrences tokens m) \<longleftrightarrow>
     (\<exists>k i. 0 < k \<and> k \<le> m \<and> i < length tokens + 1 - k \<and>
        phrase = str_join [unit_separator] (map it_normalized (take k (drop i tokens))) \<and>
        h = (i, it_start (tokens ! i), it_end (tokens ! (i + k - 1))))"
proof -
  have "set (ngram_occurrences tokens m) =
      (\<Union>k\<in>{1..m}. (\<lambda>i. (str_join [unit_separator] (map it_normalized (take k (drop i tokens))),
               (i, it_start (tokens ! i), it_end (tokens ! (i + k - 1))))) ` {0..<length tokens + 1 - k})"
    by (simp add: ngram_occurrences_def collect_inline_ngrams_def atLeastLessThanSuc_atLeastAtMost del: upt_Suc)
  then show ?thesis by (simp only: UN_iff image_iff Bex_def atLeastAtMost_iff atLeastLessThan_iff prod.inject) (auto simp: Suc_le_eq)
qed

lemma ngrams_inside:
  assumes "ordered_ranges 0 n (map token_range tokens)" "(phrase, h) \<in> set (ngram_occurrences tokens m)"
  shows "inside n (hit_range h)"
proof -
  from assms(2) obtain k i where "0 < k" "i < length tokens + 1 - k" "h = (i, it_start (tokens ! i), it_end (tokens ! (i + k - 1)))"
    unfolding ngram_set by blast
  then show ?thesis
    using ordered_nth [OF assms(1), of i "i + k - 1"] by (simp add: inside_def hit_range_def)
qed

subsection \<open>The chosen anchors\<close>

lemma range_is_used_iff: "j \<le> length used \<Longrightarrow> range_is_used used i j \<longleftrightarrow> (\<exists>k. i \<le> k \<and> k < j \<and> used ! k)"
proof -
  assume "j \<le> length used"
  then have "range_is_used used i j \<longleftrightarrow> (\<exists>n < j - i. used ! (i + n))"
    by (auto simp: range_is_used_def list_ex_length)
  also have "\<dots> \<longleftrightarrow> (\<exists>k. i \<le> k \<and> k < j \<and> used ! k)"
  proof
    assume "\<exists>n < j - i. used ! (i + n)"
    then obtain n where "n < j - i" "used ! (i + n)" by blast
    then show "\<exists>k. i \<le> k \<and> k < j \<and> used ! k" by (intro exI [of _ "i + n"]) simp
  next
    assume "\<exists>k. i \<le> k \<and> k < j \<and> used ! k"
    then obtain k where "i \<le> k" "k < j" "used ! k" by blast
    then show "\<exists>n < j - i. used ! (i + n)" by (intro exI [of _ "k - i"]) simp
  qed
  finally show ?thesis .
qed

lemma length_mark_used [simp]: "i \<le> j \<Longrightarrow> j \<le> length used \<Longrightarrow> length (mark_used i j used) = length used"
  by (simp add: mark_used_def)

lemma nth_mark_used:
  "i \<le> j \<Longrightarrow> j \<le> length used \<Longrightarrow> k < length used \<Longrightarrow> mark_used i j used ! k \<longleftrightarrow> used ! k \<or> i \<le> k \<and> k < j"
  by (auto simp: mark_used_def nth_append)

definition unused :: "bool list \<Rightarrow> inline_range \<Rightarrow> bool" where
  "unused used r \<longleftrightarrow> (\<forall>k. fst r \<le> k \<longrightarrow> k < snd r \<longrightarrow> \<not> used ! k)"

lemma unused_marked:
  assumes "inside (length used) (i, j)" "inside (length used) r" "unused (mark_used i j used) r"
  shows "unused used r \<and> apart (i, j) r"
proof
  show "unused used r"
    using assms by (auto simp: unused_def inside_def nth_mark_used)
  have "\<not> (i \<le> k \<and> k < j)" if "fst r \<le> k" "k < snd r" for k
    using assms that by (auto simp: unused_def inside_def nth_mark_used)
  from this [of i] this [of "fst r"] show "apart (i, j) r"
    using assms(1,2) by (auto simp: inside_def apart_def)
qed

lemma choose_anchors_apart:
  assumes "choose_anchors bu au cs = (brs, ars)"
    "list_all (\<lambda>c. inside (length bu) (hit_range (ic_before c)) \<and> inside (length au) (hit_range (ic_after c))) cs"
  shows "list_all (\<lambda>r. inside (length bu) r \<and> unused bu r) brs \<and> sorted_wrt apart brs \<and>
    list_all (\<lambda>r. inside (length au) r \<and> unused au r) ars \<and> sorted_wrt apart ars \<and> length brs = length ars"
  using assms
proof (induction bu au cs arbitrary: brs ars rule: choose_anchors.induct)
  case (2 bu au c cs)
  obtain bi b1 b2 ai a1 a2 where c: "ic_before c = (bi, b1, b2)" "ic_after c = (ai, a1, a2)"
    by (metis prod_cases3)
  with 2 have ins: "inside (length bu) (b1, b2)" "inside (length au) (a1, a2)"
    by (simp_all add: hit_range_def)
  show ?case
  proof (cases "range_is_used bu b1 b2 \<or> range_is_used au a1 a2")
    case True
    then show ?thesis using 2 c by simp
  next
    case False
    obtain brs' ars' where rest: "choose_anchors (mark_used b1 b2 bu) (mark_used a1 a2 au) cs = (brs', ars')"
      by fastforce
    have len: "length (mark_used b1 b2 bu) = length bu" "length (mark_used a1 a2 au) = length au"
      using ins by (simp_all add: inside_def)
    have split: "brs = (b1, b2) # brs'" "ars = (a1, a2) # ars'"
      using "2.prems"(1) c rest False by auto
    have free: "unused bu (b1, b2)" "unused au (a1, a2)"
      using False ins by (auto simp: range_is_used_iff inside_def unused_def)
    have "list_all (\<lambda>r. inside (length bu) r \<and> unused (mark_used b1 b2 bu) r) brs' \<and> sorted_wrt apart brs' \<and>
        list_all (\<lambda>r. inside (length au) r \<and> unused (mark_used a1 a2 au) r) ars' \<and> sorted_wrt apart ars' \<and>
        length brs' = length ars'"
      using "2.IH"(2) [OF c(1) [symmetric] refl refl c(2) [symmetric] refl refl False rest] "2.prems"(2) len by simp
    then show ?thesis
      using ins free unused_marked [OF ins(1)] unused_marked [OF ins(2)] by (auto simp: split list_all_iff)
  qed
qed simp

subsection \<open>Merged ranges\<close>

lemma merge_loop_ordered:
  assumes "inside n prev" "list_all (inside n) rs" "sorted_wrt (\<lambda>r r'. fst r \<le> fst r') (prev # rs)"
  shows "list_all (\<lambda>r. inside n r \<and> fst prev \<le> fst r) (merge_loop prev rs) \<and>
    sorted_wrt (\<lambda>r r'. snd r < fst r') (merge_loop prev rs)"
  using assms
proof (induction prev rs rule: merge_loop.induct)
  case (2 prev i j rs)
  show ?case
  proof (cases "i \<le> snd prev")
    case True
    have "list_all (\<lambda>r. inside n r \<and> fst (fst prev, max (snd prev) j) \<le> fst r) (merge_loop (fst prev, max (snd prev) j) rs) \<and>
        sorted_wrt (\<lambda>r r'. snd r < fst r') (merge_loop (fst prev, max (snd prev) j) rs)"
      by (rule "2.IH"(1) [OF True]) (use "2.prems" in \<open>auto simp: inside_def\<close>)
    then show ?thesis using True by simp
  next
    case False
    have "list_all (\<lambda>r. inside n r \<and> fst (i, j) \<le> fst r) (merge_loop (i, j) rs) \<and>
        sorted_wrt (\<lambda>r r'. snd r < fst r') (merge_loop (i, j) rs)"
      by (rule "2.IH"(2) [OF False]) (use "2.prems" in auto)
    then show ?thesis using False "2.prems" by (auto simp: list_all_iff)
  qed
qed simp

lemma sorted_fst: "sorted rs \<Longrightarrow> sorted_wrt (\<lambda>r r'. fst r \<le> fst r') (rs :: inline_range list)"
  by (rule sorted_wrt_mono_rel [of _ "(\<le>)"]) (auto simp: less_eq_prod_def)

lemma merged_ordered:
  assumes "list_all (inside n) rs"
  shows "ordered_ranges 0 n (merge_touching_ranges rs) \<and> (merge_touching_ranges rs = [] \<longleftrightarrow> rs = [])"
proof (cases "sort rs")
  case Nil
  then have "rs = []" by (metis length_0_conv length_sort)
  then show ?thesis using Nil by (simp add: merge_touching_ranges_def ordered_ranges_def)
next
  case (Cons r rs')
  have "list_all (inside n) (r # rs')" "sorted_wrt (\<lambda>r r'. fst r \<le> fst r') (r # rs')"
    using assms sorted_fst [OF sorted_sort, of rs] by (simp_all add: Cons [symmetric] list_all_iff)
  then have merged: "list_all (\<lambda>r'. inside n r' \<and> fst r \<le> fst r') (merge_loop r rs')"
      "sorted_wrt (\<lambda>r r'. snd r < fst r') (merge_loop r rs')"
    using merge_loop_ordered [of n r rs'] by simp_all
  have "merge_loop r rs' \<noteq> []"
    by (induction r rs' rule: merge_loop.induct) auto
  then show ?thesis
    using merged Cons sorted_wrt_mono_rel [OF _ merged(2), of "\<lambda>r r'. snd r \<le> fst r'"]
    by (auto simp: merge_touching_ranges_def ordered_ranges_def list_all_iff)
qed

definition order_ok :: "diff_env \<Rightarrow> bool" where
  "order_ok env \<longleftrightarrow> (\<forall>ps. mset (de_order env ps) = mset ps)"

lemma candidate_hits:
  assumes "c \<in> set (anchor_candidates env btoks atoks)"
    and "m = min (min (length btoks) (length atoks)) 8"
  shows "\<exists>phrase. (phrase, ic_before c) \<in> set (ngram_occurrences btoks m) \<and>
    (phrase, ic_after c) \<in> set (ngram_occurrences atoks m) \<and>
    anchor_candidate (de_uni env) (ngram_occurrences btoks m) (ngram_occurrences atoks m) phrase = Some c"
proof -
  obtain phrase where phrase: "anchor_candidate (de_uni env) (ngram_occurrences btoks m) (ngram_occurrences atoks m) phrase = Some c"
    using assms by (auto simp: anchor_candidates_def Let_def List.map_filter_def)
  then obtain b a where hits: "hits_of (ngram_occurrences btoks m) phrase = [b]" "hits_of (ngram_occurrences atoks m) phrase = [a]"
      "ic_before c = b" "ic_after c = a"
    by (auto simp: anchor_candidate_def Let_def split: list.splits if_splits)
  have "(phrase, h) \<in> set occs" if "hits_of occs phrase = [h]" for occs h
  proof -
    have "h \<in> set (hits_of occs phrase)" using that by simp
    then show ?thesis by (auto simp: hits_of_def)
  qed
  with hits phrase show ?thesis by blast
qed

lemma anchor_ranges_ordered:
  assumes "collect_equal_anchor_ranges env before (tokenize_inline_anchors uni before) after (tokenize_inline_anchors uni after) = (brs, ars)"
  shows "ordered_ranges 0 (length before) brs \<and> ordered_ranges 0 (length after) ars \<and> (brs = [] \<longleftrightarrow> ars = [])"
proof -
  let ?bt = "tokenize_inline_anchors uni before" and ?at = "tokenize_inline_anchors uni after"
  let ?bu = "replicate (length before) False" and ?au = "replicate (length after) False"
  obtain cbs cas where chosen: "choose_anchors ?bu ?au (anchor_candidates env ?bt ?at) = (cbs, cas)"
    by fastforce
  have tokens: "ordered_ranges 0 (length s) (map token_range (tokenize_inline_anchors uni s))" for s
    using tokens_ordered [of 0 s uni] by (simp add: tokenize_inline_anchors_def)
  have "list_all (\<lambda>c. inside (length ?bu) (hit_range (ic_before c)) \<and> inside (length ?au) (hit_range (ic_after c)))
      (anchor_candidates env ?bt ?at)"
    unfolding list_all_iff length_replicate
    using candidate_hits [OF _ refl] ngrams_inside [OF tokens] by blast
  from choose_anchors_apart [OF chosen this] have "list_all (inside (length before)) (sort cbs)"
      "list_all (inside (length after)) (sort cas)" "length cbs = length cas"
    by (simp_all add: list_all_iff)
  moreover from this(3) have "sort cbs = [] \<longleftrightarrow> sort cas = []"
    by (metis length_0_conv length_sort)
  moreover have "brs = merge_touching_ranges (sort cbs)" "ars = merge_touching_ranges (sort cas)"
    using assms chosen by (simp_all add: collect_equal_anchor_ranges_def)
  ultimately show ?thesis
    using merged_ordered [of "length before" "sort cbs"] merged_ordered [of "length after" "sort cas"] by simp
qed

subsection \<open>What the spans say\<close>

text \<open>A text cut at the ranges: the gaps (marked True) and the ranges.\<close>

fun pieces :: "string \<Rightarrow> nat \<Rightarrow> inline_range list \<Rightarrow> (bool \<times> string) list" where
  "pieces text c [] = [(True, text_slice c (length text) text)]"
| "pieces text c ((i, j) # rs) = (True, text_slice c i text) # (False, text_slice i j text) # pieces text j rs"

definition written_piece :: "bool \<times> string \<Rightarrow> string" where
  "written_piece p = (if fst p \<and> str_trim_start (snd p) = [] then snd p @ snd p else snd p)"

lemma slice_join: "i \<le> j \<Longrightarrow> j \<le> k \<Longrightarrow> text_slice i j xs @ text_slice j k xs = text_slice i k xs"
proof -
  assume ij: "i \<le> j" "j \<le> k"
  then have "k - i = (j - i) + (k - j)" "drop j xs = drop (j - i) (drop i xs)" by simp_all
  then show ?thesis unfolding text_slice_def by (simp only: take_add)
qed

lemma slice_empty [simp]: "j \<le> i \<Longrightarrow> text_slice i j xs = []"
  by (simp add: text_slice_def)

lemma length_slice: "j \<le> length xs \<Longrightarrow> length (text_slice i j xs) = j - i"
  by (simp add: text_slice_def)

lemma change_span_text:
  assumes "i < j" "j \<le> length text"
  shows "concat (map is_text (change_span text i j kind)) = written_piece (True, text_slice i j text)"
proof -
  let ?c = "text_slice i j text"
  have len: "length ?c = j - i" using assms by (simp add: length_slice)
  show ?thesis
  proof (cases "str_trim_start ?c = []")
    case True
    then have "str_trim_end ?c = []" by (rule trim_end_blank)
    then show ?thesis
      using True assms len by (simp add: change_span_def written_piece_def Let_def)
  next
    case False
    define a where "a = length ?c - length (str_trim_start ?c)"
    define b where "b = length ?c - length (str_trim_end ?c)"
    have "i + a < j - b" "b \<le> j - i"
      using trims_apart [OF False] trim_end_length [of ?c] len assms(1) by (simp_all add: a_def b_def)
    then have "text_slice i (i + a) text @ text_slice (i + a) (j - b) text @ text_slice (j - b) j text = ?c"
      by (simp add: slice_join)
    moreover have "length (str_trim_start ?c) < length ?c \<longleftrightarrow> 0 < a" "length (str_trim_end ?c) < length ?c \<longleftrightarrow> 0 < b"
      by (simp_all add: a_def b_def)
    ultimately show ?thesis
      using False assms(1) \<open>i + a < j - b\<close>
      by (simp add: change_span_def written_piece_def Let_def a_def [symmetric] b_def [symmetric])
        (cases "a = 0"; cases "b = 0"; simp)
  qed
qed

lemma spans_from_text:
  "ordered_ranges c (length t) rs \<Longrightarrow> c \<le> length t \<Longrightarrow>
     concat (map is_text (spans_from t c rs kind)) = concat (map written_piece (pieces t c rs)) \<and>
     concat (map snd (pieces t c rs)) = drop c t"
proof (induction t c rs kind rule: spans_from.induct)
  case (1 t cursor kind)
  then show ?case
    by (auto simp: change_span_text written_piece_def text_slice_def)
next
  case (2 t cursor i j rs kind)
  then have ij: "cursor \<le> i" "i < j" "j \<le> length t" and rest: "ordered_ranges j (length t) rs"
    by (auto simp: ordered_ranges_def inside_def list_all_iff)
  have "drop cursor t = text_slice cursor i t @ text_slice i j t @ drop j t"
    using slice_join [of cursor i j t] slice_join [of cursor j "length t" t] ij
    by (simp add: text_slice_def flip: append_assoc)
  then show ?case
    using "2.IH" [OF rest ij(3)] ij
    by (auto simp: change_span_text) (simp_all add: written_piece_def)
qed

end
