(* ===== verification/Diff_Engine.thy ===== *)
theory Diff_Engine
  imports Diff_Inline
begin

section \<open>Hunks of a line diff\<close>

text \<open>
  The rest of the line diff of \<open>crates/sp42-platform/src/diff_engine.rs\<close>: grouping the segments into
  hunks with context, naming the sections and the kinds of markup a hunk touches, and pairing removals
  with the additions that look like the same block moved. \<open>None\<close> is a panic: the slice
  \<open>trimmed[prefix..len - suffix]\<close> of a heading whose bounds cross.
\<close>

subsection \<open>Sections\<close>

definition parse_section_heading :: "string \<Rightarrow> string option option" where
  "parse_section_heading line =
     (let trimmed = str_trim line
      in if length trimmed < 4 then Some None
         else let heading_prefix = length (takeWhile (\<lambda>c. c = CHR ''='') trimmed);
                  heading_suffix = length (takeWhile (\<lambda>c. c = CHR ''='') (rev trimmed))
              in if heading_prefix < 2 \<or> heading_prefix \<noteq> heading_suffix then Some None
                 else if heading_prefix > length trimmed - heading_suffix then None
                 else let heading = str_trim (text_slice heading_prefix (length trimmed - heading_suffix) trimmed)
                      in Some (if heading = [] then None else Some heading))"

definition build_section_index :: "string \<Rightarrow> (nat \<times> string) list option" where
  "build_section_index text =
     map_option (\<lambda>hs. List.map_filter (\<lambda>(i, h). map_option (Pair (i + 1)) h) (enumerate 0 hs))
       (those (map parse_section_heading (str_lines text)))"

definition resolve_section_label :: "diff_line_span option \<Rightarrow> (nat \<times> string) list \<Rightarrow> string option" where
  "resolve_section_label place sections =
     (case place of
        None \<Rightarrow> None
      | Some s \<Rightarrow>
          (let before = takeWhile (\<lambda>p. fst p \<le> dl_start_line s) sections
           in if before = [] then Some ''Lead'' else Some (snd (last before))))"

subsection \<open>Which segments a hunk shows\<close>

definition mark_visible :: "nat \<Rightarrow> nat \<Rightarrow> bool list \<Rightarrow> bool list" where
  "mark_visible index context_lines visible =
     mark_used (index - context_lines) (min (index + context_lines + 1) (length visible)) visible"

definition visible_slots :: "diff_segment list \<Rightarrow> nat \<Rightarrow> bool list" where
  "visible_slots segs context_lines =
     fold (\<lambda>i visible. if dg_kind (segs ! i) = SegEqual then visible else mark_visible i context_lines visible)
       [0..<length segs] (replicate (length segs) False)"

text \<open>The maximal runs of set slots, as half-open ranges.\<close>

function runs_from :: "nat \<Rightarrow> bool list \<Rightarrow> (nat \<times> nat) list" where
  "runs_from cursor [] = []"
| "runs_from cursor (False # vs) = runs_from (cursor + 1) vs"
| "runs_from cursor (True # vs) =
     (let n = Suc (length (takeWhile id vs))
      in (cursor, cursor + n) # runs_from (cursor + n) (drop n (True # vs)))"
  by pat_completeness auto
termination
  by (relation "measure (length \<circ> snd)") auto

definition collect_changed_ranges :: "diff_segment list \<Rightarrow> nat \<Rightarrow> (nat \<times> nat) list" where
  "collect_changed_ranges segs context_lines = runs_from 0 (visible_slots segs context_lines)"

definition merge_line_spans :: "diff_line_span list \<Rightarrow> diff_line_span option" where
  "merge_line_spans spans =
     (case spans of
        [] \<Rightarrow> None
      | first # _ \<Rightarrow>
          (let start_line = fold (\<lambda>s a. min a (dl_start_line s)) spans (dl_start_line first);
               end_line = fold (\<lambda>s a. max a (dl_start_line s + (dl_line_count s - 1))) spans
                 (dl_start_line first + (dl_line_count first - 1))
           in Some \<lparr>dl_start_line = start_line, dl_line_count = (end_line - start_line) + 1\<rparr>))"

definition classify_hunk_kind :: "diff_segment list \<Rightarrow> diff_hunk_kind" where
  "classify_hunk_kind segs =
     (let has_insert = list_ex (\<lambda>g. dg_kind g = SegInsert) segs;
          has_delete = list_ex (\<lambda>g. dg_kind g = SegDelete) segs
      in if has_insert \<and> \<not> has_delete then Addition
         else if \<not> has_insert \<and> has_delete then Removal
         else Modification)"

subsection \<open>What a hunk touches\<close>

definition interwiki_excluded :: "string list" where
  "interwiki_excluded =
     [''category'', ''cat'' @ [CHR 0xC3, CHR 0xA9] @ ''gorie'', ''file'', ''fichier'', ''image'', ''template'',
      ''mod'' @ [CHR 0xC3, CHR 0xA8] @ ''le'', ''user'', ''utilisateur'', ''portal'', ''help'', ''aide'', ''draft'',
      ''media'', ''special'', ''module'', ''project'', ''wikipedia'']"

definition is_interwiki_link :: "string \<Rightarrow> bool" where
  "is_interwiki_link candidate =
     (let lowered = to_ascii_lowercase (str_trim candidate)
      in if \<not> prefix ''[['' lowered \<or> \<not> suffix '']]'' lowered then False
         else (case str_split_once '':'' (text_slice 2 (length lowered - 2) lowered) of
                 None \<Rightarrow> False
               | Some (pre, _) \<Rightarrow>
                   (if pre = [] \<or> CHR '' '' \<in> set pre then False
                    else if pre \<in> set interwiki_excluded then False
                    else list_all (\<lambda>c. (let n = (of_char c :: nat) in 97 \<le> n \<and> n \<le> 122) \<or> c = CHR ''-'') pre)))"

definition is_category_link :: "string \<Rightarrow> bool" where
  "is_category_link candidate =
     (let lowered = to_ascii_lowercase (str_trim candidate)
      in prefix ''[[category:'' lowered \<or> prefix (''[[cat'' @ [CHR 0xC3, CHR 0xA9] @ ''gorie:'') lowered)"

definition contains_interwiki_markup :: "string \<Rightarrow> bool" where
  "contains_interwiki_markup lowered =
     list_ex (\<lambda>part. is_interwiki_link (''[['' @ hd (str_split '']]'' part) @ '']]''))
       (tl (str_split ''[['' lowered))"

fun any_heading :: "string list \<Rightarrow> bool option" where
  "any_heading [] = Some False"
| "any_heading (line # ls) =
     (case parse_section_heading line of
        None \<Rightarrow> None
      | Some (Some _) \<Rightarrow> Some True
      | Some None \<Rightarrow> any_heading ls)"

definition side_text :: "diff_segment_kind \<Rightarrow> diff_segment list \<Rightarrow> string" where
  "side_text kind segs = concat (map dg_text (filter (\<lambda>g. dg_kind g = kind) segs))"

definition collect_hunk_markers :: "diff_segment list \<Rightarrow> diff_marker list option" where
  "collect_hunk_markers segs =
     (let combined = side_text SegInsert segs @ [CHR 0x0A] @ side_text SegDelete segs;
          lowered = to_ascii_lowercase combined;
          has = str_contains lowered
      in map_option (\<lambda>heading.
           (if has ''<ref'' \<or> has ''{{cite'' \<or> has ''{{citation'' then [MarkReferences] else []) @
           (if has ''[[category:'' \<or> has (''[[cat'' @ [CHR 0xC3, CHR 0xA9] @ ''gorie:'') then [MarkCategory] else []) @
           (if has ''[[file:'' \<or> has ''[[image:'' \<or> has ''[[fichier:'' \<or> has ''<gallery'' then [MarkMedia] else []) @
           (if has ''{{'' then [MarkTemplate] else []) @
           (if heading then [MarkHeading] else []) @
           (if contains_interwiki_markup lowered then [MarkInterwiki] else []))
         (any_heading (str_lines combined)))"

fun diff_marker_label :: "diff_marker \<Rightarrow> string" where
  "diff_marker_label MarkReferences = ''references''"
| "diff_marker_label MarkCategory = ''categories''"
| "diff_marker_label MarkInterwiki = ''interwiki''"
| "diff_marker_label MarkTemplate = ''templates''"
| "diff_marker_label MarkMedia = ''media''"
| "diff_marker_label MarkHeading = ''section headings''"

definition build_hunk_notes ::
  "diff_hunk_kind \<Rightarrow> diff_marker list \<Rightarrow> diff_line_span option \<Rightarrow> diff_line_span option \<Rightarrow> string list" where
  "build_hunk_notes kind markers before after =
     (case kind of
        Modification \<Rightarrow> [''content changed in place'']
      | Addition \<Rightarrow> (case after of None \<Rightarrow> [] | Some a \<Rightarrow> [''new content around line '' @ show_nat (dl_start_line a)])
      | Removal \<Rightarrow> (case before of None \<Rightarrow> [] | Some b \<Rightarrow> [''content removed around line '' @ show_nat (dl_start_line b)])) @
     (if markers = [] then [] else [''semantic cues: '' @ str_join '', '' (map diff_marker_label markers)])"

subsection \<open>Moved blocks\<close>

definition normalized_lines :: "diff_segment_kind \<Rightarrow> diff_segment list \<Rightarrow> string list" where
  "normalized_lines kind segs =
     map to_ascii_lowercase (filter (\<lambda>l. l \<noteq> [])
       (map str_trim (concat (map (\<lambda>g. str_lines (dg_text g)) (filter (\<lambda>g. dg_kind g = kind) segs)))))"

definition normalized_change_text :: "diff_hunk \<Rightarrow> string option" where
  "normalized_change_text hunk =
     (case (case dh_kind hunk of Addition \<Rightarrow> Some SegInsert | Removal \<Rightarrow> Some SegDelete | Modification \<Rightarrow> None) of
        None \<Rightarrow> None
      | Some kind \<Rightarrow>
          (let ls = normalized_lines kind (dh_segments hunk); joined = str_join [CHR 0x0A] ls
           in if length ls < 2 \<and> char_count joined < 80 then None else Some joined))"

definition normalized_hunk_side_text :: "diff_hunk \<Rightarrow> diff_segment_kind \<Rightarrow> string option" where
  "normalized_hunk_side_text hunk kind =
     (let joined = str_join [CHR 0x0A] (normalized_lines kind (dh_segments hunk))
      in if joined = [] then None else Some joined)"

function words_from :: "(string \<Rightarrow> bool) \<Rightarrow> string \<Rightarrow> string \<Rightarrow> string list" where
  "words_from uni acc s =
     (if s = [] then (if acc = [] then [] else [acc])
      else let c = take (char_len s) s
           in if is_alphanumeric uni c then words_from uni (acc @ c) (drop (char_len s) s)
              else (if acc = [] then [] else [acc]) @ words_from uni [] (drop (char_len s) s))"
  by pat_completeness auto
termination
  by (relation "measure (\<lambda>(_, _, s). length s)") auto

declare words_from.simps [simp del]

lemma words_from_code [code]:
  "words_from uni acc [] = (if acc = [] then [] else [acc])"
  "words_from uni acc (b # s) =
     (if is_alphanumeric uni (take (char_len (b # s)) (b # s))
      then words_from uni (acc @ take (char_len (b # s)) (b # s)) (drop (char_len (b # s)) (b # s))
      else (if acc = [] then [] else [acc]) @ words_from uni [] (drop (char_len (b # s)) (b # s)))"
  by (simp_all add: words_from.simps [of uni acc "[]"] words_from.simps [of uni acc "b # s"])

definition normalized_word_bag :: "(string \<Rightarrow> bool) \<Rightarrow> string \<Rightarrow> string list" where
  "normalized_word_bag uni text = map to_ascii_lowercase (words_from uni [] text)"

definition is_probable_move_match :: "(string \<Rightarrow> bool) \<Rightarrow> string \<Rightarrow> string \<Rightarrow> bool" where
  "is_probable_move_match uni left right =
     (let left_words = normalized_word_bag uni left; right_words = normalized_word_bag uni right
      in if left_words = [] \<or> right_words = [] then False
         else let shared = length (filter (\<lambda>w. w \<in> set right_words) left_words);
                  total = length left_words + length right_words - shared
              in if total = 0 then True else sat_u64 (shared * 10) \<ge> sat_u64 (total * 6))"

lemma is_probable_move_match_code [code]:
  "is_probable_move_match uni left right =
     (let left_words = normalized_word_bag uni left; right_words = normalized_word_bag uni right
      in if left_words = [] \<or> right_words = [] then False
         else let shared = length (filter (\<lambda>w. w \<in> set right_words) left_words);
                  total = length left_words + length right_words - shared
              in if total = 0 then True else if total * 6 \<le> shared * 10 then True else u64_max \<le> shared * 10)"
  by (auto simp: is_probable_move_match_def Let_def sat_u64_def min_def)

definition edited_move :: "(string \<Rightarrow> bool) \<Rightarrow> diff_hunk \<Rightarrow> bool" where
  "edited_move uni hunk \<longleftrightarrow>
     dh_kind hunk = Modification \<and> dh_move_group hunk = None \<and>
     (case (normalized_hunk_side_text hunk SegDelete, normalized_hunk_side_text hunk SegInsert) of
        (Some removed, Some inserted) \<Rightarrow>
          sx_before (dh_section hunk) \<noteq> sx_after (dh_section hunk) \<and> is_probable_move_match uni removed inserted
      | _ \<Rightarrow> False)"

fun annotate_in_place :: "(string \<Rightarrow> bool) \<Rightarrow> nat \<Rightarrow> diff_hunk list \<Rightarrow> diff_hunk list \<times> nat" where
  "annotate_in_place uni next_group [] = ([], next_group)"
| "annotate_in_place uni next_group (hunk # hunks) =
     (if edited_move uni hunk
      then (let (hs, g) = annotate_in_place uni (next_group + 1) hunks
            in (hunk\<lparr>dh_move_group := Some next_group,
                     dh_notes := dh_notes hunk @ [''probable moved block with in-place edits'']\<rparr> # hs, g))
      else (let (hs, g) = annotate_in_place uni next_group hunks in (hunk # hs, g)))"

definition moves_to :: "(string \<Rightarrow> bool) \<Rightarrow> diff_hunk list \<Rightarrow> bool list \<Rightarrow> nat \<Rightarrow> nat \<Rightarrow> bool" where
  "moves_to uni hunks consumed source target \<longleftrightarrow>
     source \<noteq> target \<and> \<not> consumed ! target \<and> dh_kind (hunks ! target) = Addition \<and>
     (case (normalized_change_text (hunks ! source), normalized_change_text (hunks ! target)) of
        (Some s, Some t) \<Rightarrow> is_probable_move_match uni s t
      | _ \<Rightarrow> False)"

definition mark_move :: "nat \<Rightarrow> diff_move_role \<Rightarrow> diff_hunk \<Rightarrow> diff_hunk" where
  "mark_move next_group role hunk =
     hunk\<lparr>dh_move_group := Some next_group, dh_move_role := Some role, dh_notes := dh_notes hunk @ [''probable moved block'']\<rparr>"

definition pair_move ::
  "(string \<Rightarrow> bool) \<Rightarrow> nat \<Rightarrow> diff_hunk list \<times> bool list \<times> nat \<Rightarrow> diff_hunk list \<times> bool list \<times> nat" where
  "pair_move uni source st =
     (case st of (hunks, consumed, next_group) \<Rightarrow>
        (if consumed ! source \<or> dh_kind (hunks ! source) \<noteq> Removal then st
         else (case find (moves_to uni hunks consumed source) [0..<length hunks] of
                 None \<Rightarrow> st
               | Some target \<Rightarrow>
                   (hunks[source := mark_move next_group MoveSource (hunks ! source),
                          target := mark_move next_group MoveTarget (hunks ! target)],
                    consumed[source := True, target := True], next_group + 1))))"

definition annotate_moves :: "(string \<Rightarrow> bool) \<Rightarrow> diff_hunk list \<Rightarrow> diff_hunk list" where
  "annotate_moves uni hunks =
     (let (hs, next_group) = annotate_in_place uni 1 hunks
      in fst (fold (pair_move uni) [0..<length hs] (hs, replicate (length hs) False, next_group)))"

subsection \<open>Building hunks\<close>

definition line_spans :: "(diff_segment \<Rightarrow> diff_line_span option) \<Rightarrow> diff_segment list \<Rightarrow> diff_line_span list" where
  "line_spans side segs = List.map_filter side segs"

definition build_hunk ::
  "(nat \<times> string) list \<Rightarrow> (nat \<times> string) list \<Rightarrow> diff_segment list \<Rightarrow> diff_hunk option" where
  "build_hunk before_sections after_sections segs =
     (let changed_before = merge_line_spans (line_spans dg_before
            (filter (\<lambda>g. dg_kind g \<noteq> SegEqual) (filter (\<lambda>g. dg_kind g \<noteq> SegInsert) segs)));
          changed_after = merge_line_spans (line_spans dg_after
            (filter (\<lambda>g. dg_kind g \<noteq> SegEqual) (filter (\<lambda>g. dg_kind g \<noteq> SegDelete) segs)));
          before = or_else changed_before (merge_line_spans (line_spans dg_before segs));
          after = or_else changed_after (merge_line_spans (line_spans dg_after segs));
          kind = classify_hunk_kind segs
      in map_option (\<lambda>markers.
           \<lparr>dh_kind = kind, dh_before = before, dh_after = after,
            dh_section = \<lparr>sx_before = resolve_section_label (or_else changed_before before) before_sections,
                          sx_after = resolve_section_label (or_else changed_after after) after_sections\<rparr>,
            dh_markers = markers, dh_notes = build_hunk_notes kind markers before after,
            dh_move_group = None, dh_move_role = None, dh_segments = segs\<rparr>)
         (collect_hunk_markers segs))"

definition build_diff_hunks ::
  "(string \<Rightarrow> bool) \<Rightarrow> diff_segment list \<Rightarrow> string \<Rightarrow> string \<Rightarrow> nat \<Rightarrow> diff_hunk list option" where
  "build_diff_hunks uni segs before after context_lines =
     (let ranges = collect_changed_ranges segs context_lines
      in if ranges = [] then Some []
         else (case build_section_index before of
                 None \<Rightarrow> None
               | Some before_sections \<Rightarrow>
                   (case build_section_index after of
                      None \<Rightarrow> None
                    | Some after_sections \<Rightarrow>
                        map_option (annotate_moves uni)
                          (those (map (\<lambda>(i, j). build_hunk before_sections after_sections (text_slice i j segs)) ranges)))))"

definition diff_lines :: "diff_env \<Rightarrow> string \<Rightarrow> string \<Rightarrow> structured_diff option" where
  "diff_lines env before after =
     (let d = collect_segments LinesMode (de_line_diff env before after);
          segs = compute_inline_highlights env (sd_segments d)
      in map_option (\<lambda>hunks. d\<lparr>sd_segments := segs, sd_hunks := hunks\<rparr>)
           (build_diff_hunks (de_uni env) segs before after 3))"

subsection \<open>When a heading panics\<close>

lemma takeWhile_stops: "\<not> P c \<Longrightarrow> length (takeWhile P (a @ c # b)) \<le> length a"
  by (induction a) auto

lemma takeWhile_both_ends:
  assumes "c \<in> set xs" "\<not> P c"
  shows "length (takeWhile P xs) + length (takeWhile P (rev xs)) < length xs"
proof -
  obtain a b where "xs = a @ c # b" using assms(1) by (metis split_list)
  then show ?thesis
    using takeWhile_stops [of P c a b] takeWhile_stops [of P c "rev b" "rev a"] assms(2) by simp
qed

definition rule_line :: "string \<Rightarrow> bool" where
  "rule_line line \<longleftrightarrow> 4 \<le> length (str_trim line) \<and> set (str_trim line) \<subseteq> {CHR ''=''}"

lemma heading_panics: "parse_section_heading line = None \<longleftrightarrow> rule_line line"
proof -
  let ?t = "str_trim line" and ?P = "\<lambda>c. c = CHR ''=''"
  show ?thesis
  proof (cases "set ?t \<subseteq> {CHR ''=''}")
    case True
    then have "takeWhile ?P ?t = ?t" "takeWhile ?P (rev ?t) = rev ?t"
      by (auto simp: takeWhile_eq_all_conv)
    then have "length (takeWhile ?P ?t) = length ?t" "length (takeWhile ?P (rev ?t)) = length ?t"
      by (simp_all only: length_rev)
    then show ?thesis unfolding parse_section_heading_def rule_line_def Let_def using True by simp
  next
    case False
    then obtain c where "c \<in> set ?t" "\<not> ?P c" by auto
    from takeWhile_both_ends [of c ?t ?P, OF this] show ?thesis
      unfolding parse_section_heading_def rule_line_def Let_def using False by auto
  qed
qed

lemma those_None: "those xs = None \<longleftrightarrow> None \<in> set xs"
  by (induction xs) (auto split: option.splits)

lemma those_Some: "those xs = Some ys \<longleftrightarrow> xs = map Some ys"
  by (induction xs arbitrary: ys) (auto split: option.splits simp: Cons_eq_map_conv)

lemma section_index_panics: "build_section_index text = None \<longleftrightarrow> (\<exists>line \<in> set (str_lines text). rule_line line)"
proof -
  have "build_section_index text = None \<longleftrightarrow> None \<in> parse_section_heading ` set (str_lines text)"
    by (simp add: build_section_index_def those_None)
  also have "\<dots> \<longleftrightarrow> (\<exists>line \<in> set (str_lines text). parse_section_heading line = None)"
    unfolding image_iff by (metis (lifting))
  finally show ?thesis by (simp only: heading_panics)
qed

lemma any_heading_total: "\<forall>line \<in> set ls. \<not> rule_line line \<Longrightarrow> any_heading ls \<noteq> None"
  by (induction ls) (auto split: option.splits simp: heading_panics [symmetric])

subsection \<open>The slots a hunk shows\<close>

definition changed :: "diff_segment \<Rightarrow> bool" where
  "changed g \<longleftrightarrow> dg_kind g \<noteq> SegEqual"

lemma mark_visible_bounds:
  "index < n \<Longrightarrow> index - ctx \<le> min (index + ctx + 1) n \<and> min (index + ctx + 1) n \<le> (n :: nat)"
  by linarith

lemma length_mark_visible [simp]: "index < length visible \<Longrightarrow> length (mark_visible index ctx visible) = length visible"
  unfolding mark_visible_def using mark_visible_bounds by (intro length_mark_used) auto

lemma nth_mark_visible:
  assumes "index < length visible" "k < length visible"
  shows "mark_visible index ctx visible ! k \<longleftrightarrow> visible ! k \<or> index \<le> k + ctx \<and> k \<le> index + ctx"
proof -
  have "mark_visible index ctx visible ! k \<longleftrightarrow>
      visible ! k \<or> index - ctx \<le> k \<and> k < min (index + ctx + 1) (length visible)"
    unfolding mark_visible_def using mark_visible_bounds [OF assms(1), of ctx] assms(2) by (intro nth_mark_used) auto
  then show ?thesis using assms(2) by auto
qed

lemma visible_fold:
  fixes ctx :: nat
  assumes "set is \<subseteq> {..<length segs}" "length visible = length segs"
  defines "f \<equiv> \<lambda>i visible. if dg_kind (segs ! i) = SegEqual then visible else mark_visible i ctx visible"
  shows "length (fold f is visible) = length segs \<and>
    (\<forall>k < length segs. fold f is visible ! k \<longleftrightarrow>
       visible ! k \<or> (\<exists>i \<in> set is. changed (segs ! i) \<and> i \<le> k + ctx \<and> k \<le> i + ctx))"
  using assms(1,2)
proof (induction "is" arbitrary: visible)
  case (Cons i "is")
  have "length (f i visible) = length segs"
    using Cons.prems by (simp add: f_def)
  moreover have "\<forall>k < length segs. f i visible ! k \<longleftrightarrow> visible ! k \<or> changed (segs ! i) \<and> i \<le> k + ctx \<and> k \<le> i + ctx"
    using Cons.prems by (auto simp: f_def changed_def nth_mark_visible)
  ultimately show ?case
    using Cons.IH [of "f i visible"] Cons.prems by auto
qed simp

lemma visible_slots_iff:
  "length (visible_slots segs ctx) = length segs"
  "k < length segs \<Longrightarrow> visible_slots segs ctx ! k \<longleftrightarrow>
     (\<exists>i < length segs. changed (segs ! i) \<and> i \<le> k + ctx \<and> k \<le> i + ctx)"
proof -
  have "set [0..<length segs] \<subseteq> {..<length segs}" by auto
  note fold = visible_fold [OF this length_replicate, of ctx]
  show "length (visible_slots segs ctx) = length segs"
    using fold by (simp add: visible_slots_def)
  show "k < length segs \<Longrightarrow> visible_slots segs ctx ! k \<longleftrightarrow>
     (\<exists>i < length segs. changed (segs ! i) \<and> i \<le> k + ctx \<and> k \<le> i + ctx)"
    using fold by (auto simp: visible_slots_def)
qed

text \<open>The runs: each slot range is full, bounded by unset slots, and together they are all set slots.\<close>

lemma runs_from_parts:
  "length vs = length xs \<Longrightarrow>
     concat (map (\<lambda>(i, j). text_slice i j (ys @ xs)) (runs_from (length ys) vs)) = map fst (filter snd (zip xs vs))"
proof (induction "length ys" vs arbitrary: xs ys rule: runs_from.induct)
  case (2 vs)
  then obtain x xs' where xs: "xs = x # xs'" "length vs = length xs'" by (cases xs) auto
  then show ?case using "2.hyps" [of "ys @ [x]" xs'] by simp
next
  case (3 vs)
  let ?n = "Suc (length (takeWhile id vs))"
  have le: "?n \<le> length xs" using "3.prems" length_takeWhile_le [of id vs] by simp
  have "concat (map (\<lambda>(i, j). text_slice i j ((ys @ take ?n xs) @ drop ?n xs)) (runs_from (length (ys @ take ?n xs)) (drop ?n (True # vs)))) =
      map fst (filter snd (zip (drop ?n xs) (drop ?n (True # vs))))"
    using "3.hyps" [OF refl, of "ys @ take ?n xs" "drop ?n xs"] "3.prems" le by simp
  moreover have "length (ys @ take ?n xs) = length ys + ?n" "(ys @ take ?n xs) @ drop ?n xs = ys @ xs"
    using le by simp_all
  moreover have "text_slice (length ys) (length ys + ?n) (ys @ xs) = take ?n xs"
    by (simp add: text_slice_def)
  moreover have "map fst (filter snd (zip xs (True # vs))) =
      take ?n xs @ map fst (filter snd (zip (drop ?n xs) (drop ?n (True # vs))))"
  proof -
    have "filter snd (zip (take ?n xs) (take ?n (True # vs))) = zip (take ?n xs) (take ?n (True # vs))"
    proof (rule filter_True, rule ballI)
      fix p assume "p \<in> set (zip (take ?n xs) (take ?n (True # vs)))"
      then have "snd p \<in> set (take ?n (True # vs))" by (metis prod.collapse set_zip_rightD)
      then have "snd p \<in> insert True (set (takeWhile id vs))"
        by (simp add: takeWhile_eq_take [symmetric])
      then show "snd p" by (auto dest: set_takeWhileD)
    qed
    then have "map fst (filter snd (zip (take ?n xs) (take ?n (True # vs)))) = take ?n xs"
      using "3.prems" le by (simp del: take_Suc_Cons)
    moreover have "zip xs (True # vs) = zip (take ?n xs) (take ?n (True # vs)) @ zip (drop ?n xs) (drop ?n (True # vs))"
      by (metis append_take_drop_id drop_zip take_zip)
    ultimately show ?thesis by (metis filter_append map_append)
  qed
  ultimately show ?case by (simp only: runs_from.simps Let_def list.map concat.simps prod.case)
qed (simp add: text_slice_def)

lemma runs_from_range:
  "(i, j) \<in> set (runs_from c vs) \<Longrightarrow>
     c \<le> i \<and> i < j \<and> j \<le> c + length vs \<and> (\<forall>k. i \<le> k \<longrightarrow> k < j \<longrightarrow> vs ! (k - c)) \<and>
     (j < c + length vs \<longrightarrow> \<not> vs ! (j - c)) \<and> (c < i \<longrightarrow> \<not> vs ! (i - 1 - c))"
proof (induction c vs arbitrary: i j rule: runs_from.induct)
  case (2 c vs)
  then have ij: "(i, j) \<in> set (runs_from (c + 1) vs)" by simp
  have "i - c = Suc (i - (c + 1))" "j - c = Suc (j - (c + 1))" using "2.IH" [OF ij] by auto
  moreover have "(False # vs) ! (i - 1 - c) = (if i = c + 1 then False else vs ! (i - 1 - (c + 1)))"
    using "2.IH" [OF ij] by (auto simp: nth_Cons')
  moreover have "(False # vs) ! (k - c) = vs ! (k - (c + 1))" if "i \<le> k" for k
    using "2.IH" [OF ij] that by (auto simp: nth_Cons')
  ultimately show ?case using "2.IH" [OF ij] by auto
next
  case (3 c vs)
  let ?n = "Suc (length (takeWhile id vs))"
  have slots: "\<forall>k < ?n. (True # vs) ! k" "?n < length (True # vs) \<longrightarrow> \<not> (True # vs) ! ?n"
  proof -
    have "vs ! m" if "m < length (takeWhile id vs)" for m
      using that by (metis id_apply nth_mem set_takeWhileD takeWhile_nth)
    then show "\<forall>k < ?n. (True # vs) ! k" by (auto simp: nth_Cons')
    show "?n < length (True # vs) \<longrightarrow> \<not> (True # vs) ! ?n"
      using nth_length_takeWhile [of id vs] by auto
  qed
  have le: "?n \<le> length (True # vs)" using length_takeWhile_le [of id vs] by simp
  show ?case
  proof (cases "(i, j) = (c, c + ?n)")
    case True
    then show ?thesis using slots le by auto
  next
    case False
    then have ij: "(i, j) \<in> set (runs_from (c + ?n) (drop ?n (True # vs)))"
      using "3.prems" unfolding runs_from.simps Let_def by (metis set_ConsD)
    note IH = "3.IH" [OF refl ij]
    have nth: "drop ?n (True # vs) ! (k - (c + ?n)) = (True # vs) ! (k - c)" if "c + ?n \<le> k" for k
      using that le by (simp del: drop_Suc_Cons)
    have "c + ?n \<noteq> i"
    proof
      assume "c + ?n = i"
      then have "(True # vs) ! ?n" "?n < length (True # vs)" using IH nth [of i] by auto
      then show False using slots by blast
    qed
    moreover have "length (drop ?n (True # vs)) = length (True # vs) - ?n" by (simp only: length_drop)
    ultimately have "c + ?n \<le> i" "i < j" "j \<le> c + length (True # vs)" "c + ?n < i"
      using IH le by linarith+
    moreover have "\<forall>k. i \<le> k \<longrightarrow> k < j \<longrightarrow> (True # vs) ! (k - c)"
      using IH nth calculation(1) by (metis le_trans)
    moreover have "j < c + length (True # vs) \<longrightarrow> \<not> (True # vs) ! (j - c)"
      using IH nth [of j] calculation(1,2) le by (simp only: length_drop) linarith
    moreover have "\<not> (True # vs) ! (i - 1 - c)"
    proof -
      have "\<not> drop ?n (True # vs) ! (i - 1 - (c + ?n))" using IH calculation(4) by blast
      moreover have "c + ?n \<le> i - 1" using \<open>c + ?n < i\<close> by linarith
      ultimately show ?thesis using nth [of "i - 1"] by blast
    qed
    ultimately show ?thesis by auto
  qed
qed simp

lemma changed_kept:
  "list_all2 (\<lambda>g v. changed g \<longrightarrow> v) segs vs \<Longrightarrow> filter changed (map fst (filter snd (zip segs vs))) = filter changed segs"
  by (induction segs vs rule: list_all2_induct) auto

lemma changed_in_ranges:
  "concat (map (\<lambda>(i, j). filter changed (text_slice i j segs)) (collect_changed_ranges segs ctx)) = filter changed segs"
proof -
  have "list_all2 (\<lambda>g v. changed g \<longrightarrow> v) segs (visible_slots segs ctx)"
    by (auto simp: list_all2_conv_all_nth visible_slots_iff)
  then have "filter changed (map fst (filter snd (zip segs (visible_slots segs ctx)))) = filter changed segs"
    by (rule changed_kept)
  moreover have "concat (map (\<lambda>(i, j). text_slice i j segs) (runs_from 0 (visible_slots segs ctx))) =
      map fst (filter snd (zip segs (visible_slots segs ctx)))"
    using runs_from_parts [of "visible_slots segs ctx" segs "[]"] by (simp add: visible_slots_iff)
  ultimately have "filter changed (concat (map (\<lambda>(i, j). text_slice i j segs) (runs_from 0 (visible_slots segs ctx)))) =
      filter changed segs"
    by simp
  then show ?thesis
    unfolding collect_changed_ranges_def filter_concat map_map by (simp add: comp_def case_prod_unfold)
qed

lemma slice_nth: "i \<le> k \<Longrightarrow> k < j \<Longrightarrow> j \<le> length xs \<Longrightarrow> xs ! k \<in> set (text_slice i j xs)"
  by (auto simp: text_slice_def in_set_conv_nth intro!: exI [of _ "k - i"])

lemma range_has_change:
  assumes "(i, j) \<in> set (collect_changed_ranges segs ctx)"
  shows "i < j \<and> j \<le> length segs \<and> (\<exists>g \<in> set (text_slice i j segs). changed g)"
proof -
  let ?vs = "visible_slots segs ctx"
  have ij: "i < j" "j \<le> length segs" "\<forall>k. i \<le> k \<longrightarrow> k < j \<longrightarrow> ?vs ! k"
      "j < length segs \<longrightarrow> \<not> ?vs ! j" "0 < i \<longrightarrow> \<not> ?vs ! (i - 1)"
    using runs_from_range [of i j 0 ?vs] assms by (auto simp: collect_changed_ranges_def visible_slots_iff(1))
  then obtain c where c: "c < length segs" "changed (segs ! c)" "c \<le> i + ctx" "i \<le> c + ctx"
    using visible_slots_iff(2) [of i segs ctx] by auto
  have near: "?vs ! k" if "k < length segs" "c \<le> k + ctx" "k \<le> c + ctx" for k
    using visible_slots_iff(2) [OF that(1)] c that by blast
  have "i \<le> c"
  proof (rule ccontr)
    assume "\<not> i \<le> c"
    then have "?vs ! (i - 1)" using ij(1,2) c by (intro near) linarith+
    then show False using ij(5) \<open>\<not> i \<le> c\<close> by simp
  qed
  moreover have "c < j"
  proof (rule ccontr)
    assume "\<not> c < j"
    then have "?vs ! j" using ij(1,2) c by (intro near) linarith+
    then show False using ij(4) \<open>\<not> c < j\<close> c(1) by simp
  qed
  ultimately show ?thesis using slice_nth [of i c j segs] ij c by auto
qed

lemma no_changes_no_ranges: "collect_changed_ranges segs ctx = [] \<longleftrightarrow> (\<forall>g \<in> set segs. \<not> changed g)"
proof
  assume "collect_changed_ranges segs ctx = []"
  then show "\<forall>g \<in> set segs. \<not> changed g"
    using changed_in_ranges [of segs ctx] by (simp add: filter_empty_conv eq_commute [of "[]"])
next
  assume none: "\<forall>g \<in> set segs. \<not> changed g"
  show "collect_changed_ranges segs ctx = []"
  proof (rule ccontr)
    assume "collect_changed_ranges segs ctx \<noteq> []"
    then obtain i j where "(i, j) \<in> set (collect_changed_ranges segs ctx)" by (cases "collect_changed_ranges segs ctx") auto
    from range_has_change [OF this] none show False
      by (auto simp: text_slice_def dest!: in_set_takeD in_set_dropD)
  qed
qed

subsection \<open>Moves keep the hunks\<close>

definition same_content :: "diff_hunk \<Rightarrow> diff_hunk \<Rightarrow> bool" where
  "same_content h h' \<longleftrightarrow> dh_kind h' = dh_kind h \<and> dh_segments h' = dh_segments h \<and> dh_before h' = dh_before h \<and>
     dh_after h' = dh_after h \<and> dh_section h' = dh_section h \<and> dh_markers h' = dh_markers h \<and>
     prefix (dh_notes h) (dh_notes h')"

text \<open>
  How the move annotations of a list of hunks fit together: \<open>consumed\<close> marks the hunks with a role, a
  source is a removal and a target an addition, both with one partner in their group, and an edited move
  is a modification in a group of its own.
\<close>

definition moves_fit :: "diff_hunk list \<Rightarrow> bool list \<Rightarrow> nat \<Rightarrow> bool" where
  "moves_fit hs consumed next_group \<longleftrightarrow>
     length consumed = length hs \<and>
     (\<forall>i < length hs. consumed ! i \<longleftrightarrow> dh_move_role (hs ! i) \<noteq> None) \<and>
     (\<forall>i < length hs. case dh_move_role (hs ! i) of
        None \<Rightarrow> dh_move_group (hs ! i) = None \<or> dh_kind (hs ! i) = Modification
      | Some MoveSource \<Rightarrow> dh_kind (hs ! i) = Removal \<and>
          (\<exists>j < length hs. dh_move_role (hs ! j) = Some MoveTarget \<and> dh_move_group (hs ! j) = dh_move_group (hs ! i))
      | Some MoveTarget \<Rightarrow> dh_kind (hs ! i) = Addition \<and>
          (\<exists>j < length hs. dh_move_role (hs ! j) = Some MoveSource \<and> dh_move_group (hs ! j) = dh_move_group (hs ! i))) \<and>
     (\<forall>i < length hs. dh_move_role (hs ! i) \<noteq> None \<longrightarrow> dh_move_group (hs ! i) \<noteq> None) \<and>
     (\<forall>i < length hs. \<forall>g. dh_move_group (hs ! i) = Some g \<longrightarrow> 0 < g \<and> g < next_group) \<and>
     (\<forall>i < length hs. \<forall>j < length hs. i \<noteq> j \<longrightarrow> dh_move_group (hs ! i) \<noteq> None \<longrightarrow>
        dh_move_group (hs ! i) = dh_move_group (hs ! j) \<longrightarrow>
        dh_move_role (hs ! i) \<noteq> None \<and> dh_move_role (hs ! i) \<noteq> dh_move_role (hs ! j))"

text \<open>The block that left and the block that arrived count as the same: their words match.\<close>

definition look_alike :: "(string \<Rightarrow> bool) \<Rightarrow> diff_hunk \<Rightarrow> diff_hunk \<Rightarrow> bool" where
  "look_alike uni a b \<longleftrightarrow>
     (case (normalized_change_text a, normalized_change_text b) of
        (Some s, Some t) \<Rightarrow> is_probable_move_match uni s t
      | _ \<Rightarrow> False)"

definition moves_alike :: "(string \<Rightarrow> bool) \<Rightarrow> diff_hunk list \<Rightarrow> bool" where
  "moves_alike uni hs \<longleftrightarrow>
     (\<forall>i < length hs. \<forall>j < length hs. dh_move_role (hs ! i) = Some MoveSource \<longrightarrow>
        dh_move_role (hs ! j) = Some MoveTarget \<longrightarrow> dh_move_group (hs ! i) = dh_move_group (hs ! j) \<longrightarrow>
        look_alike uni (hs ! i) (hs ! j))"

lemma change_text_mark [simp]: "normalized_change_text (mark_move g r h) = normalized_change_text h"
  by (cases "dh_kind h") (simp_all add: normalized_change_text_def mark_move_def)

lemma look_alike_mark [simp]:
  "look_alike uni (mark_move g r a) b = look_alike uni a b" "look_alike uni a (mark_move g r b) = look_alike uni a b"
  by (simp_all add: look_alike_def)

lemma pair_move_alike:
  assumes fits: "moves_fit hs consumed g" and source: "source < length hs" and alike: "moves_alike uni hs"
    and step: "pair_move uni source (hs, consumed, g) = (hs', consumed', g')"
  shows "moves_alike uni hs'"
proof (cases "hs' = hs")
  case False
  then obtain t where "find (moves_to uni hs consumed source) [0..<length hs] = Some t"
    and hs': "hs' = hs[source := mark_move g MoveSource (hs ! source), t := mark_move g MoveTarget (hs ! t)]"
    using step by (auto simp: pair_move_def split: if_splits option.splits)
  then have t: "t < length hs" "source \<noteq> t" and pair: "look_alike uni (hs ! source) (hs ! t)"
    by (auto simp: find_Some_iff moves_to_def look_alike_def)
  have nth: "hs' ! i = (if i = t then mark_move g MoveTarget (hs ! t)
      else if i = source then mark_move g MoveSource (hs ! source) else hs ! i)" if "i < length hs" for i
    using that source t(1) by (simp add: hs' nth_list_update)
  have below: "dh_move_group (hs ! i) \<noteq> Some g" if "i < length hs" for i
    using fits that unfolding moves_fit_def by blast
  show ?thesis
    unfolding moves_alike_def
  proof (intro allI impI)
    fix i j
    assume i: "i < length hs'" and j: "j < length hs'" and roles: "dh_move_role (hs' ! i) = Some MoveSource"
      "dh_move_role (hs' ! j) = Some MoveTarget" and group: "dh_move_group (hs' ! i) = dh_move_group (hs' ! j)"
    from i j have len: "i < length hs" "j < length hs" by (simp_all add: hs')
    have "i \<noteq> t" "j \<noteq> source" using roles nth [OF len(1)] nth [OF len(2)] t(2) by (auto simp: mark_move_def split: if_splits)
    moreover have "i = source \<longleftrightarrow> j = t"
      using group below [OF len(1)] below [OF len(2)] nth [OF len(1)] nth [OF len(2)] \<open>i \<noteq> t\<close> \<open>j \<noteq> source\<close>
      by (auto simp: mark_move_def split: if_splits)
    ultimately show "look_alike uni (hs' ! i) (hs' ! j)"
      using pair alike roles group nth [OF len(1)] nth [OF len(2)] len t(2)
      by (cases "i = source") (auto simp: moves_alike_def)
  qed
qed (use alike in simp)

lemma moves_fit_plain:
  "moves_fit hs consumed g \<Longrightarrow> i < length hs \<Longrightarrow> dh_move_role (hs ! i) = None \<Longrightarrow>
     dh_move_group (hs ! i) = None \<or> dh_kind (hs ! i) = Modification"
  by (fastforce simp: moves_fit_def split: option.splits)

lemma in_place_fits:
  assumes "annotate_in_place uni g hs = (hs', g')" "list_all (\<lambda>h. dh_move_group h = None \<and> dh_move_role h = None) hs"
  shows "length hs' = length hs \<and> g \<le> g' \<and> list_all2 same_content hs hs' \<and>
    (\<forall>i < length hs'. dh_move_role (hs' ! i) = None) \<and>
    (\<forall>i < length hs'. \<forall>n. dh_move_group (hs' ! i) = Some n \<longrightarrow> g \<le> n \<and> n < g' \<and> dh_kind (hs' ! i) = Modification) \<and>
    (\<forall>i < length hs'. \<forall>j < length hs'. i \<noteq> j \<longrightarrow> dh_move_group (hs' ! i) \<noteq> None \<longrightarrow> dh_move_group (hs' ! i) \<noteq> dh_move_group (hs' ! j))"
  using assms
proof (induction uni g hs arbitrary: hs' g' rule: annotate_in_place.induct)
  case (2 uni g h hs)
  let ?c = "edited_move uni h"
  define g1 where "g1 = (if ?c then g + 1 else g)"
  obtain hs1 where rest: "annotate_in_place uni g1 hs = (hs1, g')"
    and hs': "\<exists>h'. hs' = h' # hs1 \<and> same_content h h' \<and> dh_move_role h' = None \<and>
      (dh_move_group h' = None \<or> dh_move_group h' = Some g \<and> dh_kind h' = Modification \<and> g1 = g + 1)"
    using "2.prems" by (cases ?c) (auto simp: g1_def same_content_def edited_move_def split: prod.splits)
  have prem: "list_all (\<lambda>h. dh_move_group h = None \<and> dh_move_role h = None) hs"
    using "2.prems"(2) by simp
  have IH: "length hs1 = length hs \<and> g1 \<le> g' \<and> list_all2 same_content hs hs1 \<and>
    (\<forall>i < length hs1. dh_move_role (hs1 ! i) = None) \<and>
    (\<forall>i < length hs1. \<forall>n. dh_move_group (hs1 ! i) = Some n \<longrightarrow> g1 \<le> n \<and> n < g' \<and> dh_kind (hs1 ! i) = Modification) \<and>
    (\<forall>i < length hs1. \<forall>j < length hs1. i \<noteq> j \<longrightarrow> dh_move_group (hs1 ! i) \<noteq> None \<longrightarrow> dh_move_group (hs1 ! i) \<noteq> dh_move_group (hs1 ! j))"
  proof (cases ?c)
    case True
    then have eq: "annotate_in_place uni (g + 1) hs = (hs1, g')" using rest by (simp add: g1_def)
    have "g1 = g + 1" using True by (simp add: g1_def)
    from "2.IH"(1) [OF True eq prem, folded this] show ?thesis .
  next
    case False
    then have eq: "annotate_in_place uni g hs = (hs1, g')" using rest by (simp add: g1_def)
    have "g = g1" using False by (simp add: g1_def)
    from "2.IH"(2) [OF False eq prem] show ?thesis unfolding \<open>g = g1\<close> [symmetric] .
  qed
  from hs' obtain h' where h': "hs' = h' # hs1" "same_content h h'" "dh_move_role h' = None"
      "dh_move_group h' = None \<or> dh_move_group h' = Some g \<and> dh_kind h' = Modification \<and> g1 = g + 1"
    by blast
  have "g \<le> g1" by (simp add: g1_def)
  have fresh: "dh_move_group h' \<noteq> None \<longrightarrow> dh_move_group h' \<noteq> dh_move_group (hs1 ! i)" if "i < length hs1" for i
    using h'(4) IH that by fastforce
  show ?case
    unfolding h'(1) using IH h' \<open>g \<le> g1\<close> fresh
    by (auto simp: nth_Cons' less_Suc_eq_0_disj) (fastforce+)?
qed simp

lemma pair_move_fits:
  assumes "moves_fit hs consumed g" "source < length hs" "0 < g"
    and "pair_move uni source (hs, consumed, g) = (hs', consumed', g')"
  shows "moves_fit hs' consumed' g' \<and> 0 < g' \<and> length hs' = length hs \<and> list_all2 same_content hs hs'"
proof (cases "consumed ! source \<or> dh_kind (hs ! source) \<noteq> Removal \<or>
    find (moves_to uni hs consumed source) [0..<length hs] = None")
  case True
  then have "hs' = hs" "consumed' = consumed" "g' = g"
    using assms(4) by (auto simp: pair_move_def split: option.splits if_splits)
  then show ?thesis using assms by (simp add: list_all2_same same_content_def)
next
  case False
  then obtain t where found: "find (moves_to uni hs consumed source) [0..<length hs] = Some t" by auto
  then have t: "t < length hs" "moves_to uni hs consumed source t"
    by (auto simp: find_Some_iff)
  let ?s' = "mark_move g MoveSource (hs ! source)" and ?t' = "mark_move g MoveTarget (hs ! t)"
  have eqs: "hs' = hs[source := ?s', t := ?t']" "consumed' = consumed[source := True, t := True]" "g' = g + 1"
    using assms(4) False found by (auto simp: pair_move_def)
  have ne: "source \<noteq> t" and free: "\<not> consumed ! source" "\<not> consumed ! t"
    and kinds: "dh_kind (hs ! source) = Removal" "dh_kind (hs ! t) = Addition"
    using t(2) False by (auto simp: moves_to_def)
  have len: "length consumed = length hs" using assms(1) by (simp add: moves_fit_def)
  have nth: "hs' ! i = (if i = t then ?t' else if i = source then ?s' else hs ! i)" if "i < length hs" for i
    using that assms(2) t(1) by (simp add: eqs nth_list_update)
  have len': "length hs' = length hs" by (simp add: eqs(1))
  have consumedD: "consumed ! i \<longleftrightarrow> dh_move_role (hs ! i) \<noteq> None"
    and groupedD: "dh_move_role (hs ! i) \<noteq> None \<longrightarrow> dh_move_group (hs ! i) \<noteq> None"
    and boundD: "dh_move_group (hs ! i) = Some n \<longrightarrow> 0 < n \<and> n < g" if "i < length hs" for i n
    using assms(1) that unfolding moves_fit_def by blast+
  have plainD: "dh_move_group (hs ! i) = None \<or> dh_kind (hs ! i) = Modification"
    if "i < length hs" "dh_move_role (hs ! i) = None" for i
    using moves_fit_plain [OF assms(1) that] .
  have unroled: "dh_move_role (hs ! source) = None" "dh_move_role (hs ! t) = None"
    using consumedD [OF assms(2)] consumedD [OF t(1)] free by simp_all
  have ungrouped: "dh_move_group (hs ! source) = None" "dh_move_group (hs ! t) = None"
    using plainD [OF assms(2) unroled(1)] plainD [OF t(1) unroled(2)] kinds by simp_all
  have below: "dh_move_group (hs ! i) \<noteq> Some g" if "i < length hs" for i
    using boundD [OF that, of g] by auto
  have "list_all2 same_content hs hs'"
    unfolding list_all2_conv_all_nth
  proof (intro conjI allI impI)
    fix i assume "i < length hs"
    then show "same_content (hs ! i) (hs' ! i)" using nth [of i] by (simp add: same_content_def mark_move_def)
  qed (simp add: eqs(1))
  moreover have "moves_fit hs' consumed' g'"
    unfolding moves_fit_def
  proof (intro conjI allI impI)
    show "length consumed' = length hs'" by (simp add: eqs len)
  next
    fix i assume "i < length hs'"
    then have i: "i < length hs" by (simp only: len')
    then show "consumed' ! i \<longleftrightarrow> dh_move_role (hs' ! i) \<noteq> None"
      unfolding nth [OF i] eqs(2) using consumedD [OF i] len by (simp add: nth_list_update mark_move_def)
  next
    fix i assume i: "i < length hs'"
    have other: "\<exists>j < length hs'. dh_move_role (hs' ! j) = Some r \<and> dh_move_group (hs' ! j) = dh_move_group (hs' ! i)"
      if "i \<noteq> source" "i \<noteq> t" "\<exists>j < length hs. dh_move_role (hs ! j) = Some r \<and> dh_move_group (hs ! j) = dh_move_group (hs ! i)" for r
    proof -
      from that(3) obtain j where "j < length hs" "dh_move_role (hs ! j) = Some r" "dh_move_group (hs ! j) = dh_move_group (hs ! i)" by blast
      moreover from this have "j \<noteq> source" "j \<noteq> t" using unroled by auto
      ultimately show ?thesis using that nth [of j] nth [of i] i by (intro exI [of _ j]) (simp add: len')
    qed
    show "case dh_move_role (hs' ! i) of
        None \<Rightarrow> dh_move_group (hs' ! i) = None \<or> dh_kind (hs' ! i) = Modification
      | Some MoveSource \<Rightarrow> dh_kind (hs' ! i) = Removal \<and>
          (\<exists>j < length hs'. dh_move_role (hs' ! j) = Some MoveTarget \<and> dh_move_group (hs' ! j) = dh_move_group (hs' ! i))
      | Some MoveTarget \<Rightarrow> dh_kind (hs' ! i) = Addition \<and>
          (\<exists>j < length hs'. dh_move_role (hs' ! j) = Some MoveSource \<and> dh_move_group (hs' ! j) = dh_move_group (hs' ! i))"
    proof -
      consider "i = source" | "i = t" | "i \<noteq> source" "i \<noteq> t" by blast
      then show ?thesis
      proof cases
        case 1
        then show ?thesis using nth [of i] nth [of t] t(1) assms(2) ne kinds
          by (simp add: mark_move_def len') (rule exI [of _ t], simp)
      next
        case 2
        then show ?thesis using nth [of i] nth [of source] t(1) assms(2) ne kinds
          by (simp add: mark_move_def len') (rule exI [of _ source], simp)
      next
        case 3
        then have same: "hs' ! i = hs ! i" "i < length hs" using nth i by (simp_all add: len')
        have old: "case dh_move_role (hs ! i) of
            None \<Rightarrow> dh_move_group (hs ! i) = None \<or> dh_kind (hs ! i) = Modification
          | Some MoveSource \<Rightarrow> dh_kind (hs ! i) = Removal \<and>
              (\<exists>j < length hs. dh_move_role (hs ! j) = Some MoveTarget \<and> dh_move_group (hs ! j) = dh_move_group (hs ! i))
          | Some MoveTarget \<Rightarrow> dh_kind (hs ! i) = Addition \<and>
              (\<exists>j < length hs. dh_move_role (hs ! j) = Some MoveSource \<and> dh_move_group (hs ! j) = dh_move_group (hs ! i))"
          using assms(1) same(2) unfolding moves_fit_def by blast
        show ?thesis
          using old other [OF 3, of MoveSource] other [OF 3, of MoveTarget] same(1)
          by (cases "dh_move_role (hs ! i)"; cases "the (dh_move_role (hs ! i))") simp_all
      qed
    qed
  next
    fix i assume "i < length hs'" "dh_move_role (hs' ! i) \<noteq> None"
    then show "dh_move_group (hs' ! i) \<noteq> None"
      using nth [of i] groupedD [of i] by (auto simp: len' mark_move_def split: if_splits)
  next
    fix i n assume "i < length hs'" "dh_move_group (hs' ! i) = Some n"
    then have "0 < n \<and> (n = g \<or> n < g)"
      using nth [of i] boundD [of i n] assms(3) by (auto simp: len' mark_move_def split: if_splits)
    then show "0 < n" "n < g'" by (simp_all add: eqs(3) less_Suc_eq disj_commute)
  next
    fix i j assume ij: "i < length hs'" "j < length hs'" "i \<noteq> j" "dh_move_group (hs' ! i) \<noteq> None"
      "dh_move_group (hs' ! i) = dh_move_group (hs' ! j)"
    have old: "dh_move_group (hs ! i) \<noteq> None \<longrightarrow> dh_move_group (hs ! i) = dh_move_group (hs ! j) \<longrightarrow>
        dh_move_role (hs ! i) \<noteq> None \<and> dh_move_role (hs ! i) \<noteq> dh_move_role (hs ! j)"
      using assms(1) ij(1-3) unfolding len' moves_fit_def by blast
    have "dh_move_role (hs' ! i) \<noteq> None \<and> dh_move_role (hs' ! i) \<noteq> dh_move_role (hs' ! j)"
      using ij old nth [of i] nth [of j] below [of i] below [of j]
      by (auto simp: len' mark_move_def split: if_splits)
    then show "dh_move_role (hs' ! i) \<noteq> None" "dh_move_role (hs' ! i) \<noteq> dh_move_role (hs' ! j)" by blast+
  qed
  ultimately show ?thesis using assms(3) by (simp add: len' eqs(3))
qed

lemma same_content_trans: "same_content a b \<Longrightarrow> same_content b c \<Longrightarrow> same_content a c"
  by (auto simp: same_content_def intro: prefix_order.trans)

lemma same_contents_trans:
  "list_all2 same_content hs hs1 \<Longrightarrow> list_all2 same_content hs1 hs2 \<Longrightarrow> list_all2 same_content hs hs2"
  by (rule list_all2_trans [of same_content same_content same_content]) (rule same_content_trans)

lemma pair_moves_fit:
  assumes "moves_fit hs consumed g" "set is \<subseteq> {..<length hs}" "0 < g" "moves_alike uni hs"
    and "fold (pair_move uni) is (hs, consumed, g) = (hs', consumed', g')"
  shows "moves_fit hs' consumed' g' \<and> moves_alike uni hs' \<and> list_all2 same_content hs hs'"
  using assms
proof (induction "is" arbitrary: hs consumed g)
  case Nil
  then show ?case by (simp add: list_all2_same same_content_def)
next
  case (Cons i "is")
  obtain hs1 c1 g1 where step: "pair_move uni i (hs, consumed, g) = (hs1, c1, g1)" by (metis prod_cases3)
  from pair_move_fits [OF Cons.prems(1) _ Cons.prems(3) step] Cons.prems(2)
  have 1: "moves_fit hs1 c1 g1" "0 < g1" "length hs1 = length hs" "list_all2 same_content hs hs1" by auto
  have "moves_alike uni hs1"
    using pair_move_alike [OF Cons.prems(1) _ Cons.prems(4) step] Cons.prems(2) by simp
  then have "moves_fit hs' consumed' g' \<and> moves_alike uni hs' \<and> list_all2 same_content hs1 hs'"
    using Cons.IH [OF 1(1) _ 1(2)] Cons.prems(2,5) 1(3) step by simp
  then show ?case using 1(4) same_contents_trans by blast
qed

lemma moves_fit_unused:
  assumes "annotate_in_place uni 1 hs = (hs', g)" "list_all (\<lambda>h. dh_move_group h = None \<and> dh_move_role h = None) hs"
  shows "moves_fit hs' (replicate (length hs') False) g \<and> 0 < g \<and> moves_alike uni hs' \<and> list_all2 same_content hs hs'"
proof -
  note fits = in_place_fits [OF assms]
  have roles: "dh_move_role (hs' ! i) = None" if "i < length hs'" for i using fits that by blast
  have groups: "1 \<le> n \<and> n < g \<and> dh_kind (hs' ! i) = Modification" if "i < length hs'" "dh_move_group (hs' ! i) = Some n" for i n
    using fits that by blast
  have "moves_fit hs' (replicate (length hs') False) g"
    unfolding moves_fit_def
  proof (intro conjI allI impI)
    fix i assume i: "i < length hs'"
    show "case dh_move_role (hs' ! i) of
        None \<Rightarrow> dh_move_group (hs' ! i) = None \<or> dh_kind (hs' ! i) = Modification
      | Some MoveSource \<Rightarrow> dh_kind (hs' ! i) = Removal \<and>
          (\<exists>j < length hs'. dh_move_role (hs' ! j) = Some MoveTarget \<and> dh_move_group (hs' ! j) = dh_move_group (hs' ! i))
      | Some MoveTarget \<Rightarrow> dh_kind (hs' ! i) = Addition \<and>
          (\<exists>j < length hs'. dh_move_role (hs' ! j) = Some MoveSource \<and> dh_move_group (hs' ! j) = dh_move_group (hs' ! i))"
      using roles [OF i] groups [OF i] by (cases "dh_move_group (hs' ! i)") auto
  next
    fix i j assume "i < length hs'" "j < length hs'" "i \<noteq> j" "dh_move_group (hs' ! i) \<noteq> None"
      "dh_move_group (hs' ! i) = dh_move_group (hs' ! j)"
    then show "dh_move_role (hs' ! i) \<noteq> None" "dh_move_role (hs' ! i) \<noteq> dh_move_role (hs' ! j)" using fits by blast+
  qed (use roles groups in \<open>auto simp: Suc_le_eq\<close>)
  moreover have "moves_alike uni hs'" using roles by (simp add: moves_alike_def)
  ultimately show ?thesis using fits by linarith
qed

lemma annotate_moves_fits:
  assumes "list_all (\<lambda>h. dh_move_group h = None \<and> dh_move_role h = None) hs"
  shows "\<exists>consumed g. moves_fit (annotate_moves uni hs) consumed g \<and> moves_alike uni (annotate_moves uni hs) \<and>
    list_all2 same_content hs (annotate_moves uni hs)"
proof -
  obtain hs1 g1 where first: "annotate_in_place uni 1 hs = (hs1, g1)" by fastforce
  obtain hs2 c2 g2 where second: "fold (pair_move uni) [0..<length hs1] (hs1, replicate (length hs1) False, g1) = (hs2, c2, g2)"
    by (metis prod_cases3)
  from moves_fit_unused [OF first assms]
  have 1: "moves_fit hs1 (replicate (length hs1) False) g1" "0 < g1" "moves_alike uni hs1" "list_all2 same_content hs hs1" by auto
  have "moves_fit hs2 c2 g2" "moves_alike uni hs2" "list_all2 same_content hs1 hs2"
    using pair_moves_fit [OF 1(1) _ 1(2,3) second] by (simp_all add: atLeast0LessThan)
  moreover have "annotate_moves uni hs = hs2"
    using first second by (simp add: annotate_moves_def)
  ultimately show ?thesis using 1(4) same_contents_trans by blast
qed

subsection \<open>Line diffs return\<close>

text \<open>
  The documented behaviour of a line diff: its changes are whole lines, so that on each side every change
  but the last ends with a line feed or a carriage return.
\<close>

definition ends_line :: "string \<Rightarrow> bool" where
  "ends_line t \<longleftrightarrow> t \<noteq> [] \<and> last t \<in> {CHR 0x0A, CHR 0x0D}"

definition line_changes :: "change list \<Rightarrow> bool" where
  "line_changes cs \<longleftrightarrow>
     list_all ends_line (butlast (map snd (filter (\<lambda>c. fst c \<noteq> SegInsert) cs))) \<and>
     list_all ends_line (butlast (map snd (filter (\<lambda>c. fst c \<noteq> SegDelete) cs)))"

definition lines_differ :: "diff_env \<Rightarrow> bool" where
  "lines_differ env \<longleftrightarrow> diffs_texts (de_line_diff env) \<and> (\<forall>a b. line_changes (de_line_diff env a b))"

lemma line_sublist: "line \<in> set (lines_from acc s) \<Longrightarrow> sublist line (rev acc @ s)"
proof (induction acc s rule: lines_from.induct)
  case (2 acc c s)
  show ?case
  proof (cases "c = CHR 0x0A")
    case True
    then consider "line = rev (case acc of d # acc' \<Rightarrow> if d = CHR 0x0D then acc' else acc | [] \<Rightarrow> [])" | "line \<in> set (lines_from [] s)"
      using "2.prems" by auto
    then show ?thesis
    proof cases
      case 1
      then show ?thesis by (cases acc) (auto intro: prefix_imp_sublist)
    next
      case 2
      then have "sublist line s" using "2.IH"(1) [OF True] by simp
      then show ?thesis by (metis append_Cons append_Nil sublist_appendI sublist_order.order.trans append_assoc append.right_neutral)
    qed
  next
    case False
    then show ?thesis using "2.prems" "2.IH"(2) [OF False] by simp
  qed
qed (auto split: if_splits)

lemma rule_sublist: "rule_line line \<Longrightarrow> sublist ''===='' line"
proof -
  assume "rule_line line"
  then have long: "4 \<le> length (str_trim line)" and "\<forall>y \<in> set (str_trim line). y = CHR ''=''"
    by (auto simp: rule_line_def)
  from replicate_length_same [OF this(2)] have "str_trim line = replicate (length (str_trim line)) (CHR ''='')" by simp
  moreover obtain n where "length (str_trim line) = 4 + n" using long le_Suc_ex by blast
  ultimately have "str_trim line = replicate 4 (CHR ''='') @ replicate n (CHR ''='')"
    by (metis replicate_add)
  then have "sublist ''===='' (str_trim line)"
    using prefix_imp_sublist [OF prefixI] by (simp add: numeral_eq_Suc)
  then show ?thesis using trim_sublist sublist_order.order.trans by blast
qed

lemma sublist_of_chunk:
  assumes "list_all ends_line (butlast ts)" "sublist pat (concat ts)" "pat \<noteq> []" "CHR 0x0A \<notin> set pat" "CHR 0x0D \<notin> set pat"
  shows "\<exists>t \<in> set ts. sublist pat t"
  using assms(1,2)
proof (induction ts)
  case Nil
  then show ?case using assms(3) by simp
next
  case (Cons t ts)
  show ?case
  proof (cases "ts = []")
    case False
    then have "ends_line t" "list_all ends_line (butlast ts)" using Cons.prems(1) by auto
    then obtain u c where t: "t = u @ [c]" "c \<in> {CHR 0x0A, CHR 0x0D}"
      by (auto simp: ends_line_def) (metis append_butlast_last_id)+
    then have "sublist pat (u @ c # concat ts)" "c \<notin> set pat" using Cons.prems(2) assms(4,5) by auto
    from sublist_sep [OF this] show ?thesis
    proof
      assume "sublist pat u"
      then have "sublist pat t" unfolding t(1) by (metis sublist_order.order.trans prefixI prefix_imp_sublist)
      then show ?thesis by simp
    next
      assume "sublist pat (concat ts)"
      from Cons.IH [OF \<open>list_all ends_line (butlast ts)\<close> this] show ?thesis by auto
    qed
  qed (use Cons.prems in simp)
qed

lemma butlast_subseq: "subseq ys xs \<Longrightarrow> list_all P (butlast xs) \<Longrightarrow> list_all P (butlast ys)"
proof (induction rule: list_emb.induct)
  case (list_emb_Cons xs ys y)
  then show ?case by (cases ys) (auto split: if_splits)
next
  case (list_emb_Cons2 x y xs ys)
  then show ?case by (cases "xs = []"; cases "ys = []") auto
qed simp

lemma chunk_of_side:
  assumes "t \<in> set (map snd (filter P cs))"
  shows "sublist t (concat (map snd (filter P cs)))"
  using assms by (auto dest!: split_list intro: sublist_appendI)

definition content :: "diff_segment \<Rightarrow> change" where
  "content g = (dg_kind g, dg_text g)"

lemma highlights_content: "map content (compute_inline_highlights env segs) = map content segs"
  by (induction env segs rule: compute_inline_highlights.induct) (auto simp: content_def split: prod.split)

lemma side_texts_subseq:
  assumes "map content segs = cs" "k \<noteq> k'"
  shows "subseq (map dg_text (filter (\<lambda>g. dg_kind g = k) (text_slice i j segs))) (map snd (filter (\<lambda>c. fst c \<noteq> k') cs))"
proof -
  have "subseq (text_slice i j segs) segs"
    unfolding text_slice_def by (metis prefix_imp_sublist sublist_imp_subseq suffix_imp_sublist suffix_drop take_is_prefix subseq_order.trans)
  then have "subseq (map content (text_slice i j segs)) cs"
    using assms(1) subseq_map by blast
  then have s1: "subseq (map snd (filter (\<lambda>c. fst c = k) (map content (text_slice i j segs)))) (map snd (filter (\<lambda>c. fst c = k) cs))"
    by (intro subseq_map subseq_filter)
  have "filter (\<lambda>c. fst c = k) cs = filter (\<lambda>c. fst c = k) (filter (\<lambda>c. fst c \<noteq> k') cs)"
    using assms(2) by (auto simp: filter_filter intro: filter_cong)
  then have s2: "subseq (map snd (filter (\<lambda>c. fst c = k) cs)) (map snd (filter (\<lambda>c. fst c \<noteq> k') cs))"
    by (metis subseq_filter_left subseq_map)
  have s3: "map snd (filter (\<lambda>c. fst c = k) (map content (text_slice i j segs))) =
      map dg_text (filter (\<lambda>g. dg_kind g = k) (text_slice i j segs))"
    by (simp add: filter_map comp_def content_def)
  from subseq_order.trans [OF s1 s2] show ?thesis by (simp only: s3)
qed

lemma side_text_plain:
  assumes "map content segs = cs" "k \<noteq> k'" "list_all ends_line (butlast (map snd (filter (\<lambda>c. fst c \<noteq> k') cs)))"
    "sublist ''===='' (side_text k (text_slice i j segs))"
  shows "sublist ''===='' (concat (map snd (filter (\<lambda>c. fst c \<noteq> k') cs)))"
proof -
  let ?ts = "map dg_text (filter (\<lambda>g. dg_kind g = k) (text_slice i j segs))"
  have sub: "subseq ?ts (map snd (filter (\<lambda>c. fst c \<noteq> k') cs))"
    by (rule side_texts_subseq [OF assms(1,2)])
  have "\<exists>t \<in> set ?ts. sublist ''===='' t"
    by (rule sublist_of_chunk) (use butlast_subseq [OF sub assms(3)] assms(4) in \<open>simp_all add: side_text_def\<close>)
  then obtain t where t: "t \<in> set ?ts" "sublist ''===='' t" by blast
  have "t \<in> set (map snd (filter (\<lambda>c. fst c \<noteq> k') cs))"
    using list_emb_set [OF sub t(1)] by auto
  from chunk_of_side [OF this] t(2) show ?thesis using sublist_order.order.trans by blast
qed

lemma markers_total:
  assumes "lines_differ env" "map content segs = de_line_diff env before after"
    "\<not> str_contains before ''===='' " "\<not> str_contains after ''===='' "
  shows "collect_hunk_markers (text_slice i j segs) \<noteq> None"
proof -
  let ?ins = "side_text SegInsert (text_slice i j segs)" and ?del = "side_text SegDelete (text_slice i j segs)"
  have sides: "old_side (de_line_diff env before after) = before" "new_side (de_line_diff env before after) = after"
    using assms(1) by (auto simp: lines_differ_def diffs_texts_def)
  have plain: "\<not> sublist ''===='' ?ins" "\<not> sublist ''===='' ?del"
    using side_text_plain [OF assms(2), of SegInsert SegDelete i j] side_text_plain [OF assms(2), of SegDelete SegInsert i j]
      assms(1,3,4) sides
    by (auto simp: lines_differ_def line_changes_def str_contains_iff old_side_def new_side_def)
  have "\<not> rule_line line" if "line \<in> set (str_lines (?ins @ CHR 0x0A # ?del))" for line
  proof
    assume "rule_line line"
    from rule_sublist [OF this] have "sublist ''===='' (?ins @ CHR 0x0A # ?del)"
    proof (rule sublist_order.order.trans)
      show "sublist line (?ins @ CHR 0x0A # ?del)"
        using line_sublist [of line "[]" "?ins @ CHR 0x0A # ?del"] that by (simp add: str_lines_def)
    qed
    from sublist_sep [OF this] plain show False by auto
  qed
  then have "any_heading (str_lines (?ins @ CHR 0x0A # ?del)) \<noteq> None" by (intro any_heading_total) blast
  then show ?thesis by (simp add: collect_hunk_markers_def Let_def)
qed

lemma index_total: "\<not> str_contains s ''===='' \<Longrightarrow> build_section_index s \<noteq> None"
  unfolding section_index_panics str_contains_iff str_lines_def
  using rule_sublist line_sublist [of _ "[]" s] by (metis append_Nil rev.simps(1) sublist_order.order.trans)

lemma hunks_total:
  assumes "lines_differ env" "map content segs = de_line_diff env before after"
    "\<not> str_contains before ''===='' " "\<not> str_contains after ''===='' "
  shows "\<exists>hunks bs as'. build_diff_hunks uni segs before after ctx = Some (annotate_moves uni hunks) \<and>
    map Some hunks = map (\<lambda>(i, j). build_hunk bs as' (text_slice i j segs)) (collect_changed_ranges segs ctx)"
proof (cases "collect_changed_ranges segs ctx = []")
  case True
  then show ?thesis by (intro exI [of _ "[]"]) (simp add: build_diff_hunks_def annotate_moves_def)
next
  case False
  obtain bs as' where index: "build_section_index before = Some bs" "build_section_index after = Some as'"
    using index_total [OF assms(3)] index_total [OF assms(4)] by auto
  have "build_hunk bs as' (text_slice i j segs) \<noteq> None" for i j
    using markers_total [OF assms] by (simp add: build_hunk_def Let_def)
  then have "those (map (\<lambda>(i, j). build_hunk bs as' (text_slice i j segs)) (collect_changed_ranges segs ctx)) \<noteq> None"
    unfolding those_None by (auto simp: image_iff split_beta) (metis option.distinct(1))
  then obtain hunks where hunks: "those (map (\<lambda>(i, j). build_hunk bs as' (text_slice i j segs)) (collect_changed_ranges segs ctx)) = Some hunks"
    by auto
  then show ?thesis using False index
    by (intro exI [of _ hunks] exI [of _ bs] exI [of _ as']) (simp add: build_diff_hunks_def those_Some)
qed

end
