(* ===== verification/Diff_Highlights.thy ===== *)
theory Diff_Highlights
  imports Diff_Inline
begin

section \<open>What inline highlights say\<close>

text \<open>
  The properties of the inline highlights of \<open>diff_engine.rs\<close>: what text the spans of a deleted and an
  inserted line write, that the iteration order of the hash map of phrases has no influence, and two
  ways in which the highlights differ from the change they stand for.
\<close>

subsection \<open>The text of the spans\<close>

lemma spans_of_changes_text: "concat (map is_text (spans_of_changes cs)) = concat (map snd cs)"
  by (induction cs) (auto simp: spans_of_changes_def)

lemma build_spans_text:
  assumes "ordered_ranges 0 (length s) rs" "rs \<noteq> []"
  shows "concat (map is_text (build_inline_spans_from_equal_ranges s rs kind)) = concat (map written_piece (pieces s 0 rs)) \<and>
    concat (map snd (pieces s 0 rs)) = s"
proof -
  note written = spans_from_text [OF assms(1), of kind]
  have "spans_from s 0 rs kind \<noteq> []"
    using assms by (cases rs) (auto simp: ordered_ranges_def inside_def)
  then show ?thesis using written by (simp add: build_inline_spans_from_equal_ranges_def)
qed

text \<open>
  Inline highlights: on either side the spans write the line they highlight, piece by piece, except
  that a gap between anchors that is only white space is written twice.
\<close>

theorem inline_highlights_text:
  assumes "diffs_texts (de_word_diff env)" and "compute_inline_highlight_pair env before after = (del, ins)"
  shows "\<exists>ps qs. concat (map snd ps) = before \<and> concat (map written_piece ps) = concat (map is_text del) \<and>
    concat (map snd qs) = after \<and> concat (map written_piece qs) = concat (map is_text ins)"
proof -
  obtain brs ars where anchors: "collect_equal_anchor_ranges env before (tokenize_inline_anchors (de_uni env) before)
      after (tokenize_inline_anchors (de_uni env) after) = (brs, ars)" by fastforce
  note ordered = anchor_ranges_ordered [OF anchors]
  show ?thesis
  proof (cases "brs = []")
    case True
    then have "del = spans_of_changes (filter (\<lambda>c. fst c \<noteq> SegInsert) (de_word_diff env before after))"
        "ins = spans_of_changes (filter (\<lambda>c. fst c \<noteq> SegDelete) (de_word_diff env before after))"
      using assms(2) anchors ordered
      by (simp_all add: compute_inline_highlight_pair_def compute_inline_highlight_pair_word_diff_def Let_def)
    then have "concat (map is_text del) = before" "concat (map is_text ins) = after"
      using assms(1) by (simp_all add: spans_of_changes_text diffs_texts_def old_side_def new_side_def)
    then show ?thesis
      by (intro exI [of _ "[(False, before)]"] exI [of _ "[(False, after)]"]) (simp add: written_piece_def)
  next
    case False
    then have "del = build_inline_spans_from_equal_ranges before brs SegDelete"
        "ins = build_inline_spans_from_equal_ranges after ars SegInsert"
      using assms(2) anchors by (simp_all add: compute_inline_highlight_pair_def)
    then show ?thesis
      using build_spans_text [of before brs SegDelete] build_spans_text [of after ars SegInsert] ordered False
      by (intro exI [of _ "pieces before 0 brs"] exI [of _ "pieces after 0 ars"]) simp
  qed
qed

subsection \<open>The hash map's order does not matter\<close>

lemma count_separators:
  "\<forall>x \<in> set xs. c \<notin> set x \<Longrightarrow> count_list (str_join [c] xs) c = length xs - 1"
  by (induction "[c]" xs rule: str_join.induct) (auto simp: count_list_0_iff)

lemma candidates_distinguished:
  assumes "\<forall>t \<in> set btoks. unit_separator \<notin> set (it_normalized t)"
    and "c \<in> set (anchor_candidates env btoks atoks)" "c' \<in> set (anchor_candidates env' btoks atoks)"
    and "de_uni env' = de_uni env" "candidate_key c = candidate_key c'"
  shows "c = c'"
proof -
  let ?m = "min (min (length btoks) (length atoks)) 8"
  from candidate_hits [OF assms(2) refl] obtain p where p: "(p, ic_before c) \<in> set (ngram_occurrences btoks ?m)"
      "anchor_candidate (de_uni env) (ngram_occurrences btoks ?m) (ngram_occurrences atoks ?m) p = Some c" by blast
  from candidate_hits [OF assms(3) refl] obtain p' where p': "(p', ic_before c') \<in> set (ngram_occurrences btoks ?m)"
      "anchor_candidate (de_uni env) (ngram_occurrences btoks ?m) (ngram_occurrences atoks ?m) p' = Some c'"
    unfolding assms(4) by blast
  have count: "ic_token_count x = count_list q unit_separator + 1"
    if "anchor_candidate (de_uni env) (ngram_occurrences btoks ?m) (ngram_occurrences atoks ?m) q = Some x" for q x
    using that by (auto simp: anchor_candidate_def Let_def split: list.splits if_splits)
  have phrase: "q = str_join [unit_separator] (map it_normalized (take (ic_token_count x) (drop (fst (ic_before x)) btoks)))"
    if hit: "(q, ic_before x) \<in> set (ngram_occurrences btoks ?m)"
      and cand: "anchor_candidate (de_uni env) (ngram_occurrences btoks ?m) (ngram_occurrences atoks ?m) q = Some x" for q x
  proof -
    from hit obtain k i where k: "0 < k" "i < length btoks + 1 - k" "fst (ic_before x) = i"
        "q = str_join [unit_separator] (map it_normalized (take k (drop i btoks)))"
      unfolding ngram_set by auto
    have "count_list q unit_separator = length (map it_normalized (take k (drop i btoks))) - 1"
      unfolding k(4) using assms(1) by (intro count_separators) (auto dest!: in_set_takeD in_set_dropD)
    then have "ic_token_count x = k" using count [OF cand] k(1,2) by simp
    then show ?thesis using k by simp
  qed
  have "ic_token_count c = ic_token_count c'" "fst (ic_before c) = fst (ic_before c')"
    using assms(5) by (simp_all add: candidate_key_def)
  then have "p = p'" using phrase [OF p] phrase [OF p'] by simp
  then show ?thesis using p(2) p'(2) by simp
qed

lemma candidates_same:
  assumes "order_ok env" "order_ok env'" "de_uni env' = de_uni env"
    and "\<forall>t \<in> set btoks. unit_separator \<notin> set (it_normalized t)"
  shows "anchor_candidates env btoks atoks = anchor_candidates env' btoks atoks"
proof -
  define m where "m = min (min (length btoks) (length atoks)) 8"
  define f where "f = anchor_candidate (de_uni env) (ngram_occurrences btoks m) (ngram_occurrences atoks m)"
  define ps where "ps = remdups (map fst (ngram_occurrences btoks m))"
  have cands: "anchor_candidates env btoks atoks = sort_key candidate_key (List.map_filter f (de_order env ps))"
      "anchor_candidates env' btoks atoks = sort_key candidate_key (List.map_filter f (de_order env' ps))"
    using assms(3) by (simp_all add: anchor_candidates_def Let_def m_def f_def ps_def)
  have permuted: "mset (List.map_filter f xs) = mset (List.map_filter f ys)" if "mset xs = mset ys" for xs ys
    using that by (simp add: List.map_filter_def mset_filter)
  have msets: "mset (List.map_filter f (de_order env ps)) = mset (anchor_candidates env' btoks atoks)"
    unfolding cands(2) mset_sort by (rule permuted) (use assms(1,2) in \<open>simp add: order_ok_def\<close>)
  have inj: "inj_on candidate_key (set (List.map_filter f (de_order env ps)))"
  proof (rule inj_onI)
    fix c c' assume "c \<in> set (List.map_filter f (de_order env ps))" "c' \<in> set (List.map_filter f (de_order env ps))"
      "candidate_key c = candidate_key c'"
    then show "c = c'"
      using candidates_distinguished [OF assms(4), of c env atoks c' env] by (simp add: cands(1))
  qed
  have "sorted (map candidate_key (anchor_candidates env' btoks atoks))"
    unfolding cands(2) by (rule sorted_sort_key)
  from sort_key_inj_key_eq [OF msets inj this] show ?thesis unfolding cands(1) .
qed

lemma word_diff_order:
  "compute_inline_highlight_pair_word_diff (env\<lparr>de_order := walk\<rparr>) = compute_inline_highlight_pair_word_diff env"
  by (simp add: fun_eq_iff compute_inline_highlight_pair_word_diff_def)

text \<open>
  Highlights are deterministic: when no token holds the unit separator, the highlights of a pair of
  lines are the same whatever order the hash map of phrases is walked in.
\<close>

theorem highlights_deterministic:
  assumes "order_ok env" and "\<forall>ps. mset (walk ps) = mset ps"
    and "\<forall>t \<in> set (tokenize_inline_anchors (de_uni env) before). unit_separator \<notin> set (it_normalized t)"
  shows "compute_inline_highlight_pair (env\<lparr>de_order := walk\<rparr>) before after = compute_inline_highlight_pair env before after"
proof -
  have "order_ok (env\<lparr>de_order := walk\<rparr>)" using assms(2) by (simp add: order_ok_def)
  from candidates_same [OF this assms(1) _ ] assms(3) show ?thesis
    unfolding compute_inline_highlight_pair_def collect_equal_anchor_ranges_def word_diff_order by simp
qed

subsection \<open>Evaluations\<close>

text \<open>A differ that replaces one text by the other as a whole.\<close>

definition replace_whole :: "string \<Rightarrow> string \<Rightarrow> change list" where
  "replace_whole a b =
     (if a = b then (if a = [] then [] else [(SegEqual, a)])
      else (if a = [] then [] else [(SegDelete, a)]) @ (if b = [] then [] else [(SegInsert, b)]))"

definition sample_diff_env :: diff_env where
  "sample_diff_env =
     \<lparr>de_uni = (\<lambda>_. False), de_order = id, de_line_diff = replace_whole, de_word_diff = replace_whole\<rparr>"

lemma replace_whole_texts: "diffs_texts replace_whole"
  by (auto simp: diffs_texts_def replace_whole_def old_side_def new_side_def)

definition text_line :: "string \<Rightarrow> string" where
  "text_line s = s @ [CHR 0x0A]"

theorem inline_highlights_text_witness:
  "\<exists>ps qs. concat (map snd ps) = ''Area 3.5 km'' \<and> concat (map written_piece ps) = ''Area 3.5 km'' \<and>
     concat (map snd qs) = ''area 3:5 km'' \<and> concat (map written_piece qs) = ''area 3:5 km''"
proof -
  have "diffs_texts (de_word_diff sample_diff_env)"
    by (simp add: sample_diff_env_def replace_whole_texts)
  moreover have "compute_inline_highlight_pair sample_diff_env ''Area 3.5 km'' ''area 3:5 km'' =
      ([\<lparr>is_kind = SegEqual, is_text = ''Area 3.5 km''\<rparr>], [\<lparr>is_kind = SegEqual, is_text = ''area 3:5 km''\<rparr>])"
    by code_simp
  ultimately show ?thesis using inline_highlights_text [of sample_diff_env "''Area 3.5 km''" "''area 3:5 km''"] by simp
qed

theorem highlights_deterministic_witness:
  "compute_inline_highlight_pair (sample_diff_env\<lparr>de_order := rev\<rparr>) ''Area 3.5 km'' ''area 3:5 km'' =
   compute_inline_highlight_pair sample_diff_env ''Area 3.5 km'' ''area 3:5 km''"
proof (rule highlights_deterministic)
  show "order_ok sample_diff_env" by (simp add: order_ok_def sample_diff_env_def)
  have "list_all (\<lambda>t. unit_separator \<notin> set (it_normalized t))
      (tokenize_inline_anchors (de_uni sample_diff_env) ''Area 3.5 km'')"
    by code_simp
  then show "\<forall>t \<in> set (tokenize_inline_anchors (de_uni sample_diff_env) ''Area 3.5 km''). unit_separator \<notin> set (it_normalized t)"
    by (simp add: list_all_iff)
qed simp

text \<open>
  Where highlights mislead: white space behind the last anchor is written twice, so a line end comes
  out doubled on the unchanged side of an inserted mark; and a phrase is anchored by its lower-cased words
  alone, so a change of case or of the punctuation between its words, a decimal point included, is shown
  as unchanged text.
\<close>

theorem highlights_mislead:
  "compute_inline_highlight_pair sample_diff_env (text_line ''Wikipedia'') (text_line ''Wikipedia!'') =
     ([\<lparr>is_kind = SegEqual, is_text = ''Wikipedia''\<rparr>, \<lparr>is_kind = SegEqual, is_text = text_line []\<rparr>,
       \<lparr>is_kind = SegEqual, is_text = text_line []\<rparr>],
      [\<lparr>is_kind = SegEqual, is_text = ''Wikipedia''\<rparr>, \<lparr>is_kind = SegInsert, is_text = ''!''\<rparr>,
       \<lparr>is_kind = SegEqual, is_text = text_line []\<rparr>]) \<and>
   compute_inline_highlight_pair sample_diff_env ''Area 3.5 km'' ''area 3:5 km'' =
     ([\<lparr>is_kind = SegEqual, is_text = ''Area 3.5 km''\<rparr>], [\<lparr>is_kind = SegEqual, is_text = ''area 3:5 km''\<rparr>])"
  by (intro conjI; code_simp)

end
