(* ===== verification/Diff_Correct.thy ===== *)
theory Diff_Correct
  imports Diff_Engine Diff_Highlights
begin

section \<open>What a line diff shows\<close>

text \<open>
  The properties of the line diff of \<open>diff_engine.rs\<close> as a whole: what its segments and hunks show of the
  two texts, how the hunks of a move belong together, and the heading that brings it down.
\<close>

lemma number_segments_content: "map content (number_segments mode m n cs) = cs"
  using number_segments_text [of mode m n cs] by (simp add: content_def [abs_def])

lemma before_text_lines: "sd_mode d = LinesMode \<Longrightarrow> before_text d = old_side (map content (sd_segments d))"
  by (simp add: before_text_def normalize_reconstructed_text_def old_side_def filter_map comp_def content_def)

lemma after_text_lines: "sd_mode d = LinesMode \<Longrightarrow> after_text d = new_side (map content (sd_segments d))"
  by (simp add: after_text_def normalize_reconstructed_text_def new_side_def filter_map comp_def content_def)

lemma diff_lines_parts:
  assumes "diff_lines env before after = Some d"
  shows "sd_mode d = LinesMode" "map content (sd_segments d) = de_line_diff env before after"
    "sd_segments d = compute_inline_highlights env (number_segments LinesMode 1 1 (de_line_diff env before after))"
    "build_diff_hunks (de_uni env) (sd_segments d) before after 3 = Some (sd_hunks d)"
  using assms
  by (auto simp: diff_lines_def Let_def collect_segments_def highlights_content number_segments_content)

lemma built_segments: "build_hunk bs as' segs = Some h \<Longrightarrow> dh_segments h = segs \<and> dh_move_group h = None \<and> dh_move_role h = None"
  by (auto simp: build_hunk_def Let_def)

lemma hunks_made:
  assumes "map Some hs = map (\<lambda>(i, j). build_hunk bs as' (text_slice i j segs)) rs"
  shows "list_all2 (\<lambda>h (i, j). dh_segments h = text_slice i j segs \<and> dh_move_group h = None \<and> dh_move_role h = None) hs rs"
proof -
  have len: "length hs = length rs" using assms by (metis length_map)
  show ?thesis
    unfolding list_all2_conv_all_nth
  proof (intro conjI allI impI len)
    fix n assume n: "n < length hs"
    obtain i j where ij: "rs ! n = (i, j)" by fastforce
    have "Some (hs ! n) = build_hunk bs as' (text_slice i j segs)"
      using arg_cong [OF assms, of "\<lambda>l. l ! n"] n len by (simp add: ij)
    from built_segments [OF this [symmetric]]
    show "case rs ! n of (i, j) \<Rightarrow> dh_segments (hs ! n) = text_slice i j segs \<and>
        dh_move_group (hs ! n) = None \<and> dh_move_role (hs ! n) = None"
      by (simp add: ij)
  qed
qed

lemma built_hunks:
  assumes "build_diff_hunks uni segs before after ctx = Some hs'"
  shows "\<exists>hs. hs' = annotate_moves uni hs \<and>
    list_all2 (\<lambda>h (i, j). dh_segments h = text_slice i j segs \<and> dh_move_group h = None \<and> dh_move_role h = None) hs
      (collect_changed_ranges segs ctx)"
proof (cases "collect_changed_ranges segs ctx = []")
  case True
  then show ?thesis using assms by (auto simp: build_diff_hunks_def annotate_moves_def)
next
  case False
  then obtain bs as' hs where "hs' = annotate_moves uni hs"
      "those (map (\<lambda>(i, j). build_hunk bs as' (text_slice i j segs)) (collect_changed_ranges segs ctx)) = Some hs"
    using assms by (auto simp: build_diff_hunks_def split: option.splits)
  then show ?thesis using hunks_made [of hs bs as' segs] by (auto simp: those_Some)
qed

text \<open>What the hunks of a built diff are, with the move annotations.\<close>

lemma final_hunks:
  assumes "build_diff_hunks uni segs before after ctx = Some hs"
  shows "list_all2 (\<lambda>h (i, j). dh_segments h = text_slice i j segs) hs (collect_changed_ranges segs ctx)"
    and "\<exists>consumed g. moves_fit hs consumed g" and "moves_alike uni hs"
proof -
  obtain hs0 where hs0: "hs = annotate_moves uni hs0"
      "list_all2 (\<lambda>h (i, j). dh_segments h = text_slice i j segs \<and> dh_move_group h = None \<and> dh_move_role h = None) hs0
        (collect_changed_ranges segs ctx)"
    using built_hunks [OF assms] by blast
  then have "list_all (\<lambda>h. dh_move_group h = None \<and> dh_move_role h = None) hs0"
    by (auto simp: list_all2_conv_all_nth list_all_length)
  from annotate_moves_fits [OF this, of uni] obtain consumed g
    where "moves_fit hs consumed g" "moves_alike uni hs" "list_all2 same_content hs0 hs" unfolding hs0(1) by blast
  then show "\<exists>consumed g. moves_fit hs consumed g" "moves_alike uni hs"
      "list_all2 (\<lambda>h (i, j). dh_segments h = text_slice i j segs) hs (collect_changed_ranges segs ctx)"
    using hs0(2) by (auto simp: list_all2_conv_all_nth same_content_def)
qed

lemma hunks_show_changes:
  assumes "list_all2 (\<lambda>h (i, j). dh_segments h = text_slice i j segs) hs (collect_changed_ranges segs ctx)"
  shows "concat (map (\<lambda>h. filter changed (dh_segments h)) hs) = filter changed segs"
    and "h \<in> set hs \<Longrightarrow> \<exists>i j. dh_segments h = text_slice i j segs \<and> (\<exists>g \<in> set (dh_segments h). changed g)"
proof -
  have "map (\<lambda>h. filter changed (dh_segments h)) hs = map (\<lambda>(i, j). filter changed (text_slice i j segs)) (collect_changed_ranges segs ctx)"
    using assms by (auto simp: list_all2_conv_all_nth intro!: nth_equalityI split: prod.splits)
  then show "concat (map (\<lambda>h. filter changed (dh_segments h)) hs) = filter changed segs"
    by (simp only: changed_in_ranges)
  assume "h \<in> set hs"
  then obtain i j where "(i, j) \<in> set (collect_changed_ranges segs ctx)" "dh_segments h = text_slice i j segs"
    using assms by (auto simp: list_all2_conv_all_nth in_set_conv_nth split: prod.splits) (metis nth_mem prod.collapse)
  then show "\<exists>i j. dh_segments h = text_slice i j segs \<and> (\<exists>g \<in> set (dh_segments h). changed g)"
    using range_has_change [of i j segs ctx] by auto
qed

text \<open>
  C22. A line diff says both texts: when neither text contains a run of four equals signs, diffing returns,
  the segments other than insertions are the old text and those other than deletions the new one, and the
  hunks show every changed segment once and in order, each hunk a stretch of segments with a change in it.
\<close>

theorem line_diff_correct:
  assumes "lines_differ env" and "\<not> str_contains before ''===='' " and "\<not> str_contains after ''===='' "
  shows "\<exists>d. diff_lines env before after = Some d \<and> before_text d = before \<and> after_text d = after \<and>
    concat (map (\<lambda>h. filter changed (dh_segments h)) (sd_hunks d)) = filter changed (sd_segments d) \<and>
    (\<forall>h \<in> set (sd_hunks d). \<exists>i j. dh_segments h = text_slice i j (sd_segments d) \<and> (\<exists>g \<in> set (dh_segments h). changed g))"
proof -
  let ?segs = "compute_inline_highlights env (number_segments LinesMode 1 1 (de_line_diff env before after))"
  have "map content ?segs = de_line_diff env before after"
    by (simp add: highlights_content number_segments_content)
  from hunks_total [OF assms(1) this assms(2,3), of "de_uni env" 3]
  obtain d where d: "diff_lines env before after = Some d"
    by (auto simp: diff_lines_def Let_def collect_segments_def)
  note parts = diff_lines_parts [OF d]
  have "before_text d = before" "after_text d = after"
    using assms(1) by (simp_all add: before_text_lines after_text_lines parts(1,2) lines_differ_def diffs_texts_def)
  then show ?thesis using d hunks_show_changes [OF final_hunks(1) [OF parts(4)]] by blast
qed

text \<open>
  C23. Moves pair up: in a line diff every hunk marked as the source or the target of a move carries a
  group; a source is a removal, a target an addition, and exactly one other hunk has the same group, its
  counterpart, whose block has matching words; a hunk without a role has no group, or is a modification
  alone in its group.
\<close>

theorem moves_pair_up:
  assumes "diff_lines env before after = Some d" and "hs = sd_hunks d" and "i < length hs"
  shows "case dh_move_role (hs ! i) of
      None \<Rightarrow> dh_move_group (hs ! i) = None \<or>
        dh_kind (hs ! i) = Modification \<and> (\<forall>j < length hs. dh_move_group (hs ! j) = dh_move_group (hs ! i) \<longrightarrow> j = i)
    | Some r \<Rightarrow>
        dh_move_group (hs ! i) \<noteq> None \<and> dh_kind (hs ! i) = (if r = MoveSource then Removal else Addition) \<and>
        (\<exists>!j. j < length hs \<and> j \<noteq> i \<and> dh_move_group (hs ! j) = dh_move_group (hs ! i)) \<and>
        (\<forall>j < length hs. j \<noteq> i \<longrightarrow> dh_move_group (hs ! j) = dh_move_group (hs ! i) \<longrightarrow>
           dh_move_role (hs ! j) = Some (if r = MoveSource then MoveTarget else MoveSource) \<and>
           (if r = MoveSource then look_alike (de_uni env) (hs ! i) (hs ! j)
            else look_alike (de_uni env) (hs ! j) (hs ! i)))"
proof -
  note final = final_hunks [OF diff_lines_parts(4) [OF assms(1)], folded assms(2)]
  obtain consumed n where fits: "moves_fit hs consumed n" using final(2) by blast
  have role: "case dh_move_role (hs ! i) of
        None \<Rightarrow> dh_move_group (hs ! i) = None \<or> dh_kind (hs ! i) = Modification
      | Some MoveSource \<Rightarrow> dh_kind (hs ! i) = Removal \<and>
          (\<exists>j < length hs. dh_move_role (hs ! j) = Some MoveTarget \<and> dh_move_group (hs ! j) = dh_move_group (hs ! i))
      | Some MoveTarget \<Rightarrow> dh_kind (hs ! i) = Addition \<and>
          (\<exists>j < length hs. dh_move_role (hs ! j) = Some MoveSource \<and> dh_move_group (hs ! j) = dh_move_group (hs ! i))"
    and grouped: "dh_move_role (hs ! i) \<noteq> None \<longrightarrow> dh_move_group (hs ! i) \<noteq> None"
    using fits assms(3) unfolding moves_fit_def by blast+
  have others: "dh_move_role (hs ! k) \<noteq> None \<and> dh_move_role (hs ! k) \<noteq> dh_move_role (hs ! j)"
    if "j < length hs" "k < length hs" "k \<noteq> j" "dh_move_group (hs ! k) \<noteq> None" "dh_move_group (hs ! k) = dh_move_group (hs ! j)" for j k
    using fits that unfolding moves_fit_def by blast
  have two: "r = MoveSource \<or> r = MoveTarget" for r by (cases r) auto
  show ?thesis
  proof (cases "dh_move_role (hs ! i)")
    case None
    have "j = i" if "j < length hs" "dh_move_group (hs ! j) = dh_move_group (hs ! i)" "dh_move_group (hs ! i) \<noteq> None" for j
      using others [OF that(1) assms(3) _ that(3) that(2) [symmetric]] None by blast
    then show ?thesis using role None by (cases "dh_move_group (hs ! i)") auto
  next
    case (Some r)
    define r' where "r' = (if r = MoveSource then MoveTarget else MoveSource)"
    obtain g where g: "dh_move_group (hs ! i) = Some g" using grouped Some by auto
    from role Some two [of r] obtain j where j: "j < length hs" "dh_move_role (hs ! j) = Some r'" "dh_move_group (hs ! j) = Some g"
      using g by (auto simp: r'_def)
    have "j \<noteq> i" using j(2) Some by (auto simp: r'_def split: if_splits)
    have partner: "dh_move_role (hs ! k) = Some r'" if "k < length hs" "k \<noteq> i" "dh_move_group (hs ! k) = Some g" for k
      using others [of k i] others [of i k] that assms(3) g Some two
      by (cases "dh_move_role (hs ! k)"; cases "the (dh_move_role (hs ! k))") (auto simp: r'_def)
    have "k = j" if "k < length hs" "k \<noteq> i" "dh_move_group (hs ! k) = Some g" for k
      using others [of k j] partner [OF that] that j by (metis option.distinct(1))
    then have "\<exists>!j. j < length hs \<and> j \<noteq> i \<and> dh_move_group (hs ! j) = Some g"
      using j \<open>j \<noteq> i\<close> by (intro ex1I [of _ j] conjI) blast+
    moreover have "dh_kind (hs ! i) = (if r = MoveSource then Removal else Addition)"
      using role Some two [of r] by auto
    moreover have "if r = MoveSource then look_alike (de_uni env) (hs ! i) (hs ! k) else look_alike (de_uni env) (hs ! k) (hs ! i)"
      if "k < length hs" "k \<noteq> i" "dh_move_group (hs ! k) = Some g" for k
      using final(3) partner [OF that] that assms(3) g Some two [of r]
      by (auto simp: moves_alike_def r'_def)
    ultimately show ?thesis using Some g partner unfolding r'_def by auto
  qed
qed

text \<open>
  A ruled line brings the diff down: when a text has a line of four or more equals signs and nothing
  else, diffing it against any changed text panics, because the heading between the signs is sliced with
  its bounds crossed; that is the only way the headings of a text panic.
\<close>

theorem ruled_line_panics:
  "(parse_section_heading line = None \<longleftrightarrow> rule_line line) \<and>
   (line \<in> set (str_lines before) \<union> set (str_lines after) \<and> rule_line line \<and>
    (\<exists>c \<in> set (de_line_diff env before after). fst c \<noteq> SegEqual) \<longrightarrow> diff_lines env before after = None)"
proof (intro conjI impI heading_panics)
  assume bad: "line \<in> set (str_lines before) \<union> set (str_lines after) \<and> rule_line line \<and>
    (\<exists>c \<in> set (de_line_diff env before after). fst c \<noteq> SegEqual)"
  let ?segs = "compute_inline_highlights env (number_segments LinesMode 1 1 (de_line_diff env before after))"
  have "map content ?segs = de_line_diff env before after"
    by (simp add: highlights_content number_segments_content)
  then have "\<exists>g \<in> set ?segs. changed g"
    using bad by (metis (no_types, lifting) changed_def content_def fst_conv imageE list.set_map)
  then have "collect_changed_ranges ?segs 3 \<noteq> []" by (simp add: no_changes_no_ranges)
  moreover have "build_section_index before = None \<or> build_section_index after = None"
    using bad by (auto simp: section_index_panics)
  ultimately show "diff_lines env before after = None"
    by (auto simp: diff_lines_def Let_def collect_segments_def build_diff_hunks_def split: option.splits)
qed

subsection \<open>Witnesses\<close>

lemma replace_whole_lines: "line_changes (replace_whole a b)"
  by (auto simp: line_changes_def replace_whole_def)

theorem line_diff_correct_witness:
  "\<exists>d. diff_lines sample_diff_env ''old'' ''new'' = Some d \<and> before_text d = ''old'' \<and> after_text d = ''new'' \<and>
     concat (map (\<lambda>h. filter changed (dh_segments h)) (sd_hunks d)) = filter changed (sd_segments d) \<and>
     (\<forall>h \<in> set (sd_hunks d). \<exists>i j. dh_segments h = text_slice i j (sd_segments d) \<and> (\<exists>g \<in> set (dh_segments h). changed g))"
proof (rule line_diff_correct)
  show "lines_differ sample_diff_env"
    by (simp add: lines_differ_def replace_whole_lines sample_diff_env_def replace_whole_texts)
  show "\<not> str_contains ''old'' ''===='' " "\<not> str_contains ''new'' ''===='' " by code_simp+
qed

definition moving_diff_env :: diff_env where
  "moving_diff_env = sample_diff_env\<lparr>de_line_diff := (\<lambda>_ _.
     (SegDelete, text_line ''old bridge'' @ text_line ''of stone'') # replicate 7 (SegEqual, text_line ''x'') @
     [(SegInsert, text_line ''old bridge'' @ text_line ''of stone'')])\<rparr>"

theorem moves_pair_up_witness:
  "\<exists>d. diff_lines moving_diff_env ''a'' ''b'' = Some d \<and> length (sd_hunks d) = 2 \<and>
     dh_kind (sd_hunks d ! 0) = Removal \<and>
     (\<exists>!j. j < length (sd_hunks d) \<and> j \<noteq> 0 \<and> dh_move_group (sd_hunks d ! j) = Some 1)"
proof -
  have shape: "map_option (\<lambda>d. map (\<lambda>h. (dh_kind h, dh_move_group h, dh_move_role h)) (sd_hunks d)) (diff_lines moving_diff_env ''a'' ''b'') =
      Some [(Removal, Some 1, Some MoveSource), (Addition, Some 1, Some MoveTarget)]"
    by code_simp
  from shape obtain d where d: "diff_lines moving_diff_env ''a'' ''b'' = Some d" "length (sd_hunks d) = 2"
      "dh_move_group (sd_hunks d ! 0) = Some 1" "dh_move_role (sd_hunks d ! 0) = Some MoveSource"
    by (auto simp: map_eq_Cons_conv)
  from moves_pair_up [OF d(1) refl, of 0] d show ?thesis by simp
qed

theorem ruled_line_panics_witness:
  "diff_lines sample_diff_env ''======'' ''new'' = None"
proof -
  have rule: "''======'' \<in> set (str_lines ''======'') \<union> set (str_lines ''new'')" "rule_line ''======'' "
      and change: "(SegDelete, ''======'') \<in> set (de_line_diff sample_diff_env ''======'' ''new'')"
    by code_simp+
  from change have "\<exists>c \<in> set (de_line_diff sample_diff_env ''======'' ''new''). fst c \<noteq> SegEqual" by (rule bexI [rotated]) simp
  with rule ruled_line_panics [of "''======''" "''======''" "''new''" sample_diff_env] show ?thesis by (elim conjE impE) blast+
qed

end
