(* ===== verification/Diff_Signals.thy ===== *)
theory Diff_Signals
  imports Diff_Engine Scoring_Engine
begin

section \<open>Scoring signals of a diff\<close>

text \<open>
  The signals that \<open>crates/sp42-platform/src/diff_engine.rs\<close> derives from a structured diff for the score,
  and their transfer into the scoring context by \<open>crates/sp42-server/src/live_queue.rs\<close>: additions of
  nothing but links, references or categories, blanking, inserted profanity and repeated characters.
  The outer \<open>option\<close> of \<open>analyze_diff_for_scoring\<close> is the overflow of \<open>i32::abs\<close>.
\<close>

subsection \<open>Links added around text\<close>

definition count_brackets :: "string \<Rightarrow> nat" where
  "count_brackets s = length (filter (\<lambda>c. c = CHR ''['' \<or> c = CHR '']'') s)"

definition detect_link_addition_only :: "structured_diff \<Rightarrow> string option" where
  "detect_link_addition_only diff =
     (if dt_insert_segments (sd_stats diff) = 0 then None
      else let before = before_text diff; after = after_text diff;
               inserted_wrapper_chars = count_brackets after - count_brackets before;
               stripped_after = str_replace '']]'' [] (str_replace ''[['' [] after)
           in if inserted_wrapper_chars \<ge> 4 \<and> stripped_after = before
              then Some (''inserted only wikilink wrapper characters ('' @ show_nat inserted_wrapper_chars @ '' bracket chars)'')
              else None)"

subsection \<open>References, categories and language links\<close>

definition consume_ref_tag :: "string \<Rightarrow> string option" where
  "consume_ref_tag value =
     (let lowered = to_ascii_lowercase value
      in if \<not> prefix ''<ref'' lowered then None
         else map_option (\<lambda>n. drop (n + length ''</ref>'') value) (str_find ''</ref>'' lowered))"

fun close_template :: "nat \<Rightarrow> string \<Rightarrow> string option" where
  "close_template depth (c # d # s) =
     (if c = CHR ''{'' \<and> d = CHR ''{'' then close_template (depth + 1) s
      else if c = CHR ''}'' \<and> d = CHR ''}''
      then (if depth - 1 = 0 then Some s else close_template (depth - 1) s)
      else close_template depth (d # s))"
| "close_template depth s = None"

definition consume_reference_template :: "string \<Rightarrow> string option" where
  "consume_reference_template value =
     (let lowered = to_ascii_lowercase value
      in if prefix ''{{cite'' lowered \<or> prefix ''{{citation'' lowered \<or> prefix ''{{sfn'' lowered
         then close_template 0 value else None)"

lemma consume_ref_tag_shorter: "consume_ref_tag s = Some r \<Longrightarrow> length r < length s"
  by (auto simp: consume_ref_tag_def Let_def prefix_def to_ascii_lowercase_def split: if_splits dest: arg_cong [where f = length])

lemma close_template_shorter: "close_template d s = Some r \<Longrightarrow> length r < length s"
  by (induction d s rule: close_template.induct) (auto split: if_splits)

lemma consume_reference_template_shorter: "consume_reference_template s = Some r \<Longrightarrow> length r < length s"
  by (auto simp: consume_reference_template_def Let_def close_template_shorter split: if_splits)

function remove_reference_constructs :: "string \<Rightarrow> string" where
  "remove_reference_constructs [] = []"
| "remove_reference_constructs (c # s) =
     (case consume_ref_tag (c # s) of
        Some next \<Rightarrow> remove_reference_constructs next
      | None \<Rightarrow>
          (case consume_reference_template (c # s) of
             Some next \<Rightarrow> remove_reference_constructs next
           | None \<Rightarrow> take (char_len (c # s)) (c # s) @ remove_reference_constructs (drop (char_len (c # s)) (c # s))))"
  by pat_completeness auto
termination
  by (relation "measure length")
    (auto simp: char_len_Cons dest: consume_ref_tag_shorter consume_reference_template_shorter)

definition consume_link_family :: "string \<Rightarrow> (string \<Rightarrow> bool) \<Rightarrow> string option" where
  "consume_link_family value predicate =
     (if \<not> prefix ''[['' value then None
      else case str_find '']]'' value of
             None \<Rightarrow> None
           | Some n \<Rightarrow> if predicate (take (n + 2) value) then Some (drop (n + 2) value) else None)"

lemma consume_link_family_shorter: "consume_link_family s p = Some r \<Longrightarrow> length r < length s"
  by (auto simp: consume_link_family_def prefix_def split: if_splits option.splits)

function remove_link_family :: "string \<Rightarrow> (string \<Rightarrow> bool) \<Rightarrow> string" where
  "remove_link_family [] predicate = []"
| "remove_link_family (c # s) predicate =
     (case consume_link_family (c # s) predicate of
        Some next \<Rightarrow> remove_link_family next predicate
      | None \<Rightarrow> take (char_len (c # s)) (c # s) @ remove_link_family (drop (char_len (c # s)) (c # s)) predicate)"
  by pat_completeness auto
termination
  by (relation "measure (length \<circ> fst)") (auto simp: char_len_Cons dest: consume_link_family_shorter)

definition only_added :: "(string \<Rightarrow> string) \<Rightarrow> string \<Rightarrow> string \<Rightarrow> bool" where
  "only_added strip before after \<longleftrightarrow> str_trim after \<noteq> [] \<and> before \<noteq> after \<and> strip after = before"

definition detect_reference_addition_only :: "string \<Rightarrow> string \<Rightarrow> bool" where
  "detect_reference_addition_only before after = only_added remove_reference_constructs before after"

definition detect_category_addition_only :: "string \<Rightarrow> string \<Rightarrow> bool" where
  "detect_category_addition_only before after = only_added (\<lambda>t. remove_link_family t is_category_link) before after"

definition detect_interwiki_addition_only :: "string \<Rightarrow> string \<Rightarrow> bool" where
  "detect_interwiki_addition_only before after = only_added (\<lambda>t. remove_link_family t is_interwiki_link) before after"

subsection \<open>Blanking and noise\<close>

definition to_i32 :: "nat \<Rightarrow> int" where
  "to_i32 n = min i32_max (int n)"

definition detect_mass_blanking :: "structured_diff \<Rightarrow> signal_parameters \<Rightarrow> bool option" where
  "detect_mass_blanking diff parameters =
     (let deleted = to_i32 (dt_deleted_char_count (sd_stats diff)); inserted = to_i32 (dt_inserted_char_count (sd_stats diff))
      in if sp_massive_blanking_threshold parameters = i32_min then None
         else Some (deleted \<ge> \<bar>sp_massive_blanking_threshold parameters\<bar> \<and> inserted \<le> 64 \<and> deleted \<ge> sat_i32 (inserted * 4)))"

definition contains_any_marker :: "string \<Rightarrow> string list \<Rightarrow> bool" where
  "contains_any_marker text markers =
     (if str_trim text = [] then False else list_ex (str_contains (to_ascii_lowercase text)) markers)"

fun longest_run :: "char option \<Rightarrow> nat \<Rightarrow> nat \<Rightarrow> char option list \<Rightarrow> nat" where
  "longest_run prev run max_run [] = max_run"
| "longest_run prev run max_run (ch # chs) =
     (if (case ch of None \<Rightarrow> False | Some c \<Rightarrow> ascii_alphanumeric c) \<and> ch = prev
      then longest_run prev (min 255 (run + 1)) (max max_run (min 255 (run + 1))) chs
      else longest_run ch 1 (max max_run 1) chs)"

definition max_repeated_character_run :: "string \<Rightarrow> nat" where
  "max_repeated_character_run value = longest_run (Some (char_of (0 :: nat))) 0 0 (lower_view value)"

definition diff_repeated_character_run :: "string \<Rightarrow> nat \<Rightarrow> bool" where
  "diff_repeated_character_run value threshold \<longleftrightarrow> max_repeated_character_run value \<ge> threshold"

subsection \<open>The hints\<close>

record diff_scoring_hints =
  hint_link_addition_only :: bool
  hint_reference_addition_only :: bool
  hint_category_addition_only :: bool
  hint_interwiki_addition_only :: bool
  hint_mass_blanking_detected :: bool
  hint_inserted_profanity_detected :: bool
  hint_repeated_character_noise_detected :: bool

definition analyze_diff_for_scoring :: "structured_diff \<Rightarrow> signal_parameters \<Rightarrow> diff_scoring_hints option" where
  "analyze_diff_for_scoring diff parameters =
     (let before = before_text diff; after = after_text diff
      in case detect_mass_blanking diff parameters of
           None \<Rightarrow> None
         | Some blanked \<Rightarrow> Some
             \<lparr>hint_link_addition_only = (detect_link_addition_only diff \<noteq> None),
              hint_reference_addition_only = detect_reference_addition_only before after,
              hint_category_addition_only = detect_category_addition_only before after,
              hint_interwiki_addition_only = detect_interwiki_addition_only before after,
              hint_mass_blanking_detected = blanked,
              hint_inserted_profanity_detected =
                (contains_any_marker after (sp_profanity_markers parameters) \<and>
                 \<not> contains_any_marker before (sp_profanity_markers parameters)),
              hint_repeated_character_noise_detected =
                (diff_repeated_character_run after (sp_repeated_character_run_threshold parameters) \<and>
                 \<not> diff_repeated_character_run before (sp_repeated_character_run_threshold parameters))\<rparr>)"

definition with_diff_hints :: "diff_scoring_hints \<Rightarrow> scoring_context \<Rightarrow> scoring_context" where
  "with_diff_hints hints context =
     context\<lparr>ctx_link_addition_only := hint_link_addition_only hints,
             ctx_reference_addition_only := hint_reference_addition_only hints,
             ctx_category_addition_only := hint_category_addition_only hints,
             ctx_interwiki_addition_only := hint_interwiki_addition_only hints,
             ctx_mass_blanking_detected := hint_mass_blanking_detected hints,
             ctx_inserted_profanity_detected := hint_inserted_profanity_detected hints,
             ctx_repeated_character_noise_detected := hint_repeated_character_noise_detected hints\<rparr>"

subsection \<open>Lemmas\<close>

lemma longest_run_ge:
  assumes "2 \<le> t" "t \<le> 255"
  shows "t \<le> longest_run prev run m chs \<longleftrightarrow> t \<le> m \<or> run_loop t prev run chs"
proof (induction prev run m chs rule: longest_run.induct)
  case (2 prev run m ch chs)
  then show ?case using assms by (cases "ch = prev") (auto simp: Let_def le_max_iff_disj)
qed simp

lemma length_lower: "length (to_ascii_lowercase s) = length s"
  by (simp add: to_ascii_lowercase_def)

lemma lower_byte_punct: "n \<in> {60, 91, 93, 123, 125} \<Longrightarrow> of_char (lower_byte c) = (n :: nat) \<longleftrightarrow> of_char c = n"
  by (auto simp: lower_byte_def Let_def)

lemma lower_byte_code: "lower_byte c = d \<longleftrightarrow> (of_char (lower_byte c) :: nat) = of_char d"
  by simp

lemma lower_byte_fixed: "d \<in> {CHR ''<'', CHR ''['', CHR '']'', CHR ''{'', CHR ''}''} \<Longrightarrow> lower_byte c = d \<longleftrightarrow> c = d"
  using lower_byte_punct [of "of_char d" c] unfolding lower_byte_code by auto

text \<open>A pattern whose first byte does not return is found where it is put, unless it occurs before.\<close>

lemma str_find_append:
  assumes "x \<notin> set pat" "\<not> sublist (x # pat) a"
  shows "str_find (x # pat) (a @ x # pat @ b) = Some (length a)"
  using assms(2)
proof (induction a)
  case (Cons y a)
  have "\<not> prefix (x # pat) ((y # a) @ x # pat @ b)"
  proof
    assume pre: "prefix (x # pat) ((y # a) @ x # pat @ b)"
    then consider "prefix (x # pat) (y # a)" | zs where "x # pat = (y # a) @ zs" "prefix zs (x # pat @ b)" "zs \<noteq> []"
      unfolding prefix_append by fastforce
    then show False
    proof cases
      case 1
      then show ?thesis using Cons.prems prefix_imp_sublist by blast
    next
      case 2
      then have "x \<in> set zs" by (cases zs) auto
      then show ?thesis using 2(1) assms(1) by (cases "y # a") auto
    qed
  qed
  moreover have "\<not> sublist (x # pat) a" using Cons.prems by (auto simp: sublist_Cons_right)
  ultimately show ?case using Cons.IH by simp
qed simp

lemma takeWhile_seam: "t = [] \<or> \<not> P (hd t) \<Longrightarrow> takeWhile P (u @ t) = takeWhile P u"
  by (induction u; cases t) auto

text \<open>
  A pattern does not span the seam of two texts when its last byte does not end the first before the
  pattern does, or when its first byte, which does not return, starts the second.
\<close>

lemma sublist_seam_end:
  "sublist (pat @ [x]) (a @ [x] @ b) \<Longrightarrow> x \<notin> set pat \<Longrightarrow> sublist (pat @ [x]) (a @ [x]) \<or> sublist (pat @ [x]) b"
  unfolding append_assoc [symmetric]
  by (subst (asm) sublist_append) (auto simp: suffix_def append_eq_append_conv2 append_eq_Cons_conv Cons_eq_append_conv)

lemma sublist_seam_start:
  "sublist (x # pat) (a @ x # b) \<Longrightarrow> x \<notin> set pat \<Longrightarrow> sublist (x # pat) a \<or> sublist (x # pat) (x # b)"
  by (subst (asm) sublist_append) (auto simp: prefix_def append_eq_Cons_conv Cons_eq_append_conv)

lemma remove_references_plain:
  "CHR ''<'' \<notin> set s \<Longrightarrow> CHR ''{'' \<notin> set s \<Longrightarrow> t = [] \<or> \<not> is_continuation (hd t) \<Longrightarrow>
     remove_reference_constructs (s @ t) = s @ remove_reference_constructs t"
proof (induction s rule: measure_induct_rule [of length])
  case (less s)
  show ?case
  proof (cases s)
    case (Cons c u)
    have none: "consume_ref_tag (s @ t) = None" "consume_reference_template (s @ t) = None"
      using less.prems(1,2) lower_byte_fixed [of "CHR ''<''" c] lower_byte_fixed [of "CHR ''{''" c]
      by (auto simp: Cons consume_ref_tag_def consume_reference_template_def Let_def to_ascii_lowercase_def)
    have len: "char_len (s @ t) = char_len s"
      using less.prems(3) by (simp add: Cons char_len_Cons takeWhile_seam)
    have "length (drop (char_len s) s) < length s" using Cons by (simp add: char_len_Cons)
    moreover have "set (drop (char_len s) s) \<subseteq> set s" by (rule set_drop_subset)
    ultimately have "remove_reference_constructs (drop (char_len s) s @ t) = drop (char_len s) s @ remove_reference_constructs t"
      using less.IH less.prems by blast
    moreover have "remove_reference_constructs (s @ t) =
        take (char_len (s @ t)) (s @ t) @ remove_reference_constructs (drop (char_len (s @ t)) (s @ t))"
      using none by (simp add: Cons)
    then have "remove_reference_constructs (s @ t) =
        take (char_len s) s @ remove_reference_constructs (drop (char_len s) s @ t)"
      using char_len_le [of s] by (simp add: len)
    ultimately show ?thesis by (metis append_assoc append_take_drop_id)
  qed simp
qed

text \<open>
  Hidden text: whatever is inserted between a self-closing reference and the end of a later one is
  taken for part of the reference, so an edit that adds any text there is reported as adding nothing
  but references, which the score then discounts.
\<close>

theorem reference_hint_hides_text:
  assumes "CHR ''<'' \<notin> set before" and "CHR ''{'' \<notin> set before"
    and "\<not> str_contains (to_ascii_lowercase hidden) ''</ref>''"
  shows "detect_reference_addition_only before (before @ ''<ref name=a/>'' @ hidden @ ''<ref>b</ref>'')"
proof -
  let ?open = "''<ref name=a/>'' @ hidden @ ''<ref>b''"
  have "\<not> sublist ''</ref>'' (to_ascii_lowercase ?open)"
  proof
    let ?h = "to_ascii_lowercase hidden"
    assume "sublist ''</ref>'' (to_ascii_lowercase ?open)"
    then have "sublist (''</ref'' @ ''>'') (''<ref name=a/'' @ ''>'' @ ?h @ ''<ref>b'')"
      by (simp add: to_ascii_lowercase_def lower_byte_def)
    then have "sublist (''</ref'' @ ''>'') (''<ref name=a/'' @ ''>'') \<or> sublist (''</ref'' @ ''>'') (?h @ ''<ref>b'')"
      by (rule sublist_seam_end) simp
    moreover have "\<not> sublist ''</ref>'' ''<ref name=a/>''" "\<not> sublist ''</ref>'' ''<ref>b''" by code_simp+
    ultimately have "sublist ''</ref>'' (?h @ CHR ''<'' # ''ref>b'')" by simp
    from sublist_seam_start [OF this] show False
      using assms(3) \<open>\<not> sublist ''</ref>'' ''<ref>b''\<close> by (simp add: str_contains_iff)
  qed
  from str_find_append [OF _ this, of "[]"]
  have found: "str_find ''</ref>'' (to_ascii_lowercase ?open @ ''</ref>'') = Some (length ?open)"
    by (simp only: append_Nil2 length_lower) simp
  have "to_ascii_lowercase (?open @ ''</ref>'') = to_ascii_lowercase ?open @ ''</ref>''"
    by (simp add: to_ascii_lowercase_def lower_byte_def)
  moreover have "prefix ''<ref'' (to_ascii_lowercase ?open @ ''</ref>'')"
    by (simp add: to_ascii_lowercase_def lower_byte_def)
  ultimately have "consume_ref_tag (?open @ ''</ref>'') = Some []"
    unfolding consume_ref_tag_def Let_def using found by (simp only: if_False not_True_eq_False option.map) simp
  then show ?thesis
    using remove_references_plain [OF assms(1,2), of "?open @ ''</ref>''"]
      visible_not_blank [of "CHR ''<''" "before @ ''<ref name=a/>'' @ hidden @ ''<ref>b</ref>''"]
    by (simp add: detect_reference_addition_only_def only_added_def is_continuation_def)
qed

definition linked :: "(bool \<times> string) list \<Rightarrow> string" where
  "linked ps = concat (map (\<lambda>(l, w). if l then ''[['' @ w @ '']]'' else w) ps)"

definition no_brackets :: "string \<Rightarrow> bool" where
  "no_brackets s \<longleftrightarrow> CHR ''['' \<notin> set s \<and> CHR '']'' \<notin> set s"

lemma str_replace_plain: "x \<notin> set s \<Longrightarrow> str_replace (x # pat) new (s @ t) = s @ str_replace (x # pat) new t"
  by (induction s) auto

lemma strip_links:
  "list_all (no_brackets \<circ> snd) ps \<Longrightarrow>
     str_replace '']]'' [] (str_replace ''[['' [] (linked ps)) = concat (map snd ps)"
proof -
  assume plain: "list_all (no_brackets \<circ> snd) ps"
  then have "str_replace ''[['' [] (linked ps) = concat (map (\<lambda>(l, w). if l then w @ '']]'' else w) ps)"
    by (induction ps) (auto simp: linked_def no_brackets_def str_replace_plain)
  moreover from plain have "str_replace '']]'' [] (concat (map (\<lambda>(l, w). if l then w @ '']]'' else w) ps)) = concat (map snd ps)"
    by (induction ps) (auto simp: no_brackets_def str_replace_plain)
  ultimately show ?thesis by simp
qed

lemma count_brackets_simps [simp]:
  "count_brackets [] = 0"
  "count_brackets (c # s) = (if c = CHR ''['' \<or> c = CHR '']'' then 1 else 0) + count_brackets s"
  by (simp_all add: count_brackets_def)

lemma count_brackets_append [simp]: "count_brackets (s @ t) = count_brackets s + count_brackets t"
  by (simp add: count_brackets_def)

lemma count_brackets_plain: "no_brackets s \<Longrightarrow> count_brackets s = 0"
  by (induction s) (auto simp: no_brackets_def)

lemma count_links:
  "list_all (no_brackets \<circ> snd) ps \<Longrightarrow>
     count_brackets (linked ps) = 4 * length (filter fst ps) \<and> count_brackets (concat (map snd ps)) = 0"
  by (induction ps) (auto simp: linked_def count_brackets_plain)

text \<open>
  Link additions: in a text whose brackets are those of whole links, an edit is reported as adding
  only links exactly when the old text has no bracket at all and is the new one without its brackets,
  of which there is at least one link. Wrapping a word of a page that already has a link is not reported.
\<close>

theorem link_additions_found:
  assumes "list_all (no_brackets \<circ> snd) ps" and "after_text d = linked ps" and "dt_insert_segments (sd_stats d) > 0"
  shows "detect_link_addition_only d \<noteq> None \<longleftrightarrow>
    (\<exists>p \<in> set ps. fst p) \<and> before_text d = concat (map snd ps)"
proof -
  have "length (filter fst ps) \<ge> 1 \<longleftrightarrow> (\<exists>p \<in> set ps. fst p)"
    by (induction ps) auto
  then show ?thesis
    using assms strip_links [OF assms(1)] count_links [OF assms(1)]
    by (auto simp: detect_link_addition_only_def Let_def)
qed

text \<open>
  Two routines for one signal: the longest run the diff side measures and the early-returning search
  of the scoring side agree for every threshold the policy compiler accepts.
\<close>

theorem repeated_runs_agree:
  assumes "2 \<le> threshold" and "threshold \<le> 255"
  shows "diff_repeated_character_run s threshold = has_repeated_character_run (Some s) threshold"
  using assms longest_run_ge [OF assms, of "Some (char_of 0)" 0 0 "lower_view s"]
  by (simp add: diff_repeated_character_run_def max_repeated_character_run_def has_repeated_character_run_def)

subsection \<open>Witnesses\<close>

theorem reference_hint_hides_text_witness:
  "detect_reference_addition_only ''He ruled.'' (''He ruled.'' @ ''<ref name=a/>'' @ '' He was bad. '' @ ''<ref>b</ref>'')"
proof (rule reference_hint_hides_text)
  show "CHR ''<'' \<notin> set ''He ruled.''" "CHR ''{'' \<notin> set ''He ruled.''" by simp_all
  show "\<not> str_contains (to_ascii_lowercase '' He was bad. '') ''</ref>''" by code_simp
qed

definition linking_diff :: "string \<Rightarrow> string \<Rightarrow> structured_diff" where
  "linking_diff before after = collect_segments LinesMode [(SegDelete, before), (SegInsert, after)]"

theorem link_additions_found_witness:
  "detect_link_addition_only (linking_diff ''the Nile'' ''the [[Nile]]'') \<noteq> None \<and>
   detect_link_addition_only (linking_diff ''[[the]] Nile'' ''[[the]] [[Nile]]'') = None"
proof -
  have "list_all (no_brackets \<circ> snd) [(False, ''the ''), (True, ''Nile'')]"
      "after_text (linking_diff ''the Nile'' ''the [[Nile]]'') = linked [(False, ''the ''), (True, ''Nile'')]"
      "dt_insert_segments (sd_stats (linking_diff ''the Nile'' ''the [[Nile]]'')) = 1"
      "before_text (linking_diff ''the Nile'' ''the [[Nile]]'') = ''the Nile''"
    by code_simp+
  from link_additions_found [OF this(1,2)] this(3,4)
  have one: "detect_link_addition_only (linking_diff ''the Nile'' ''the [[Nile]]'') \<noteq> None" by simp
  have "list_all (no_brackets \<circ> snd) [(True, ''the''), (False, '' ''), (True, ''Nile'')]"
      "after_text (linking_diff ''[[the]] Nile'' ''[[the]] [[Nile]]'') = linked [(True, ''the''), (False, '' ''), (True, ''Nile'')]"
      "dt_insert_segments (sd_stats (linking_diff ''[[the]] Nile'' ''[[the]] [[Nile]]'')) = 1"
      "before_text (linking_diff ''[[the]] Nile'' ''[[the]] [[Nile]]'') = ''[[the]] Nile''"
    by code_simp+
  from link_additions_found [OF this(1,2)] this(3,4)
  have "detect_link_addition_only (linking_diff ''[[the]] Nile'' ''[[the]] [[Nile]]'') = None" by simp
  with one show ?thesis by simp
qed

theorem repeated_runs_agree_witness:
  "diff_repeated_character_run ''heyyyyy'' 5 = has_repeated_character_run (Some ''heyyyyy'') 5"
  by (rule repeated_runs_agree) simp_all

end
