(* ===== verification/Wikibase_Entity.thy ===== *)
theory Wikibase_Entity
  imports Json_Value Ports
begin

section \<open>Wikibase entities\<close>

text \<open>
  \<open>crates/sp42-platform/src/wikibase.rs\<close>, the read model: the typed entity with its statements, the
  request builders, the parsers of the two endpoints and the rendering of values. The JSON parser, the
  compact JSON printer and the root of a URL are the parameters \<open>from_slice\<close>, \<open>to_string\<close> and \<open>root_of\<close>.
\<close>

datatype wikibase_error = WikibaseInvalidRequest string | WikibaseInvalidEntity string | WikibaseJson string

subsection \<open>The typed entity\<close>

datatype statement_rank = PreferredRank | NormalRank | DeprecatedRank

datatype wikibase_value =
    StringValue string
  | EntityIdValue string
  | MonolingualValue string string
  | TimeValue string "nat option"
  | QuantityValue string "string option" "string option" "string option"
  | OtherValue json

datatype wikibase_snak_kind = SnakValue wikibase_value | SomeValue | NoValue

record wikibase_snak =
  sn_property :: string
  sn_kind :: wikibase_snak_kind

record wikibase_reference =
  rf_snaks :: "wikibase_snak list"
  rf_raw :: json

record wikibase_statement =
  st_id :: "string option"
  st_property :: string
  st_value :: wikibase_snak
  st_qualifiers :: "wikibase_snak list"
  st_rank :: statement_rank
  st_references :: "wikibase_reference list"
  st_raw :: json

record wikibase_sitelink =
  sl_title :: string
  sl_badges :: "string list"

record wikibase_entity =
  we_id :: string
  we_last_revid :: "nat option"
  we_labels :: "(string, string) btree"
  we_descriptions :: "(string, string) btree"
  we_aliases :: "(string, string list) btree"
  we_statements :: "(string, wikibase_statement list) btree"
  we_sitelinks :: "(string, wikibase_sitelink) btree"
  we_extra :: "(string, json) btree"

definition reference_url_property :: string where "reference_url_property = ''P854''"

definition reference_urls :: "wikibase_reference \<Rightarrow> string list" where
  "reference_urls r =
     List.map_filter (\<lambda>snak. if sn_property snak = reference_url_property
       then (case sn_kind snak of SnakValue (StringValue url) \<Rightarrow> Some url | _ \<Rightarrow> None) else None) (rf_snaks r)"

definition sitelink_display :: "wikibase_sitelink \<Rightarrow> string" where
  "sitelink_display link =
     (if sl_badges link = [] then sl_title link
      else sl_title link @ '' ['' @ str_join '', '' (sl_badges link) @ '']'')"

definition entity_statement :: "wikibase_entity \<Rightarrow> string \<Rightarrow> string option \<Rightarrow> wikibase_statement option" where
  "entity_statement entity property statement_id =
     (case map_of (we_statements entity) property of
        None \<Rightarrow> None
      | Some statements \<Rightarrow>
          (case statement_id of
             Some i \<Rightarrow> find (\<lambda>s. st_id s = Some i) statements
           | None \<Rightarrow> (case statements of [] \<Rightarrow> None | s # _ \<Rightarrow> Some s)))"

subsection \<open>Requests\<close>

definition validate_entity_id :: "string \<Rightarrow> wikibase_error + unit" where
  "validate_entity_id entity_id =
     (case entity_id of
        c # ds \<Rightarrow>
          if c \<in> set ''QPL'' \<and> ds \<noteq> [] \<and> list_all ascii_digit ds then Inr ()
          else Inl (WikibaseInvalidRequest (bquote # entity_id @ bquote # '' is not a Wikibase entity id''))
      | [] \<Rightarrow> Inl (WikibaseInvalidRequest (bquote # entity_id @ bquote # '' is not a Wikibase entity id'')))"

definition site_root :: "(string \<Rightarrow> string option) \<Rightarrow> string \<Rightarrow> wikibase_error + string" where
  "site_root root_of api_url =
     (case root_of api_url of
        None \<Rightarrow> Inl (WikibaseInvalidRequest (''api url '' @ api_url @ '' has no host''))
      | Some root \<Rightarrow> Inr root)"

definition build_entity_request ::
  "(string \<Rightarrow> string option) \<Rightarrow> string \<Rightarrow> string \<Rightarrow> nat option \<Rightarrow> wikibase_error + http_request" where
  "build_entity_request root_of api_url entity_id revision =
     (case validate_entity_id entity_id of
        Inl e \<Rightarrow> Inl e
      | Inr _ \<Rightarrow>
          (case site_root root_of api_url of
             Inl e \<Rightarrow> Inl e
           | Inr root \<Rightarrow> Inr
               \<lparr>hr_method = Get, hr_url = root @ ''wiki/Special:EntityData/'' @ entity_id @ ''.json'',
                hr_query = (case revision of None \<Rightarrow> [] | Some r \<Rightarrow> [(''revision'', show_nat r)]),
                hr_headers = [], hr_body = []\<rparr>))"

fun validate_all :: "string list \<Rightarrow> wikibase_error + unit" where
  "validate_all [] = Inr ()"
| "validate_all (i # ids) = (case validate_entity_id i of Inl e \<Rightarrow> Inl e | Inr _ \<Rightarrow> validate_all ids)"

definition build_label_request :: "string \<Rightarrow> string list \<Rightarrow> string \<Rightarrow> wikibase_error + http_request" where
  "build_label_request api_url ids language =
     (if ids = [] then Inl (WikibaseInvalidRequest ''label lookup needs at least one id'')
      else case validate_all ids of
             Inl e \<Rightarrow> Inl e
           | Inr _ \<Rightarrow> Inr
               \<lparr>hr_method = Get, hr_url = api_url,
                hr_query = [(''action'', ''wbgetentities''), (''ids'', str_join ''|'' ids), (''props'', ''labels''),
                  (''languages'', language), (''format'', ''json'')],
                hr_headers = [], hr_body = []\<rparr>)"

subsection \<open>Values and snaks\<close>

text \<open>A text field below an optional value, empty when there is none.\<close>

definition field_text :: "json option \<Rightarrow> string \<Rightarrow> string" where
  "field_text value key = (case Option.bind value (jget_str key) of None \<Rightarrow> [] | Some s \<Rightarrow> s)"

definition value_text :: "json option \<Rightarrow> string" where
  "value_text value = (case Option.bind value as_str of None \<Rightarrow> [] | Some s \<Rightarrow> s)"

definition parse_quantity :: "json option \<Rightarrow> wikibase_value" where
  "parse_quantity value =
     (let bound = (\<lambda>key. Option.bind value (jget_str key));
          unit = (case bound ''unit'' of Some u \<Rightarrow> if u \<noteq> ''1'' then Some u else None | None \<Rightarrow> None)
      in QuantityValue (field_text value ''amount'') unit (bound ''lowerBound'') (bound ''upperBound''))"

definition parse_data_value :: "json \<Rightarrow> wikibase_value" where
  "parse_data_value datavalue =
     (let value = jget ''value'' datavalue
      in case jget_str ''type'' datavalue of
           Some t \<Rightarrow>
             if t = ''string'' then StringValue (value_text value)
             else if t = ''wikibase-entityid'' then EntityIdValue (field_text value ''id'')
             else if t = ''monolingualtext'' then MonolingualValue (field_text value ''language'') (field_text value ''text'')
             else if t = ''time'' then TimeValue (field_text value ''time'')
               (case Option.bind (Option.bind value (jget ''precision'')) as_u64 of
                  Some p \<Rightarrow> if p \<le> 255 then Some p else None | None \<Rightarrow> None)
             else if t = ''quantity'' then parse_quantity value
             else OtherValue datavalue
         | None \<Rightarrow>
             (case Option.bind value as_str of Some s \<Rightarrow> StringValue s | None \<Rightarrow> OtherValue datavalue))"

definition parse_snak :: "string \<Rightarrow> json \<Rightarrow> wikibase_snak" where
  "parse_snak fallback_property snak =
     \<lparr>sn_property = (case jget_str ''property'' snak of Some p \<Rightarrow> p | None \<Rightarrow> fallback_property),
      sn_kind = (let typed = jget_str ''snaktype'' snak
        in if typed = Some ''somevalue'' then SomeValue
           else if typed = Some ''novalue'' then NoValue
           else case jget ''datavalue'' snak of Some d \<Rightarrow> SnakValue (parse_data_value d) | None \<Rightarrow> NoValue)\<rparr>"

definition parse_snak_map :: "json option \<Rightarrow> json option \<Rightarrow> wikibase_snak list" where
  "parse_snak_map snaks order =
     (case Option.bind snaks as_object of
        None \<Rightarrow> []
      | Some m \<Rightarrow>
          (let ordered = (case Option.bind order as_array of
                 None \<Rightarrow> map fst m | Some xs \<Rightarrow> List.map_filter as_str xs)
           in concat (map (\<lambda>property. case Option.bind (map_of m property) as_array of
                None \<Rightarrow> [] | Some xs \<Rightarrow> map (parse_snak property) xs) ordered)))"

definition list_of :: "json option \<Rightarrow> json list" where
  "list_of v = (case Option.bind v as_array of None \<Rightarrow> [] | Some xs \<Rightarrow> xs)"

definition parse_references :: "json option \<Rightarrow> wikibase_reference list" where
  "parse_references references =
     map (\<lambda>r. \<lparr>rf_snaks = parse_snak_map (jget ''snaks'' r) (jget ''snaks-order'' r), rf_raw = r\<rparr>) (list_of references)"

definition parse_statement_object :: "string \<Rightarrow> json \<Rightarrow> wikibase_statement" where
  "parse_statement_object property statement =
     \<lparr>st_id = jget_str ''id'' statement, st_property = property,
      st_value = (case jget ''mainsnak'' statement of
          None \<Rightarrow> \<lparr>sn_property = property, sn_kind = NoValue\<rparr> | Some m \<Rightarrow> parse_snak property m),
      st_qualifiers = parse_snak_map (jget ''qualifiers'' statement) (jget ''qualifiers-order'' statement),
      st_rank = (let rank = jget_str ''rank'' statement
        in if rank = Some ''preferred'' then PreferredRank
           else if rank = Some ''deprecated'' then DeprecatedRank else NormalRank),
      st_references = parse_references (jget ''references'' statement), st_raw = statement\<rparr>"

subsection \<open>Entities\<close>

definition modeled_or_bookkeeping_keys :: "string list" where
  "modeled_or_bookkeeping_keys =
     [''id'', ''type'', ''labels'', ''descriptions'', ''aliases'', ''claims'', ''statements'', ''sitelinks'',
      ''lastrevid'', ''modified'', ''pageid'', ''ns'']"

definition entries_of :: "json option \<Rightarrow> (string \<times> json) list" where
  "entries_of v = (case Option.bind v as_object of None \<Rightarrow> [] | Some m \<Rightarrow> m)"

definition parse_term_map :: "json option \<Rightarrow> (string, string) btree" where
  "parse_term_map terms = bt_collect (\<lambda>_. jget_str ''value'') (entries_of terms)"

definition parse_alias_map :: "json option \<Rightarrow> (string, string list) btree" where
  "parse_alias_map aliases =
     bt_collect (\<lambda>_ v. Some (List.map_filter (jget_str ''value'') (list_of (Some v)))) (entries_of aliases)"

definition parse_sitelink :: "json \<Rightarrow> wikibase_sitelink option" where
  "parse_sitelink link =
     (case jget_str ''title'' link of
        None \<Rightarrow> None
      | Some title \<Rightarrow> Some \<lparr>sl_title = title, sl_badges = List.map_filter as_str (list_of (jget ''badges'' link))\<rparr>)"

definition parse_sitelinks :: "json option \<Rightarrow> (string, wikibase_sitelink) btree" where
  "parse_sitelinks sitelinks = bt_collect (\<lambda>_. parse_sitelink) (entries_of sitelinks)"

text \<open>Items carry \<open>claims\<close>, other serializations \<open>statements\<close>; the first that is there counts.\<close>

definition claims_field :: "json \<Rightarrow> json option" where
  "claims_field entity = or_else (jget ''claims'' entity) (jget ''statements'' entity)"

definition parse_statements :: "json \<Rightarrow> (string, wikibase_statement list) btree" where
  "parse_statements entity =
     bt_collect (\<lambda>property v. Some (map (parse_statement_object property) (list_of (Some v)))) (entries_of (claims_field entity))"

definition extra_fields :: "json \<Rightarrow> (string, json) btree" where
  "extra_fields entity =
     bt_collect (\<lambda>key v. if key \<notin> set modeled_or_bookkeeping_keys \<and> key \<noteq> ''title'' then Some v else None) (entries_of (Some entity))"

definition parse_entity_object :: "string \<Rightarrow> json \<Rightarrow> wikibase_entity" where
  "parse_entity_object requested_id entity =
     \<lparr>we_id = (case jget_str ''id'' entity of Some i \<Rightarrow> i | None \<Rightarrow> requested_id),
      we_last_revid = Option.bind (jget ''lastrevid'' entity) as_u64,
      we_labels = parse_term_map (jget ''labels'' entity),
      we_descriptions = parse_term_map (jget ''descriptions'' entity),
      we_aliases = parse_alias_map (jget ''aliases'' entity),
      we_statements = parse_statements entity,
      we_sitelinks = parse_sitelinks (jget ''sitelinks'' entity),
      we_extra = extra_fields entity\<rparr>"

definition locate_entity_object :: "string \<Rightarrow> json \<Rightarrow> wikibase_error + json" where
  "locate_entity_object entity_id doc =
     (case Option.bind (jget ''entities'' doc) as_object of
        Some entities \<Rightarrow>
          (case map_of entities entity_id of
             Some entity \<Rightarrow> Inr entity
           | None \<Rightarrow>
               (case entities of
                  [(_, entity)] \<Rightarrow> Inr entity
                | _ \<Rightarrow> Inl (WikibaseInvalidEntity (''entity '' @ entity_id @ '' not found''))))
      | None \<Rightarrow>
          if as_object doc \<noteq> None then Inr doc
          else Inl (WikibaseInvalidEntity ''payload is not an entity document''))"

definition parse_entity :: "(string \<Rightarrow> string + json) \<Rightarrow> string \<Rightarrow> string \<Rightarrow> wikibase_error + wikibase_entity" where
  "parse_entity from_slice entity_id body =
     (case from_slice body of
        Inl e \<Rightarrow> Inl (WikibaseJson e)
      | Inr doc \<Rightarrow>
          (case locate_entity_object entity_id doc of
             Inl e \<Rightarrow> Inl e
           | Inr entity \<Rightarrow> Inr (parse_entity_object entity_id entity)))"

definition parse_entity_content :: "(string \<Rightarrow> string + json) \<Rightarrow> string \<Rightarrow> wikibase_error + wikibase_entity" where
  "parse_entity_content from_slice body =
     (case parse_entity from_slice [] body of
        Inl e \<Rightarrow> Inl e
      | Inr entity \<Rightarrow>
          if we_id entity = [] then Inl (WikibaseInvalidEntity ''entity content carries no id'') else Inr entity)"

subsection \<open>Labels and revisions\<close>

definition parse_labels :: "(string \<Rightarrow> string + json) \<Rightarrow> string \<Rightarrow> string \<Rightarrow> wikibase_error + (string, string) btree" where
  "parse_labels from_slice body language =
     (case from_slice body of
        Inl e \<Rightarrow> Inl (WikibaseJson e)
      | Inr doc \<Rightarrow> Inr
          (bt_collect (\<lambda>_ entity. Option.bind (Option.bind (jget ''labels'' entity) (jget language)) (jget_str ''value''))
            (entries_of (jget ''entities'' doc))))"

record revision_content =
  rc_content :: string
  rc_content_model :: "string option"

definition revision_entry :: "json \<Rightarrow> (nat \<times> revision_content) option" where
  "revision_entry revision =
     (case Option.bind (jget ''revid'' revision) as_u64 of
        None \<Rightarrow> None
      | Some rev_id \<Rightarrow>
          (let main_slot = Option.bind (jget ''slots'' revision) (jget ''main'')
           in case Option.bind main_slot (jget_str ''content'') of
                None \<Rightarrow> None
              | Some content \<Rightarrow> Some (rev_id,
                  \<lparr>rc_content = content, rc_content_model = Option.bind main_slot (jget_str ''contentmodel'')\<rparr>)))"

definition parse_revision_contents ::
  "(string \<Rightarrow> string + json) \<Rightarrow> string \<Rightarrow> wikibase_error + (nat, revision_content) btree" where
  "parse_revision_contents from_slice body =
     (case from_slice body of
        Inl e \<Rightarrow> Inl (WikibaseJson e)
      | Inr parsed \<Rightarrow>
          (case Option.bind (Option.bind (jget ''query'' parsed) (jget ''pages'')) as_array of
             None \<Rightarrow> Inl (WikibaseInvalidEntity ''revision payload does not contain query.pages'')
           | Some pages \<Rightarrow> Inr
               (fold (\<lambda>(k, v). bt_insert k v)
                 (concat (map (\<lambda>page. List.map_filter revision_entry (list_of (jget ''revisions'' page))) pages)) [])))"

subsection \<open>Rendering values\<close>

record value_display =
  vd_text :: string
  vd_item :: "string option"

definition unit_entity_id :: "string \<Rightarrow> string" where
  "unit_entity_id unit = rev (takeWhile (\<lambda>c. c \<noteq> CHR ''/'') (rev unit))"

definition trim_plus :: "string \<Rightarrow> string" where
  "trim_plus s = dropWhile (\<lambda>c. c = CHR ''+'') s"

definition render_quantity :: "string \<Rightarrow> string option \<Rightarrow> string option \<Rightarrow> string option \<Rightarrow> string" where
  "render_quantity amount unit lower upper =
     trim_plus amount @
     (case (lower, upper) of
        (Some l, Some u) \<Rightarrow> '' ['' @ trim_plus l @ ''..'' @ trim_plus u @ '']'' | _ \<Rightarrow> []) @
     (case unit of None \<Rightarrow> [] | Some u \<Rightarrow> '' '' @ unit_entity_id u)"

definition render_snak_value :: "(json \<Rightarrow> string) \<Rightarrow> wikibase_snak \<Rightarrow> value_display" where
  "render_snak_value to_string snak =
     (case sn_kind snak of
        NoValue \<Rightarrow> \<lparr>vd_text = ''(no value)'', vd_item = None\<rparr>
      | SomeValue \<Rightarrow> \<lparr>vd_text = ''(unknown value)'', vd_item = None\<rparr>
      | SnakValue value \<Rightarrow>
          (case value of
             StringValue s \<Rightarrow> \<lparr>vd_text = s, vd_item = None\<rparr>
           | MonolingualValue _ s \<Rightarrow> \<lparr>vd_text = s, vd_item = None\<rparr>
           | EntityIdValue i \<Rightarrow> \<lparr>vd_text = i, vd_item = Some i\<rparr>
           | TimeValue t _ \<Rightarrow> \<lparr>vd_text = trim_plus t, vd_item = None\<rparr>
           | QuantityValue amount unit lower upper \<Rightarrow> \<lparr>vd_text = render_quantity amount unit lower upper, vd_item = None\<rparr>
           | OtherValue v \<Rightarrow> \<lparr>vd_text = to_string v, vd_item = None\<rparr>))"

definition render_statement_claim :: "(json \<Rightarrow> string) \<Rightarrow> string \<Rightarrow> wikibase_statement \<Rightarrow> (string, string) btree \<Rightarrow> string" where
  "render_statement_claim to_string subject_label statement labels =
     (let property_label = (case map_of labels (st_property statement) of Some l \<Rightarrow> l | None \<Rightarrow> st_property statement);
          display = render_snak_value to_string (st_value statement);
          value_label = (case Option.bind (vd_item display) (map_of labels) of Some l \<Rightarrow> l | None \<Rightarrow> vd_text display)
      in subject_label @ '' '' @ property_label @ '' '' @ value_label @ ''.'')"

subsection \<open>What a parsed entity holds\<close>

lemma entries_of_wf: "(\<And>w. v = Some w \<Longrightarrow> json_wf w) \<Longrightarrow> bt_wf (entries_of v)"
  by (cases v) (auto simp: entries_of_def as_object_def split: json.splits)

lemma field_entries_wf: "json_wf entity \<Longrightarrow> bt_wf (entries_of (jget key entity))"
  by (rule entries_of_wf) (rule json_wf_get)

lemma claims_entries_wf: "json_wf entity \<Longrightarrow> bt_wf (entries_of (claims_field entity))"
  by (cases "jget ''claims'' entity") (metis claims_field_def field_entries_wf or_else_def option.simps(4,5))+

text \<open>What a review sees of an entity document, key by key.\<close>

definition term_at :: "string \<Rightarrow> json \<Rightarrow> string \<Rightarrow> string option" where
  "term_at field entity language = Option.bind (map_of (entries_of (jget field entity)) language) (jget_str ''value'')"

definition aliases_at :: "json \<Rightarrow> string \<Rightarrow> string list option" where
  "aliases_at entity language =
     map_option (\<lambda>v. List.map_filter (jget_str ''value'') (list_of (Some v))) (map_of (entries_of (jget ''aliases'' entity)) language)"

definition sitelink_at :: "json \<Rightarrow> string \<Rightarrow> wikibase_sitelink option" where
  "sitelink_at entity site = Option.bind (map_of (entries_of (jget ''sitelinks'' entity)) site) parse_sitelink"

definition claims_at :: "json \<Rightarrow> string \<Rightarrow> json list" where
  "claims_at entity property = list_of (map_of (entries_of (claims_field entity)) property)"

definition field_at :: "json \<Rightarrow> string \<Rightarrow> json option" where
  "field_at entity key = (if key \<in> set modeled_or_bookkeeping_keys \<or> key = ''title'' then None else jget key entity)"

text \<open>
  The same, read off the document by paths, apart from the parsers: the specification of the entity diff.
  Statements are those of both containers a document may have; a review does not look at the bookkeeping.
\<close>

definition shown_term :: "string \<Rightarrow> json \<Rightarrow> string \<Rightarrow> string option" where
  "shown_term field d language = json_text (json_at [field, language, ''value''] d)"

definition shown_aliases :: "json \<Rightarrow> string \<Rightarrow> string list option" where
  "shown_aliases d language =
     (case json_at [''aliases'', language] d of
        None \<Rightarrow> None
      | Some v \<Rightarrow> Some (List.map_filter (\<lambda>x. json_text (json_at [''value''] x)) (json_elements (Some v))))"

definition shown_sitelink :: "json \<Rightarrow> string \<Rightarrow> (string \<times> string list) option" where
  "shown_sitelink d site =
     (case json_text (json_at [''sitelinks'', site, ''title''] d) of
        None \<Rightarrow> None
      | Some title \<Rightarrow>
          Some (title, List.map_filter (\<lambda>x. json_text (Some x)) (json_elements (json_at [''sitelinks'', site, ''badges''] d))))"

definition shown_statements :: "json \<Rightarrow> string \<Rightarrow> json list" where
  "shown_statements d property =
     json_elements (json_at [''claims'', property] d) @ json_elements (json_at [''statements'', property] d)"

definition shown_field :: "json \<Rightarrow> string \<Rightarrow> json option" where
  "shown_field d key =
     (if key \<in> {''labels'', ''descriptions'', ''aliases'', ''claims'', ''statements'', ''sitelinks''} \<union>
        {''id'', ''type'', ''title'', ''lastrevid'', ''modified'', ''pageid'', ''ns''} then None
      else json_at [key] d)"

definition one_container :: "json \<Rightarrow> bool" where
  "one_container d \<longleftrightarrow> json_at [''claims''] d = None \<or> json_at [''statements''] d = None"

lemma entries_get: "map_of (entries_of v) k = Option.bind v (jget k)"
  by (cases v) (auto simp: entries_of_def as_object_def jget_def split: json.splits)

lemma list_of_elements: "list_of v = json_elements v"
  by (cases v rule: json_elements.cases) (simp_all add: list_of_def as_array_def)

lemma term_at_shown: "term_at field d = shown_term field d"
  by (rule ext) (simp add: term_at_def shown_term_def entries_get json_at_Cons json_text_eq jget_str_def [abs_def])

lemma aliases_at_shown: "aliases_at d = shown_aliases d"
  by (rule ext) (simp add: aliases_at_def shown_aliases_def entries_get json_at_Cons list_of_elements json_text_eq
      jget_str_def [abs_def] split: option.split)

lemma sitelink_at_shown:
  "sitelink_at d site = map_option (\<lambda>(title, badges). \<lparr>sl_title = title, sl_badges = badges\<rparr>) (shown_sitelink d site)"
proof -
  have texts: "(\<lambda>x. json_text (Some x)) = as_str" by (simp add: json_text_eq fun_eq_iff)
  show ?thesis
    unfolding sitelink_at_def shown_sitelink_def entries_get json_at_Cons list_of_elements [symmetric] texts
    by (auto simp: parse_sitelink_def json_text_eq jget_str_def split: option.splits bind_splits)
qed

lemma claims_at_shown: "one_container d \<Longrightarrow> claims_at d = shown_statements d"
  by (auto simp: fun_eq_iff claims_at_def shown_statements_def one_container_def entries_get claims_field_def or_else_def
      json_at_Cons list_of_elements split: option.splits bind_splits)

lemma field_at_shown: "field_at d = shown_field d"
  by (auto simp: fun_eq_iff field_at_def shown_field_def modeled_or_bookkeeping_keys_def json_at_Cons)

lemma sitelinks_same: "sitelink_at d = sitelink_at d' \<longleftrightarrow> shown_sitelink d = shown_sitelink d'"
proof -
  have "inj (map_option (\<lambda>(title, badges). \<lparr>sl_title = title, sl_badges = badges\<rparr>))"
    by (intro option.inj_map injI) auto
  then show ?thesis unfolding fun_eq_iff sitelink_at_shown by (simp add: inj_eq)
qed

lemma parsed_wf:
  assumes "json_wf entity"
  shows "bt_wf (we_labels (parse_entity_object i entity))" "bt_wf (we_descriptions (parse_entity_object i entity))"
    "bt_wf (we_aliases (parse_entity_object i entity))" "bt_wf (we_statements (parse_entity_object i entity))"
    "bt_wf (we_sitelinks (parse_entity_object i entity))" "bt_wf (we_extra (parse_entity_object i entity))"
  using assms field_entries_wf claims_entries_wf entries_of_wf [of "Some entity"]
  by (simp_all add: parse_entity_object_def parse_term_map_def parse_alias_map_def parse_statements_def
      parse_sitelinks_def extra_fields_def)

lemma parsed_lookup:
  assumes "json_wf entity"
  shows "map_of (we_labels (parse_entity_object i entity)) = term_at ''labels'' entity"
    "map_of (we_descriptions (parse_entity_object i entity)) = term_at ''descriptions'' entity"
    "map_of (we_aliases (parse_entity_object i entity)) = aliases_at entity"
    "map_of (we_sitelinks (parse_entity_object i entity)) = sitelink_at entity"
    "map_of (we_extra (parse_entity_object i entity)) = field_at entity"
    "map_of (we_statements (parse_entity_object i entity)) p =
       map_option (\<lambda>v. map (parse_statement_object p) (list_of (Some v))) (map_of (entries_of (claims_field entity)) p)"
proof -
  have entity: "bt_wf (entries_of (Some entity))" using assms by (intro entries_of_wf) simp
  have get: "map_of (entries_of (Some entity)) key = jget key entity" for key
    by (cases entity) (simp_all add: entries_of_def as_object_def jget_def)
  note collect = map_of_bt_collect [OF field_entries_wf [OF assms]] map_of_bt_collect [OF claims_entries_wf [OF assms]]
    map_of_bt_collect [OF entity]
  show "map_of (we_labels (parse_entity_object i entity)) = term_at ''labels'' entity"
    "map_of (we_descriptions (parse_entity_object i entity)) = term_at ''descriptions'' entity"
    by (rule ext, simp add: parse_entity_object_def parse_term_map_def collect term_at_def)+
  show "map_of (we_aliases (parse_entity_object i entity)) = aliases_at entity"
    by (rule ext, simp add: parse_entity_object_def parse_alias_map_def collect aliases_at_def map_conv_bind_option comp_def)
  show "map_of (we_sitelinks (parse_entity_object i entity)) = sitelink_at entity"
    by (rule ext, simp add: parse_entity_object_def parse_sitelinks_def collect sitelink_at_def)
  show "map_of (we_extra (parse_entity_object i entity)) = field_at entity"
    by (rule ext, simp add: parse_entity_object_def extra_fields_def collect field_at_def get split: bind_splits)
  show "map_of (we_statements (parse_entity_object i entity)) p =
       map_option (\<lambda>v. map (parse_statement_object p) (list_of (Some v))) (map_of (entries_of (claims_field entity)) p)"
    by (simp add: parse_entity_object_def parse_statements_def collect map_conv_bind_option comp_def)
qed

lemma parsed_statements:
  assumes "json_wf entity"
  shows "map st_raw (case map_of (we_statements (parse_entity_object i entity)) p of None \<Rightarrow> [] | Some ss \<Rightarrow> ss) = claims_at entity p"
    "s \<in> set (case map_of (we_statements (parse_entity_object i entity)) p of None \<Rightarrow> [] | Some ss \<Rightarrow> ss) \<Longrightarrow>
       s = parse_statement_object p (st_raw s)"
  by (auto simp: parsed_lookup [OF assms] claims_at_def list_of_def parse_statement_object_def comp_def split: option.splits)

end
