(* ===== verification/Wikibase_Diff.thy ===== *)
theory Wikibase_Diff
  imports Wikibase_Entity Diff_Engine "HOL-Library.Multiset"
begin

section \<open>Entity diffs\<close>

text \<open>
  \<open>crates/sp42-platform/src/wikibase.rs\<close>, the diff of two revisions of an entity, the routing of a
  revision to the text diff or the entity diff, and the report with one row for every change. The claims, both
  about two documents and what paths into them show: a diff without changes means that nothing a review looks at
  changed, and the report accounts for every difference and names what moved.
\<close>

subsection \<open>Changes\<close>

record term_change =
  tc_language :: string
  tc_before :: "string option"
  tc_after :: "string option"

record alias_change =
  ac_language :: string
  ac_before :: "string list"
  ac_after :: "string list"

record sitelink_change =
  lc_site :: string
  lc_before :: "string option"
  lc_after :: "string option"

record statement_change_parts =
  pt_value :: bool
  pt_qualifiers :: bool
  pt_rank :: bool
  pt_references :: bool
  pt_other :: bool

definition any_part :: "statement_change_parts \<Rightarrow> bool" where
  "any_part p \<longleftrightarrow> pt_value p \<or> pt_qualifiers p \<or> pt_rank p \<or> pt_references p \<or> pt_other p"

datatype statement_change =
    StatementAdded wikibase_statement
  | StatementRemoved wikibase_statement
  | StatementChanged wikibase_statement wikibase_statement statement_change_parts
  | StatementsReordered string

record entity_diff =
  df_labels :: "term_change list"
  df_descriptions :: "term_change list"
  df_aliases :: "alias_change list"
  df_sitelinks :: "sitelink_change list"
  df_statements :: "statement_change list"
  df_other :: "string list"

definition diff_has_changes :: "entity_diff \<Rightarrow> bool" where
  "diff_has_changes d \<longleftrightarrow>
     \<not> (df_labels d = [] \<and> df_descriptions d = [] \<and> df_aliases d = [] \<and> df_sitelinks d = [] \<and>
        df_statements d = [] \<and> df_other d = [])"

subsection \<open>Diffing\<close>

definition diff_term_maps :: "(string, string) btree \<Rightarrow> (string, string) btree \<Rightarrow> term_change list" where
  "diff_term_maps before after =
     List.map_filter (\<lambda>(language, v).
       if map_of after language = Some v then None
       else Some \<lparr>tc_language = language, tc_before = Some v, tc_after = map_of after language\<rparr>) before @
     List.map_filter (\<lambda>(language, v).
       if map_of before language \<noteq> None then None
       else Some \<lparr>tc_language = language, tc_before = None, tc_after = Some v\<rparr>) after"

definition diff_alias_maps :: "(string, string list) btree \<Rightarrow> (string, string list) btree \<Rightarrow> alias_change list" where
  "diff_alias_maps before after =
     List.map_filter (\<lambda>(language, v).
       if map_of after language = Some v then None
       else Some \<lparr>ac_language = language, ac_before = v,
         ac_after = (case map_of after language of None \<Rightarrow> [] | Some w \<Rightarrow> w)\<rparr>) before @
     List.map_filter (\<lambda>(language, v).
       if map_of before language \<noteq> None then None
       else Some \<lparr>ac_language = language, ac_before = [], ac_after = v\<rparr>) after"

definition diff_sitelink_maps ::
  "(string, wikibase_sitelink) btree \<Rightarrow> (string, wikibase_sitelink) btree \<Rightarrow> sitelink_change list" where
  "diff_sitelink_maps before after =
     List.map_filter (\<lambda>(site, v).
       if map_of after site = Some v then None
       else Some \<lparr>lc_site = site, lc_before = Some (sitelink_display v),
         lc_after = map_option sitelink_display (map_of after site)\<rparr>) before @
     List.map_filter (\<lambda>(site, v).
       if map_of before site \<noteq> None then None
       else Some \<lparr>lc_site = site, lc_before = None, lc_after = Some (sitelink_display v)\<rparr>) after"

definition diff_extra_maps :: "(string, json) btree \<Rightarrow> (string, json) btree \<Rightarrow> string list" where
  "diff_extra_maps before after =
     List.map_filter (\<lambda>(key, v). if map_of after key = Some v then None else Some key) before @
     List.map_filter (\<lambda>(key, v). if map_of before key \<noteq> None then None else Some key) after"

definition raw_part :: "wikibase_statement \<Rightarrow> string \<Rightarrow> json option" where
  "raw_part statement key = jget key (st_raw statement)"

definition statement_change_parts_of :: "wikibase_statement \<Rightarrow> wikibase_statement \<Rightarrow> statement_change_parts" where
  "statement_change_parts_of before after =
     (let moved = (\<lambda>key. raw_part before key \<noteq> raw_part after key);
          parts = \<lparr>pt_value = moved ''mainsnak'', pt_qualifiers = moved ''qualifiers'' \<or> moved ''qualifiers-order'',
            pt_rank = st_rank before \<noteq> st_rank after, pt_references = moved ''references'', pt_other = False\<rparr>
      in if any_part parts then parts else parts\<lparr>pt_other := True\<rparr>)"

text \<open>The first statement of a list that is not consumed yet and satisfies a predicate.\<close>

definition find_unconsumed :: "(wikibase_statement \<Rightarrow> bool) \<Rightarrow> bool list \<Rightarrow> wikibase_statement list \<Rightarrow> nat option" where
  "find_unconsumed p consumed after = find (\<lambda>i. \<not> consumed ! i \<and> p (after ! i)) [0..<length after]"

fun pair_statements ::
  "wikibase_statement list \<Rightarrow> wikibase_statement list \<Rightarrow> bool list \<times> nat list \<times> statement_change list \<Rightarrow>
   bool list \<times> nat list \<times> statement_change list" where
  "pair_statements after [] s = s"
| "pair_statements after (old # before) (consumed, matched, changes) =
     (case Option.bind (st_id old) (\<lambda>i. find_unconsumed (\<lambda>new. st_id new = Some i) consumed after) of
        Some index \<Rightarrow>
          (let new = after ! index
           in pair_statements after before
                (consumed[index := True], matched @ [index],
                 if st_raw old \<noteq> st_raw new
                 then changes @ [StatementChanged old new (statement_change_parts_of old new)] else changes))
      | None \<Rightarrow>
          (case find_unconsumed (\<lambda>new. st_raw new = st_raw old) consumed after of
             Some index \<Rightarrow> pair_statements after before (consumed[index := True], matched @ [index], changes)
           | None \<Rightarrow> pair_statements after before (consumed, matched, changes @ [StatementRemoved old])))"

fun out_of_order :: "nat list \<Rightarrow> bool" where
  "out_of_order (x # y # zs) \<longleftrightarrow> x > y \<or> out_of_order (y # zs)"
| "out_of_order _ \<longleftrightarrow> False"

definition diff_statement_lists ::
  "string \<Rightarrow> wikibase_statement list \<Rightarrow> wikibase_statement list \<Rightarrow> statement_change list" where
  "diff_statement_lists property before after =
     (let (consumed, matched, changes) = pair_statements after before (replicate (length after) False, [], [])
      in changes @ map (\<lambda>i. StatementAdded (after ! i)) (filter (\<lambda>i. \<not> consumed ! i) [0..<length after]) @
         (if out_of_order matched then [StatementsReordered property] else []))"

definition diff_statement_maps ::
  "(string, wikibase_statement list) btree \<Rightarrow> (string, wikibase_statement list) btree \<Rightarrow> statement_change list" where
  "diff_statement_maps before after =
     concat (map (\<lambda>(property, v).
       diff_statement_lists property v (case map_of after property of None \<Rightarrow> [] | Some w \<Rightarrow> w)) before) @
     concat (map (\<lambda>(property, v).
       if map_of before property \<noteq> None then [] else diff_statement_lists property [] v) after)"

definition empty_entity :: "string \<Rightarrow> wikibase_entity" where
  "empty_entity i =
     \<lparr>we_id = i, we_last_revid = None, we_labels = [], we_descriptions = [], we_aliases = [], we_statements = [],
      we_sitelinks = [], we_extra = []\<rparr>"

definition diff_entities :: "wikibase_entity option \<Rightarrow> wikibase_entity \<Rightarrow> entity_diff" where
  "diff_entities old new =
     (let old = (case old of None \<Rightarrow> empty_entity (we_id new) | Some e \<Rightarrow> e)
      in \<lparr>df_labels = diff_term_maps (we_labels old) (we_labels new),
          df_descriptions = diff_term_maps (we_descriptions old) (we_descriptions new),
          df_aliases = diff_alias_maps (we_aliases old) (we_aliases new),
          df_sitelinks = diff_sitelink_maps (we_sitelinks old) (we_sitelinks new),
          df_statements = diff_statement_maps (we_statements old) (we_statements new),
          df_other = diff_extra_maps (we_extra old) (we_extra new)\<rparr>)"

subsection \<open>Routing\<close>

datatype content_diff = TextDiff structured_diff | EntityDiff entity_diff

text \<open>The text diff is the library function \<open>diff_lines\<close> of the diff engine, \<open>None\<close> where it panics.\<close>

definition route_content_diff ::
  "(string \<Rightarrow> string + json) \<Rightarrow> diff_env \<Rightarrow> string option \<Rightarrow> string option \<Rightarrow> string \<Rightarrow> content_diff option" where
  "route_content_diff from_slice env content_model before after =
     (let read = (\<lambda>body. case parse_entity_content from_slice body of Inl _ \<Rightarrow> None | Inr e \<Rightarrow> Some e);
          text_diff = map_option TextDiff (diff_lines env (case before of None \<Rightarrow> [] | Some b \<Rightarrow> b) after)
      in if classify_content_model content_model = CM_WikibaseEntity
         then case read after of
                Some new_entity \<Rightarrow>
                  (let old_entity = Option.bind before read
                   in if before = None \<or> old_entity \<noteq> None
                      then Some (EntityDiff (diff_entities old_entity new_entity)) else text_diff)
              | None \<Rightarrow> text_diff
         else text_diff)"

subsection \<open>No change means nothing changed\<close>




























subsection \<open>The report\<close>

datatype entity_change_kind = ChangeAdded | ChangeRemoved | ChangeChanged

record entity_change_row =
  er_kind :: entity_change_kind
  er_text :: string


definition arrow :: string where "arrow = [CHR '' '', CHR 0xE2, CHR 0x86, CHR 0x92, CHR '' '']"




definition alias_row :: "alias_change \<Rightarrow> entity_change_row" where
  "alias_row c =
     \<lparr>er_kind = ChangeChanged,
      er_text = ac_language c @ '': ['' @ str_join '', '' (ac_before c) @ '']'' @ arrow @ ''['' @ str_join '', '' (ac_after c) @ '']''\<rparr>"

















subsection \<open>The labels a report needs\<close>

definition statement_label_ids :: "wikibase_statement \<Rightarrow> string list" where
  "statement_label_ids statement =
     st_property statement # map sn_property (st_qualifiers statement) @
     (case sn_kind (st_value statement) of SnakValue (EntityIdValue i) \<Rightarrow> [i] | _ \<Rightarrow> [])"

fun change_label_ids :: "statement_change \<Rightarrow> string list" where
  "change_label_ids (StatementAdded s) = statement_label_ids s"
| "change_label_ids (StatementRemoved s) = statement_label_ids s"
| "change_label_ids (StatementChanged before after parts) = statement_label_ids before @ statement_label_ids after"
| "change_label_ids (StatementsReordered property) = [property]"

definition collect_label_ids :: "entity_diff \<Rightarrow> string list" where
  "collect_label_ids diff =
     map fst (fold (\<lambda>i. bt_insert i ()) (concat (map change_label_ids (df_statements diff))) [])"

subsection \<open>Every change has a row that shows it\<close>




































text \<open>
  Three corners. With \<open>claims\<close> present the key \<open>statements\<close> is neither read nor an extra field; \<open>other\<close> is
  only set when no modelled part moved; and the row of an alias list may show the same text twice.
\<close>

lemma shadowed_statements:
  "\<not> diff_has_changes (diff_entities (Some (parse_entity_object [] (JObject [(''claims'', JObject []), (''statements'', JNull)])))
     (parse_entity_object [] (JObject [(''claims'', JObject []), (''statements'', JObject [(''P31'', JArray [JNull])])])))"
  by code_simp

lemma other_part_masked:
  "\<not> pt_other (statement_change_parts_of (parse_statement_object ''P1'' (JObject [(''rank'', JString ''preferred''), (''type'', JString ''a'')]))
     (parse_statement_object ''P1'' (JObject [(''rank'', JString ''normal''), (''type'', JString ''b'')])))"
  by code_simp

lemma alias_row_same_text:
  "er_text (alias_row \<lparr>ac_language = ''en'', ac_before = [''a, b''], ac_after = [''a'', ''b'']\<rparr>) = ''en: [a, b]'' @ arrow @ ''[a, b]''"
  by (simp add: alias_row_def)

end
