(* ===== verification/Action_Requests.thy ===== *)
theory Action_Requests
  imports Source_Fetch Json_Value Edit_Ingestion
begin

section \<open>Wiki actions: requests and their execution\<close>

text \<open>
  \<open>crates/sp42-platform/src/action_contracts.rs\<close> and \<open>action_executor.rs\<close>: the requests of the MediaWiki
  actions, their execution over an HTTP client, and the literal replacement every content edit rests on.
  An execution threads the list of the requests sent so far; the client's answer may depend on it. Form
  encoding and the decoding of responses are library functions, fields of the environment.
\<close>

subsection \<open>Contracts\<close>

record rollback_request =
  rb_title :: string
  rb_user :: string
  rb_token :: string
  rb_summary :: "string option"

record patrol_request =
  pq_rev_id :: nat
  pq_token :: string

record undo_request =
  un_title :: string
  un_rev_id :: nat
  un_after_rev_id :: nat
  un_token :: string
  un_summary :: "string option"

record page_save_request =
  sv_title :: string
  sv_text :: string
  sv_token :: string
  sv_summary :: "string option"
  sv_baserevid :: "nat option"
  sv_tags :: "string list"
  sv_watchlist :: "string option"
  sv_create_only :: bool
  sv_minor :: bool

datatype token_kind = RollbackToken | PatrolToken | CsrfToken

fun token_api_value :: "token_kind \<Rightarrow> string" where
  "token_api_value RollbackToken = ''rollback''"
| "token_api_value PatrolToken = ''patrol''"
| "token_api_value CsrfToken = ''csrf''"

datatype session_action_kind = RollbackAction | PatrolAction | UndoAction | TagCitationNeeded | InlineEdit | FlagCitation

fun action_label :: "session_action_kind \<Rightarrow> string" where
  "action_label RollbackAction = ''rollback''"
| "action_label PatrolAction = ''patrol''"
| "action_label UndoAction = ''undo''"
| "action_label TagCitationNeeded = ''tag-citation-needed''"
| "action_label InlineEdit = ''inline-edit''"
| "action_label FlagCitation = ''flag-citation''"

datatype citation_concern_kind = PartialSupport | FailedVerification

fun concern_label :: "citation_concern_kind \<Rightarrow> string" where
  "concern_label PartialSupport = ''partial-support''"
| "concern_label FailedVerification = ''failed-verification''"

record action_response_summary =
  as_status :: nat
  as_warnings :: "string list"
  as_result :: "string option"
  as_error :: "string option"
  as_api_code :: "string option"
  as_retryable :: bool
  as_nochange :: bool

definition is_retryable_action_api_error :: "string \<Rightarrow> bool" where
  "is_retryable_action_api_error code \<longleftrightarrow>
     code \<in> set [''maxlag'', ''readonly'', ''ratelimited'', ''internal_api_error_DBQueryError'',
       ''internal_api_error_DBConnectionError'', ''internal_api_error_Exception'', ''failed-save'']"

text \<open>The single variant of \<open>ActionError\<close>.\<close>

record action_error =
  er_message :: string
  er_code :: "string option"
  er_http_status :: "nat option"
  er_retryable :: bool

definition plain_error :: "string \<Rightarrow> action_error" where
  "plain_error message = \<lparr>er_message = message, er_code = None, er_http_status = None, er_retryable = False\<rparr>"

definition api_action_error :: "string \<Rightarrow> string option \<Rightarrow> nat option \<Rightarrow> bool \<Rightarrow> action_error" where
  "api_action_error message code http_status retryable =
     \<lparr>er_message = message, er_code = code, er_http_status = http_status, er_retryable = retryable\<rparr>"

definition coded_error :: "string \<Rightarrow> string \<Rightarrow> action_error" where
  "coded_error message code = api_action_error message (Some code) None False"

text \<open>The part of a wiki's configuration the actions read: its templates.\<close>

record action_config = wiki_config +
  wc_citation_needed :: "string option"
  wc_citation_concerns :: "citation_concern_kind \<Rightarrow> string option"

subsection \<open>Executions\<close>

record media_wiki_api_error =
  ap_code :: string
  ap_info :: "string option"
  ap_details :: "string option"

record media_wiki_response =
  mr_warnings :: "json option"
  mr_error :: "media_wiki_api_error option"
  mr_rollback :: "json option"
  mr_patrol :: "json option"
  mr_edit :: "json option"

record token_payload =
  tp_rollbacktoken :: "string option"
  tp_patroltoken :: "string option"
  tp_csrftoken :: "string option"

record action_env =
  ac_answer :: "http_request list \<Rightarrow> http_request \<Rightarrow> http_client_error + http_response"
  ac_form :: "(string \<times> string) list \<Rightarrow> string"
  ac_decode_action :: "string \<Rightarrow> string + media_wiki_response"
  ac_decode_token :: "string \<Rightarrow> string + token_payload"
  ac_from_slice :: "string \<Rightarrow> string + json"
  ac_to_string :: "json \<Rightarrow> string"

type_synonym 'a exec = "http_request list \<Rightarrow> (action_error + 'a) \<times> http_request list"

definition give :: "action_error + 'a \<Rightarrow> 'a exec" where
  "give r sent = (r, sent)"

definition ok_then :: "'a exec \<Rightarrow> ('a \<Rightarrow> 'b exec) \<Rightarrow> 'b exec" where
  "ok_then m f sent = (case m sent of (Inl e, sent') \<Rightarrow> (Inl e, sent') | (Inr x, sent') \<Rightarrow> f x sent')"

subsection \<open>Building requests\<close>

definition default_form_headers :: "(string \<times> string) list" where
  "default_form_headers = [(''content-type'', ''application/x-www-form-urlencoded'')]"

definition encode_form :: "action_env \<Rightarrow> (string \<times> string) list \<Rightarrow> string" where
  "encode_form env pairs = ac_form env (filter (\<lambda>(key, v). v \<noteq> []) pairs)"

definition form_request :: "action_env \<Rightarrow> action_config \<Rightarrow> (string \<times> string) list \<Rightarrow> http_request" where
  "form_request env config pairs =
     \<lparr>hr_method = Post, hr_url = wc_api_url config, hr_query = [], hr_headers = default_form_headers,
      hr_body = encode_form env pairs\<rparr>"

definition or_empty :: "string option \<Rightarrow> string" where
  "or_empty s = (case s of None \<Rightarrow> [] | Some t \<Rightarrow> t)"

definition rollback_fields :: "rollback_request \<Rightarrow> (string \<times> string) list" where
  "rollback_fields r =
     [(''action'', ''rollback''), (''format'', ''json''), (''formatversion'', ''2''), (''title'', rb_title r),
      (''user'', rb_user r), (''token'', rb_token r), (''summary'', or_empty (rb_summary r))]"

definition build_rollback_request :: "action_env \<Rightarrow> action_config \<Rightarrow> rollback_request \<Rightarrow> action_error + http_request" where
  "build_rollback_request env config r =
     (if str_trim (rb_title r) = [] then Inl (plain_error ''title is required'')
      else if str_trim (rb_user r) = [] then Inl (plain_error ''user is required'')
      else if str_trim (rb_token r) = [] then Inl (plain_error ''token is required'')
      else Inr (form_request env config (rollback_fields r)))"

definition patrol_fields :: "patrol_request \<Rightarrow> (string \<times> string) list" where
  "patrol_fields r =
     [(''action'', ''patrol''), (''format'', ''json''), (''formatversion'', ''2''), (''revid'', show_nat (pq_rev_id r)),
      (''token'', pq_token r)]"

definition build_patrol_request :: "action_env \<Rightarrow> action_config \<Rightarrow> patrol_request \<Rightarrow> action_error + http_request" where
  "build_patrol_request env config r =
     (if pq_rev_id r = 0 then Inl (plain_error ''rev_id must be non-zero'')
      else if str_trim (pq_token r) = [] then Inl (plain_error ''token is required'')
      else Inr (form_request env config (patrol_fields r)))"

definition build_token_request :: "action_config \<Rightarrow> token_kind \<Rightarrow> http_request" where
  "build_token_request config kind =
     \<lparr>hr_method = Get, hr_url = wc_api_url config,
      hr_query = [(''action'', ''query''), (''meta'', ''tokens''), (''type'', token_api_value kind), (''format'', ''json''),
        (''formatversion'', ''2'')],
      hr_headers = [], hr_body = []\<rparr>"

definition undo_fields :: "undo_request \<Rightarrow> (string \<times> string) list" where
  "undo_fields r =
     [(''action'', ''edit''), (''format'', ''json''), (''formatversion'', ''2''), (''title'', un_title r),
      (''undo'', show_nat (un_rev_id r)), (''undoafter'', show_nat (un_after_rev_id r)), (''token'', un_token r),
      (''summary'', or_empty (un_summary r))]"

definition build_undo_request :: "action_env \<Rightarrow> action_config \<Rightarrow> undo_request \<Rightarrow> action_error + http_request" where
  "build_undo_request env config r =
     (if str_trim (un_title r) = [] then Inl (plain_error ''title is required'')
      else if un_rev_id r = 0 then Inl (plain_error ''undo_rev_id must be non-zero'')
      else if un_after_rev_id r = 0 then Inl (plain_error ''undo_after_rev_id must be non-zero'')
      else if un_rev_id r \<le> un_after_rev_id r then Inl (plain_error ''undo_rev_id must be newer than undo_after_rev_id'')
      else if str_trim (un_token r) = [] then Inl (plain_error ''token is required'')
      else Inr (form_request env config (undo_fields r)))"

definition bool_flag :: "bool \<Rightarrow> string" where
  "bool_flag enabled = (if enabled then ''1'' else [])"

definition save_fields :: "page_save_request \<Rightarrow> (string \<times> string) list" where
  "save_fields r =
     [(''action'', ''edit''), (''format'', ''json''), (''formatversion'', ''2''), (''title'', sv_title r), (''text'', sv_text r),
      (''token'', sv_token r), (''summary'', or_empty (sv_summary r)),
      (''baserevid'', case sv_baserevid r of None \<Rightarrow> [] | Some n \<Rightarrow> show_nat n),
      (''tags'', if sv_tags r = [] then [] else str_join ''|'' (sv_tags r)), (''watchlist'', or_empty (sv_watchlist r)),
      (''createonly'', bool_flag (sv_create_only r)), (''minor'', bool_flag (sv_minor r))]"

definition build_wiki_page_save_request :: "action_env \<Rightarrow> action_config \<Rightarrow> page_save_request \<Rightarrow> action_error + http_request" where
  "build_wiki_page_save_request env config r =
     (if str_trim (sv_title r) = [] then Inl (plain_error ''title is required'')
      else if str_trim (sv_text r) = [] then Inl (plain_error ''text is required'')
      else if str_trim (sv_token r) = [] then Inl (plain_error ''token is required'')
      else Inr (form_request env config (save_fields r)))"

subsection \<open>Responses\<close>

definition media_wiki_result :: "action_env \<Rightarrow> media_wiki_response \<Rightarrow> string option" where
  "media_wiki_result env r =
     (case mr_rollback r of
        Some v \<Rightarrow> Some (''rollback='' @ ac_to_string env v)
      | None \<Rightarrow>
          (case mr_patrol r of
             Some v \<Rightarrow> Some (''patrol='' @ ac_to_string env v)
           | None \<Rightarrow> map_option (\<lambda>v. ''edit='' @ ac_to_string env v) (mr_edit r)))"

fun parse_warning_lines :: "action_env \<Rightarrow> json \<Rightarrow> string list" where
  "parse_warning_lines env (JString line) = [line]"
| "parse_warning_lines env (JArray xs) = List.map_filter as_str xs"
| "parse_warning_lines env (JObject m) = concat (map (\<lambda>(k, v). parse_warning_lines env v) m)"
| "parse_warning_lines env v = [ac_to_string env v]"

definition api_error_message :: "string \<Rightarrow> media_wiki_api_error \<Rightarrow> string" where
  "api_error_message label e =
     (let start = label @ '' failed with API error '' @ bquote # ap_code e @ [bquote];
          message = (case ap_info e of
            Some info \<Rightarrow> if str_trim info \<noteq> [] then start @ '': '' @ info else start
          | None \<Rightarrow> start)
      in case ap_details e of
           Some details \<Rightarrow> if str_trim details \<noteq> [] then message @ '' ('' @ details @ '')'' else message
         | None \<Rightarrow> message)"

definition parse_action_response_summary :: "action_env \<Rightarrow> http_response \<Rightarrow> string \<Rightarrow> action_error + action_response_summary" where
  "parse_action_response_summary env response label =
     (case ac_decode_action env (hs_body response) of
        Inl e \<Rightarrow> Inl (plain_error (label @ '' response is not valid JSON: '' @ e))
      | Inr parsed \<Rightarrow> Inr
          \<lparr>as_status = hs_status response,
           as_warnings = (case mr_warnings parsed of None \<Rightarrow> [] | Some v \<Rightarrow> parse_warning_lines env v),
           as_result = media_wiki_result env parsed,
           as_error = map_option (api_error_message label) (mr_error parsed),
           as_api_code = map_option ap_code (mr_error parsed),
           as_retryable = (case mr_error parsed of None \<Rightarrow> False | Some e \<Rightarrow> is_retryable_action_api_error (ap_code e)),
           as_nochange = (Option.bind (mr_edit parsed) (jget ''nochange'') \<noteq> None)\<rparr>)"

definition validate_action_response :: "action_env \<Rightarrow> http_response \<Rightarrow> string \<Rightarrow> action_error + unit" where
  "validate_action_response env response label =
     (case parse_action_response_summary env response label of
        Inl e \<Rightarrow> Inl e
      | Inr summary \<Rightarrow>
          (case as_error summary of
             Some e \<Rightarrow> Inl (api_action_error e (as_api_code summary) (Some (as_status summary)) (as_retryable summary))
           | None \<Rightarrow> Inr ()))"

definition summarize_response_body :: "string \<Rightarrow> string" where
  "summarize_response_body body =
     (let trimmed = str_trim (from_utf8_lossy body)
      in if trimmed = [] then ''empty response body''
         else if char_count trimmed > 120 then take_chars 120 trimmed @ ''...'' else take_chars 120 trimmed)"

fun token_field_name :: "token_kind \<Rightarrow> string" where
  "token_field_name RollbackToken = ''rollbacktoken''"
| "token_field_name PatrolToken = ''patroltoken''"
| "token_field_name CsrfToken = ''csrftoken''"

fun token_of :: "token_kind \<Rightarrow> token_payload \<Rightarrow> string option" where
  "token_of RollbackToken p = tp_rollbacktoken p"
| "token_of PatrolToken p = tp_patroltoken p"
| "token_of CsrfToken p = tp_csrftoken p"

definition parse_token_response :: "action_env \<Rightarrow> token_kind \<Rightarrow> http_response \<Rightarrow> action_error + string" where
  "parse_token_response env kind response =
     (case ac_decode_token env (hs_body response) of
        Inl e \<Rightarrow> Inl (plain_error (''token response is not valid JSON: '' @ e))
      | Inr parsed \<Rightarrow>
          (case token_of kind parsed of
             None \<Rightarrow> Inl (plain_error (''token response does not contain '' @ bquote # token_field_name kind @ [bquote]))
           | Some token \<Rightarrow>
               if str_trim token = []
               then Inl (plain_error (''token field '' @ bquote # token_field_name kind @ bquote # '' is empty''))
               else Inr token))"

subsection \<open>Execution\<close>

definition execute_request :: "action_env \<Rightarrow> http_request \<Rightarrow> string \<Rightarrow> http_response exec" where
  "execute_request env request label sent =
     (case ac_answer env sent request of
        Inl e \<Rightarrow> Inl (api_action_error (http_client_error_text e) None None True)
      | Inr response \<Rightarrow>
          if 200 \<le> hs_status response \<and> hs_status response < 300 then Inr response
          else Inl (api_action_error
            (label @ '' failed with HTTP '' @ show_nat (hs_status response) @ '': '' @ summarize_response_body (hs_body response))
            None (Some (hs_status response)) (hs_status response \<ge> 500 \<or> hs_status response = 429)),
      sent @ [request])"

text \<open>What the executors of the four writing actions share.\<close>

definition execute_built :: "action_env \<Rightarrow> action_error + http_request \<Rightarrow> string \<Rightarrow> http_response exec" where
  "execute_built env built label =
     ok_then (give built) (\<lambda>http_request. ok_then (execute_request env http_request label) (\<lambda>response.
     ok_then (give (validate_action_response env response label)) (\<lambda>_. give (Inr response))))"

definition execute_rollback :: "action_env \<Rightarrow> action_config \<Rightarrow> rollback_request \<Rightarrow> http_response exec" where
  "execute_rollback env config r = execute_built env (build_rollback_request env config r) ''rollback''"

definition execute_patrol :: "action_env \<Rightarrow> action_config \<Rightarrow> patrol_request \<Rightarrow> http_response exec" where
  "execute_patrol env config r = execute_built env (build_patrol_request env config r) ''patrol''"

definition execute_undo :: "action_env \<Rightarrow> action_config \<Rightarrow> undo_request \<Rightarrow> http_response exec" where
  "execute_undo env config r = execute_built env (build_undo_request env config r) ''undo''"

definition execute_wiki_page_save :: "action_env \<Rightarrow> action_config \<Rightarrow> page_save_request \<Rightarrow> http_response exec" where
  "execute_wiki_page_save env config r = execute_built env (build_wiki_page_save_request env config r) ''page save''"

definition execute_fetch_token :: "action_env \<Rightarrow> action_config \<Rightarrow> token_kind \<Rightarrow> string exec" where
  "execute_fetch_token env config kind =
     ok_then (execute_request env (build_token_request config kind) ''token query'')
       (\<lambda>response. give (parse_token_response env kind response))"

subsection \<open>Replacing a selection\<close>

text \<open>\<open>matches(needle).count()\<close> counts occurrences from the left that do not overlap.\<close>

definition match_count :: "string \<Rightarrow> string \<Rightarrow> nat" where
  "match_count needle haystack = length (str_split needle haystack) - 1"

definition replace_first :: "string \<Rightarrow> string \<Rightarrow> string \<Rightarrow> string" where
  "replace_first haystack needle replacement =
     (case str_split_once needle haystack of None \<Rightarrow> haystack | Some (before, after) \<Rightarrow> before @ replacement @ after)"

definition replace_exactly_once :: "string \<Rightarrow> string \<Rightarrow> string \<Rightarrow> action_error + string" where
  "replace_exactly_once haystack needle replacement =
     (if needle = [] then Inl (coded_error ''replacement target text must not be empty'' ''invalid-input'')
      else let n = match_count needle haystack
        in if n = 0 then Inl (coded_error ''selected text not found in page content'' ''text-not-found'')
           else if n = 1 then Inr (replace_first haystack needle replacement)
           else Inl (coded_error (''selected text occurs '' @ show_nat n @ '' times in page content; refusing ambiguous replacement'')
             ''text-ambiguous''))"


subsection \<open>What is sent and what is replaced\<close>

lemma give_simps [simp]: "give r sent = (r, sent)"
  by (simp add: give_def)

lemma ok_then_simps [simp]:
  "m sent = (Inl e, sent') \<Longrightarrow> ok_then m f sent = (Inl e, sent')"
  "m sent = (Inr x, sent') \<Longrightarrow> ok_then m f sent = f x sent'"
  by (simp_all add: ok_then_def)

lemma ok_then_give [simp]: "ok_then (give (Inl e)) f sent = (Inl e, sent)" "ok_then (give (Inr x)) f sent = f x sent"
  by (simp_all add: ok_then_def)

lemma ok_then_Inr: "ok_then m f sent = (Inr y, sent'') \<longleftrightarrow> (\<exists>x sent'. m sent = (Inr x, sent') \<and> f x sent' = (Inr y, sent''))"
  by (cases "m sent") (auto simp: ok_then_def split: sum.splits)

lemma request_sent: "execute_request env q label sent = (r, sent') \<Longrightarrow> sent' = sent @ [q]"
  by (simp add: execute_request_def)

lemma built_sent:
  "snd (execute_built env built label sent) = sent @ (case built of Inl _ \<Rightarrow> [] | Inr q \<Rightarrow> [q])"
  by (auto simp: execute_built_def ok_then_def execute_request_def split: sum.splits)

lemma token_sent: "snd (execute_fetch_token env config kind sent) = sent @ [build_token_request config kind]"
  by (auto simp: execute_fetch_token_def ok_then_def execute_request_def split: sum.splits)

lemma split_on_find:
  "pat \<noteq> [] \<Longrightarrow> split_on pat acc s =
     (case str_find pat s of None \<Rightarrow> [rev acc @ s]
      | Some i \<Rightarrow> (rev acc @ take i s) # split_on pat [] (drop (i + length pat) s))"
  by (induction pat acc s rule: split_on.induct) (auto split: option.splits)

lemma split_on_not_Nil [simp]: "split_on pat acc s \<noteq> []"
  by (induction pat acc s rule: split_on.induct) auto

lemma match_count_find:
  assumes "pat \<noteq> []"
  shows "match_count pat s = (case str_find pat s of None \<Rightarrow> 0 | Some i \<Rightarrow> Suc (match_count pat (drop (i + length pat) s)))"
proof -
  have "length (split_on pat [] t) = Suc (length (split_on pat [] t) - 1)" for t
    by (cases "split_on pat [] t") auto
  then show ?thesis
    unfolding match_count_def str_split_def
    by (subst split_on_find [OF assms]) (auto split: option.splits)
qed

definition occurs_at :: "string \<Rightarrow> string \<Rightarrow> nat \<Rightarrow> bool" where
  "occurs_at needle haystack i \<longleftrightarrow> i + length needle \<le> length haystack \<and> take (length needle) (drop i haystack) = needle"

lemma occurs_at_sublist: "occurs_at needle haystack i \<Longrightarrow> j \<le> i \<Longrightarrow> sublist needle (drop j haystack)"
proof -
  assume occ: "occurs_at needle haystack i" and "j \<le> i"
  then have "drop i haystack = drop (i - j) (drop j haystack)" by simp
  then have "sublist (take (length needle) (drop i haystack)) (drop j haystack)"
    by (metis sublist_drop sublist_order.order.trans sublist_take)
  then show ?thesis using occ by (simp add: occurs_at_def)
qed

lemma find_first: "str_find pat s = Some i \<Longrightarrow> occurs_at pat s j \<Longrightarrow> i \<le> j"
proof (induction pat s arbitrary: i j rule: str_find.induct)
  case (2 pat c s)
  show ?case
  proof (cases "prefix pat (c # s)")
    case False
    with 2 obtain k where k: "str_find pat s = Some k" "i = Suc k" by (auto split: if_splits)
    have "j \<noteq> 0"
    proof
      assume "j = 0"
      then have "take (length pat) (c # s) = pat" using 2(3) by (simp add: occurs_at_def)
      then show False using False take_is_prefix [of "length pat" "c # s"] by simp
    qed
    then obtain j' where "j = Suc j'" by (cases j) auto
    moreover then have "occurs_at pat s j'" using 2(3) by (simp add: occurs_at_def)
    ultimately show ?thesis using 2(1) [OF False k(1)] k(2) by simp
  qed (use 2 in auto)
qed (auto simp: occurs_at_def split: if_splits)

lemma found_occurs: "str_find pat s = Some i \<Longrightarrow> occurs_at pat s i"
  using str_find_Some by (simp add: occurs_at_def)

lemma replaced_iff:
  assumes "needle \<noteq> []"
  shows "replace_exactly_once haystack needle replacement = Inr t \<longleftrightarrow>
    (\<exists>before after. haystack = before @ needle @ after \<and> t = before @ replacement @ after \<and>
       str_find needle haystack = Some (length before) \<and> \<not> sublist needle after)" (is "?l \<longleftrightarrow> ?r")
proof (cases "str_find needle haystack")
  case None
  then show ?thesis using assms by (simp add: replace_exactly_once_def match_count_find [of needle haystack])
next
  case (Some i)
  note occ = found_occurs [OF Some, unfolded occurs_at_def]
  have split: "haystack = take i haystack @ needle @ drop (i + length needle) haystack"
    using occ by (metis add.commute append_take_drop_id drop_drop)
  have more: "match_count needle (drop (i + length needle) haystack) = 0 \<longleftrightarrow> \<not> sublist needle (drop (i + length needle) haystack)"
    using str_find_sublist [of needle "drop (i + length needle) haystack"]
    by (subst match_count_find [OF assms]) (auto split: option.splits)
  have "?l \<longleftrightarrow> \<not> sublist needle (drop (i + length needle) haystack) \<and>
      t = take i haystack @ replacement @ drop (i + length needle) haystack"
    using assms Some more
    by (auto simp: replace_exactly_once_def match_count_find [of needle haystack] replace_first_def str_split_once_def)
  also have "\<dots> \<longleftrightarrow> ?r"
  proof
    assume "\<not> sublist needle (drop (i + length needle) haystack) \<and>
        t = take i haystack @ replacement @ drop (i + length needle) haystack"
    then show ?r using Some split occ
      by (intro exI [of _ "take i haystack"] exI [of _ "drop (i + length needle) haystack"]) simp
  next
    assume ?r
    then show "\<not> sublist needle (drop (i + length needle) haystack) \<and>
        t = take i haystack @ replacement @ drop (i + length needle) haystack"
      using Some by auto
  qed
  finally show ?thesis .
qed

lemma sublist_occurs: "sublist needle s \<Longrightarrow> \<exists>i. occurs_at needle s i"
  using found_occurs str_find_sublist by fastforce

text \<open>
  C38. A literal replacement never guesses: it succeeds exactly when the text to replace is not empty and
  stands at one place, with every other occurrence overlapping that one, and the result differs from the
  page in that place only. Overlapping occurrences are not told apart: in "aaa" the selection "aa" stands twice
  and the first is replaced.
\<close>

theorem replacement_never_guesses:
  "(replace_exactly_once haystack needle replacement = Inr t \<longleftrightarrow>
     needle \<noteq> [] \<and>
     (\<exists>before after. haystack = before @ needle @ after \<and> t = before @ replacement @ after \<and>
        (\<forall>i. occurs_at needle haystack i \<longrightarrow> length before \<le> i \<and> i < length before + length needle))) \<and>
   replace_exactly_once ''aaa'' ''aa'' ''b'' = Inr ''ba''"
proof (intro conjI)
  show "replace_exactly_once ''aaa'' ''aa'' ''b'' = Inr ''ba''" by code_simp
  show "replace_exactly_once haystack needle replacement = Inr t \<longleftrightarrow>
     needle \<noteq> [] \<and>
     (\<exists>before after. haystack = before @ needle @ after \<and> t = before @ replacement @ after \<and>
        (\<forall>i. occurs_at needle haystack i \<longrightarrow> length before \<le> i \<and> i < length before + length needle))"
  proof (cases "needle = []")
    case False
    have "str_find needle haystack = Some (length before) \<and> \<not> sublist needle after \<longleftrightarrow>
        (\<forall>i. occurs_at needle haystack i \<longrightarrow> length before \<le> i \<and> i < length before + length needle)" (is "?l \<longleftrightarrow> ?r")
      if h: "haystack = before @ needle @ after" for before after
    proof
      assume ?l
      then show ?r
        using find_first occurs_at_sublist [of needle haystack _ "length before + length needle"] h
        by (metis add.commute append_assoc append_eq_conv_conj length_append not_less)
    next
      assume r: ?r
      have here: "occurs_at needle haystack (length before)" using h by (simp add: occurs_at_def)
      then obtain i where i: "str_find needle haystack = Some i"
        using occurs_at_sublist [of needle haystack "length before" 0] str_find_sublist by fastforce
      have "i = length before" using r found_occurs [OF i] find_first [OF i here] by fastforce
      moreover have "\<not> sublist needle after"
      proof
        assume "sublist needle after"
        then obtain j where "occurs_at needle after j" using sublist_occurs by blast
        then have "occurs_at needle haystack (length before + length needle + j)" using h by (simp add: occurs_at_def)
        then show False using r by fastforce
      qed
      ultimately show ?l using i by simp
    qed
    then show ?thesis using replaced_iff [OF False] False by (metis (no_types, lifting))
  qed (simp add: replace_exactly_once_def)
qed

theorem replacement_never_guesses_witness:
  "replace_exactly_once ''a b c'' ''b'' ''x'' = Inr ''a x c''"
proof -
  have idx: "occurs_at ''b'' ''a b c'' i \<Longrightarrow> i = 2" for i
    by (auto simp: occurs_at_def less_Suc_eq numeral_eq_Suc Suc_le_eq le_Suc_eq)
  have "\<exists>before after. ''a b c'' = before @ ''b'' @ after \<and> ''a x c'' = before @ ''x'' @ after \<and>
      (\<forall>i. occurs_at ''b'' ''a b c'' i \<longrightarrow> length before \<le> i \<and> i < length before + length ''b'')"
    by (rule exI [of _ "''a ''"], rule exI [of _ "'' c''"]) (auto dest!: idx)
  then show ?thesis
    using replacement_never_guesses [of "''a b c''" "''b''" "''x''" "''a x c''"] by simp
qed

text \<open>
  An error the API reports in its answer carries the HTTP status of that answer, which is one of success.
\<close>

lemma api_errors_carry_success:
  assumes "execute_built env (Inr q) label sent = (Inl e, sent')" "er_code e = Some code"
  shows "\<exists>status. er_http_status e = Some status \<and> 200 \<le> status \<and> status < 300"
  using assms
  by (auto simp: execute_built_def ok_then_def execute_request_def validate_action_response_def parse_action_response_summary_def
      api_action_error_def plain_error_def split: sum.splits if_splits option.splits)

end
