(* ===== verification/OAuth_Flow.thy ===== *)
theory OAuth_Flow
  imports Text_Tools Ports "HOL-Library.Word"
begin

section \<open>The OAuth flow\<close>

text \<open>
  \<open>crates/sp42-platform/src/oauth.rs\<close> and \<open>origin.rs\<close>: PKCE secrets, the authorization URL, the callback
  and the token request; and from the server \<open>deployment.rs\<close> (the deployment mode) and \<open>oauth_runtime.rs\<close>
  (where a login may redirect to). SHA-256, base64, form encoding and decoding and the URL parser are
  library functions, fields of the environment.
\<close>

subsection \<open>Origins\<close>

record url_parts =
  up_scheme :: string
  up_host :: "string option"
  up_port :: "nat option"

record oauth_env =
  oe_url :: "string \<Rightarrow> url_parts option"
  oe_sha256 :: "string \<Rightarrow> string"
  oe_base64 :: "string \<Rightarrow> string"
  oe_form :: "(string \<times> string) list \<Rightarrow> string"
  oe_parse_form :: "string \<Rightarrow> (string \<times> string) list"
  oe_serialize :: "string \<Rightarrow> string"

definition origin_of_url :: "url_parts \<Rightarrow> string option" where
  "origin_of_url url =
     (case up_host url of
        None \<Rightarrow> None
      | Some host \<Rightarrow> Some (up_scheme url @ ''://'' @ host @
          (case up_port url of Some port \<Rightarrow> '':'' @ show_nat port | None \<Rightarrow> [])))"

definition origin_of :: "oauth_env \<Rightarrow> string \<Rightarrow> string option" where
  "origin_of env url = Option.bind (oe_url env url) origin_of_url"

definition origins_match :: "oauth_env \<Rightarrow> string \<Rightarrow> string \<Rightarrow> bool" where
  "origins_match env left right =
     (case (origin_of env left, origin_of env right) of (Some l, Some r) \<Rightarrow> l = r | _ \<Rightarrow> False)"

subsection \<open>Secrets\<close>

datatype oauth_error =
    OAuthInvalidConfig string
  | OAuthInvalidVerifier string
  | OAuthInvalidCallback string
  | OAuthStateMismatch
  | OAuthAuthorizationFailed string

definition code_verifier_min_len :: nat where "code_verifier_min_len = 43"
definition code_verifier_max_len :: nat where "code_verifier_max_len = 128"

definition pkce_unreserved :: "char \<Rightarrow> bool" where
  "pkce_unreserved c \<longleftrightarrow> ascii_alphanumeric c \<or> c \<in> set ''-._~''"

definition validate_code_verifier :: "string \<Rightarrow> oauth_error + unit" where
  "validate_code_verifier verifier =
     (let n = length verifier
      in if \<not> (code_verifier_min_len \<le> n \<and> n \<le> code_verifier_max_len)
         then Inl (OAuthInvalidVerifier (''expected verifier length between '' @ show_nat code_verifier_min_len @ '' and '' @
           show_nat code_verifier_max_len @ '', got '' @ show_nat n))
         else if list_ex (\<lambda>c. \<not> pkce_unreserved c) verifier
         then Inl (OAuthInvalidVerifier ''verifier contains characters outside the PKCE unreserved set'')
         else Inr ())"

definition to_le_bytes :: "64 word \<Rightarrow> string" where
  "to_le_bytes w = map (\<lambda>i. char_of (unat (drop_bit (8 * i) w) mod 256)) [0..<8]"

lemma length_to_le_bytes [simp]: "length (to_le_bytes w) = 8"
  by (simp add: to_le_bytes_def)

function draw_bytes :: "('g \<Rightarrow> 64 word \<times> 'g) \<Rightarrow> nat \<Rightarrow> string \<Rightarrow> 'g \<Rightarrow> string \<times> 'g" where
  "draw_bytes next_u64 byte_count bytes rng =
     (if length bytes < byte_count
      then (let (w, rng') = next_u64 rng in draw_bytes next_u64 byte_count (bytes @ to_le_bytes w) rng')
      else (bytes, rng))"
  by pat_completeness auto
termination
  by (relation "measure (\<lambda>(f, n, bytes, rng). n - length bytes)") auto

declare draw_bytes.simps [simp del]

definition generate_token :: "oauth_env \<Rightarrow> ('g \<Rightarrow> 64 word \<times> 'g) \<Rightarrow> nat \<Rightarrow> 'g \<Rightarrow> string \<times> 'g" where
  "generate_token env next_u64 byte_count rng =
     (let (bytes, rng') = draw_bytes next_u64 byte_count [] rng in (oe_base64 env (take byte_count bytes), rng'))"

definition generate_pkce_verifier :: "oauth_env \<Rightarrow> ('g \<Rightarrow> 64 word \<times> 'g) \<Rightarrow> 'g \<Rightarrow> string \<times> 'g" where
  "generate_pkce_verifier env next_u64 = generate_token env next_u64 64"

definition generate_oauth_state :: "oauth_env \<Rightarrow> ('g \<Rightarrow> 64 word \<times> 'g) \<Rightarrow> 'g \<Rightarrow> string \<times> 'g" where
  "generate_oauth_state env next_u64 = generate_token env next_u64 32"

definition code_challenge_from_verifier :: "oauth_env \<Rightarrow> string \<Rightarrow> oauth_error + string" where
  "code_challenge_from_verifier env verifier =
     (case validate_code_verifier verifier of
        Inl e \<Rightarrow> Inl e
      | Inr _ \<Rightarrow> Inr (oe_base64 env (oe_sha256 env verifier)))"

subsection \<open>Requests\<close>

record oauth_client_config =
  oc_client_id :: string
  oc_authorize_url :: string
  oc_token_url :: string
  oc_redirect_uri :: string
  oc_scopes :: "string list"

record oauth_launch_context =
  ol_state :: string
  ol_verifier :: string
  ol_challenge :: string
  ol_authorization_url :: "string \<times> (string \<times> string) list"

definition ensure_non_empty :: "string \<Rightarrow> string \<Rightarrow> oauth_error + unit" where
  "ensure_non_empty label v =
     (if str_trim v = [] then Inl (OAuthInvalidConfig (label @ '' is required'')) else Inr ())"

text \<open>The URL is its base with the pairs appended to the query.\<close>

definition build_authorization_url ::
  "oauth_client_config \<Rightarrow> string \<Rightarrow> string \<Rightarrow> oauth_error + string \<times> (string \<times> string) list" where
  "build_authorization_url config state code_challenge =
     (case ensure_non_empty ''client_id'' (oc_client_id config) of
        Inl e \<Rightarrow> Inl e
      | Inr _ \<Rightarrow>
     (case ensure_non_empty ''state'' state of
        Inl e \<Rightarrow> Inl e
      | Inr _ \<Rightarrow>
     (case ensure_non_empty ''code_challenge'' code_challenge of
        Inl e \<Rightarrow> Inl e
      | Inr _ \<Rightarrow> Inr (oc_authorize_url config,
          [(''response_type'', ''code''), (''client_id'', oc_client_id config), (''redirect_uri'', oc_redirect_uri config),
           (''code_challenge'', code_challenge), (''code_challenge_method'', ''S256''), (''state'', state)] @
          (if oc_scopes config = [] then [] else [(''scope'', str_join '' '' (oc_scopes config))])))))"

definition prepare_oauth_launch ::
  "oauth_env \<Rightarrow> ('g \<Rightarrow> 64 word \<times> 'g) \<Rightarrow> oauth_client_config \<Rightarrow> 'g \<Rightarrow> (oauth_error + oauth_launch_context) \<times> 'g" where
  "prepare_oauth_launch env next_u64 config rng =
     (let (verifier, rng') = generate_pkce_verifier env next_u64 rng;
          (state, rng'') = generate_oauth_state env next_u64 rng'
      in (case code_challenge_from_verifier env verifier of
            Inl e \<Rightarrow> Inl e
          | Inr challenge \<Rightarrow>
              (case build_authorization_url config state challenge of
                 Inl e \<Rightarrow> Inl e
               | Inr url \<Rightarrow> Inr \<lparr>ol_state = state, ol_verifier = verifier, ol_challenge = challenge, ol_authorization_url = url\<rparr>),
          rng''))"

definition build_access_token_request ::
  "oauth_env \<Rightarrow> oauth_client_config \<Rightarrow> string \<Rightarrow> string \<Rightarrow> oauth_error + http_request" where
  "build_access_token_request env config code verifier =
     (case ensure_non_empty ''client_id'' (oc_client_id config) of
        Inl e \<Rightarrow> Inl e
      | Inr _ \<Rightarrow>
     (case ensure_non_empty ''authorization code'' code of
        Inl e \<Rightarrow> Inl e
      | Inr _ \<Rightarrow>
     (case validate_code_verifier verifier of
        Inl e \<Rightarrow> Inl e
      | Inr _ \<Rightarrow> Inr
          \<lparr>hr_method = Post, hr_url = oc_token_url config, hr_query = [],
           hr_headers = [(''content-type'', ''application/x-www-form-urlencoded'')],
           hr_body = oe_form env
             [(''grant_type'', ''authorization_code''), (''client_id'', oc_client_id config),
              (''redirect_uri'', oc_redirect_uri config), (''code'', code), (''code_verifier'', verifier)]\<rparr>)))"

subsection \<open>The callback\<close>

datatype oauth_callback =
    AuthorizationCode string string
  | AuthorizationError string "string option" "string option"

definition parse_callback_query :: "oauth_env \<Rightarrow> string \<Rightarrow> oauth_error + oauth_callback" where
  "parse_callback_query env query =
     (let params = fold (\<lambda>(k, v). bt_insert k v) (oe_parse_form env (dropWhile (\<lambda>c. c = CHR ''?'') query)) []
      in case map_of params ''error'' of
           Some error \<Rightarrow> Inr (AuthorizationError error (map_of params ''error_description'') (map_of params ''state''))
         | None \<Rightarrow>
             (case map_of params ''code'' of
                None \<Rightarrow> Inl (OAuthInvalidCallback ''callback query does not contain code'')
              | Some code \<Rightarrow>
                  (case map_of params ''state'' of
                     None \<Rightarrow> Inl (OAuthInvalidCallback ''callback query does not contain state'')
                   | Some state \<Rightarrow> Inr (AuthorizationCode code state))))"

definition prepare_token_exchange_from_callback ::
  "oauth_env \<Rightarrow> oauth_client_config \<Rightarrow> string \<Rightarrow> string \<Rightarrow> string \<Rightarrow> oauth_error + http_request" where
  "prepare_token_exchange_from_callback env config callback_query expected_state verifier =
     (case parse_callback_query env callback_query of
        Inl e \<Rightarrow> Inl e
      | Inr (AuthorizationCode code state) \<Rightarrow>
          if state \<noteq> expected_state then Inl OAuthStateMismatch else build_access_token_request env config code verifier
      | Inr (AuthorizationError error description _) \<Rightarrow>
          Inl (OAuthAuthorizationFailed (case description of Some d \<Rightarrow> d | None \<Rightarrow> error)))"

subsection \<open>Deployment\<close>

datatype deployment_mode = LocalMode | VpsMode | DesktopMode

definition mode_from_env :: "string option \<Rightarrow> string + deployment_mode" where
  "mode_from_env raw =
     (let v = str_trim (case raw of None \<Rightarrow> [] | Some r \<Rightarrow> r)
      in if v = ''local'' then Inr LocalMode
         else if v = ''vps'' then Inr VpsMode
         else if v = ''desktop'' then Inr DesktopMode
         else Inl (''SP42_DEPLOYMENT_MODE must be set explicitly to one of local, vps, desktop; got '' @ bquote # v @ [bquote]))"

fun permits_dev_token_bootstrap :: "deployment_mode \<Rightarrow> bool" where
  "permits_dev_token_bootstrap m = (m = LocalMode)"

fun uses_secure_cookies :: "deployment_mode \<Rightarrow> bool" where
  "uses_secure_cookies m = (m = VpsMode)"

fun session_cookie_same_site :: "deployment_mode \<Rightarrow> string" where
  "session_cookie_same_site LocalMode = ''Lax''"
| "session_cookie_same_site VpsMode = ''None''"
| "session_cookie_same_site DesktopMode = ''None''"

subsection \<open>Redirects\<close>

definition origin_is_allowed :: "oauth_env \<Rightarrow> url_parts \<Rightarrow> string list \<Rightarrow> bool" where
  "origin_is_allowed env url allowed_origins =
     (case origin_of_url url of
        None \<Rightarrow> False
      | Some candidate \<Rightarrow> list_ex (\<lambda>origin. origin_of env origin = Some candidate) allowed_origins)"

definition sanitize_redirect_target :: "oauth_env \<Rightarrow> string option \<Rightarrow> string list \<Rightarrow> string" where
  "sanitize_redirect_target env target_after allowed_origins =
     (case target_after of
        None \<Rightarrow> ''/''
      | Some raw \<Rightarrow>
          (let target = str_trim raw
           in if target = [] then ''/''
              else if prefix ''/'' target \<and> \<not> prefix ''//'' target then target
              else case oe_url env target of
                     Some url \<Rightarrow> if origin_is_allowed env url allowed_origins then target else ''/''
                   | None \<Rightarrow> ''/''))"

definition redirect_with_status :: "oauth_env \<Rightarrow> string \<Rightarrow> string \<Rightarrow> string \<Rightarrow> string" where
  "redirect_with_status env target key v =
     target @ (if str_contains target ''?'' then ''&'' else ''?'') @ key @ ''='' @ oe_serialize env v"

definition is_local_host :: "string \<Rightarrow> bool" where
  "is_local_host host =
     (let authority = str_trim host;
          without_port =
            (if prefix ''['' authority
             then (case str_split_once '']'' authority of None \<Rightarrow> authority | Some (start, _) \<Rightarrow> drop 1 start)
             else takeWhile (\<lambda>c. c \<noteq> CHR '':'') authority)
      in without_port \<in> set [''localhost'', ''127.0.0.1'', ''::1''])"

definition trim_end_slashes :: "string \<Rightarrow> string" where
  "trim_end_slashes s = rev (dropWhile (\<lambda>c. c = CHR ''/'') (rev s))"

text \<open>The environment variable and the headers are arguments; a header is its text.\<close>

definition public_base_url :: "string option \<Rightarrow> (string \<Rightarrow> string option) \<Rightarrow> string + string" where
  "public_base_url env_url header =
     (case (case env_url of Some u \<Rightarrow> if str_trim u \<noteq> [] then Some u else None | None \<Rightarrow> None) of
        Some base_url \<Rightarrow> Inr (trim_end_slashes base_url)
      | None \<Rightarrow>
          (case (case header ''host'' of Some h \<Rightarrow> if str_trim h \<noteq> [] then Some h else None | None \<Rightarrow> None) of
             None \<Rightarrow> Inl ''host header is required to build oauth redirect URI''
           | Some host \<Rightarrow>
               if \<not> is_local_host host
               then Inl ''non-local oauth redirects require SP42_PUBLIC_BASE_URL instead of trusting Host''
               else let scheme = (case header ''x-forwarded-proto'' of
                        Some p \<Rightarrow> if str_trim p \<noteq> [] then p else ''http'' | None \<Rightarrow> ''http'')
                    in Inr (scheme @ ''://'' @ host)))"

subsection \<open>Properties\<close>

text \<open>Unpadded base64 in its URL-safe alphabet: four digits for three bytes.\<close>

definition base64_law :: "(string \<Rightarrow> string) \<Rightarrow> bool" where
  "base64_law encode \<longleftrightarrow>
     (\<forall>bytes. length (encode bytes) = (4 * length bytes + 2) div 3 \<and>
        (\<forall>c \<in> set (encode bytes). ascii_alphanumeric c \<or> c = CHR ''-'' \<or> c = CHR ''_''))"

lemma base64_facts:
  assumes "base64_law encode"
  shows "length (encode bytes) = (4 * length bytes + 2) div 3" "list_all pkce_unreserved (encode bytes)"
    "bytes \<noteq> [] \<Longrightarrow> str_trim (encode bytes) \<noteq> []"
proof -
  show len: "length (encode bytes) = (4 * length bytes + 2) div 3" using assms by (simp add: base64_law_def)
  show ok: "list_all pkce_unreserved (encode bytes)"
    using assms by (auto simp: base64_law_def list_all_iff pkce_unreserved_def)
  assume "bytes \<noteq> []"
  then have "encode bytes \<noteq> []" using len by (cases bytes) auto
  moreover have "visible_ascii c" if "pkce_unreserved c" for c
    using that by (auto simp: pkce_unreserved_def ascii_alphanumeric_def visible_ascii_def Let_def)
  ultimately show "str_trim (encode bytes) \<noteq> []"
    using ok trim_visible [of "encode bytes"] by (auto simp: list_all_iff)
qed

text \<open>Drawing words until there are enough bytes: the number of draws, and at least the bytes asked for.\<close>

fun draws :: "('g \<Rightarrow> 64 word \<times> 'g) \<Rightarrow> nat \<Rightarrow> 'g \<Rightarrow> 'g" where
  "draws next_u64 0 rng = rng"
| "draws next_u64 (Suc k) rng = draws next_u64 k (snd (next_u64 rng))"

lemma draws_left: "0 < (k :: nat) \<Longrightarrow> (k + 7) div 8 = Suc ((k - 8 + 7) div 8)"
proof (cases "8 \<le> k")
  case True
  then obtain j where "k = j + 8" by (metis add.commute le_Suc_ex)
  then show ?thesis by simp
next
  case False
  assume "0 < k"
  with False have "(k + 7) div 8 = 1" by (intro div_nat_eqI) auto
  then show ?thesis using False by simp
qed

lemma draw_bytes_result:
  "length (fst (draw_bytes f n bytes rng)) \<ge> n \<and> snd (draw_bytes f n bytes rng) = draws f ((n - length bytes + 7) div 8) rng"
proof (induction f n bytes rng rule: draw_bytes.induct)
  case (1 f n bytes rng)
  show ?case
  proof (cases "length bytes < n")
    case True
    then have "(n - length bytes + 7) div 8 = Suc ((n - (length bytes + 8) + 7) div 8)"
      using draws_left [of "n - length bytes"] by simp
    moreover obtain w rng' where "f rng = (w, rng')" by (cases "f rng")
    ultimately show ?thesis using 1 [OF True] True by (subst (1 2) draw_bytes.simps) simp
  next
    case False
    then show ?thesis by (subst (1 2) draw_bytes.simps) simp
  qed
qed

lemma generated_token:
  assumes "base64_law (oe_base64 env)"
  shows "\<exists>token. generate_token env f n rng = (token, draws f ((n + 7) div 8) rng) \<and> length token = (4 * n + 2) div 3 \<and>
    list_all pkce_unreserved token \<and> (0 < n \<longrightarrow> str_trim token \<noteq> [])"
proof -
  obtain bytes rng' where b: "draw_bytes f n [] rng = (bytes, rng')" by (cases "draw_bytes f n [] rng")
  then have "n \<le> length bytes" "rng' = draws f ((n + 7) div 8) rng" using draw_bytes_result [of n f "[]" rng] by auto
  moreover have "0 < n \<longrightarrow> take n bytes \<noteq> []" using calculation(1) by auto
  ultimately show ?thesis using base64_facts [OF assms, of "take n bytes"]
    by (simp add: generate_token_def b min_def)
qed

text \<open>
  C36. A sign-in that is started can be finished: with a client id that is not blank a launch succeeds, draws
  twelve words from the generator, and its verifier is one the PKCE check accepts; from the callback with the
  state it handed out the token request carries that verifier, and a callback with any other state is refused.
\<close>

theorem oauth_launch_completes:
  assumes "base64_law (oe_base64 env)" and "\<And>text. oe_sha256 env text \<noteq> []" and "str_trim (oc_client_id config) \<noteq> []"
  shows "\<exists>launch. prepare_oauth_launch env next_u64 config rng = (Inr launch, draws next_u64 4 (draws next_u64 8 rng)) \<and>
    length (ol_verifier launch) = 86 \<and> length (ol_state launch) = 43 \<and> validate_code_verifier (ol_verifier launch) = Inr () \<and>
    (''state'', ol_state launch) \<in> set (snd (ol_authorization_url launch)) \<and>
    (\<forall>query code state. parse_callback_query env query = Inr (AuthorizationCode code state) \<longrightarrow> str_trim code \<noteq> [] \<longrightarrow>
       prepare_token_exchange_from_callback env config query (ol_state launch) (ol_verifier launch) =
         (if state = ol_state launch
          then Inr \<lparr>hr_method = Post, hr_url = oc_token_url config, hr_query = [],
             hr_headers = [(''content-type'', ''application/x-www-form-urlencoded'')],
             hr_body = oe_form env [(''grant_type'', ''authorization_code''), (''client_id'', oc_client_id config),
               (''redirect_uri'', oc_redirect_uri config), (''code'', code), (''code_verifier'', ol_verifier launch)]\<rparr>
          else Inl OAuthStateMismatch))"
proof -
  obtain v where v: "generate_token env next_u64 64 rng = (v, draws next_u64 8 rng)" "length v = 86" "list_all pkce_unreserved v"
    using generated_token [OF assms(1), of next_u64 64 rng] by auto
  obtain st where st: "generate_token env next_u64 32 (draws next_u64 8 rng) = (st, draws next_u64 4 (draws next_u64 8 rng))"
      "length st = 43" "str_trim st \<noteq> []"
    using generated_token [OF assms(1), of next_u64 32 "draws next_u64 8 rng"] by auto
  have ok: "validate_code_verifier v = Inr ()"
    using v(2,3) by (auto simp: validate_code_verifier_def code_verifier_min_len_def code_verifier_max_len_def list_ex_iff list_all_iff)
  have challenge: "str_trim (oe_base64 env (oe_sha256 env v)) \<noteq> []" by (rule base64_facts(3) [OF assms(1,2)])
  show ?thesis
    using assms(3) v(2) st(2,3) ok challenge
    by (auto simp: prepare_oauth_launch_def generate_pkce_verifier_def generate_oauth_state_def v(1) st(1) code_challenge_from_verifier_def
        build_authorization_url_def ensure_non_empty_def prepare_token_exchange_from_callback_def build_access_token_request_def)
qed

text \<open>
  C37. A sign-in redirects to the site or to an allowed origin: the target that is kept is the root, a path
  that starts with one slash, or a URL whose origin is that of an allowed one. The second case is wider than it
  means to be: a path whose second character is a backslash is kept, which browsers read as a second slash.
\<close>

theorem redirect_target_confined:
  "(let target = sanitize_redirect_target env target_after allowed
    in target = ''/'' \<or> prefix ''/'' target \<and> \<not> prefix ''//'' target \<or>
      (\<exists>url origin candidate. oe_url env target = Some url \<and> origin \<in> set allowed \<and> origin_of_url url = Some candidate \<and>
         origin_of env origin = Some candidate)) \<and>
   sanitize_redirect_target env (Some (''/'' @ [CHR 0x5C] @ ''evil.example'')) allowed = ''/'' @ [CHR 0x5C] @ ''evil.example''"
proof
  have "str_trim (''/'' @ [CHR 0x5C] @ ''evil.example'') = ''/'' @ [CHR 0x5C] @ ''evil.example''"
    by (rule trim_visible) (simp add: visible_ascii_def)
  then show "sanitize_redirect_target env (Some (''/'' @ [CHR 0x5C] @ ''evil.example'')) allowed = ''/'' @ [CHR 0x5C] @ ''evil.example''"
    by (simp add: sanitize_redirect_target_def)
qed (auto simp: sanitize_redirect_target_def origin_is_allowed_def list_ex_iff Let_def split: option.splits)

text \<open>A \<open>Host\<close> header with user information passes for a local one.\<close>

lemma local_host_with_userinfo:
  "public_base_url None (\<lambda>name. if name = ''host'' then Some ''localhost:x@evil.example'' else None) =
     Inr ''http://localhost:x@evil.example''"
  by code_simp

text \<open>A concrete base64.\<close>

definition base64_digits :: string where
  "base64_digits = ''ABCDEFGHIJKLMNOPQRSTUVWXYZabcdefghijklmnopqrstuvwxyz0123456789-_''"

definition base64_digit :: "nat \<Rightarrow> char" where
  "base64_digit n = base64_digits ! (n mod 64)"

fun base64_url :: "string \<Rightarrow> string" where
  "base64_url (a # b # c # bs) =
     (let x = of_char a; y = of_char b; z = of_char c
      in base64_digit (x div 4) # base64_digit (x * 16 + y div 16) # base64_digit (y * 4 + z div 64) # base64_digit z # base64_url bs)"
| "base64_url [a, b] =
     (let x = of_char a; y = of_char b in [base64_digit (x div 4), base64_digit (x * 16 + y div 16), base64_digit (y * 4)])"
| "base64_url [a] = (let x = of_char a in [base64_digit (x div 4), base64_digit (x * 16)])"
| "base64_url [] = []"

lemma base64_digits_ok: "\<forall>c \<in> set base64_digits. ascii_alphanumeric c \<or> c = CHR ''-'' \<or> c = CHR ''_''" "length base64_digits = 64"
  by code_simp+

lemma base64_digit_ok: "ascii_alphanumeric (base64_digit n) \<or> base64_digit n = CHR ''-'' \<or> base64_digit n = CHR ''_''"
  using base64_digits_ok(1) nth_mem [of "n mod 64" base64_digits] by (simp add: base64_digit_def base64_digits_ok(2))

lemma base64_url_law: "base64_law base64_url"
proof -
  have "length (base64_url bs) = (4 * length bs + 2) div 3 \<and>
      (\<forall>c \<in> set (base64_url bs). ascii_alphanumeric c \<or> c = CHR ''-'' \<or> c = CHR ''_'')" for bs
    using base64_digit_ok by (induction bs rule: base64_url.induct) (auto simp: Let_def)
  then show ?thesis by (simp add: base64_law_def)
qed

definition example_oauth_env :: oauth_env where
  "example_oauth_env =
     \<lparr>oe_url = (\<lambda>_. None), oe_sha256 = (\<lambda>s. ''digest''), oe_base64 = base64_url, oe_form = concat \<circ> map (\<lambda>(k, v). k @ ''='' @ v),
      oe_parse_form = (\<lambda>_. [(''code'', ''c''), (''state'', ''other'')]), oe_serialize = (\<lambda>s. s)\<rparr>"

theorem oauth_launch_completes_witness:
  "let config = \<lparr>oc_client_id = ''id'', oc_authorize_url = ''https://meta/authorize'', oc_token_url = ''https://meta/token'',
       oc_redirect_uri = ''https://sp42/callback'', oc_scopes = [''basic'']\<rparr>
   in \<exists>launch rng. prepare_oauth_launch example_oauth_env (\<lambda>n. (of_nat n, Suc n)) config (0 :: nat) = (Inr launch, rng) \<and>
     length (ol_verifier launch) = 86 \<and>
     prepare_token_exchange_from_callback example_oauth_env config ''code=c&state=other'' (ol_state launch) (ol_verifier launch) =
       Inl OAuthStateMismatch"
proof -
  let ?config = "\<lparr>oc_client_id = ''id'', oc_authorize_url = ''https://meta/authorize'', oc_token_url = ''https://meta/token'',
       oc_redirect_uri = ''https://sp42/callback'', oc_scopes = [''basic'']\<rparr>"
  have law: "base64_law (oe_base64 example_oauth_env)" "\<And>t. oe_sha256 example_oauth_env t \<noteq> []"
    by (simp_all add: example_oauth_env_def base64_url_law)
  have id: "str_trim (oc_client_id ?config) \<noteq> []" by code_simp
  have callback: "parse_callback_query example_oauth_env ''code=c&state=other'' = Inr (AuthorizationCode ''c'' ''other'')" "str_trim ''c'' \<noteq> []"
    by code_simp+
  obtain launch rng where launch: "prepare_oauth_launch example_oauth_env (\<lambda>n. (of_nat n, Suc n)) ?config (0 :: nat) = (Inr launch, rng)"
      "length (ol_verifier launch) = 86" "length (ol_state launch) = 43"
      "prepare_token_exchange_from_callback example_oauth_env ?config ''code=c&state=other'' (ol_state launch) (ol_verifier launch) =
         (if ''other'' = ol_state launch then prepare_token_exchange_from_callback example_oauth_env ?config ''code=c&state=other'' (ol_state launch) (ol_verifier launch) else Inl OAuthStateMismatch)"
    using oauth_launch_completes [OF law id, of "\<lambda>n. (of_nat n, Suc n)" 0] callback by (metis (no_types, lifting))
  then have "length ''other'' \<noteq> length (ol_state launch)" by simp
  then have "''other'' \<noteq> ol_state launch" by metis
  then show ?thesis unfolding Let_def using launch by auto
qed

theorem redirect_target_confined_witness:
  "let target = sanitize_redirect_target example_oauth_env (Some ''/app'') [''https://sp42.example'']
   in target = ''/'' \<or> prefix ''/'' target \<and> \<not> prefix ''//'' target \<or>
      (\<exists>url origin candidate. oe_url example_oauth_env target = Some url \<and> origin \<in> set [''https://sp42.example''] \<and>
         origin_of_url url = Some candidate \<and> origin_of example_oauth_env origin = Some candidate)"
  using redirect_target_confined [of example_oauth_env "Some ''/app''" "[''https://sp42.example'']"] by (rule conjunct1)

end
