(* ===== verification/Server_Sessions.thy ===== *)
theory Server_Sessions
  imports Action_Requests OAuth_Flow "HOL-Library.AList"
begin

section \<open>Sessions of the server\<close>

text \<open>
  \<open>crates/sp42-server/src/session_runtime.rs\<close>, the session records of \<open>state.rs\<close>, the handlers of
  \<open>auth_routes.rs\<close>, the capability cache of \<open>main.rs\<close> and the records of the platform's \<open>dev_auth.rs\<close>. Each locked
  section is a step on the store with its clock reading as an argument; random identifiers are arguments. A
  header map is a function that gives the text of a header, nothing when it is missing or not text. The
  answers of the identity provider and of the capability probe are arguments of the handlers.
\<close>

subsection \<open>Capability reports and the action log\<close>

record capability_readiness =
  cr_can_authenticate :: bool
  cr_can_query_userinfo :: bool
  cr_can_read_recent_changes :: bool

record edit_capabilities =
  ec_can_edit :: bool
  ec_can_undo :: bool

record moderation_capabilities =
  mc_can_patrol :: bool
  mc_can_rollback :: bool

record derived_capabilities =
  dc_read :: capability_readiness
  dc_editing :: edit_capabilities
  dc_moderation :: moderation_capabilities

record probe_acceptance =
  pa_profile_accepted :: bool
  pa_userinfo_accepted :: bool

record token_availability =
  ta_csrf_token_available :: bool
  ta_patrol_token_available :: bool
  ta_rollback_token_available :: bool

record capability_report =
  cpr_checked :: bool
  cpr_wiki_id :: string
  cpr_username :: "string option"
  cpr_oauth_grants :: "string list"
  cpr_wiki_groups :: "string list"
  cpr_wiki_rights :: "string list"
  cpr_acceptance :: probe_acceptance
  cpr_token_availability :: token_availability
  cpr_capabilities :: derived_capabilities
  cpr_notes :: "string list"
  cpr_error :: "string option"

record action_log_entry =
  ale_executed_at_ms :: int
  ale_wiki_id :: string
  ale_kind :: session_action_kind
  ale_rev_id :: nat
  ale_title :: "string option"
  ale_target_user :: "string option"
  ale_summary :: "string option"
  ale_accepted :: bool
  ale_http_status :: "nat option"
  ale_api_code :: "string option"
  ale_retryable :: bool
  ale_warnings :: "string list"
  ale_result :: "string option"
  ale_response_preview :: "string option"
  ale_error :: "string option"

subsection \<open>The store\<close>

record cached_capability_report =
  ccr_fetched_at_ms :: int
  ccr_report :: capability_report

record stored_session =
  ses_username :: string
  ses_scopes :: "string list"
  ses_expires_at_ms :: "int option"
  ses_access_token :: string
  ses_refresh_token :: "string option"
  ses_upstream_access_expires_at_ms :: "int option"
  ses_bridge_mode :: string
  ses_csrf_token :: string
  ses_created_at_ms :: int
  ses_last_seen_at_ms :: int
  ses_capability_cache :: "(string \<times> cached_capability_report) list"
  ses_action_history :: "action_log_entry list"

record pending_login =
  pnd_wiki_id :: string
  pnd_state :: string
  pnd_verifier :: string
  pnd_redirect_uri :: string
  pnd_redirect_after_login :: string
  pnd_expires_at_ms :: int

record bridge_snapshot =
  cur_session_id :: string
  cur_username :: string
  cur_scopes :: "string list"
  cur_expires_at_ms :: "int option"
  cur_access_token :: string
  cur_bridge_mode :: string
  cur_csrf_token :: string

record session_store =
  sto_sessions :: "(string \<times> stored_session) list"
  sto_pending :: "(string \<times> pending_login) list"

type_synonym headers = "string \<Rightarrow> string option"
type_synonym http_failure = "nat \<times> json"

definition error_body :: "string \<Rightarrow> json" where
  "error_body message = JObject [(''error'', JString message)]"

definition gateway_error :: "string \<Rightarrow> http_failure" where "gateway_error message = (502, error_body message)"
definition invalid_payload :: "string \<Rightarrow> http_failure" where "invalid_payload message = (400, error_body message)"
definition forbidden_error :: "string \<Rightarrow> http_failure" where "forbidden_error message = (403, error_body message)"
definition unauthorized_error :: "string \<Rightarrow> http_failure" where "unauthorized_error message = (401, error_body message)"

subsection \<open>Expiry\<close>

definition session_cookie_name :: string where "session_cookie_name = ''sp42_dev_session''"
definition csrf_header_name :: string where "csrf_header_name = ''x-sp42-csrf-token''"
definition session_idle_timeout_ms :: int where "session_idle_timeout_ms = 30 * 60 * 1000"
definition session_absolute_timeout_ms :: int where "session_absolute_timeout_ms = 8 * 60 * 60 * 1000"
definition session_cookie_max_age_seconds :: int where "session_cookie_max_age_seconds = session_absolute_timeout_ms div 1000"
definition pending_oauth_ttl_ms :: int where "pending_oauth_ttl_ms = 10 * 60 * 1000"
definition capability_cache_ttl_ms :: int where "capability_cache_ttl_ms = 30000"
definition action_history_limit :: nat where "action_history_limit = 50"

definition session_expires_at_ms :: "stored_session \<Rightarrow> int \<Rightarrow> int" where
  "session_expires_at_ms s now =
     (let deadline = min (sat_i64 (ses_last_seen_at_ms s + session_idle_timeout_ms))
            (sat_i64 (ses_created_at_ms s + session_absolute_timeout_ms));
          capped = (case ses_upstream_access_expires_at_ms s of None \<Rightarrow> deadline | Some upstream \<Rightarrow> min deadline upstream)
      in max capped now)"

definition session_is_expired :: "stored_session \<Rightarrow> int \<Rightarrow> bool" where
  "session_is_expired s now \<longleftrightarrow> now \<ge> session_expires_at_ms s now"

definition prune_expired_sessions :: "int \<Rightarrow> (string \<times> stored_session) list \<Rightarrow> (string \<times> stored_session) list" where
  "prune_expired_sessions now sessions = filter (\<lambda>(k, s). \<not> session_is_expired s now) sessions"

definition prune_expired_pending_oauth_logins :: "int \<Rightarrow> (string \<times> pending_login) list \<Rightarrow> (string \<times> pending_login) list" where
  "prune_expired_pending_oauth_logins now pending = filter (\<lambda>(k, p). pnd_expires_at_ms p > now) pending"

definition cache_is_fresh :: "cached_capability_report \<Rightarrow> int \<Rightarrow> bool" where
  "cache_is_fresh cache now \<longleftrightarrow> sat_i64 (now - ccr_fetched_at_ms cache) < capability_cache_ttl_ms"

subsection \<open>Cookies\<close>

definition cookie_entry :: "string \<Rightarrow> string option" where
  "cookie_entry entry =
     (case str_split_once ''='' (str_trim entry) of
        None \<Rightarrow> None
      | Some (k, v) \<Rightarrow> if str_trim k = session_cookie_name \<and> str_trim v \<noteq> [] then Some (str_trim v) else None)"

definition session_cookie_value :: "headers \<Rightarrow> string option" where
  "session_cookie_value header =
     (case header ''cookie'' of None \<Rightarrow> None | Some v \<Rightarrow> find_map cookie_entry (str_split '';'' v))"

text \<open>\<open>HeaderValue::from_str\<close> refuses control characters, \<open>valid\<close>.\<close>

definition session_cookie_header_value ::
  "(string \<Rightarrow> bool) \<Rightarrow> deployment_mode \<Rightarrow> string \<Rightarrow> int \<Rightarrow> string option" where
  "session_cookie_header_value valid mode session_id max_age_seconds =
     (let same_site = session_cookie_same_site mode;
          secure = (if same_site = ''None'' \<or> uses_secure_cookies mode then ''; Secure'' else []);
          v = session_cookie_name @ ''='' @ session_id @ ''; HttpOnly; SameSite='' @ same_site @ ''; Path=/; Max-Age='' @
            show_int max_age_seconds @ secure
      in if valid v then Some v else None)"

definition session_cookie_header :: "(string \<Rightarrow> bool) \<Rightarrow> deployment_mode \<Rightarrow> string \<Rightarrow> string option" where
  "session_cookie_header valid mode session_id = session_cookie_header_value valid mode session_id session_cookie_max_age_seconds"

definition expired_session_cookie_header :: "(string \<Rightarrow> bool) \<Rightarrow> deployment_mode \<Rightarrow> string" where
  "expired_session_cookie_header valid mode =
     (case session_cookie_header_value valid mode ''deleted'' 0 of
        Some v \<Rightarrow> v | None \<Rightarrow> ''sp42_dev_session=deleted; HttpOnly; SameSite=Lax; Path=/; Max-Age=0'')"

subsection \<open>Steps on the store\<close>

definition snapshot_of :: "string \<Rightarrow> stored_session \<Rightarrow> bridge_snapshot" where
  "snapshot_of session_id s =
     \<lparr>cur_session_id = session_id, cur_username = ses_username s, cur_scopes = ses_scopes s,
      cur_expires_at_ms = ses_expires_at_ms s, cur_access_token = ses_access_token s,
      cur_bridge_mode = ses_bridge_mode s, cur_csrf_token = ses_csrf_token s\<rparr>"

definition touch_session :: "int \<Rightarrow> stored_session \<Rightarrow> stored_session" where
  "touch_session now s =
     (let seen = s\<lparr>ses_last_seen_at_ms := now\<rparr> in seen\<lparr>ses_expires_at_ms := Some (session_expires_at_ms seen now)\<rparr>)"

definition current_session_snapshot ::
  "headers \<Rightarrow> bool \<Rightarrow> int \<Rightarrow> session_store \<Rightarrow> bridge_snapshot option \<times> session_store" where
  "current_session_snapshot header touch now st =
     (case session_cookie_value header of
        None \<Rightarrow> (None, st)
      | Some session_id \<Rightarrow>
          (let live = prune_expired_sessions now (sto_sessions st)
           in case map_of live session_id of
                None \<Rightarrow> (None, st\<lparr>sto_sessions := live\<rparr>)
              | Some s \<Rightarrow>
                  (let s' = (if touch then touch_session now s else s)
                   in (Some (snapshot_of session_id s'), st\<lparr>sto_sessions := AList.update session_id s' live\<rparr>))))"

definition install_session :: "string option \<Rightarrow> stored_session \<Rightarrow> int \<Rightarrow> string \<Rightarrow> session_store \<Rightarrow> session_store" where
  "install_session prior stored now session_id st =
     (let live = prune_expired_sessions now (sto_sessions st);
          others = (case prior of None \<Rightarrow> live | Some p \<Rightarrow> AList.delete p live)
      in st\<lparr>sto_sessions := AList.update session_id stored others\<rparr>)"

definition remove_session :: "string \<Rightarrow> session_store \<Rightarrow> session_store" where
  "remove_session session_id st = st\<lparr>sto_sessions := AList.delete session_id (sto_sessions st)\<rparr>"

definition store_pending_oauth_login :: "pending_login \<Rightarrow> int \<Rightarrow> session_store \<Rightarrow> session_store" where
  "store_pending_oauth_login pending now st =
     st\<lparr>sto_pending := AList.update (pnd_state pending) pending (prune_expired_pending_oauth_logins now (sto_pending st))\<rparr>"

definition take_pending_oauth_login :: "string \<Rightarrow> int \<Rightarrow> session_store \<Rightarrow> pending_login option \<times> session_store" where
  "take_pending_oauth_login state_token now st =
     (let pending = prune_expired_pending_oauth_logins now (sto_pending st)
      in (map_of pending state_token, st\<lparr>sto_pending := AList.delete state_token pending\<rparr>))"

definition cached_capabilities_for_session ::
  "string \<Rightarrow> string \<Rightarrow> int \<Rightarrow> session_store \<Rightarrow> capability_report option \<times> session_store" where
  "cached_capabilities_for_session session_id wiki_id now st =
     (let live = prune_expired_sessions now (sto_sessions st)
      in case map_of live session_id of
           None \<Rightarrow> (None, st\<lparr>sto_sessions := live\<rparr>)
         | Some s \<Rightarrow>
             (case map_of (ses_capability_cache s) wiki_id of
                None \<Rightarrow> (None, st\<lparr>sto_sessions := live\<rparr>)
              | Some cache \<Rightarrow>
                  if cache_is_fresh cache now
                  then (Some (ccr_report cache), st\<lparr>sto_sessions := AList.update session_id (touch_session now s) live\<rparr>)
                  else (None, st\<lparr>sto_sessions :=
                    AList.update session_id (s\<lparr>ses_capability_cache := AList.delete wiki_id (ses_capability_cache s)\<rparr>) live\<rparr>)))"

definition store_capabilities_for_session :: "string \<Rightarrow> capability_report \<Rightarrow> int \<Rightarrow> session_store \<Rightarrow> session_store" where
  "store_capabilities_for_session session_id report now st =
     (let live = prune_expired_sessions now (sto_sessions st)
      in case map_of live session_id of
           None \<Rightarrow> st\<lparr>sto_sessions := live\<rparr>
         | Some s \<Rightarrow> st\<lparr>sto_sessions := AList.update session_id
             (s\<lparr>ses_capability_cache := AList.update (cpr_wiki_id report)
                \<lparr>ccr_fetched_at_ms = now, ccr_report = report\<rparr> (ses_capability_cache s)\<rparr>) live\<rparr>)"

definition push_history :: "action_log_entry \<Rightarrow> action_log_entry list \<Rightarrow> action_log_entry list" where
  "push_history entry history =
     (let pushed = history @ [entry]
      in if length pushed > action_history_limit then drop (length pushed - action_history_limit) pushed else pushed)"

definition record_action_execution :: "string \<Rightarrow> action_log_entry \<Rightarrow> int \<Rightarrow> session_store \<Rightarrow> session_store" where
  "record_action_execution session_id entry now st =
     (let live = prune_expired_sessions now (sto_sessions st)
      in case map_of live session_id of
           None \<Rightarrow> st\<lparr>sto_sessions := live\<rparr>
         | Some s \<Rightarrow> st\<lparr>sto_sessions := AList.update session_id
             (s\<lparr>ses_action_history := push_history entry (ses_action_history s)\<rparr>) live\<rparr>)"

subsection \<open>Who is signed in\<close>

record server_setup =
  sup_mode :: deployment_mode
  sup_access_token :: "string option"
  sup_oauth_client :: bool

definition shared_local_access_token :: "server_setup \<Rightarrow> string option" where
  "shared_local_access_token setup = (if permits_dev_token_bootstrap (sup_mode setup) then sup_access_token setup else None)"

definition validate_csrf_header :: "headers \<Rightarrow> bridge_snapshot \<Rightarrow> http_failure + unit" where
  "validate_csrf_header header session =
     (case header csrf_header_name of
        None \<Rightarrow> Inl (forbidden_error ''Missing CSRF token header.'')
      | Some v \<Rightarrow> if v = cur_csrf_token session then Inr () else Inl (forbidden_error ''Invalid CSRF token header.''))"

definition require_session_csrf :: "headers \<Rightarrow> int \<Rightarrow> session_store \<Rightarrow> (http_failure + unit) \<times> session_store" where
  "require_session_csrf header now st =
     (let (session, st') = current_session_snapshot header False now st
      in (case session of
            None \<Rightarrow> Inl (unauthorized_error ''No authenticated bridge session is active.'')
          | Some cur \<Rightarrow> validate_csrf_header header cur, st'))"

record oauth_session_view =
  osv_authenticated :: bool
  osv_username :: "string option"
  osv_scopes :: "string list"
  osv_expires_at_ms :: "int option"
  osv_upstream_access_expires_at_ms :: "int option"
  osv_refresh_available :: bool
  osv_bridge_mode :: string
  osv_csrf_token :: "string option"
  osv_local_token_available :: bool
  osv_oauth_client_ready :: bool
  osv_login_path :: string
  osv_logout_path :: string

definition auth_session_view_without_session :: "server_setup \<Rightarrow> oauth_session_view" where
  "auth_session_view_without_session setup =
     \<lparr>osv_authenticated = False, osv_username = None, osv_scopes = [], osv_expires_at_ms = None,
      osv_upstream_access_expires_at_ms = None, osv_refresh_available = False, osv_bridge_mode = ''inactive'',
      osv_csrf_token = None, osv_local_token_available = (shared_local_access_token setup \<noteq> None),
      osv_oauth_client_ready = sup_oauth_client setup, osv_login_path = ''/auth/login'', osv_logout_path = ''/auth/logout''\<rparr>"

definition sessions_upstream_access_expiry :: "headers \<Rightarrow> session_store \<Rightarrow> int option" where
  "sessions_upstream_access_expiry header st =
     Option.bind (Option.bind (session_cookie_value header) (map_of (sto_sessions st))) ses_upstream_access_expires_at_ms"

definition sessions_refresh_available :: "headers \<Rightarrow> session_store \<Rightarrow> bool" where
  "sessions_refresh_available header st =
     (case Option.bind (Option.bind (session_cookie_value header) (map_of (sto_sessions st))) ses_refresh_token of
        None \<Rightarrow> False | Some token \<Rightarrow> token \<noteq> [])"

text \<open>The two reads after the snapshot see the store as it left it, unless other requests come between.\<close>

definition auth_session_view :: "server_setup \<Rightarrow> headers \<Rightarrow> bool \<Rightarrow> int \<Rightarrow> session_store \<Rightarrow> oauth_session_view \<times> session_store" where
  "auth_session_view setup header touch now st =
     (case current_session_snapshot header touch now st of
        (None, st') \<Rightarrow> (auth_session_view_without_session setup, st')
      | (Some session, st') \<Rightarrow>
          (\<lparr>osv_authenticated = True, osv_username = Some (cur_username session), osv_scopes = cur_scopes session,
            osv_expires_at_ms = cur_expires_at_ms session,
            osv_upstream_access_expires_at_ms = sessions_upstream_access_expiry header st',
            osv_refresh_available = sessions_refresh_available header st', osv_bridge_mode = cur_bridge_mode session,
            osv_csrf_token = Some (cur_csrf_token session),
            osv_local_token_available = (shared_local_access_token setup \<noteq> None),
            osv_oauth_client_ready = sup_oauth_client setup, osv_login_path = ''/auth/login'',
            osv_logout_path = ''/auth/logout''\<rparr>, st'))"

record session_status =
  dss_authenticated :: bool
  dss_username :: "string option"
  dss_scopes :: "string list"
  dss_expires_at_ms :: "int option"
  dss_token_present :: bool
  dss_bridge_mode :: string
  dss_csrf_token :: "string option"
  dss_local_token_available :: bool

definition to_status :: "stored_session option \<Rightarrow> bool \<Rightarrow> int \<Rightarrow> session_status" where
  "to_status session local_token_available now =
     \<lparr>dss_authenticated = (session \<noteq> None), dss_username = map_option ses_username session,
      dss_scopes = (case session of None \<Rightarrow> [] | Some s \<Rightarrow> ses_scopes s),
      dss_expires_at_ms = map_option (\<lambda>s. session_expires_at_ms s now) session,
      dss_token_present = (case session of None \<Rightarrow> False | Some s \<Rightarrow> ses_access_token s \<noteq> []),
      dss_bridge_mode = (case session of None \<Rightarrow> ''inactive'' | Some s \<Rightarrow> ses_bridge_mode s),
      dss_csrf_token = map_option ses_csrf_token session, dss_local_token_available = local_token_available\<rparr>"

definition current_status :: "server_setup \<Rightarrow> headers \<Rightarrow> bool \<Rightarrow> int \<Rightarrow> session_store \<Rightarrow> session_status \<times> session_store" where
  "current_status setup header touch now st =
     (case current_session_snapshot header touch now st of
        (None, st') \<Rightarrow> (to_status None (shared_local_access_token setup \<noteq> None) now, st')
      | (Some session, st') \<Rightarrow>
          (\<lparr>dss_authenticated = True, dss_username = Some (cur_username session), dss_scopes = cur_scopes session,
            dss_expires_at_ms = cur_expires_at_ms session, dss_token_present = True,
            dss_bridge_mode = cur_bridge_mode session, dss_csrf_token = Some (cur_csrf_token session),
            dss_local_token_available = (shared_local_access_token setup \<noteq> None)\<rparr>, st'))"

subsection \<open>Signing in and out\<close>

definition effective_session_scopes :: "capability_report \<Rightarrow> string list" where
  "effective_session_scopes report =
     (let caps = cpr_capabilities report
      in (if cr_can_authenticate (dc_read caps) then [''basic''] else []) @
         (if ec_can_edit (dc_editing caps) then [''editpage''] else []) @
         (if mc_can_patrol (dc_moderation caps) then [''patrol''] else []) @
         (if mc_can_rollback (dc_moderation caps) then [''rollback''] else []))"

definition post_auth_logout :: "headers \<Rightarrow> int \<Rightarrow> session_store \<Rightarrow> (http_failure + unit) \<times> session_store" where
  "post_auth_logout header now st =
     (case session_cookie_value header of
        None \<Rightarrow> (Inr (), st)
      | Some session_id \<Rightarrow>
          (case require_session_csrf header now st of
             (Inl e, st') \<Rightarrow> (Inl e, st')
           | (Inr _, st') \<Rightarrow> (Inr (), remove_session session_id st')))"

record token_response =
  otr_access_token :: string
  otr_token_type :: string
  otr_expires_in :: "nat option"
  otr_refresh_token :: "string option"
  otr_scope :: "string option"

record oauth_profile =
  opr_username :: string
  opr_grants :: "string list"

text \<open>An expiry in seconds that does not fit \<open>i64\<close> is dropped.\<close>

definition upstream_expiry :: "int \<Rightarrow> nat option \<Rightarrow> int option" where
  "upstream_expiry now expires_in =
     (case expires_in of
        None \<Rightarrow> None
      | Some seconds \<Rightarrow> if int seconds \<le> i64_max then Some (sat_i64 (now + sat_i64 (int seconds * 1000))) else None)"

definition granted_scopes :: "capability_report \<Rightarrow> oauth_profile \<Rightarrow> token_response \<Rightarrow> string list" where
  "granted_scopes report profile token =
     (if cpr_checked report \<and> cpr_error report = None then effective_session_scopes report
      else if opr_grants profile \<noteq> [] then opr_grants profile
      else case otr_scope token of None \<Rightarrow> [] | Some scope \<Rightarrow> str_split_whitespace scope)"

definition oauth_session ::
  "string \<Rightarrow> token_response \<Rightarrow> oauth_profile \<Rightarrow> capability_report \<Rightarrow> string \<Rightarrow> int \<Rightarrow> stored_session" where
  "oauth_session wiki_id token profile report csrf now =
     \<lparr>ses_username = opr_username profile, ses_scopes = granted_scopes report profile token,
      ses_expires_at_ms = Some (now + session_idle_timeout_ms), ses_access_token = otr_access_token token,
      ses_refresh_token = otr_refresh_token token,
      ses_upstream_access_expires_at_ms = upstream_expiry now (otr_expires_in token),
      ses_bridge_mode = ''wikimedia-oauth'', ses_csrf_token = csrf, ses_created_at_ms = now, ses_last_seen_at_ms = now,
      ses_capability_cache = [(wiki_id, \<lparr>ccr_fetched_at_ms = now, ccr_report = report\<rparr>)], ses_action_history = []\<rparr>"

definition bootstrap_session :: "string \<Rightarrow> string \<Rightarrow> capability_report \<Rightarrow> string \<Rightarrow> string \<Rightarrow> int \<Rightarrow> stored_session" where
  "bootstrap_session username access_token report wiki_id csrf now =
     \<lparr>ses_username = username, ses_scopes = effective_session_scopes report,
      ses_expires_at_ms = Some (now + session_idle_timeout_ms), ses_access_token = access_token,
      ses_refresh_token = None, ses_upstream_access_expires_at_ms = None,
      ses_bridge_mode = ''local-env-token'', ses_csrf_token = csrf, ses_created_at_ms = now, ses_last_seen_at_ms = now,
      ses_capability_cache = [(wiki_id, \<lparr>ccr_fetched_at_ms = now, ccr_report = report\<rparr>)], ses_action_history = []\<rparr>"

text \<open>The login of \<open>get_auth_login\<close> once its URL is built, and what its callback leads to.\<close>

definition pending_for :: "oauth_env \<Rightarrow> string \<Rightarrow> string option \<Rightarrow> string list \<Rightarrow> string \<Rightarrow> oauth_launch_context \<Rightarrow> int \<Rightarrow> pending_login" where
  "pending_for env wiki_id target_after allowed_origins redirect_uri launch now =
     \<lparr>pnd_wiki_id = wiki_id, pnd_state = ol_state launch, pnd_verifier = ol_verifier launch, pnd_redirect_uri = redirect_uri,
      pnd_redirect_after_login = sanitize_redirect_target env target_after allowed_origins,
      pnd_expires_at_ms = sat_i64 (now + pending_oauth_ttl_ms)\<rparr>"

datatype callback_outcome =
    LoginRedirect string
  | LoginCompleted string string

definition oauth_error_redirect :: "oauth_env \<Rightarrow> pending_login option \<Rightarrow> string \<Rightarrow> callback_outcome" where
  "oauth_error_redirect env pending message =
     LoginRedirect (redirect_with_status env (case pending of None \<Rightarrow> ''/'' | Some p \<Rightarrow> pnd_redirect_after_login p) ''auth_error'' message)"

definition complete_auth_callback ::
  "oauth_env \<Rightarrow> headers \<Rightarrow> pending_login \<Rightarrow> http_failure + token_response \<times> oauth_profile \<times> capability_report \<Rightarrow>
   string \<Rightarrow> string \<Rightarrow> int \<Rightarrow> session_store \<Rightarrow> (http_failure + callback_outcome) \<times> session_store" where
  "complete_auth_callback env header pending exchanged csrf session_id now st =
     (case exchanged of
        Inl e \<Rightarrow> (Inl e, st)
      | Inr (token, profile, report) \<Rightarrow>
          (Inr (LoginCompleted session_id (redirect_with_status env (pnd_redirect_after_login pending) ''auth'' ''oauth-ok'')),
           install_session (session_cookie_value header) (oauth_session (pnd_wiki_id pending) token profile report csrf now)
             now session_id st))"

text \<open>
  The callback takes the pending login at one time and, after the exchange with the provider, installs the
  session at a later one.
\<close>

fun callback_state :: "oauth_callback \<Rightarrow> string option" where
  "callback_state (AuthorizationCode code state) = Some state"
| "callback_state (AuthorizationError error description state) = state"

definition get_auth_callback ::
  "oauth_env \<Rightarrow> (oauth_error \<Rightarrow> string) \<Rightarrow> headers \<Rightarrow> string \<Rightarrow>
   (pending_login \<Rightarrow> string \<Rightarrow> http_failure + token_response \<times> oauth_profile \<times> capability_report) \<Rightarrow>
   string \<Rightarrow> string \<Rightarrow> int \<Rightarrow> int \<Rightarrow> session_store \<Rightarrow> (http_failure + callback_outcome) \<times> session_store" where
  "get_auth_callback env show_error header query exchange csrf session_id taken_at now st =
     (case parse_callback_query env query of
        Inl e \<Rightarrow> (Inl (invalid_payload (show_error e)), st)
      | Inr callback \<Rightarrow>
          (let (pending, st') = (case callback_state callback of
                 Some state_token \<Rightarrow> take_pending_oauth_login state_token taken_at st | None \<Rightarrow> (None, st))
           in case callback of
                AuthorizationError error description _ \<Rightarrow>
                  (Inr (oauth_error_redirect env pending (case description of Some d \<Rightarrow> d | None \<Rightarrow> error)), st')
              | AuthorizationCode code state \<Rightarrow>
                  (case pending of
                     None \<Rightarrow> (Inl (invalid_payload ''oauth callback state was not recognized''), st')
                   | Some p \<Rightarrow>
                       if pnd_state p \<noteq> state then (Inl (invalid_payload ''oauth callback state mismatch''), st')
                       else complete_auth_callback env header p (exchange p code) csrf session_id now st')))"

subsection \<open>Runs\<close>

text \<open>The locked sections in the order in which they run, each with its reading of the clock.\<close>

datatype session_op =
    OpSnapshot headers bool
  | OpInstall "string option" stored_session string
  | OpRemove string
  | OpStorePending pending_login
  | OpTakePending string
  | OpCached string string
  | OpCache string capability_report
  | OpRecord string action_log_entry

fun session_store_step :: "int \<times> session_op \<Rightarrow> session_store \<Rightarrow> session_store" where
  "session_store_step (now, OpSnapshot header touch) st = snd (current_session_snapshot header touch now st)"
| "session_store_step (now, OpInstall prior stored session_id) st = install_session prior stored now session_id st"
| "session_store_step (now, OpRemove session_id) st = remove_session session_id st"
| "session_store_step (now, OpStorePending pending) st = store_pending_oauth_login pending now st"
| "session_store_step (now, OpTakePending token) st = snd (take_pending_oauth_login token now st)"
| "session_store_step (now, OpCached session_id wiki_id) st = snd (cached_capabilities_for_session session_id wiki_id now st)"
| "session_store_step (now, OpCache session_id report) st = store_capabilities_for_session session_id report now st"
| "session_store_step (now, OpRecord session_id entry) st = record_action_execution session_id entry now st"

definition no_sessions :: session_store where
  "no_sessions = \<lparr>sto_sessions = [], sto_pending = []\<rparr>"

text \<open>A session is installed fresh, and a pending login is stored for ten minutes, as the handlers do.\<close>

fun op_ok :: "int \<times> session_op \<Rightarrow> bool" where
  "op_ok (now, OpInstall prior stored session_id) \<longleftrightarrow>
     ses_created_at_ms stored = now \<and> ses_last_seen_at_ms stored = now \<and> ses_action_history stored = []"
| "op_ok (now, OpStorePending pending) \<longleftrightarrow> pnd_expires_at_ms pending = sat_i64 (now + pending_oauth_ttl_ms)"
| "op_ok _ \<longleftrightarrow> True"

text \<open>Which operations end a session, and which may renew it.\<close>

fun ends_session :: "string \<Rightarrow> session_op \<Rightarrow> bool" where
  "ends_session sid (OpInstall prior stored session_id) \<longleftrightarrow> prior = Some sid \<or> session_id = sid"
| "ends_session sid (OpRemove session_id) \<longleftrightarrow> session_id = sid"
| "ends_session sid _ \<longleftrightarrow> False"

fun touches :: "string \<Rightarrow> session_op \<Rightarrow> bool" where
  "touches sid (OpSnapshot header touch) \<longleftrightarrow> touch \<and> session_cookie_value header = Some sid"
| "touches sid _ \<longleftrightarrow> False"

fun may_renew :: "string \<Rightarrow> session_op \<Rightarrow> bool" where
  "may_renew sid (OpCached session_id wiki_id) \<longleftrightarrow> session_id = sid"
| "may_renew sid op \<longleftrightarrow> touches sid op"

definition store_ok :: "session_store \<Rightarrow> bool" where
  "store_ok st \<longleftrightarrow> distinct (map fst (sto_sessions st)) \<and> distinct (map fst (sto_pending st)) \<and>
     (\<forall>(k, p) \<in> set (sto_pending st). pnd_state p = k) \<and>
     (\<forall>(k, s) \<in> set (sto_sessions st). length (ses_action_history s) \<le> action_history_limit)"

lemma map_of_prune:
  "distinct (map fst al) \<Longrightarrow>
   map_of (prune_expired_sessions now al) k = (case map_of al k of None \<Rightarrow> None | Some s \<Rightarrow> if session_is_expired s now then None else Some s)"
  unfolding prune_expired_sessions_def by (induction al) (auto split: option.splits simp: map_of_eq_None_iff dest: map_of_SomeD intro: rev_image_eqI)

lemma map_of_prune_pending:
  "distinct (map fst al) \<Longrightarrow>
   map_of (prune_expired_pending_oauth_logins now al) k =
     (case map_of al k of None \<Rightarrow> None | Some p \<Rightarrow> if pnd_expires_at_ms p > now then Some p else None)"
  unfolding prune_expired_pending_oauth_logins_def by (induction al) (auto split: option.splits simp: map_of_eq_None_iff dest: map_of_SomeD intro: rev_image_eqI)

lemma pruned_ok:
  "distinct (map fst al) \<Longrightarrow> distinct (map fst (prune_expired_sessions now al))"
  "distinct (map fst pl) \<Longrightarrow> distinct (map fst (prune_expired_pending_oauth_logins now pl))"
  "set (prune_expired_sessions now al) \<subseteq> set al"
  "set (prune_expired_pending_oauth_logins now pl) \<subseteq> set pl"
  by (auto simp: prune_expired_sessions_def prune_expired_pending_oauth_logins_def distinct_map_filter)

lemma update_set: "set (AList.update k v al) \<subseteq> insert (k, v) (set al)"
  by (induction al) auto

lemma delete_set: "set (AList.delete k al) \<subseteq> set al"
  by (auto simp: AList.delete_eq)

lemma push_history_le: "length (push_history entry history) \<le> action_history_limit" if "length history \<le> action_history_limit"
  using that by (simp add: push_history_def action_history_limit_def Let_def)

lemma pruned_sessions_ok:
  "store_ok st \<Longrightarrow> store_ok (st\<lparr>sto_sessions := prune_expired_sessions now (sto_sessions st)\<rparr>)"
  using pruned_ok(1,3) by (fastforce simp: store_ok_def)

lemma updated_session_ok:
  assumes "store_ok st" "length (ses_action_history s) \<le> action_history_limit"
  shows "store_ok (st\<lparr>sto_sessions := AList.update sid s (sto_sessions st)\<rparr>)"
proof -
  have "\<forall>(k, v) \<in> set (AList.update sid s (sto_sessions st)). length (ses_action_history v) \<le> action_history_limit"
    using assms update_set [of sid s "sto_sessions st"] by (fastforce simp: store_ok_def)
  then show ?thesis using assms(1) by (simp add: store_ok_def distinct_update)
qed

lemma deleted_session_ok: "store_ok st \<Longrightarrow> store_ok (st\<lparr>sto_sessions := AList.delete sid (sto_sessions st)\<rparr>)"
  using delete_set [of sid "sto_sessions st"] by (fastforce simp: store_ok_def intro: distinct_delete)

lemma live_history:
  "store_ok st \<Longrightarrow> map_of (sto_sessions st) sid = Some s \<Longrightarrow> length (ses_action_history s) \<le> action_history_limit"
  by (auto simp: store_ok_def dest!: map_of_SomeD)

lemmas store_ok_rules = pruned_sessions_ok updated_session_ok deleted_session_ok live_history

lemma store_ok_step: "store_ok st \<Longrightarrow> op_ok e \<Longrightarrow> store_ok (session_store_step e st)"
proof (induction e st rule: session_store_step.induct)
  case (1 now header touch st)
  note live = pruned_sessions_ok [OF 1(1), of now]
  show ?case
    using 1(1) live updated_session_ok [OF live] live_history [OF live]
    by (auto simp: current_session_snapshot_def touch_session_def Let_def split: option.splits)
next
  case (2 now prior stored session_id st)
  note live = pruned_sessions_ok [OF 2(1), of now]
  show ?case
    using live 2(2) updated_session_ok [OF live, of stored] updated_session_ok [OF deleted_session_ok [OF live], of stored]
    by (auto simp: install_session_def Let_def split: option.splits)
next
  case (3 now session_id st)
  then show ?case by (simp add: remove_session_def deleted_session_ok)
next
  case (4 now pending st)
  have "\<forall>(k, p) \<in> set (AList.update (pnd_state pending) pending (prune_expired_pending_oauth_logins now (sto_pending st))). pnd_state p = k"
    using 4(1) update_set [of "pnd_state pending" pending "prune_expired_pending_oauth_logins now (sto_pending st)"] pruned_ok(4) [of now "sto_pending st"]
    by (fastforce simp: store_ok_def)
  then show ?case using 4(1) pruned_ok(2) by (simp add: store_pending_oauth_login_def store_ok_def distinct_update)
next
  case (5 now token st)
  have "\<forall>(k, p) \<in> set (AList.delete token (prune_expired_pending_oauth_logins now (sto_pending st))). pnd_state p = k"
    using 5(1) delete_set [of token "prune_expired_pending_oauth_logins now (sto_pending st)"] pruned_ok(4) [of now "sto_pending st"]
    by (fastforce simp: store_ok_def)
  then show ?case using 5(1) pruned_ok(2)
    by (simp add: take_pending_oauth_login_def Let_def store_ok_def distinct_delete)
next
  case (6 now session_id wiki_id st)
  note live = pruned_sessions_ok [OF 6(1), of now]
  show ?case
    using live updated_session_ok [OF live] live_history [OF live]
    by (auto simp: cached_capabilities_for_session_def touch_session_def Let_def split: option.splits)
next
  case (7 now session_id report st)
  note live = pruned_sessions_ok [OF 7(1), of now]
  show ?case
    using live updated_session_ok [OF live] live_history [OF live]
    by (auto simp: store_capabilities_for_session_def Let_def split: option.splits)
next
  case (8 now session_id entry st)
  note live = pruned_sessions_ok [OF 8(1), of now]
  show ?case
    using live updated_session_ok [OF live] live_history [OF live] push_history_le
    by (auto simp: record_action_execution_def Let_def split: option.splits)
qed

interpretation sessions: step_invariant session_store_step op_ok store_ok
  by unfold_locales (rule store_ok_step)

lemma no_sessions_ok [simp]: "store_ok no_sessions"
  by (simp add: store_ok_def no_sessions_def)

text \<open>What a session is, apart from when it was last used.\<close>

definition session_identity :: "stored_session \<Rightarrow> string \<times> string list \<times> string \<times> int option \<times> string \<times> string \<times> int" where
  "session_identity s = (ses_username s, ses_scopes s, ses_access_token s, ses_upstream_access_expires_at_ms s,
     ses_bridge_mode s, ses_csrf_token s, ses_created_at_ms s)"

lemma step_session:
  assumes "store_ok st" "map_of (sto_sessions (session_store_step (now, op) st)) sid = Some s'"
  shows "(\<exists>prior stored. op = OpInstall prior stored sid \<and> s' = stored) \<or>
    (\<exists>s. map_of (sto_sessions st) sid = Some s \<and> \<not> ends_session sid op \<and> session_identity s' = session_identity s \<and>
       (ses_last_seen_at_ms s' = ses_last_seen_at_ms s \<or> may_renew sid op \<and> ses_last_seen_at_ms s' = now))"
proof -
  have d: "distinct (map fst (sto_sessions st))" using assms(1) by (simp add: store_ok_def)
  note defs = map_of_prune [OF d] update_conv' delete_conv' touch_session_def session_identity_def Let_def
  show ?thesis
    using assms(2)
    by (cases op) (auto simp: defs current_session_snapshot_def install_session_def remove_session_def
        store_pending_oauth_login_def take_pending_oauth_login_def cached_capabilities_for_session_def
        store_capabilities_for_session_def record_action_execution_def split: option.splits if_splits)
qed

abbreviation session_run :: "(int \<times> session_op) list \<Rightarrow> session_store" where
  "session_run es \<equiv> fold session_store_step es no_sessions"

lemma run_session:
  assumes "list_all op_ok es" "map_of (sto_sessions (session_run es)) sid = Some s"
  shows "\<exists>pre t0 prior stored post. es = pre @ (t0, OpInstall prior stored sid) # post \<and>
    session_identity s = session_identity stored \<and> ses_created_at_ms stored = t0 \<and>
    (\<forall>e \<in> set post. \<not> ends_session sid (snd e)) \<and>
    (ses_last_seen_at_ms s = t0 \<or> (\<exists>op. (ses_last_seen_at_ms s, op) \<in> set post \<and> may_renew sid op))"
  using assms
proof (induction es arbitrary: s rule: rev_induct)
  case Nil
  then show ?case by (simp add: no_sessions_def)
next
  case (snoc e es)
  obtain now op where e: "e = (now, op)" by (cases e)
  have ok: "list_all op_ok es" "op_ok (now, op)" using snoc.prems(1) by (simp_all add: e)
  have "store_ok (session_run es)" by (rule sessions.run_inv) (simp_all add: ok)
  from step_session [OF this, of now op sid s] snoc.prems(2) consider
      prior where "op = OpInstall prior s sid"
    | s0 where "map_of (sto_sessions (session_run es)) sid = Some s0" "\<not> ends_session sid op"
        "session_identity s = session_identity s0"
        "ses_last_seen_at_ms s = ses_last_seen_at_ms s0 \<or> may_renew sid op \<and> ses_last_seen_at_ms s = now"
    by (auto simp: e)
  then show ?case
  proof cases
    case 1
    then show ?thesis using ok(2) by (intro exI [of _ es] exI [of _ now] exI [of _ prior] exI [of _ s] exI [of _ "[]"]) (simp add: e)
  next
    case 2
    obtain pre t0 prior stored post where h: "es = pre @ (t0, OpInstall prior stored sid) # post"
      "session_identity s0 = session_identity stored" "ses_created_at_ms stored = t0" "\<forall>e \<in> set post. \<not> ends_session sid (snd e)"
      "ses_last_seen_at_ms s0 = t0 \<or> (\<exists>op. (ses_last_seen_at_ms s0, op) \<in> set post \<and> may_renew sid op)"
      using snoc.IH [OF ok(1) 2(1)] by blast
    then have "es @ [e] = pre @ (t0, OpInstall prior stored sid) # (post @ [e])" by simp
    moreover have "\<forall>e' \<in> set (post @ [e]). \<not> ends_session sid (snd e')" using h(4) 2(2) by (simp add: e)
    moreover have "ses_last_seen_at_ms s = t0 \<or> (\<exists>op. (ses_last_seen_at_ms s, op) \<in> set (post @ [e]) \<and> may_renew sid op)"
      using h(5) 2(4) by (auto simp: e)
    ultimately show ?thesis using h(2,3) 2(3) by metis
  qed
qed

lemma snapshot_Some:
  assumes "store_ok st" "fst (current_session_snapshot header touch now st) = Some cur"
  shows "\<exists>sid s. session_cookie_value header = Some sid \<and> map_of (sto_sessions st) sid = Some s \<and>
    \<not> session_is_expired s now \<and> cur_session_id cur = sid \<and> cur_username cur = ses_username s \<and> cur_scopes cur = ses_scopes s \<and>
    cur_access_token cur = ses_access_token s \<and> cur_csrf_token cur = ses_csrf_token s"
  using assms by (auto simp: current_session_snapshot_def map_of_prune store_ok_def snapshot_of_def touch_session_def Let_def
      split: option.splits if_splits)

lemma not_expired_iff:
  "\<not> session_is_expired s now \<longleftrightarrow>
     now < sat_i64 (ses_last_seen_at_ms s + session_idle_timeout_ms) \<and>
     now < sat_i64 (ses_created_at_ms s + session_absolute_timeout_ms) \<and>
     (\<forall>u. ses_upstream_access_expires_at_ms s = Some u \<longrightarrow> now < u)"
  by (auto simp: session_is_expired_def session_expires_at_ms_def Let_def split: option.splits)

text \<open>
  C33. A session is what was signed in, and not for long: whatever runs between, a request is attributed to a
  user only when its cookie names a session that was installed for that user and has not been signed out or
  replaced since, at most eight hours ago, before the user's access token expires, and with a renewing request
  of that session within the last half hour.
\<close>

theorem session_lifetime:
  assumes "list_all op_ok es"
    and "fst (current_session_snapshot header touch now (session_run es)) = Some cur"
  shows "\<exists>pre t0 prior stored post. es = pre @ (t0, OpInstall prior stored (cur_session_id cur)) # post \<and>
    session_cookie_value header = Some (cur_session_id cur) \<and>
    (\<forall>e \<in> set post. \<not> ends_session (cur_session_id cur) (snd e)) \<and>
    cur_username cur = ses_username stored \<and> cur_scopes cur = ses_scopes stored \<and>
    cur_access_token cur = ses_access_token stored \<and> cur_csrf_token cur = ses_csrf_token stored \<and>
    now < sat_i64 (t0 + session_absolute_timeout_ms) \<and>
    (\<forall>u. ses_upstream_access_expires_at_ms stored = Some u \<longrightarrow> now < u) \<and>
    (\<exists>t. now < sat_i64 (t + session_idle_timeout_ms) \<and>
       (t = t0 \<or> (\<exists>op. (t, op) \<in> set post \<and> may_renew (cur_session_id cur) op)))"
proof -
  have ok: "store_ok (session_run es)" by (rule sessions.run_inv) (simp_all add: assms(1))
  obtain sid s where s: "session_cookie_value header = Some sid" "map_of (sto_sessions (session_run es)) sid = Some s"
      "\<not> session_is_expired s now" "cur_session_id cur = sid" "cur_username cur = ses_username s" "cur_scopes cur = ses_scopes s"
      "cur_access_token cur = ses_access_token s" "cur_csrf_token cur = ses_csrf_token s"
    using snapshot_Some [OF ok assms(2)] by blast
  obtain pre t0 prior stored post where h: "es = pre @ (t0, OpInstall prior stored sid) # post"
      "session_identity s = session_identity stored" "ses_created_at_ms stored = t0" "\<forall>e \<in> set post. \<not> ends_session sid (snd e)"
      "ses_last_seen_at_ms s = t0 \<or> (\<exists>op. (ses_last_seen_at_ms s, op) \<in> set post \<and> may_renew sid op)"
    using run_session [OF assms(1) s(2)] by blast
  have "ses_created_at_ms s = t0" using h(2,3) by (simp add: session_identity_def)
  with h s show ?thesis
    by (intro exI [of _ pre] exI [of _ t0] exI [of _ prior] exI [of _ stored] exI [of _ post])
      (auto simp: session_identity_def not_expired_iff)
qed

text \<open>
  Requests that keep a session in use: from one renewing request to the next operation on the store, and from
  the last to now, less than half an hour passes.
\<close>

fun attended :: "string \<Rightarrow> int \<Rightarrow> (int \<times> session_op) list \<Rightarrow> int \<Rightarrow> bool" where
  "attended sid last_use [] now \<longleftrightarrow> last_use \<le> now \<and> now < last_use + session_idle_timeout_ms"
| "attended sid last_use ((t, op) # post) now \<longleftrightarrow>
     last_use \<le> t \<and> t < last_use + session_idle_timeout_ms \<and> \<not> ends_session sid op \<and>
     attended sid (if touches sid op then t else last_use) post now"

lemma step_survives:
  assumes "store_ok st" "map_of (sto_sessions st) sid = Some s" "\<not> ends_session sid op" "\<not> session_is_expired s now"
  shows "\<exists>s'. map_of (sto_sessions (session_store_step (now, op) st)) sid = Some s' \<and> (touches sid op \<longrightarrow> ses_last_seen_at_ms s' = now)"
proof -
  have d: "distinct (map fst (sto_sessions st))" using assms(1) by (simp add: store_ok_def)
  note defs = map_of_prune [OF d] update_conv' delete_conv' touch_session_def Let_def
  show ?thesis
    using assms(2-4)
    by (cases op) (auto simp: defs current_session_snapshot_def install_session_def remove_session_def
        store_pending_oauth_login_def take_pending_oauth_login_def cached_capabilities_for_session_def
        store_capabilities_for_session_def record_action_execution_def split: option.splits)
qed

lemma attended_last: "attended sid l post now \<Longrightarrow> l \<le> now"
  by (induction sid l post now rule: attended.induct) (auto split: if_splits)

lemma in_use:
  assumes "ses_last_seen_at_ms s \<ge> l" "0 \<le> l" "now < l + session_idle_timeout_ms" "ses_last_seen_at_ms s \<le> until"
    "ses_created_at_ms s = born" "0 \<le> born" "now \<le> until" "until < born + session_absolute_timeout_ms"
    "until + session_absolute_timeout_ms \<le> i64_max"
    "\<And>u. ses_upstream_access_expires_at_ms s = Some u \<Longrightarrow> until < u" "born \<le> until"
  shows "\<not> session_is_expired s now"
proof -
  have "sat_i64 (ses_last_seen_at_ms s + session_idle_timeout_ms) = ses_last_seen_at_ms s + session_idle_timeout_ms"
    "sat_i64 (born + session_absolute_timeout_ms) = born + session_absolute_timeout_ms"
    using assms by (auto intro!: sat_i64_id simp: in_i64_def session_idle_timeout_ms_def session_absolute_timeout_ms_def)
  then show ?thesis unfolding not_expired_iff using assms(1-9,11) by (auto dest!: assms(10))
qed

lemma attended_survives:
  assumes "store_ok st" "list_all op_ok post" "map_of (sto_sessions st) sid = Some s" "attended sid l post until"
    "l \<le> ses_last_seen_at_ms s" "ses_last_seen_at_ms s \<le> until" "ses_created_at_ms s = born" "0 \<le> born" "born \<le> l"
    "\<forall>e \<in> set post. fst e \<le> until" "until < born + session_absolute_timeout_ms" "until + session_absolute_timeout_ms \<le> i64_max"
    "\<And>u. ses_upstream_access_expires_at_ms s = Some u \<Longrightarrow> until < u"
  shows "\<exists>s'. map_of (sto_sessions (fold session_store_step post st)) sid = Some s' \<and> session_identity s' = session_identity s \<and>
    \<not> session_is_expired s' until"
  using assms
proof (induction post arbitrary: st s l)
  case Nil
  then have "\<not> session_is_expired s until" by (intro in_use [of l s until until born]) auto
  then show ?case using Nil by simp
next
  case (Cons e post)
  obtain now op where e: "e = (now, op)" by (cases e)
  have h: "l \<le> now" "now < l + session_idle_timeout_ms" "\<not> ends_session sid op" "now \<le> until"
    "attended sid (if touches sid op then now else l) post until"
    using Cons.prems(4,10) by (simp_all add: e)
  have live: "\<not> session_is_expired s now"
    by (rule in_use [of l s now until born]) (use Cons.prems h in auto)
  obtain s' where s': "map_of (sto_sessions (session_store_step e st)) sid = Some s'" "touches sid op \<longrightarrow> ses_last_seen_at_ms s' = now"
    using step_survives [OF Cons.prems(1,3) h(3) live] by (auto simp: e)
  have ok: "store_ok (session_store_step e st)"
    using store_ok_step [OF Cons.prems(1)] Cons.prems(2) by simp
  have "\<not> (\<exists>prior. op = OpInstall prior s' sid)" using h(3) by auto
  then have same: "session_identity s' = session_identity s"
      "ses_last_seen_at_ms s' = ses_last_seen_at_ms s \<or> ses_last_seen_at_ms s' = now"
    using step_session [OF Cons.prems(1) s'(1) [unfolded e]] Cons.prems(3) h(3) by auto
  have seen: "ses_last_seen_at_ms s' \<le> until" "(if touches sid op then now else l) \<le> ses_last_seen_at_ms s'" "born \<le> (if touches sid op then now else l)"
    using same(2) s'(2) h(1,4) Cons.prems(5,6,9) by auto
  have "\<exists>s''. map_of (sto_sessions (fold session_store_step post (session_store_step e st))) sid = Some s'' \<and>
      session_identity s'' = session_identity s' \<and> \<not> session_is_expired s'' until"
    by (rule Cons.IH [OF ok _ s'(1) h(5) seen(2,1) _ Cons.prems(8) seen(3) _ Cons.prems(11,12)])
      (use Cons.prems same(1) in \<open>auto simp: session_identity_def\<close>)
  then show ?case using same(1) by simp
qed

text \<open>
  C34. An active user stays signed in: as long as a renewing request of the session comes at least every half
  hour, and until eight hours after the installation and the expiry of the access token, a request with the
  session's cookie is attributed to the user, whatever else the server does, unless the session is signed out.
\<close>

theorem active_session_survives:
  assumes "list_all op_ok (pre @ (t0, OpInstall prior stored sid) # post)"
    and "session_cookie_value header = Some sid" and "attended sid t0 post now"
    and "\<forall>e \<in> set post. fst e \<le> now" and "0 \<le> t0" and "now < t0 + session_absolute_timeout_ms"
    and "now + session_absolute_timeout_ms \<le> i64_max"
    and "\<forall>u. ses_upstream_access_expires_at_ms stored = Some u \<longrightarrow> now < u"
  shows "\<exists>cur. fst (current_session_snapshot header touch now (session_run (pre @ (t0, OpInstall prior stored sid) # post))) = Some cur \<and>
    cur_username cur = ses_username stored \<and> cur_access_token cur = ses_access_token stored"
proof -
  let ?st = "session_store_step (t0, OpInstall prior stored sid) (session_run pre)"
  have st: "store_ok ?st" using assms(1) by (intro store_ok_step sessions.run_inv) simp_all
  have here: "map_of (sto_sessions ?st) sid = Some stored"
    by (simp add: install_session_def Let_def update_conv')
  have t0: "t0 \<le> now" using attended_last [OF assms(3)] by simp
  obtain s where s: "map_of (sto_sessions (fold session_store_step post ?st)) sid = Some s" "session_identity s = session_identity stored"
      "\<not> session_is_expired s now"
    using attended_survives [OF st _ here assms(3), where born = t0] assms t0 by auto
  have "store_ok (fold session_store_step post ?st)" using assms(1) by (intro sessions.run_inv [OF st]) simp
  then have "map_of (prune_expired_sessions now (sto_sessions (fold session_store_step post ?st))) sid = Some s"
    using s(1,3) by (simp add: map_of_prune store_ok_def)
  then show ?thesis using assms(2) s(2)
    by (auto simp: current_session_snapshot_def snapshot_of_def touch_session_def session_identity_def Let_def)
qed

lemma step_pending:
  assumes "store_ok st" "map_of (sto_pending (session_store_step (now, op) st)) token = Some p"
  shows "op = OpStorePending p \<and> pnd_state p = token \<or> map_of (sto_pending st) token = Some p \<and> op \<noteq> OpTakePending token"
proof -
  have d: "distinct (map fst (sto_pending st))" using assms(1) by (simp add: store_ok_def)
  note defs = map_of_prune_pending [OF d] update_conv' delete_conv' Let_def
  show ?thesis
    using assms(2)
    by (cases op) (auto simp: defs current_session_snapshot_def install_session_def remove_session_def
        store_pending_oauth_login_def take_pending_oauth_login_def cached_capabilities_for_session_def
        store_capabilities_for_session_def record_action_execution_def split: option.splits if_splits)
qed

lemma run_pending:
  assumes "list_all op_ok es" "map_of (sto_pending (session_run es)) token = Some p"
  shows "\<exists>pre t0 post. es = pre @ (t0, OpStorePending p) # post \<and> pnd_state p = token \<and>
    (\<forall>e \<in> set post. snd e \<noteq> OpTakePending token)"
  using assms
proof (induction es rule: rev_induct)
  case Nil
  then show ?case by (simp add: no_sessions_def)
next
  case (snoc e es)
  obtain now op where e: "e = (now, op)" by (cases e)
  have ok: "list_all op_ok es" using snoc.prems(1) by simp
  have "store_ok (session_run es)" by (rule sessions.run_inv) (simp_all add: ok)
  from step_pending [OF this, of now op token p] snoc.prems(2) consider
      "op = OpStorePending p" "pnd_state p = token"
    | "map_of (sto_pending (session_run es)) token = Some p" "op \<noteq> OpTakePending token"
    by (auto simp: e)
  then show ?case
  proof cases
    case 1
    then show ?thesis by (intro exI [of _ es] exI [of _ now] exI [of _ "[]"]) (simp add: e)
  next
    case 2
    obtain pre t0 post where h: "es = pre @ (t0, OpStorePending p) # post" "pnd_state p = token"
        "\<forall>e \<in> set post. snd e \<noteq> OpTakePending token"
      using snoc.IH [OF ok 2(1)] by blast
    then show ?thesis using 2(2) by (intro exI [of _ pre] exI [of _ t0] exI [of _ "post @ [e]"]) (simp add: e)
  qed
qed

lemma pending_gone: "map_of (prune_expired_pending_oauth_logins now (AList.delete token pending)) token = None"
  by (auto simp: prune_expired_pending_oauth_logins_def map_of_eq_None_iff AList.delete_eq)

text \<open>
  C35. A sign-in is completed only for a state this server handed out in the last ten minutes, that no callback has
  used since, with the code verifier stored with it; and the same callback never completes a second time.
\<close>

theorem login_state_single_use:
  assumes "list_all op_ok es"
    and "get_auth_callback env show_error header query exchange csrf sid taken_at now (session_run es) =
      (Inr (LoginCompleted sid' target), st)"
  shows "(\<exists>code p pre t0 post. parse_callback_query env query = Inr (AuthorizationCode code (pnd_state p)) \<and>
      es = pre @ (t0, OpStorePending p) # post \<and> (\<forall>e \<in> set post. snd e \<noteq> OpTakePending (pnd_state p)) \<and>
      taken_at < sat_i64 (t0 + pending_oauth_ttl_ms) \<and> (\<exists>granted. exchange p code = Inr granted) \<and>
      target = redirect_with_status env (pnd_redirect_after_login p) ''auth'' ''oauth-ok'') \<and>
    fst (get_auth_callback env show_error header2 query exchange2 csrf2 sid2 taken2 now2 st) =
      Inl (invalid_payload ''oauth callback state was not recognized'')"
proof -
  have ok: "store_ok (session_run es)" by (rule sessions.run_inv) (simp_all add: assms(1))
  then have d: "distinct (map fst (sto_pending (session_run es)))" by (simp add: store_ok_def)
  obtain code state where callback: "parse_callback_query env query = Inr (AuthorizationCode code state)"
    using assms(2) by (auto simp: get_auth_callback_def oauth_error_redirect_def Let_def split: sum.splits oauth_callback.splits prod.splits)
  obtain p where p: "map_of (prune_expired_pending_oauth_logins taken_at (sto_pending (session_run es))) state = Some p"
      "pnd_state p = state"
    and completed: "complete_auth_callback env header p (exchange p code) csrf sid now (snd (take_pending_oauth_login state taken_at (session_run es))) =
      (Inr (LoginCompleted sid' target), st)"
    using assms(2) by (auto simp: get_auth_callback_def callback take_pending_oauth_login_def Let_def split: option.splits if_splits)
  have here: "map_of (sto_pending (session_run es)) state = Some p" "taken_at < pnd_expires_at_ms p"
    using p(1) by (auto simp: map_of_prune_pending [OF d] split: option.splits if_splits)
  obtain granted where granted: "exchange p code = Inr granted"
      "target = redirect_with_status env (pnd_redirect_after_login p) ''auth'' ''oauth-ok''"
      "sto_pending st = AList.delete state (prune_expired_pending_oauth_logins taken_at (sto_pending (session_run es)))"
    using completed by (auto simp: complete_auth_callback_def install_session_def take_pending_oauth_login_def Let_def split: sum.splits prod.splits)
  have "map_of (prune_expired_pending_oauth_logins taken2 (sto_pending st)) state = None"
    unfolding granted(3) by (rule pending_gone)
  then have "fst (get_auth_callback env show_error header2 query exchange2 csrf2 sid2 taken2 now2 st) =
      Inl (invalid_payload ''oauth callback state was not recognized'')"
    by (simp add: get_auth_callback_def callback take_pending_oauth_login_def Let_def)
  moreover obtain pre t0 post where h: "es = pre @ (t0, OpStorePending p) # post" "\<forall>e \<in> set post. snd e \<noteq> OpTakePending state"
    using run_pending [OF assms(1) here(1)] by blast
  moreover have "taken_at < sat_i64 (t0 + pending_oauth_ttl_ms)" using assms(1) h(1) here(2) by simp
  ultimately show ?thesis using callback p(2) granted(1,2) by blast
qed

subsection \<open>Examples\<close>

definition example_report :: capability_report where
  "example_report =
     \<lparr>cpr_checked = True, cpr_wiki_id = ''frwiki'', cpr_username = Some ''Ana'', cpr_oauth_grants = [], cpr_wiki_groups = [],
      cpr_wiki_rights = [], cpr_acceptance = \<lparr>pa_profile_accepted = True, pa_userinfo_accepted = True\<rparr>,
      cpr_token_availability = \<lparr>ta_csrf_token_available = True, ta_patrol_token_available = True, ta_rollback_token_available = False\<rparr>,
      cpr_capabilities = \<lparr>dc_read = \<lparr>cr_can_authenticate = True, cr_can_query_userinfo = True, cr_can_read_recent_changes = True\<rparr>,
        dc_editing = \<lparr>ec_can_edit = True, ec_can_undo = True\<rparr>, dc_moderation = \<lparr>mc_can_patrol = True, mc_can_rollback = False\<rparr>\<rparr>,
      cpr_notes = [], cpr_error = None\<rparr>"

definition example_granted :: "token_response \<times> oauth_profile \<times> capability_report" where
  "example_granted =
     (\<lparr>otr_access_token = ''bearer'', otr_token_type = ''Bearer'', otr_expires_in = Some 14400, otr_refresh_token = None, otr_scope = None\<rparr>,
      \<lparr>opr_username = ''Ana'', opr_grants = []\<rparr>, example_report)"

definition example_session :: "int \<Rightarrow> stored_session" where
  "example_session now = (case example_granted of (token, profile, report) \<Rightarrow> oauth_session ''frwiki'' token profile report ''c5rf'' now)"

definition example_header :: headers where
  "example_header name = (if name = ''cookie'' then Some ''a=b; sp42_dev_session=s1'' else if name = csrf_header_name then Some ''c5rf'' else None)"

lemma example_cookie: "session_cookie_value example_header = Some ''s1''"
  by code_simp

theorem session_lifetime_witness:
  "\<exists>cur t. fst (current_session_snapshot example_header True 1000 (session_run [(0, OpInstall None (example_session 0) ''s1'')])) = Some cur \<and>
     cur_username cur = ''Ana'' \<and> 1000 < sat_i64 (t + session_idle_timeout_ms)"
proof -
  let ?es = "[(0, OpInstall None (example_session 0) ''s1'')]"
  have ok: "list_all op_ok ?es" by (simp add: example_session_def example_granted_def oauth_session_def)
  have "map_option cur_username (fst (current_session_snapshot example_header True 1000 (session_run ?es))) = Some ''Ana''"
    by code_simp
  then obtain cur where cur: "fst (current_session_snapshot example_header True 1000 (session_run ?es)) = Some cur" "cur_username cur = ''Ana''"
    by auto
  then show ?thesis using session_lifetime [OF ok cur(1)] by blast
qed

theorem active_session_survives_witness:
  "\<exists>cur. fst (current_session_snapshot example_header False 2400000
     (session_run [(0, OpInstall None (example_session 0) ''s1''), (1200000, OpSnapshot example_header True)])) = Some cur \<and>
     cur_username cur = ''Ana''"
proof -
  have ok: "list_all op_ok ([] @ (0, OpInstall None (example_session 0) ''s1'') # [(1200000, OpSnapshot example_header True)])"
    by (simp add: example_session_def example_granted_def oauth_session_def)
  have "attended ''s1'' 0 [(1200000, OpSnapshot example_header True)] 2400000"
    by (simp add: example_cookie session_idle_timeout_ms_def)
  moreover have "ses_upstream_access_expires_at_ms (example_session 0) = Some 14400000" "ses_username (example_session 0) = ''Ana''"
    by code_simp+
  ultimately show ?thesis
    using active_session_survives [OF ok example_cookie, of 2400000 False]
    by (auto simp: session_absolute_timeout_ms_def)
qed

definition example_oauth :: oauth_env where
  "example_oauth =
     \<lparr>oe_url = (\<lambda>_. None), oe_sha256 = (\<lambda>s. s), oe_base64 = (\<lambda>s. s), oe_form = (\<lambda>_. []),
      oe_parse_form = (\<lambda>_. [(''code'', ''c''), (''state'', ''st'')]), oe_serialize = (\<lambda>s. s)\<rparr>"

definition example_pending :: pending_login where
  "example_pending =
     \<lparr>pnd_wiki_id = ''frwiki'', pnd_state = ''st'', pnd_verifier = ''v'', pnd_redirect_uri = ''u'', pnd_redirect_after_login = ''/app'',
      pnd_expires_at_ms = pending_oauth_ttl_ms\<rparr>"

theorem login_state_single_use_witness:
  "\<exists>st. get_auth_callback example_oauth (\<lambda>_. []) (\<lambda>_. None) ''code=c&state=st'' (\<lambda>_ _. Inr example_granted) ''c5rf'' ''s1'' 10 20
      (session_run [(0, OpStorePending example_pending)]) = (Inr (LoginCompleted ''s1'' ''/app?auth=oauth-ok''), st) \<and>
    fst (get_auth_callback example_oauth (\<lambda>_. []) (\<lambda>_. None) ''code=c&state=st'' (\<lambda>_ _. Inr example_granted) ''c5rf'' ''s2'' 30 40 st) =
      Inl (invalid_payload ''oauth callback state was not recognized'')"
proof -
  let ?es = "[(0, OpStorePending example_pending)]"
  have ok: "list_all op_ok ?es" by (simp add: example_pending_def pending_oauth_ttl_ms_def sat_i64_def)
  have "fst (get_auth_callback example_oauth (\<lambda>_. []) (\<lambda>_. None) ''code=c&state=st'' (\<lambda>_ _. Inr example_granted) ''c5rf'' ''s1'' 10 20
      (session_run ?es)) = Inr (LoginCompleted ''s1'' ''/app?auth=oauth-ok'')"
    by code_simp
  then obtain st where st: "get_auth_callback example_oauth (\<lambda>_. []) (\<lambda>_. None) ''code=c&state=st'' (\<lambda>_ _. Inr example_granted) ''c5rf'' ''s1'' 10 20
      (session_run ?es) = (Inr (LoginCompleted ''s1'' ''/app?auth=oauth-ok''), st)"
    by (metis prod.collapse)
  then show ?thesis using login_state_single_use [OF ok st] by blast
qed

end
