(* ===== verification/Spec2Isabelle.thy ===== *)
theory Spec2Isabelle
  imports
    Coordination_Client
    Intake_Engine
    Scoring_Policy
    Queue_Builder
    Review_Routes
    Voting
    Backlog_Runtime
    User_Analyzer
    Book_Identifiers
    Citation_Verify
    Diff_Correct
    Diff_Signals
    Wikibase_Diff
    Server_Sessions
begin

text \<open>
  \<^bold>\<open>SP42\<close> is a toolkit for patrolling and reviewing MediaWiki edits: edits enter from an event stream or
  from the recent-changes API, are scored under a compiled policy, ranked into a queue, routed by an
  intake pipeline, shown as diffs, discussed between patrollers in coordination rooms, reviewed in
  sessions that a human and an agent share, and checked against their cited sources. This development
  models the program's own logic as HOL functions over explicit states and proves what makes each part
  correct. All paths below are under \<open>src/crates/\<close>.

  \<^bold>\<open>Conventions\<close> (theory Prelude). \<open>i32\<close> and \<open>i64\<close> are integers with saturation written out, unsigned
  counters naturals saturating at the bound of their width; a Rust text is the HOL string of its UTF-8
  bytes, so search, slicing and ASCII case mapping work on bytes as in Rust, and trimming knows the
  multi-byte white space. \<open>Inl\<close> is \<open>Err\<close>, \<open>Inr\<close> is \<open>Ok\<close>; an additional outer \<open>option\<close> is \<open>None\<close> where
  the code panics or does not return. \<open>BTreeMap\<close> is a key-ordered association list (BTree\_Map, with the
  map laws as simp rules), a hash map a list with distinct keys whose order is not observed or is a
  parameter. Code outside the repository (JSON and MessagePack decoding, SHA-256, the \<open>similar\<close> diff,
  HTTP, Unicode tables) is an argument of the definitions that use it; what is assumed of it is a named
  predicate in the statements, and a witness discharges it for a concrete function.

  \<^bold>\<open>Theories and sources.\<close>
  \<^item> Prelude, Text\_Tools, BTree\_Map: integers, text, maps; the locales for runs of steps.
  \<^item> Coordination\_State, Coordination\_Registry: \<open>sp42-coordination\<close> \<open>messages.rs\<close>, \<open>state.rs\<close> and
    \<open>sp42-server\<close> \<open>coordination.rs\<close>. A room is a record of tables; the registry's operations are steps on
    its locked state with the clock reading as an argument. Claims: arbitration, well-formedness and
    attribution in every reachable state, expiry of presence, client counts, eviction of idle rooms.
  \<^item> Coordination\_Client: \<open>client.rs\<close>, \<open>runtime.rs\<close>, \<open>codec.rs\<close> of \<open>sp42-coordination\<close>. A runtime folds what
    it sends and receives into a room of its own; the locale \<open>fifo_socket\<close> states what it relies on of a
    socket. Claims: a runtime is its history, sender, server and receivers agree, two writers may not.
  \<^item> Intake\_Types, Intake\_Engine: \<open>sp42-types\<close> \<open>intake.rs\<close> and \<open>sp42-platform\<close> \<open>intake_engine.rs\<close>.
    Claims: compiled pipelines evaluate, missing information fails closed, the digest and the capability
    check have holes.
  \<^item> Platform\_Types, Scoring\_Engine, Scoring\_Policy, Priority\_Queue, Queue\_Builder: the scoring half of
    \<open>sp42-platform\<close>. Claims: totals are explained by their contributions, caps hold, when scoring fails,
    compiled policies never fail, the queue is a stable sort, duplicate clusters are counted.
  \<^item> Review\_Session, Review\_Routes: \<open>review_session.rs\<close> and the server's \<open>review_routes.rs\<close>. Claims:
    prompts are delivered once, an operator's end is final, findings belong to their revision, every
    handler refines one operation of the session machine.
  \<^item> Voting: citation verdicts and the votes of a panel.
  \<^item> Regex\_Match: the regular expressions of the sources as terms, with the leftmost-first search of the
    \<open>regex\<close> crate (\<open>ends\<close>) and its agreement with the relation \<open>matches\<close>.
  \<^item> Model\_Parsing, Locate\_Quote, Source\_Fetch, Body\_Classifier, Citation\_Urls, Citation\_Prompts,
    Citation\_Verify: \<open>sp42-citation\<close>, in the order \<open>parsing.rs\<close>, \<open>locate_quote.rs\<close>, \<open>source_fetch.rs\<close>,
    \<open>body_classifier.rs\<close>, \<open>urls.rs\<close>, \<open>citoid.rs\<close> with \<open>prompts.rs\<close>, and the whole run of \<open>verify.rs\<close>: fetch,
    usability gate, panel, repair turn, vote, grounding. Claims: a finding that may be acted on quotes the
    fetched source, the repair turn changes no verdict, the panel is preserved, what a located quote and a
    fuzzy match mean, the table computes a longest common subsequence, URLs stay on the wiki.
  \<^item> Book\_Identifiers: \<open>BookIdentifier\<close> of \<open>wikitext_editor.rs\<close>. Claims: checksums catch typing errors, normal
    forms are canonical.
  \<^item> Ports, Civil\_Dates, Edit\_Ingestion, Stream\_Runtime, Backlog\_Runtime: \<open>sp42-types\<close> \<open>traits.rs\<close> and
    \<open>timestamp.rs\<close>, and \<open>sp42-live\<close>. The locale \<open>checkpoint_storage\<close> states what a runtime relies on of a
    storage; the in-memory and the file storage interpret it. Claims: the calendar is a bijection, the two
    ingestion paths agree, restarts resume, a draining call returns in order, an error in a drain loses
    edits.
  \<^item> User\_Analyzer: \<open>user_analyzer.rs\<close> with its bounded cache, a refinement of a list ordered by use.
  \<^item> Diff\_Types, Diff\_Inline, Diff\_Engine: \<open>diff_engine.rs\<close>; Diff\_Correct, Diff\_Highlights and Diff\_Signals
    prove its properties. Claims: a line diff returns and says both texts, hunks show every change, move
    annotations pair up, what inline highlights write, and what the scoring hints see.
  \<^item> Json\_Value, Wikibase\_Entity, Wikibase\_Diff: JSON values as \<open>serde_json\<close> has them, and the platform's
    \<open>wikibase.rs\<close>: reading entities, diffing two revisions, routing by content model, the report. Claims:
    a diff without changes means that nothing reviewed changed; the report shows every change.
  \<^item> Action\_Requests: \<open>action_contracts.rs\<close> and \<open>action_executor.rs\<close>; an execution threads the list of the
    requests sent, on which an answer may depend. Claim: a literal replacement never guesses.
  \<^item> OAuth\_Flow: the platform's \<open>oauth.rs\<close> and \<open>origin.rs\<close>, the server's \<open>oauth_runtime.rs\<close> and the mode of
    \<open>deployment.rs\<close>. Claims: a launch can be completed, redirects are confined.
  \<^item> Server\_Sessions: \<open>session_runtime.rs\<close>, the handlers of \<open>auth_routes.rs\<close>, \<open>state.rs\<close> and the capability cache
    of \<open>main.rs\<close>. The locked sections are steps on the store of sessions and pending logins, an instance of
    \<open>step_invariant\<close>. Claims: how long a session lasts, that an active one survives, that a sign-in state is
    used once.

  \<^bold>\<open>Composition.\<close> The root theory joins the policy compiler, the scoring engine and the queue builder:
  a document that compiles ranks every batch.

  \<^bold>\<open>Loops.\<close> Structural recursion or a measure wherever the code's loop has one. Two loops are partial
  functions with \<open>None\<close> for not returning, the eviction loop of the user cache and the event loop of the
  stream runtime, and for both it is proved that they return. No fuel is used.

  \<^bold>\<open>Not modelled:\<close> serde derivations, YAML and HTML parsing, axum plumbing and the provider's side of OAuth, user interfaces,
  command line tools, HTTP and model adapters, the pages and stores of citation verification;
  \<open>PROJECT.json\<close> lists every component with the reason.
\<close>

subsection \<open>From a policy document to a ranked queue\<close>

lemma score_edit_default: "score_edit ev cfg = score_edit_with_context ev cfg default_context"
  by (simp add: score_edit_def)

lemma compiled_policy_ranks:
  assumes "compile_scoring_policy checks d = Some (Inr p)"
  shows "\<exists>s. score_with_policy ev (pc_scoring_config p) ctx = Some (Inr s) \<and> 0 \<le> cs_total s \<and> cs_total s \<le> 100"
  using compiled_config_scores [OF assms] by (simp add: score_with_policy_def score_edit_default)

text \<open>Whatever scores every event in a range gives a queue of all events in descending order.\<close>

lemma ranked_total:
  assumes "\<And>ev. \<exists>s. score ev = Some (Inr s) \<and> lo \<le> cs_total s \<and> cs_total s \<le> hi" and "length evs \<le> u64_max"
  shows "\<exists>ranked. drain_ranked (push_scored score (\<lambda>ev. ev) evs pq_new) = Some (Inr ranked) \<and>
    mset (map qe_event ranked) = mset evs \<and>
    list_all (\<lambda>v. lo \<le> cs_total (qe_score v) \<and> cs_total (qe_score v) \<le> hi) ranked \<and>
    sorted_wrt (\<lambda>v v'. cs_total (qe_score v') \<le> cs_total (qe_score v)) ranked"
proof -
  let ?key = "\<lambda>v. - cs_total (qe_score v)"
  obtain f where f: "\<And>ev. score ev = Some (Inr (f ev)) \<and> lo \<le> cs_total (f ev) \<and> cs_total (f ev) \<le> hi"
    using assms(1) by metis
  let ?vs = "map (\<lambda>ev. \<lparr>qe_event = ev, qe_score = f ev\<rparr>) evs"
  have "list_all2 (scored_as score (\<lambda>ev. ev)) evs ?vs"
    using f by (simp add: list_all2_conv_all_nth scored_as_def)
  then have "drain_ranked (push_scored score (\<lambda>ev. ev) evs pq_new) = Some (Inr (sort_key ?key ?vs))"
    unfolding ranked_iff [OF assms(2)] by blast
  moreover have "map qe_event ?vs = evs"
    by (simp add: comp_def)
  then have "mset (map qe_event (sort_key ?key ?vs)) = mset evs"
    by (metis mset_map mset_sort)
  moreover have "list_all (\<lambda>v. lo \<le> cs_total (qe_score v) \<and> cs_total (qe_score v) \<le> hi) (sort_key ?key ?vs)"
    using f by (simp add: list_all_iff)
  moreover have "sorted_wrt (\<lambda>v v'. ?key v \<le> ?key v') (sort_key ?key ?vs)"
    using sorted_sort_key [of ?key ?vs] by (simp only: sorted_map)
  then have "sorted_wrt (\<lambda>v v'. cs_total (qe_score v') \<le> cs_total (qe_score v)) (sort_key ?key ?vs)"
    by (rule sorted_wrt_mono_rel [rotated]) simp
  ultimately show ?thesis by blast
qed

text \<open>
  C7. Every batch is ranked under a compiled policy: from a policy document that compiles, in a build
  with or without overflow checks, the queue
  builder returns a queue with exactly the events of the batch, each with a score between 0 and 100,
  in descending order of score; nothing in the policy can make it fail.
\<close>

theorem compiled_policy_ranks_every_batch:
  assumes "compile_scoring_policy checks d = Some (Inr p)" and "length evs \<le> u64_max"
  shows "\<exists>ranked. build_ranked_queue_with_policy evs (pc_scoring_config p) (pc_queue_policy p) = Some (Inr ranked) \<and>
    mset (map qe_event ranked) = mset evs \<and>
    list_all (\<lambda>v. 0 \<le> cs_total (qe_score v) \<and> cs_total (qe_score v) \<le> 100) ranked \<and>
    sorted_wrt (\<lambda>v v'. cs_total (qe_score v') \<le> cs_total (qe_score v)) ranked"
proof -
  define score where "score = (\<lambda>ev. score_with_policy ev (pc_scoring_config p) (policy_context (pc_queue_policy p)
    (normalized_trusted_usernames (pc_queue_policy p)) (duplicate_cluster_sizes evs) ev))"
  have "\<exists>s. score ev = Some (Inr s) \<and> 0 \<le> cs_total s \<and> cs_total s \<le> 100" for ev
    unfolding score_def by (rule compiled_policy_ranks [OF assms(1)])
  from ranked_total [OF this assms(2)] show ?thesis
    unfolding build_ranked_queue_with_policy_def Let_def score_def .
qed

theorem compiled_policy_ranks_every_batch_witness:
  "\<exists>p ranked. compile_scoring_policy False (sample_policy 10 ''poop'') = Some (Inr p) \<and>
     build_ranked_queue_with_policy [sample_event, sample_event] (pc_scoring_config p) (pc_queue_policy p) =
       Some (Inr ranked) \<and> length ranked = 2"
proof -
  obtain p where p: "compile_scoring_policy False (sample_policy 10 ''poop'') = Some (Inr p)"
    using sample_policy_compiles by blast
  have "length [sample_event, sample_event] \<le> u64_max" by simp
  from compiled_policy_ranks_every_batch [OF p this] obtain ranked
    where ranked: "build_ranked_queue_with_policy [sample_event, sample_event] (pc_scoring_config p) (pc_queue_policy p) =
        Some (Inr ranked)" and "mset (map qe_event ranked) = mset [sample_event, sample_event]"
    by blast
  then have "length ranked = 2"
    using mset_eq_length by fastforce
  with p ranked show ?thesis by blast
qed

end
